(* ===== verification/Prelude.thy ===== *)
theory Prelude
  imports Main "HOL-Library.Word" "HOL-Library.Monad_Syntax"
begin

section \<open>Shared types, automation and lemmas\<close>

text \<open>
  The types every component uses, and the generic lemmas on bytes, C strings and the
  option monad. A C object of \<open>n\<close> bytes is an \<open>n * 8\<close> bit word; text is a list of
  characters, each of which is one byte. A computation that can leave the memory it owns,
  or meet another undefined behaviour of C, returns an option: \<open>None\<close> says that the
  behaviour is undefined, \<open>Some\<close> carries the result of the defined execution. Error
  codes the program itself returns are ordinary values under the \<open>Some\<close>.
\<close>

type_synonym byte = "8 word"
type_synonym u16 = "16 word"
type_synonym u32 = "32 word"
type_synonym u64 = "64 word"

named_theorems fmt_simps \<open>text formatting and parsing of numbers\<close>
named_theorems buf_simps \<open>buffers and their contents\<close>
named_theorems link_simps \<open>reading from and writing to a connection\<close>

subsection \<open>The option monad\<close>

definition require :: "bool \<Rightarrow> unit option" where
  "require b = (if b then Some () else None)"

lemma require_simps [simp]:
  "require True = Some ()"
  "require False = None"
  "require b = Some x \<longleftrightarrow> b"
  "require b = None \<longleftrightarrow> \<not> b"
  by (simp_all add: require_def)

lemma require_bind [simp]:
  "(require b \<bind> f) = Some r \<longleftrightarrow> b \<and> f () = Some r"
  by (cases b) simp_all

lemma require_bind_True: "b \<Longrightarrow> (require b \<bind> f) = f ()"
  by simp

lemma bind_Some_iff [simp]:
  "(m \<bind> f) = Some r \<longleftrightarrow> (\<exists>x. m = Some x \<and> f x = Some (r :: 'a))"
  for m :: "'b option"
  by (cases m) simp_all

text \<open>\<open>Exit\<close> is the value of a computation that has ended the process: \<open>exit (1)\<close>, directly
  or in the \<open>FATAL\<close> macro.\<close>

datatype 'a run = Done 'a | Exit

definition run_bind :: "'a run option \<Rightarrow> ('a \<Rightarrow> 'b run option) \<Rightarrow> 'b run option" where
  "run_bind m f =
     (case m of None \<Rightarrow> None | Some Exit \<Rightarrow> Some Exit | Some (Done x) \<Rightarrow> f x)"

lemma run_bind_simps [simp]:
  "run_bind None f = None"
  "run_bind (Some Exit) f = Some Exit"
  "run_bind (Some (Done x)) f = f x"
  by (simp_all add: run_bind_def)

lemma run_bind_cong: "(\<And>x. m = Some (Done x) \<Longrightarrow> f x = g x) \<Longrightarrow> run_bind m f = run_bind m g"
  by (auto simp: run_bind_def split: option.splits run.splits)

lemma run_bind_assoc: "run_bind (run_bind m f) g = run_bind m (\<lambda>x. run_bind (f x) g)"
  by (auto simp: run_bind_def split: option.splits run.splits)

subsection \<open>Bytes and characters\<close>

definition chr_of :: "byte \<Rightarrow> char" where
  "chr_of b = char_of (unat b)"

definition byte_of :: "char \<Rightarrow> byte" where
  "byte_of c = of_nat (of_char c)"

lemma byte_of_chr_of [simp]: "byte_of (chr_of b) = b"
proof -
  have "unat b < 256" using unsigned_less [of b, where ?'a = nat] by simp
  then show ?thesis by (simp add: byte_of_def chr_of_def)
qed

lemma chr_of_byte_of [simp]: "chr_of (byte_of c) = c"
proof -
  have "of_char c < (256 :: nat)" by simp
  then show ?thesis by (simp add: byte_of_def chr_of_def unat_of_nat)
qed

lemma inj_chr_of: "inj chr_of"
  by (rule inj_on_inverseI [where g = byte_of]) simp

definition text_of :: "byte list \<Rightarrow> string" where
  "text_of bs = map chr_of bs"

definition bytes_of :: "string \<Rightarrow> byte list" where
  "bytes_of s = map byte_of s"

lemma bytes_of_text_of [simp]: "bytes_of (text_of bs) = bs"
  by (simp add: bytes_of_def text_of_def comp_def)

lemma text_of_bytes_of [simp]: "text_of (bytes_of s) = s"
  by (simp add: bytes_of_def text_of_def comp_def)

lemma length_text_of [simp]: "length (text_of bs) = length bs"
  by (simp add: text_of_def)

subsection \<open>C strings\<close>

text \<open>\<open>cstr s\<close> is what the string functions of C see of the characters \<open>s\<close>: everything
  before the first NUL (\<open>s\<close> stands for the array, followed by a NUL).\<close>

definition cstr :: "string \<Rightarrow> string" where
  "cstr s = takeWhile (\<lambda>c. of_char c \<noteq> (0 :: nat)) s"

definition no_nul :: "string \<Rightarrow> bool" where
  "no_nul s \<longleftrightarrow> list_all (\<lambda>c. of_char c \<noteq> (0 :: nat)) s"

lemma no_nul_simps [simp]:
  "no_nul []"
  "no_nul (c # s) \<longleftrightarrow> of_char c \<noteq> (0 :: nat) \<and> no_nul s"
  "no_nul (s @ t) \<longleftrightarrow> no_nul s \<and> no_nul t"
  by (simp_all add: no_nul_def)

lemma no_nul_replicate: "of_char c \<noteq> (0 :: nat) \<Longrightarrow> no_nul (replicate n c)"
  by (simp add: no_nul_def list_all_iff)

lemma cstr_id [simp]: "no_nul s \<Longrightarrow> cstr s = s"
  by (simp add: cstr_def no_nul_def takeWhile_eq_all_conv list_all_iff)

lemma cstr_no_nul [simp]: "no_nul (cstr s)"
  by (auto simp: no_nul_def cstr_def list_all_iff dest: set_takeWhileD)

text \<open>\<open>strncmp (buf, w, strlen (w)) == 0\<close>\<close>

definition starts :: "string \<Rightarrow> string \<Rightarrow> bool" where
  "starts w s \<longleftrightarrow> take (length w) s = w"

text \<open>\<open>strstr (s, w) != 0\<close>\<close>

fun strstr :: "string \<Rightarrow> string \<Rightarrow> bool" where
  "strstr [] w = (w = [])"
| "strstr (c # s) w = (starts w (c # s) \<or> strstr s w)"

text \<open>Decimal digits as characters.\<close>

definition digit_chr :: "nat \<Rightarrow> char" where
  "digit_chr d = char_of (d + 48)"

definition is_digit :: "char \<Rightarrow> bool" where
  "is_digit c \<longleftrightarrow> 48 \<le> (of_char c :: nat) \<and> of_char c \<le> (57 :: nat)"

definition digit_val :: "char \<Rightarrow> nat" where
  "digit_val c = of_char c - 48"

lemma of_char_digit_chr: "d < 10 \<Longrightarrow> of_char (digit_chr d) = d + 48"
  by (simp add: digit_chr_def)

lemma is_digit_digit_chr [simp]: "d < 10 \<Longrightarrow> is_digit (digit_chr d)"
  by (simp add: is_digit_def of_char_digit_chr)

lemma digit_val_digit_chr [simp]: "d < 10 \<Longrightarrow> digit_val (digit_chr d) = d"
  by (simp add: digit_val_def of_char_digit_chr)

lemma digit_chr_no_nul [simp]: "d < 10 \<Longrightarrow> of_char (digit_chr d) \<noteq> (0 :: nat)"
  by (simp add: of_char_digit_chr)

subsection \<open>Fixed-size words\<close>

lemma unat_byte_less [simp]: "unat (b :: byte) < 256"
  using unsigned_less [of b, where ?'a = nat] by simp

lemma unat_of_nat_u32 [simp]: "n < 4294967296 \<Longrightarrow> unat (of_nat n :: u32) = n"
  by (simp add: unat_of_nat)

lemma unat_u32_less [simp]: "unat (w :: u32) < 4294967296"
  using unsigned_less [of w, where ?'a = nat] by simp

lemma of_nat_u32_eq_0_iff: "n < 4294967296 \<Longrightarrow> (of_nat n :: u32) = 0 \<longleftrightarrow> n = 0"
  using unat_of_nat_u32 [of n] unsigned_0 [where ?'b = 32, where ?'a = nat] by fastforce


lemma unat_add_u32: "unat a + unat b < 4294967296 \<Longrightarrow> unat (a + b :: u32) = unat a + unat b"
  by (simp add: unat_word_ariths)

lemma unat_add_of_nat_u32:
  "unat a + n < 4294967296 \<Longrightarrow> unat (a + of_nat n :: u32) = unat a + n"
  by (simp add: unat_add_u32)

lemma unat_sub_of_nat_u32:
  assumes "n \<le> unat a"
  shows "unat (a - of_nat n :: u32) = unat a - n"
proof -
  have "n < 4294967296" using assms unat_u32_less [of a] by (rule le_less_trans)
  then have "unat (of_nat n :: u32) = n" by simp
  with assms show ?thesis by (metis unat_sub word_le_nat_alt)
qed

end
