(* ===== verification/Utility.thy ===== *)
theory Utility
  imports Prelude
begin

section \<open>Number conversions (utility.c) and byte order (swap.c)\<close>

text \<open>
  The conversions between numbers and text that every message printer and every encoder
  uses, and the byte swap between host and wire order. A \<open>uint64_t\<close> argument is a
  natural number and an \<open>int64_t\<close> argument an integer, both in the range of the C type.
  The out-parameter \<open>cnt\<close> of the parsers is the second component of the result: the
  number of characters consumed, or \<open>-1\<close>. The main results are the round trips through
  each pair of conversions and the bounds that keep the printers inside their static
  32 byte buffers.
\<close>

subsection \<open>Numbers to text\<close>

definition btoh_lookup :: "string list" where
  "btoh_lookup = [
  ''00'', ''01'', ''02'', ''03'', ''04'', ''05'', ''06'', ''07'', ''08'', ''09'', ''0A'', ''0B'', ''0C'', ''0D'', ''0E'', ''0F'',
  ''10'', ''11'', ''12'', ''13'', ''14'', ''15'', ''16'', ''17'', ''18'', ''19'', ''1A'', ''1B'', ''1C'', ''1D'', ''1E'', ''1F'',
  ''20'', ''21'', ''22'', ''23'', ''24'', ''25'', ''26'', ''27'', ''28'', ''29'', ''2A'', ''2B'', ''2C'', ''2D'', ''2E'', ''2F'',
  ''30'', ''31'', ''32'', ''33'', ''34'', ''35'', ''36'', ''37'', ''38'', ''39'', ''3A'', ''3B'', ''3C'', ''3D'', ''3E'', ''3F'',
  ''40'', ''41'', ''42'', ''43'', ''44'', ''45'', ''46'', ''47'', ''48'', ''49'', ''4A'', ''4B'', ''4C'', ''4D'', ''4E'', ''4F'',
  ''50'', ''51'', ''52'', ''53'', ''54'', ''55'', ''56'', ''57'', ''58'', ''59'', ''5A'', ''5B'', ''5C'', ''5D'', ''5E'', ''5F'',
  ''60'', ''61'', ''62'', ''63'', ''64'', ''65'', ''66'', ''67'', ''68'', ''69'', ''6A'', ''6B'', ''6C'', ''6D'', ''6E'', ''6F'',
  ''70'', ''71'', ''72'', ''73'', ''74'', ''75'', ''76'', ''77'', ''78'', ''79'', ''7A'', ''7B'', ''7C'', ''7D'', ''7E'', ''7F'',
  ''80'', ''81'', ''82'', ''83'', ''84'', ''85'', ''86'', ''87'', ''88'', ''89'', ''8A'', ''8B'', ''8C'', ''8D'', ''8E'', ''8F'',
  ''90'', ''91'', ''92'', ''93'', ''94'', ''95'', ''96'', ''97'', ''98'', ''99'', ''9A'', ''9B'', ''9C'', ''9D'', ''9E'', ''9F'',
  ''A0'', ''A1'', ''A2'', ''A3'', ''A4'', ''A5'', ''A6'', ''A7'', ''A8'', ''A9'', ''AA'', ''AB'', ''AC'', ''AD'', ''AE'', ''AF'',
  ''B0'', ''B1'', ''B2'', ''B3'', ''B4'', ''B5'', ''B6'', ''B7'', ''B8'', ''B9'', ''BA'', ''BB'', ''BC'', ''BD'', ''BE'', ''BF'',
  ''C0'', ''C1'', ''C2'', ''C3'', ''C4'', ''C5'', ''C6'', ''C7'', ''C8'', ''C9'', ''CA'', ''CB'', ''CC'', ''CD'', ''CE'', ''CF'',
  ''D0'', ''D1'', ''D2'', ''D3'', ''D4'', ''D5'', ''D6'', ''D7'', ''D8'', ''D9'', ''DA'', ''DB'', ''DC'', ''DD'', ''DE'', ''DF'',
  ''E0'', ''E1'', ''E2'', ''E3'', ''E4'', ''E5'', ''E6'', ''E7'', ''E8'', ''E9'', ''EA'', ''EB'', ''EC'', ''ED'', ''EE'', ''EF'',
  ''F0'', ''F1'', ''F2'', ''F3'', ''F4'', ''F5'', ''F6'', ''F7'', ''F8'', ''F9'', ''FA'', ''FB'', ''FC'', ''FD'', ''FE'', ''FF'']"

fun utoa_loop :: "nat \<Rightarrow> string \<Rightarrow> string" where
  "utoa_loop num p =
     (let p' = digit_chr (num mod 10) # p; num' = num div 10
      in if num' = 0 then p' else utoa_loop num' p')"

declare utoa_loop.simps [simp del]

definition my_utoa :: "nat \<Rightarrow> string" where
  "my_utoa num = utoa_loop num []"

text \<open>\<open>num = -num\<close> is undefined for the least \<open>int64_t\<close>.\<close>

definition my_itoa :: "int \<Rightarrow> string option" where
  "my_itoa num =
     (if num < 0
      then if num = - (2 ^ 63) then None
           else Some (CHR ''-'' # utoa_loop (nat (- num)) [])
      else Some (utoa_loop (nat num) []))"

definition my_btoh :: "byte \<Rightarrow> string" where
  "my_btoh num = btoh_lookup ! unat num"

definition my_btoh_fmt1 :: "byte \<Rightarrow> string" where
  "my_btoh_fmt1 num = btoh_lookup ! unat num @ '' ('' @ my_utoa (unat num) @ '')''"

definition my_itoa_fmt1 :: "int \<Rightarrow> string option" where
  "my_itoa_fmt1 num = do { s \<leftarrow> my_itoa num; Some (CHR ''['' # s @ '']'') }"

text \<open>\<^verbatim>\<open>%u\<close> and \<^verbatim>\<open>%d\<close> of \<^verbatim>\<open>printf\<close>, applied to a 32 bit number.\<close>

definition print_u :: "u32 \<Rightarrow> string" where
  "print_u w = my_utoa (unat w)"

definition print_d :: "u32 \<Rightarrow> string" where
  "print_d w = (if sint w < 0 then CHR ''-'' # my_utoa (nat (- sint w)) else my_utoa (nat (sint w)))"

subsection \<open>Text to numbers\<close>

definition count_spaces :: "string \<Rightarrow> nat" where
  "count_spaces p = length (takeWhile (\<lambda>c. c = CHR '' '') p)"

fun atobyte_loop :: "nat \<Rightarrow> byte \<Rightarrow> nat \<Rightarrow> string \<Rightarrow> byte \<times> nat" where
  "atobyte_loop 0 i c2 p = (i, c2)"
| "atobyte_loop (Suc j) i c2 [] = (i, c2)"
| "atobyte_loop (Suc j) i c2 (c # p) =
     (if is_digit c then atobyte_loop j (i * 16 + of_nat (digit_val c)) (Suc c2) p
      else if 65 \<le> (of_char c :: nat) \<and> of_char c \<le> (70 :: nat)
      then atobyte_loop j (i * 16 + of_nat (of_char c - 55)) (Suc c2) p
      else (i, c2))"

definition my_atobyte :: "string \<Rightarrow> byte \<times> int" where
  "my_atobyte p =
     (let c1 = count_spaces p; (i, c2) = atobyte_loop 2 0 0 (drop c1 p)
      in (i, if c2 \<noteq> 0 then int (c1 + c2) else -1))"

text \<open>The accumulator of \<open>my_atoi\<close> is a 32 bit \<open>int\<close>, whatever its result type says.\<close>

fun atoi_loop :: "int \<Rightarrow> nat \<Rightarrow> string \<Rightarrow> (int \<times> nat) option" where
  "atoi_loop i c2 [] = Some (i, c2)"
| "atoi_loop i c2 (c # p) =
     (if is_digit c
      then let i' = i * 10 + int (digit_val c)
           in if i' < 2 ^ 31 then atoi_loop i' (Suc c2) p else None
      else Some (i, c2))"

definition my_atoi :: "string \<Rightarrow> (int \<times> int) option" where
  "my_atoi p =
     (let s1 = count_spaces p; p1 = drop s1 p;
          sign = (p1 \<noteq> [] \<and> hd p1 = CHR ''-'');
          c1 = (if sign then s1 + 1 else s1); p2 = (if sign then tl p1 else p1)
      in do {
        (i, c2) \<leftarrow> atoi_loop 0 0 p2;
        Some (if sign then - i else i, if c2 \<noteq> 0 then int (c1 + c2) else -1)
      })"

fun atou_loop :: "u64 \<Rightarrow> nat \<Rightarrow> string \<Rightarrow> u64 \<times> nat" where
  "atou_loop i c2 [] = (i, c2)"
| "atou_loop i c2 (c # p) =
     (if is_digit c then atou_loop (i * 10 + of_nat (digit_val c)) (Suc c2) p else (i, c2))"

definition my_atou :: "string \<Rightarrow> u64 \<times> int" where
  "my_atou p =
     (let c1 = count_spaces p; (i, c2) = atou_loop 0 0 (drop c1 p)
      in (i, if c2 \<noteq> 0 then int (c1 + c2) else -1))"

subsection \<open>Byte order\<close>

text \<open>
  \<open>swap\<close> on a little-endian machine reverses \<open>size\<close> bytes through a 64 byte scratch
  array: \<open>tmp[size-i-1] = data[i]\<close> for every \<open>i\<close>, then the copy back.
\<close>

fun swap_loop :: "nat \<Rightarrow> nat \<Rightarrow> byte list \<Rightarrow> byte list \<Rightarrow> byte list" where
  "swap_loop n i [] tmp = tmp"
| "swap_loop n i (b # data) tmp = swap_loop n (Suc i) data (tmp[n - i - 1 := b])"

definition swap :: "byte list \<Rightarrow> byte list option" where
  "swap data = do {
     require (length data \<le> 64);
     Some (take (length data) (swap_loop (length data) 0 data (replicate 64 0)))
   }"

text \<open>
  The unions of \<^verbatim>\<open>headers/include.h\<close> read an unsigned integer of a little-endian machine
  from its bytes; \<open>le_bytes\<close> is the union written as an integer and read as bytes.
\<close>

fun le_val :: "byte list \<Rightarrow> nat" where
  "le_val [] = 0"
| "le_val (b # bs) = unat b + 256 * le_val bs"

fun le_bytes :: "nat \<Rightarrow> nat \<Rightarrow> byte list" where
  "le_bytes 0 v = []"
| "le_bytes (Suc n) v = of_nat (v mod 256) # le_bytes n (v div 256)"

definition signed_of :: "nat \<Rightarrow> nat \<Rightarrow> int" where
  "signed_of n v = (if v < 2 ^ (8 * n - 1) then int v else int v - 2 ^ (8 * n))"

subsection \<open>Lemmas: the digit loops\<close>

fun ndig :: "nat \<Rightarrow> nat" where
  "ndig n = (if n div 10 = 0 then 1 else Suc (ndig (n div 10)))"

declare ndig.simps [simp del]

lemma utoa_loop_unfold:
  "utoa_loop num p =
     (if num div 10 = 0 then digit_chr (num mod 10) # p
      else utoa_loop (num div 10) (digit_chr (num mod 10) # p))"
  by (subst utoa_loop.simps) (simp add: Let_def)

lemma ndig_pos [simp]: "0 < ndig n"
  by (subst ndig.simps) simp

lemma length_utoa_loop: "length (utoa_loop n p) = ndig n + length p"
proof (induction n p rule: utoa_loop.induct)
  case (1 n p)
  then show ?case
    by (subst utoa_loop_unfold, subst ndig.simps) (simp add: Let_def)
qed

lemma ndig_le: "n < 10 ^ Suc k \<Longrightarrow> ndig n \<le> Suc k"
proof (induction k arbitrary: n)
  case 0
  then show ?case by (subst ndig.simps) simp
next
  case (Suc k)
  have "n div 10 < 10 ^ Suc k"
    using Suc.prems by (simp add: less_mult_imp_div_less mult.commute)
  then have "ndig (n div 10) \<le> Suc k" by (rule Suc.IH)
  then show ?case by (subst ndig.simps) simp
qed

lemma no_nul_utoa_loop [simp]: "no_nul (utoa_loop n p) \<longleftrightarrow> no_nul p"
proof (induction n p rule: utoa_loop.induct)
  case (1 n p)
  show ?case
    by (subst utoa_loop_unfold) (use 1 in \<open>auto simp: Let_def\<close>)
qed

lemma utoa_loop_hd_digit:
  "utoa_loop n p \<noteq> [] \<and> is_digit (hd (utoa_loop n p))"
proof (induction n p rule: utoa_loop.induct)
  case (1 n p)
  show ?case
    by (subst (1 2) utoa_loop_unfold) (use 1 in \<open>auto simp: Let_def\<close>)
qed

lemma atou_loop_utoa:
  "atou_loop i c (utoa_loop n p) = atou_loop (i * 10 ^ ndig n + of_nat n) (c + ndig n) p"
proof (induction n p rule: utoa_loop.induct)
  case (1 n p)
  have n: "(of_nat n :: u64) = of_nat (n div 10) * 10 + of_nat (n mod 10)"
    by (metis div_mult_mod_eq of_nat_add of_nat_mult of_nat_numeral)
  show ?case
  proof (cases "n div 10 = 0")
    case True
    then have "n mod 10 = n" by simp
    with True show ?thesis
      by (subst utoa_loop_unfold, subst (1 2) ndig.simps) simp
  next
    case False
    have nd: "ndig n = Suc (ndig (n div 10))"
      using False by (subst ndig.simps) simp
    have split: "i * 10 ^ ndig n + of_nat n =
        (i * 10 ^ ndig (n div 10) + of_nat (n div 10)) * 10 + of_nat (n mod 10)"
      by (subst n) (simp add: nd algebra_simps)
    have "c + ndig n = Suc (c + ndig (n div 10))" by (simp add: nd)
    with False 1 split show ?thesis
      by (subst utoa_loop_unfold) (simp add: Let_def algebra_simps)
  qed
qed

lemma atoi_loop_utoa:
  "0 \<le> i \<Longrightarrow> i * 10 ^ ndig n + int n < 2 ^ 31 \<Longrightarrow>
   atoi_loop i c (utoa_loop n p) = atoi_loop (i * 10 ^ ndig n + int n) (c + ndig n) p"
proof (induction n p rule: utoa_loop.induct)
  case (1 n p)
  have n: "int n = int (n div 10) * 10 + int (n mod 10)"
    by (metis div_mult_mod_eq of_nat_add of_nat_mult of_nat_numeral)
  show ?case
  proof (cases "n div 10 = 0")
    case True
    then have "n mod 10 = n" "ndig n = 1" by (simp_all add: ndig.simps)
    with True "1.prems" show ?thesis
      by (subst utoa_loop_unfold) (simp add: Let_def)
  next
    case False
    have nd: "ndig n = Suc (ndig (n div 10))"
      using False by (subst ndig.simps) simp
    have split: "i * 10 ^ ndig n + int n =
        (i * 10 ^ ndig (n div 10) + int (n div 10)) * 10 + int (n mod 10)"
      by (subst n) (simp add: nd algebra_simps)
    have nonneg: "0 \<le> i * 10 ^ ndig (n div 10) + int (n div 10)"
      using "1.prems"(1) by simp
    have "atoi_loop i c (utoa_loop n p) =
        atoi_loop (i * 10 ^ ndig (n div 10) + int (n div 10)) (c + ndig (n div 10))
          (digit_chr (n mod 10) # p)"
      using False 1 split nonneg by (subst utoa_loop_unfold) (simp add: Let_def)
    also have "\<dots> = atoi_loop (i * 10 ^ ndig n + int n) (Suc (c + ndig (n div 10))) p"
      using "1.prems"(2) split by (simp add: Let_def)
    also have "\<dots> = atoi_loop (i * 10 ^ ndig n + int n) (c + ndig n) p"
      by (simp add: nd)
    finally show ?thesis .
  qed
qed

lemma count_spaces_utoa [simp]: "count_spaces (utoa_loop n p) = 0"
proof -
  obtain c s where "utoa_loop n p = c # s" "is_digit c"
    using utoa_loop_hd_digit [of n p] by (cases "utoa_loop n p") auto
  then show ?thesis by (auto simp: count_spaces_def is_digit_def)
qed

lemma my_utoa_length: "n < 2 ^ 64 \<Longrightarrow> length (my_utoa n) \<le> 20"
  using ndig_le [of n 19] by (simp add: my_utoa_def length_utoa_loop)

lemma my_utoa_no_nul [simp, fmt_simps]: "no_nul (my_utoa n)"
  by (simp add: my_utoa_def)

lemma my_itoa_nat [fmt_simps]: "my_itoa (int n) = Some (my_utoa n)"
  by (simp add: my_itoa_def my_utoa_def)

lemma my_itoa_defined: "- (2 ^ 63) < v \<Longrightarrow> \<exists>s. my_itoa v = Some s"
  by (simp add: my_itoa_def)

lemma my_itoa_no_nul: "my_itoa v = Some s \<Longrightarrow> no_nul s"
  by (auto simp: my_itoa_def split: if_splits)

lemma my_itoa_fmt1_nat [fmt_simps]:
  "my_itoa_fmt1 (int n) = Some (''['' @ my_utoa n @ '']'')"
  by (simp add: my_itoa_fmt1_def my_itoa_nat)

lemma my_utoa_length_le: "n < 10 ^ Suc k \<Longrightarrow> length (my_utoa n) \<le> Suc k"
  using ndig_le [of n k] by (simp add: my_utoa_def length_utoa_loop)

subsection \<open>Lemmas: hexadecimal digits\<close>

definition hex_chr :: "nat \<Rightarrow> char" where
  "hex_chr d = (if d < 10 then char_of (d + 48) else char_of (d + 55))"

lemma btoh_lookup_eq:
  "btoh_lookup = map (\<lambda>n. [hex_chr (n div 16), hex_chr (n mod 16)]) [0..<256]"
  by code_simp

lemma my_btoh_eq: "my_btoh b = [hex_chr (unat b div 16), hex_chr (unat b mod 16)]"
  by (simp add: my_btoh_def btoh_lookup_eq)

lemma my_btoh_length [simp]: "length (my_btoh b) = 2"
  by (simp add: my_btoh_eq)

lemma hex_chr_cases:
  assumes "d < 16"
  shows "is_digit (hex_chr d) \<and> digit_val (hex_chr d) = d \<or>
    \<not> is_digit (hex_chr d) \<and> 65 \<le> (of_char (hex_chr d) :: nat) \<and>
      of_char (hex_chr d) \<le> (70 :: nat) \<and> of_char (hex_chr d) - 55 = d"
  using assms by (auto simp: hex_chr_def is_digit_def digit_val_def)

lemma hex_chr_no_nul [simp]: "d < 16 \<Longrightarrow> of_char (hex_chr d) \<noteq> (0 :: nat)"
  by (auto simp: hex_chr_def)

lemma my_btoh_no_nul [simp, fmt_simps]: "no_nul (my_btoh b)"
proof -
  have "unat b div 16 < 16" by (rule less_mult_imp_div_less) simp
  then show ?thesis by (simp add: my_btoh_eq)
qed

lemma atobyte_step:
  "d < 16 \<Longrightarrow> atobyte_loop (Suc j) i c (hex_chr d # p) =
     atobyte_loop j (i * 16 + of_nat d) (Suc c) p"
  using hex_chr_cases [of d] by (auto simp del: of_nat_diff)

subsection \<open>Lemmas: byte order\<close>

lemma swap_loop_rev:
  "length ys + length xs = n \<Longrightarrow> n \<le> length tmp \<Longrightarrow>
   drop (length xs) (take n tmp) = rev ys \<Longrightarrow>
   take n (swap_loop n (length ys) xs tmp) = rev (ys @ xs)"
proof (induction xs arbitrary: ys tmp)
  case Nil
  then show ?case by simp
next
  case (Cons x xs)
  have idx: "n - Suc (length ys) = length xs" using Cons.prems(1) by simp
  have "drop (length xs) (take n (tmp[length xs := x])) =
      x # drop (Suc (length xs)) (take n tmp)"
    using Cons.prems(1,2)
    by (subst Cons_nth_drop_Suc [symmetric]) (auto simp: take_update_swap)
  then have "take n (swap_loop n (length (ys @ [x])) xs (tmp[length xs := x])) =
      rev ((ys @ [x]) @ xs)"
    using Cons.prems by (intro Cons.IH) auto
  then show ?case by (simp add: idx)
qed

lemma swap_rev: "length data \<le> 64 \<Longrightarrow> swap data = Some (rev data)"
  using swap_loop_rev [of "[]" data "length data" "replicate 64 0"]
  by (simp add: swap_def)

lemma le_val_less: "le_val bs < 256 ^ length bs"
proof (induction bs)
  case Nil
  then show ?case by simp
next
  case (Cons b bs)
  have "unat b + 256 * le_val bs < 256 * (le_val bs + 1)" by simp
  also have "\<dots> \<le> 256 * 256 ^ length bs"
    using Cons by (intro mult_left_mono) auto
  finally show ?case by simp
qed

lemma length_le_bytes [simp]: "length (le_bytes n v) = n"
  by (induction n arbitrary: v) auto

lemma le_val_le_bytes: "v < 256 ^ n \<Longrightarrow> le_val (le_bytes n v) = v"
proof (induction n arbitrary: v)
  case 0
  then show ?case by simp
next
  case (Suc n)
  have "v div 256 < 256 ^ n" using Suc.prems by (simp add: less_mult_imp_div_less mult.commute)
  moreover have "unat (of_nat (v mod 256) :: byte) = v mod 256" by (simp add: unat_of_nat)
  ultimately show ?case by (simp add: Suc.IH)
qed

lemma le_bytes_le_val: "le_bytes (length bs) (le_val bs) = bs"
  by (induction bs) (auto simp: div_mult_self4)


section \<open>Properties\<close>

lemma atou_my_utoa: "atou_loop 0 0 (my_utoa n) = (of_nat n, ndig n)"
  using atou_loop_utoa [of 0 0 n "[]"] by (simp add: my_utoa_def)

lemma my_utoa_inj:
  assumes "my_utoa n = my_utoa m" "n < 2 ^ 64" "m < 2 ^ 64"
  shows "n = m"
proof -
  have "(of_nat n :: u64) = of_nat m" using atou_my_utoa [of n] atou_my_utoa [of m] assms(1) by simp
  then show ?thesis using assms(2,3) by (simp add: word_of_nat_eq_iff take_bit_nat_eq_self)
qed

text \<open>Printing a number and reading it back, after any number of blanks: \<open>my_atou\<close> returns
  the number \<open>my_utoa\<close> was given and has consumed exactly the text, and the text fits the
  static 32 byte buffer of \<open>my_utoa\<close>.\<close>

theorem my_atou_my_utoa:
  assumes "n < 2 ^ 64"
  shows "my_atou (replicate k (CHR '' '') @ my_utoa n) = (of_nat n, int (k + length (my_utoa n))) \<and>
    length (my_utoa n) \<le> 20"
proof -
  have l: "length (my_utoa n) = ndig n" by (simp add: my_utoa_def length_utoa_loop)
  have "count_spaces (replicate k (CHR '' '') @ my_utoa n) = k"
    using count_spaces_utoa [of n "[]"]
    by (induction k) (simp_all add: count_spaces_def my_utoa_def)
  then show ?thesis using my_utoa_length [OF assms] by (simp add: my_atou_def l atou_my_utoa)
qed

theorem my_atou_my_utoa_witness: "my_atou ''  47'' = (47, 4)"
proof -
  have "my_utoa 47 = ''47''" by (simp add: my_utoa_def utoa_loop_unfold digit_chr_def char_of_def bit_0)
  moreover have "replicate 2 (CHR '' '') = ''  ''" by (simp add: numeral_2_eq_2)
  ultimately show ?thesis using my_atou_my_utoa [of 47 2] by simp
qed

text \<open>A signed number of 32 bits is read back by \<open>my_atoi\<close> from what \<open>my_itoa\<close> prints,
  sign and character count included.\<close>

theorem my_atoi_my_itoa:
  assumes "- (2 ^ 31) < v" "v < 2 ^ 31"
  shows "\<exists>s. my_itoa v = Some s \<and> my_atoi s = Some (v, int (length s))"
proof -
  have nn: "hd (utoa_loop m []) \<noteq> CHR ''-''" "utoa_loop m [] \<noteq> []" for m
    using utoa_loop_hd_digit [of m "[]"] by (auto simp: is_digit_def)
  have a: "atoi_loop 0 0 (utoa_loop m []) = Some (int m, ndig m)" if "int m < 2 ^ 31" for m
    using atoi_loop_utoa [of 0 m 0 "[]"] that by simp
  show ?thesis
  proof (cases "v < 0")
    case True
    have "count_spaces (CHR ''-'' # utoa_loop (nat (- v)) []) = 0" by (simp add: count_spaces_def)
    then show ?thesis using True assms a [of "nat (- v)"]
      by (auto simp: my_itoa_def my_atoi_def length_utoa_loop)
  next
    case False
    then show ?thesis using assms a [of "nat v"] nn [of "nat v"]
      by (auto simp: my_itoa_def my_atoi_def length_utoa_loop)
  qed
qed

theorem my_atoi_my_itoa_witness: "\<exists>s. my_itoa (-42) = Some s \<and> my_atoi s = Some (-42, int (length s))"
  by (rule my_atoi_my_itoa) simp_all

lemma atobyte_two:
  "h < 16 \<Longrightarrow> l < 16 \<Longrightarrow>
   atobyte_loop 2 0 0 (hex_chr h # hex_chr l # r) = (of_nat h * 16 + of_nat l, 2)"
  using atobyte_step [of h 1] atobyte_step [of l 0]
  by (simp add: numeral_2_eq_2 del: atobyte_loop.simps(3))

text \<open>A byte printed as two hexadecimal digits is read back by \<open>my_atobyte\<close>, which stops
  after them whatever follows.\<close>

theorem my_atobyte_my_btoh: "my_atobyte (my_btoh b @ r) = (b, 2)"
proof -
  have d: "unat b div 16 < 16" "unat b mod 16 < 16" by (auto intro: less_mult_imp_div_less)
  have "hex_chr (unat b div 16) \<noteq> CHR '' ''"
    using hex_chr_cases [OF d(1)] by (auto simp: is_digit_def)
  moreover have "atobyte_loop 2 0 0 (my_btoh b @ r) = (b, 2)"
  proof -
    have "(of_nat (unat b div 16) * 16 + of_nat (unat b mod 16) :: byte) =
        of_nat (unat b div 16 * 16 + unat b mod 16)" by (simp only: of_nat_add of_nat_mult of_nat_numeral)
    also have "\<dots> = b" by (simp only: div_mult_mod_eq) simp
    finally show ?thesis using atobyte_two [OF d] by (simp add: my_btoh_eq)
  qed
  ultimately show ?thesis by (simp add: my_atobyte_def count_spaces_def my_btoh_eq)
qed

text \<open>Swapping the bytes of a value of at most 64 bytes reverses them, and swapping twice
  restores it: encoder and decoder agree on the byte order of the wire.\<close>

theorem swap_swap:
  assumes "length d \<le> 64"
  shows "swap d = Some (rev d) \<and> (swap d \<bind> swap) = Some d"
  using assms by (simp add: swap_rev)

theorem swap_swap_witness: "(swap [1, 2, 3] \<bind> swap) = Some [1, 2, 3]"
  by (rule swap_swap [THEN conjunct2]) simp

end
