(* ===== verification/Buffers.thy ===== *)
theory Buffers
  imports Utility
begin

section \<open>Growing buffers (buffer.c, binary_buffer.c)\<close>

text \<open>
  The two growing arrays all text and all messages are built in. A cell of allocated
  memory that was not written yet is \<open>None\<close>; \<open>avail n\<close> says whether an allocation of
  \<open>n\<close> bytes succeeds. Sizes and indexes are the 32 bit words of the source, so a sum
  that wraps is visible. The abstraction of a buffer is the list of its first \<open>index\<close>
  bytes, and the contract of the append operations is the locale \<open>byte_sink\<close>, which both
  buffers satisfy; the other components use the buffers through their contents only.
\<close>

type_synonym 'a mem = "'a option list"

definition mem_alloc :: "nat \<Rightarrow> 'a mem" where
  "mem_alloc n = replicate n None"

definition mem_realloc :: "'a mem \<Rightarrow> nat \<Rightarrow> 'a mem" where
  "mem_realloc m n = take n m @ replicate (n - length m) None"

definition mem_write :: "'a mem \<Rightarrow> nat \<Rightarrow> 'a list \<Rightarrow> 'a mem option" where
  "mem_write m i d = do {
     require (i + length d \<le> length m);
     Some (take i m @ map Some d @ drop (i + length d) m)
   }"

subsection \<open>Text buffers\<close>

record buffer =
  bdata :: "char mem option"
  bindex :: u32
  bsize :: u32

definition DEFAULT_SIZE :: u32 where
  "DEFAULT_SIZE = 64"

definition INIT_BUFFER :: buffer where
  "INIT_BUFFER = \<lparr>bdata = None, bindex = 0, bsize = DEFAULT_SIZE\<rparr>"

abbreviation NUL :: char where
  "NUL \<equiv> CHR 0x00"

definition buffree :: "buffer \<Rightarrow> buffer" where
  "buffree buf = buf\<lparr>bdata := None, bindex := 0, bsize := DEFAULT_SIZE\<rparr>"

text \<open>The two allocation steps of \<open>bufncat\<close> and the copy.\<close>

definition bufncat_malloc :: "(nat \<Rightarrow> bool) \<Rightarrow> buffer \<Rightarrow> u32 \<Rightarrow> buffer run option" where
  "bufncat_malloc avail buf len =
     (case bdata buf of
        Some m \<Rightarrow> Some (Done buf)
      | None \<Rightarrow>
          let n = max (unat (len + 1)) (unat (bsize buf))
          in if \<not> avail n then Some Exit
             else do {
               m \<leftarrow> mem_write (mem_alloc n) 0 [NUL];
               Some (Done (buf\<lparr>bdata := Some m, bsize := of_nat n\<rparr>))
             })"

definition bufncat_realloc :: "(nat \<Rightarrow> bool) \<Rightarrow> buffer \<Rightarrow> u32 \<Rightarrow> buffer run option" where
  "bufncat_realloc avail buf len =
     (if bindex buf + len + 1 > bsize buf
      then let n = max (unat (bsize buf + DEFAULT_SIZE)) (unat (bindex buf + len + 1))
           in if \<not> avail n then Some Exit
              else do {
                m \<leftarrow> bdata buf;
                Some (Done (buf\<lparr>bdata := Some (mem_realloc m n), bsize := of_nat n\<rparr>))
              }
      else Some (Done buf))"

definition bufncat_copy :: "buffer \<Rightarrow> string \<Rightarrow> u32 \<Rightarrow> buffer run option" where
  "bufncat_copy buf src len = do {
     m \<leftarrow> bdata buf;
     require (unat len \<le> length src);
     m1 \<leftarrow> mem_write m (unat (bindex buf)) (take (unat len) src);
     m2 \<leftarrow> mem_write m1 (unat (bindex buf + len)) [NUL];
     Some (Done (buf\<lparr>bdata := Some m2, bindex := bindex buf + len\<rparr>))
   }"

definition bufncat :: "(nat \<Rightarrow> bool) \<Rightarrow> buffer \<Rightarrow> string \<Rightarrow> u32 \<Rightarrow> buffer run option" where
  "bufncat avail buf src len =
     run_bind (bufncat_malloc avail buf len) (\<lambda>b1.
     run_bind (bufncat_realloc avail b1 len) (\<lambda>b2.
     bufncat_copy b2 src len))"

text \<open>\<open>bufcat\<close> and \<open>bufcpy\<close> take a NUL terminated string, \<open>bufncpy\<close> any bytes.\<close>

definition bufcat :: "(nat \<Rightarrow> bool) \<Rightarrow> buffer \<Rightarrow> string \<Rightarrow> buffer run option" where
  "bufcat avail buf s = bufncat avail buf (cstr s) (of_nat (length (cstr s)))"

definition bufcpy :: "(nat \<Rightarrow> bool) \<Rightarrow> buffer \<Rightarrow> string \<Rightarrow> buffer run option" where
  "bufcpy avail buf s =
     bufncat avail (buf\<lparr>bindex := 0\<rparr>) (cstr s) (of_nat (length (cstr s)))"

definition bufncpy :: "(nat \<Rightarrow> bool) \<Rightarrow> buffer \<Rightarrow> string \<Rightarrow> u32 \<Rightarrow> buffer run option" where
  "bufncpy avail buf src len = bufncat avail (buf\<lparr>bindex := 0\<rparr>) src len"

text \<open>What a reader of the memory at \<open>data\<close> sees: initialised bytes only.\<close>

definition bufsize :: "buffer \<Rightarrow> u32" where
  "bufsize buf = bindex buf"

definition buf_contents :: "buffer \<Rightarrow> string" where
  "buf_contents buf =
     (case bdata buf of None \<Rightarrow> [] | Some m \<Rightarrow> map the (take (unat (bindex buf)) m))"

fun init_prefix :: "'a mem \<Rightarrow> 'a list" where
  "init_prefix [] = []"
| "init_prefix (None # m) = []"
| "init_prefix (Some c # m) = c # init_prefix m"

definition bufdata :: "buffer \<Rightarrow> string option" where
  "bufdata buf = do {
     m \<leftarrow> bdata buf;
     require (NUL \<in> set (init_prefix m));
     Some (cstr (init_prefix m))
   }"

definition bufprefix :: "(nat \<Rightarrow> bool) \<Rightarrow> buffer \<Rightarrow> string \<Rightarrow> buffer run option" where
  "bufprefix avail buf prefix =
     run_bind (bufcpy avail INIT_BUFFER prefix) (\<lambda>x1.
     do {
       d \<leftarrow> bufdata buf;
       run_bind (bufcat avail x1 d) (\<lambda>x2.
       do { e \<leftarrow> bufdata x2; bufcpy avail buf e })
     })"

definition buf2bufcpy :: "(nat \<Rightarrow> bool) \<Rightarrow> buffer \<Rightarrow> buffer \<Rightarrow> buffer run option" where
  "buf2bufcpy avail buf1 buf2 = do {
     m \<leftarrow> bdata buf2;
     bufncat avail (buf1\<lparr>bindex := 0\<rparr>) (init_prefix m) (bufsize buf2)
   }"

text \<open>\<open>bufnlcpy\<close> copies up to the first newline and looks at nothing else: a source string
  with no newline is read past its end.\<close>

fun bufnlcpy_loop :: "(nat \<Rightarrow> bool) \<Rightarrow> buffer \<Rightarrow> string \<Rightarrow> buffer run option" where
  "bufnlcpy_loop avail buf [] = None"
| "bufnlcpy_loop avail buf (c # s) =
     (if c = CHR 0x0A then Some (Done buf)
      else run_bind (bufncat avail buf [c] 1) (\<lambda>b. bufnlcpy_loop avail b s))"

definition bufnlcpy :: "(nat \<Rightarrow> bool) \<Rightarrow> buffer \<Rightarrow> string \<Rightarrow> buffer run option" where
  "bufnlcpy avail buf s = run_bind (bufcpy avail buf []) (\<lambda>b. bufnlcpy_loop avail b (s @ [NUL]))"

text \<open>\<open>bufrtrim\<close> walks back from the terminating NUL over blanks; it stops at another
  character only, so a blank string takes it below the start of the array.\<close>

fun bufrtrim_loop :: "char mem \<Rightarrow> nat \<Rightarrow> char mem option" where
  "bufrtrim_loop m 0 = None"
| "bufrtrim_loop m (Suc p) =
     (if m ! p = Some (CHR '' '') then bufrtrim_loop (m[p := Some NUL]) p else Some m)"

definition bufrtrim :: "buffer \<Rightarrow> buffer option" where
  "bufrtrim buf = do {
     m \<leftarrow> bdata buf;
     require (NUL \<in> set (init_prefix m));
     m' \<leftarrow> bufrtrim_loop m (length (cstr (init_prefix m)));
     Some (buf\<lparr>bdata := Some m'\<rparr>)
   }"

definition toupper :: "char \<Rightarrow> char" where
  "toupper c = (if 97 \<le> (of_char c :: nat) \<and> of_char c \<le> (122 :: nat)
     then char_of (of_char c - (32 :: nat)) else c)"

definition tolower :: "char \<Rightarrow> char" where
  "tolower c = (if 65 \<le> (of_char c :: nat) \<and> of_char c \<le> (90 :: nat)
     then char_of (of_char c + (32 :: nat)) else c)"

definition buftoupper :: "buffer \<Rightarrow> buffer option" where
  "buftoupper buf = do {
     m \<leftarrow> bdata buf;
     require (unat (bsize buf) \<le> length m);
     Some (buf\<lparr>bdata := Some (map (map_option toupper) (take (unat (bsize buf)) m)
                              @ drop (unat (bsize buf)) m)\<rparr>)
   }"

definition buftolower :: "buffer \<Rightarrow> buffer option" where
  "buftolower buf = do {
     m \<leftarrow> bdata buf;
     require (unat (bsize buf) \<le> length m);
     Some (buf\<lparr>bdata := Some (map (map_option tolower) (take (unat (bsize buf)) m)
                              @ drop (unat (bsize buf)) m)\<rparr>)
   }"


subsection \<open>Printable text\<close>

definition isprint :: "char \<Rightarrow> bool" where
  "isprint c \<longleftrightarrow> 32 \<le> (of_char c :: nat) \<and> of_char c \<le> (126 :: nat)"

definition isspace :: "char \<Rightarrow> bool" where
  "isspace c \<longleftrightarrow> c = CHR '' '' \<or> 9 \<le> (of_char c :: nat) \<and> of_char c \<le> (13 :: nat)"

definition hex_lower :: "char \<Rightarrow> string" where
  \<comment> \<open>\<^verbatim>\<open>sprintf ("%2.2x")\<close> of an unsigned char\<close>
  "hex_lower c = map tolower (my_btoh (byte_of c))"

text \<open>\<open>braces\<close> is the pragma \<^verbatim>\<open>SHOW_NON_PRINTING_CHARS_IN_BRACES\<close>.\<close>

definition mkprint_chr :: "bool \<Rightarrow> char \<Rightarrow> string" where
  "mkprint_chr braces c =
     (if isprint c \<or> isspace c then [c]
      else if braces then ''{'' @ hex_lower c @ ''}''
      else [CHR 0x5C] @ ''x'' @ hex_lower c)"

definition strmkprint :: "bool \<Rightarrow> string \<Rightarrow> nat \<Rightarrow> string option" where
  "strmkprint braces s len = do {
     require (len \<le> length s);
     Some (concat (map (mkprint_chr braces) (take len s)))
   }"

definition bufmkprint :: "bool \<Rightarrow> buffer \<Rightarrow> string option" where
  "bufmkprint braces buf = strmkprint braces (buf_contents buf) (unat (bufsize buf))"

subsection \<open>Reading a file\<close>

text \<open>
  \<open>fgets\<close> with a 1024 byte array returns at most 1023 characters, up to and with the
  first newline. \<open>file\<close> is what the file holds, \<open>None\<close> if it cannot be opened.
\<close>

fun fgets_take :: "nat \<Rightarrow> string \<Rightarrow> string \<times> string" where
  "fgets_take 0 s = ([], s)"
| "fgets_take (Suc n) [] = ([], [])"
| "fgets_take (Suc n) (c # s) =
     (if c = CHR 0x0A then ([c], s)
      else let (l, r) = fgets_take n s in (c # l, r))"

lemma fgets_take_append: "fgets_take n s = (l, r) \<Longrightarrow> l @ r = s"
  by (induction n s arbitrary: l r rule: fgets_take.induct)
    (auto split: if_splits prod.splits)

lemma fgets_take_shorter:
  "0 < n \<Longrightarrow> fgets_take n (c # s) = (l, r) \<Longrightarrow> length r < Suc (length s)"
  using fgets_take_append [of "n - 1" s]
  by (cases n) (fastforce split: if_splits prod.splits)+

function read_loop :: "(nat \<Rightarrow> bool) \<Rightarrow> buffer \<Rightarrow> string \<Rightarrow> buffer run option" where
  "read_loop avail buf [] = Some (Done buf)"
| "read_loop avail buf (c # s) =
     (let (l, r) = fgets_take 1023 (c # s)
      in run_bind (bufcat avail buf l) (\<lambda>b. read_loop avail b r))"
  by pat_completeness auto
termination
  by (relation "measure (\<lambda>(avail, buf, s). length s)")
    (auto dest: fgets_take_shorter [OF _ sym, rotated])

definition buffilecpyread ::
    "(nat \<Rightarrow> bool) \<Rightarrow> buffer \<Rightarrow> string option \<Rightarrow> (buffer \<times> u32) run option" where
  "buffilecpyread avail buf file =
     (case file of
        None \<Rightarrow> Some (Done (buf, 1))
      | Some s \<Rightarrow> run_bind (bufcpy avail buf []) (\<lambda>b1.
          run_bind (read_loop avail b1 s) (\<lambda>b2. Some (Done (b2, 0)))))"

subsection \<open>Binary buffers\<close>

record binary_buffer =
  bb_data :: "byte mem option"
  current_in_use :: u32
  current_size :: u32

definition BINARY_BUFFER_DEFAULT_SIZE :: u32 where
  "BINARY_BUFFER_DEFAULT_SIZE = 2048"

definition INIT_BINARY_BUFFER :: binary_buffer where
  "INIT_BINARY_BUFFER = \<lparr>bb_data = None, current_in_use = 0, current_size = 0\<rparr>"

definition binary_buffree :: "binary_buffer \<Rightarrow> binary_buffer" where
  "binary_buffree b = b\<lparr>bb_data := None, current_in_use := 0, current_size := 0\<rparr>"

definition binary_bufncat ::
    "(nat \<Rightarrow> bool) \<Rightarrow> binary_buffer \<Rightarrow> byte list \<Rightarrow> u32 \<Rightarrow> binary_buffer run option" where
  "binary_bufncat avail b src len =
     run_bind
       (case bb_data b of
          Some m \<Rightarrow> Some (Done b)
        | None \<Rightarrow>
            let n = max BINARY_BUFFER_DEFAULT_SIZE len
            in if \<not> avail (unat n) then Some Exit
               else Some (Done (b\<lparr>bb_data := Some (mem_alloc (unat n)), current_size := n\<rparr>)))
     (\<lambda>b1. run_bind
       (if len + current_in_use b1 > current_size b1
        then let n = max (BINARY_BUFFER_DEFAULT_SIZE + current_in_use b1) (len + current_in_use b1)
             in if \<not> avail (unat n) then Some Exit
                else do {
                  m \<leftarrow> bb_data b1;
                  Some (Done (b1\<lparr>bb_data := Some (mem_realloc m (unat n)), current_size := n\<rparr>))
                }
        else Some (Done b1))
     (\<lambda>b2. do {
        m \<leftarrow> bb_data b2;
        require (unat len \<le> length src);
        m1 \<leftarrow> mem_write m (unat (current_in_use b2)) (take (unat len) src);
        Some (Done (b2\<lparr>bb_data := Some m1, current_in_use := current_in_use b2 + len\<rparr>))
      }))"

definition binary_bufncpy ::
    "(nat \<Rightarrow> bool) \<Rightarrow> binary_buffer \<Rightarrow> byte list \<Rightarrow> u32 \<Rightarrow> binary_buffer run option" where
  "binary_bufncpy avail b src len = binary_bufncat avail (b\<lparr>current_in_use := 0\<rparr>) src len"

definition binary_buf_empty :: "binary_buffer \<Rightarrow> binary_buffer" where
  "binary_buf_empty b = b\<lparr>current_in_use := 0\<rparr>"

definition binary_buffer_num_data :: "binary_buffer \<Rightarrow> u32" where
  "binary_buffer_num_data b = current_in_use b"

definition binary_contents :: "binary_buffer \<Rightarrow> byte list" where
  "binary_contents b =
     (case bb_data b of None \<Rightarrow> []
      | Some m \<Rightarrow> map the (take (unat (current_in_use b)) m))"


subsection \<open>Lemmas: memory\<close>

lemma mem_write_Some:
  "i + length d \<le> length m \<Longrightarrow>
   mem_write m i d = Some (take i m @ map Some d @ drop (i + length d) m)"
  by (simp add: mem_write_def)

lemma length_mem_alloc [simp]: "length (mem_alloc n) = n"
  by (simp add: mem_alloc_def)

lemma length_mem_realloc [simp]: "length (mem_realloc m n) = n"
  by (simp add: mem_realloc_def)

lemma take_mem_realloc: "i \<le> n \<Longrightarrow> i \<le> length m \<Longrightarrow> take i (mem_realloc m n) = take i m"
  by (simp add: mem_realloc_def min_def)

subsection \<open>The buffer invariant\<close>

text \<open>\<open>buf_mem\<close>: the first \<open>index\<close> cells are initialised and \<open>size\<close> is the size of the
  allocation. \<open>buf_ok\<close>: the contents are followed by a NUL as well.\<close>

definition buf_mem :: "buffer \<Rightarrow> bool" where
  "buf_mem b \<longleftrightarrow>
     (case bdata b of
        None \<Rightarrow> bindex b = 0 \<and> 0 < unat (bsize b)
      | Some m \<Rightarrow> length m = unat (bsize b) \<and> unat (bindex b) \<le> length m \<and>
          None \<notin> set (take (unat (bindex b)) m))"

definition buf_ok :: "buffer \<Rightarrow> bool" where
  "buf_ok b \<longleftrightarrow> buf_mem b \<and>
     (case bdata b of
        None \<Rightarrow> True
      | Some m \<Rightarrow> unat (bindex b) < length m \<and> m ! unat (bindex b) = Some NUL)"

lemma buf_ok_mem: "buf_ok b \<Longrightarrow> buf_mem b"
  by (simp add: buf_ok_def)

lemma buf_ok_init [buf_simps]: "buf_ok INIT_BUFFER" "buf_contents INIT_BUFFER = []"
  by (simp_all add: buf_ok_def buf_mem_def INIT_BUFFER_def DEFAULT_SIZE_def buf_contents_def)

lemma buf_ok_free [buf_simps]: "buf_ok (buffree b)" "buf_contents (buffree b) = []"
  by (simp_all add: buf_ok_def buf_mem_def buffree_def DEFAULT_SIZE_def buf_contents_def)

lemma buf_mem_reset: "buf_mem b \<Longrightarrow> buf_mem (b\<lparr>bindex := 0\<rparr>)"
  by (auto simp: buf_mem_def split: option.splits)

lemma buf_contents_reset [simp]: "buf_contents (b\<lparr>bindex := 0\<rparr>) = []"
  by (simp add: buf_contents_def split: option.splits)

lemma length_buf_contents: "buf_mem b \<Longrightarrow> length (buf_contents b) = unat (bindex b)"
  by (auto simp: buf_mem_def buf_contents_def split: option.splits)

lemma bufncat_malloc_ok:
  assumes "buf_mem b" "\<forall>n < 2 ^ 32. avail n" "unat len + 1 < 2 ^ 32"
  shows "\<exists>b1. bufncat_malloc avail b len = Some (Done b1) \<and> buf_mem b1 \<and> bdata b1 \<noteq> None \<and>
    bindex b1 = bindex b \<and> buf_contents b1 = buf_contents b"
proof (cases "bdata b")
  case (Some m)
  with assms show ?thesis by (auto simp: bufncat_malloc_def)
next
  case None
  let ?n = "max (unat (len + 1)) (unat (bsize b))"
  have n: "0 < ?n" "?n < 2 ^ 32"
    using assms(1) None by (auto simp: buf_mem_def max_def)
  then have "unat (of_nat ?n :: u32) = ?n" by (intro unat_of_nat_u32) simp
  moreover have "avail ?n" using assms(2) n by blast
  ultimately show ?thesis
    using n assms(1) None
    by (auto simp: bufncat_malloc_def Let_def mem_write_Some buf_mem_def buf_contents_def)
qed

lemma bufncat_realloc_ok:
  assumes "buf_mem b" "bdata b \<noteq> None" "\<forall>n < 2 ^ 32. avail n"
    "unat (bindex b) + unat len + 1 < 2 ^ 32"
  shows "\<exists>b1. bufncat_realloc avail b len = Some (Done b1) \<and> buf_mem b1 \<and> bdata b1 \<noteq> None \<and>
    bindex b1 = bindex b \<and> buf_contents b1 = buf_contents b \<and>
    unat (bindex b1) + unat len + 1 \<le> unat (bsize b1)"
proof -
  have need: "unat (bindex b + len + 1) = unat (bindex b) + unat len + 1"
    using assms(4) by (simp add: unat_add_u32)
  show ?thesis
  proof (cases "bindex b + len + 1 > bsize b")
    case False
    then have "unat (bindex b) + unat len + 1 \<le> unat (bsize b)"
      using need by (simp add: word_less_nat_alt)
    with False assms show ?thesis by (auto simp: bufncat_realloc_def)
  next
    case True
    let ?n = "max (unat (bsize b + DEFAULT_SIZE)) (unat (bindex b + len + 1))"
    have n: "?n < 2 ^ 32" "unat (bindex b) + unat len + 1 \<le> ?n"
      using need assms(4) by (auto simp: max_def)
    then have un: "unat (of_nat ?n :: u32) = ?n" by (intro unat_of_nat_u32) simp
    have "avail ?n" using assms(3) n by blast
    moreover obtain m where m: "bdata b = Some m" using assms(2) by auto
    moreover have "take (unat (bindex b)) (mem_realloc m ?n) = take (unat (bindex b)) m"
      using assms(1) m n by (intro take_mem_realloc) (auto simp: buf_mem_def)
    ultimately show ?thesis
      using True n un assms(1)
      by (auto simp: bufncat_realloc_def Let_def buf_mem_def buf_contents_def)
  qed
qed

lemma bufncat_copy_ok:
  assumes "buf_mem b" "bdata b \<noteq> None" "unat (bindex b) + length d + 1 \<le> unat (bsize b)"
  shows "\<exists>b1. bufncat_copy b d (of_nat (length d)) = Some (Done b1) \<and> buf_ok b1 \<and>
    buf_contents b1 = buf_contents b @ d"
proof -
  obtain m where m: "bdata b = Some m" using assms(2) by auto
  have len: "length m = unat (bsize b)" using assms(1) m by (simp add: buf_mem_def)
  have small: "unat (bindex b) + length d < 4294967296" "length d < 4294967296"
    using assms(3) unat_u32_less [of "bsize b"] by linarith+
  note idx = unat_add_of_nat_u32 [OF small(1)]
  show ?thesis
    using assms(1,3) m len small
    by (auto simp: bufncat_copy_def mem_write_Some idx buf_ok_def buf_mem_def buf_contents_def
        nth_append min_def split: if_splits)
qed

lemma bufncat_ok:
  assumes "buf_mem b" "\<forall>n < 2 ^ 32. avail n" "unat (bindex b) + length d + 1 < 2 ^ 32"
  shows "\<exists>b'. bufncat avail b d (of_nat (length d)) = Some (Done b') \<and> buf_ok b' \<and>
    buf_contents b' = buf_contents b @ d"
proof -
  have len: "unat (of_nat (length d) :: u32) = length d"
    using assms(3) by (intro unat_of_nat_u32) simp
  obtain b1 where b1: "bufncat_malloc avail b (of_nat (length d)) = Some (Done b1)" "buf_mem b1"
    "bdata b1 \<noteq> None" "bindex b1 = bindex b" "buf_contents b1 = buf_contents b"
    using bufncat_malloc_ok [OF assms(1,2), of "of_nat (length d)"] assms(3) len by auto
  obtain b2 where b2: "bufncat_realloc avail b1 (of_nat (length d)) = Some (Done b2)" "buf_mem b2"
    "bdata b2 \<noteq> None" "buf_contents b2 = buf_contents b"
    "unat (bindex b2) + length d + 1 \<le> unat (bsize b2)"
    using bufncat_realloc_ok [OF b1(2,3) assms(2), of "of_nat (length d)"] assms(3) len b1 by auto
  show ?thesis
    using bufncat_copy_ok [OF b2(2,3,5)] b1(1) b2(1,4) by (auto simp: bufncat_def)
qed


lemma bufncat_exit:
  "bdata b = None \<Longrightarrow> \<not> avail (max (unat (len + 1)) (unat (bsize b))) \<Longrightarrow>
   bufncat avail b d len = Some Exit"
  by (simp add: bufncat_def bufncat_malloc_def Let_def)

lemma cstr_append_NUL: "cstr (xs @ NUL # ys) = cstr xs"
  by (induction xs) (auto simp: cstr_def)

lemma init_prefix_append: "init_prefix (map Some xs @ m) = xs @ init_prefix m"
  by (induction xs) auto

lemma map_Some_the: "None \<notin> set xs \<Longrightarrow> map Some (map the xs) = xs"
  by (induction xs) auto

lemma init_prefix_ok:
  assumes "buf_ok b" "bdata b = Some m"
  shows "\<exists>r. init_prefix m = buf_contents b @ NUL # r"
proof -
  let ?i = "unat (bindex b)"
  have i: "?i < length m" "m ! ?i = Some NUL" "None \<notin> set (take ?i m)"
    using assms by (auto simp: buf_ok_def buf_mem_def)
  have "map Some (map the (take ?i m)) = take ?i m"
    using i(3) by (intro map_Some_the)
  then have "m = map Some (buf_contents b) @ Some NUL # drop (Suc ?i) m"
    using id_take_nth_drop [OF i(1)] i(2) assms(2) by (simp add: buf_contents_def)
  then show ?thesis by (metis init_prefix.simps(3) init_prefix_append)
qed

lemma bufdata_ok [buf_simps]:
  assumes "buf_ok b" "bdata b = Some m"
  shows "bufdata b = Some (cstr (buf_contents b))"
proof -
  obtain r where "init_prefix m = buf_contents b @ NUL # r"
    using init_prefix_ok [OF assms] by blast
  then show ?thesis using assms(2) by (simp add: bufdata_def cstr_append_NUL)
qed

subsection \<open>Lemmas: binary buffers\<close>

definition binary_ok :: "binary_buffer \<Rightarrow> bool" where
  "binary_ok b \<longleftrightarrow>
     (case bb_data b of
        None \<Rightarrow> current_in_use b = 0 \<and> current_size b = 0
      | Some m \<Rightarrow> length m = unat (current_size b) \<and>
          unat (current_in_use b) \<le> length m \<and>
          None \<notin> set (take (unat (current_in_use b)) m))"

lemma binary_ok_init [buf_simps]:
  "binary_ok INIT_BINARY_BUFFER" "binary_contents INIT_BINARY_BUFFER = []"
  by (simp_all add: binary_ok_def INIT_BINARY_BUFFER_def binary_contents_def)

lemma binary_ok_empty [buf_simps]:
  "binary_ok b \<Longrightarrow> binary_ok (binary_buf_empty b)" "binary_contents (binary_buf_empty b) = []"
  by (auto simp: binary_ok_def binary_buf_empty_def binary_contents_def split: option.splits)

lemma binary_ok_free [buf_simps]:
  "binary_ok (binary_buffree b)" "binary_contents (binary_buffree b) = []"
  by (simp_all add: binary_ok_def binary_buffree_def binary_contents_def)

lemma length_binary_contents:
  "binary_ok b \<Longrightarrow> length (binary_contents b) = unat (current_in_use b)"
  by (auto simp: binary_ok_def binary_contents_def split: option.splits)

lemma unat_max_u32: "unat (max a b :: u32) = max (unat a) (unat b)"
  by (simp add: max_def word_le_nat_alt)

lemma binary_copy_ok:
  assumes "binary_ok b" "bb_data b = Some m"
    "unat (current_in_use b) + length d \<le> unat (current_size b)"
  shows "\<exists>m1. mem_write m (unat (current_in_use b)) d = Some m1 \<and>
    binary_ok (b\<lparr>bb_data := Some m1, current_in_use := current_in_use b + of_nat (length d)\<rparr>) \<and>
    binary_contents (b\<lparr>bb_data := Some m1,
      current_in_use := current_in_use b + of_nat (length d)\<rparr>) = binary_contents b @ d"
proof -
  have small: "unat (current_in_use b) + length d < 4294967296"
    using assms(3) unat_u32_less [of "current_size b"] by linarith
  note idx = unat_add_of_nat_u32 [OF small]
  have len: "length m = unat (current_size b)" "unat (current_in_use b) \<le> length m"
    using assms(1,2) by (auto simp: binary_ok_def)
  then have "mem_write m (unat (current_in_use b)) d = Some (take (unat (current_in_use b)) m @
      map Some d @ drop (unat (current_in_use b) + length d) m)"
    using assms(3) by (intro mem_write_Some) simp
  then show ?thesis
    using assms len
    by (auto simp: idx binary_ok_def binary_contents_def comp_def)
qed

lemma binary_bufncat_ok:
  assumes "binary_ok b" "\<forall>n < 2 ^ 32. avail n" "unat (current_in_use b) + length d < 2 ^ 32"
  shows "\<exists>b'. binary_bufncat avail b d (of_nat (length d)) = Some (Done b') \<and> binary_ok b' \<and>
    binary_contents b' = binary_contents b @ d"
proof -
  let ?len = "of_nat (length d) :: u32"
  have len: "unat ?len = length d" using assms(3) by (intro unat_of_nat_u32) simp
  have av: "avail (unat w)" for w :: u32 using assms(2) unat_u32_less [of w] by simp
  define b1 where "b1 = (case bb_data b of Some m \<Rightarrow> b | None \<Rightarrow>
    b\<lparr>bb_data := Some (mem_alloc (unat (max BINARY_BUFFER_DEFAULT_SIZE ?len))),
      current_size := max BINARY_BUFFER_DEFAULT_SIZE ?len\<rparr>)"
  have b1: "binary_ok b1" "bb_data b1 \<noteq> None" "current_in_use b1 = current_in_use b"
    "binary_contents b1 = binary_contents b"
    using assms(1) by (auto simp: b1_def binary_ok_def binary_contents_def split: option.splits)
  then obtain m where m: "bb_data b1 = Some m" by auto
  define n where
    "n = max (BINARY_BUFFER_DEFAULT_SIZE + current_in_use b1) (?len + current_in_use b1)"
  define b2 where "b2 = (if ?len + current_in_use b1 > current_size b1
    then b1\<lparr>bb_data := Some (mem_realloc m (unat n)), current_size := n\<rparr> else b1)"
  have need: "unat (?len + current_in_use b1) = unat (current_in_use b) + length d"
    using assms(3) b1(3) len by (simp add: unat_add_u32)
  have cont: "unat (current_in_use b1) \<le> unat n"
    using need b1(3) by (simp add: n_def unat_max_u32)
  have b2: "binary_ok b2" "bb_data b2 \<noteq> None" "binary_contents b2 = binary_contents b"
    "current_in_use b2 = current_in_use b"
    "unat (current_in_use b2) + length d \<le> unat (current_size b2)"
    using b1 m need cont take_mem_realloc [OF cont, of m]
    by (auto simp: b2_def n_def unat_max_u32 binary_ok_def binary_contents_def word_less_nat_alt)
  then obtain m2 where m2: "bb_data b2 = Some m2" by auto
  have "binary_bufncat avail b d ?len = (do {
      m1 \<leftarrow> mem_write m2 (unat (current_in_use b2)) d;
      Some (Done (b2\<lparr>bb_data := Some m1, current_in_use := current_in_use b2 + ?len\<rparr>))
    })"
    using m m2 len
    by (auto simp: binary_bufncat_def b1_def b2_def n_def av Let_def split: option.splits if_splits)
  then show ?thesis using binary_copy_ok [OF b2(1) m2 b2(5)] b2(3) by auto
qed


subsection \<open>The contract of an appending buffer\<close>

text \<open>\<open>cat_all\<close> appends one piece after another, the way the clients build their output.\<close>

fun cat_all :: "('s \<Rightarrow> 'b list \<Rightarrow> 's run option) \<Rightarrow> 's \<Rightarrow> 'b list list \<Rightarrow> 's run option" where
  "cat_all cat s [] = Some (Done s)"
| "cat_all cat s (d # ds) = run_bind (cat s d) (\<lambda>s1. cat_all cat s1 ds)"

locale byte_sink =
  fixes cat :: "'s \<Rightarrow> 'b list \<Rightarrow> 's run option"
    and ok :: "'s \<Rightarrow> bool"
    and contents :: "'s \<Rightarrow> 'b list"
    and room :: nat
  assumes cat_ok: "ok s \<Longrightarrow> length (contents s) + length d < room \<Longrightarrow>
    \<exists>t. cat s d = Some (Done t) \<and> ok t \<and> contents t = contents s @ d"
begin

lemma cat_all_ok:
  "ok s \<Longrightarrow> length (contents s) + length (concat ds) < room \<Longrightarrow>
   \<exists>t. cat_all cat s ds = Some (Done t) \<and> ok t \<and> contents t = contents s @ concat ds"
proof (induction ds arbitrary: s)
  case (Cons d ds)
  obtain t where t: "cat s d = Some (Done t)" "ok t" "contents t = contents s @ d"
    using cat_ok [OF Cons.prems(1), of d] Cons.prems(2) by auto
  show ?case using Cons.IH [OF t(2)] Cons.prems(2) t by auto
qed simp

lemma cat_bind:
  assumes "ok s" "length (contents s) + length d < room"
    and "\<And>t. ok t \<Longrightarrow> contents t = contents s @ d \<Longrightarrow> P (f t)"
  shows "P (run_bind (cat s d) f)"
  using cat_ok [OF assms(1,2)] assms(3) by auto

end

text \<open>Both buffers keep the contract while there is memory: \<open>plenty\<close> is an allocator
  that does not fail.\<close>

definition plenty :: "nat \<Rightarrow> bool" where
  "plenty n = True"

definition text_cat :: "buffer \<Rightarrow> string \<Rightarrow> buffer run option" where
  "text_cat b d = bufncat plenty b d (of_nat (length d))"

definition binary_cat :: "binary_buffer \<Rightarrow> byte list \<Rightarrow> binary_buffer run option" where
  "binary_cat b d = binary_bufncat plenty b d (of_nat (length d))"

interpretation tbuf: byte_sink text_cat buf_ok buf_contents "2 ^ 32 - 1"
proof unfold_locales
  fix s and d :: string
  assume "buf_ok s" "length (buf_contents s) + length d < 2 ^ 32 - 1"
  then show "\<exists>t. text_cat s d = Some (Done t) \<and> buf_ok t \<and> buf_contents t = buf_contents s @ d"
    unfolding text_cat_def
    by (intro bufncat_ok) (auto simp: plenty_def length_buf_contents dest: buf_ok_mem)
qed

interpretation bbuf: byte_sink binary_cat binary_ok binary_contents "2 ^ 32"
proof unfold_locales
  fix s and d :: "byte list"
  assume "binary_ok s" "length (binary_contents s) + length d < 2 ^ 32"
  then show "\<exists>t. binary_cat s d = Some (Done t) \<and> binary_ok t \<and>
      binary_contents t = binary_contents s @ d"
    unfolding binary_cat_def
    by (intro binary_bufncat_ok) (auto simp: plenty_def length_binary_contents)
qed

subsection \<open>Lemmas: the operations on text buffers\<close>

lemma bufncpy_reset_ok:
  assumes "buf_ok b" "length d < 2 ^ 32 - 1"
  shows "\<exists>t. text_cat (b\<lparr>bindex := 0\<rparr>) d = Some (Done t) \<and> buf_ok t \<and> buf_contents t = d"
  using bufncat_ok [OF buf_mem_reset [OF buf_ok_mem [OF assms(1)]], of plenty d] assms(2)
  by (auto simp: text_cat_def plenty_def)

lemma bufcat_text_cat: "no_nul s \<Longrightarrow> bufcat plenty b s = text_cat b s"
  by (simp add: bufcat_def text_cat_def)

lemma bufcpy_text_cat: "no_nul s \<Longrightarrow> bufcpy plenty b s = text_cat (b\<lparr>bindex := 0\<rparr>) s"
  by (simp add: bufcpy_def text_cat_def)

lemma text_cat_alloc:
  assumes "text_cat b d = Some (Done t)"
  shows "bdata t \<noteq> None"
  using assms
  by (auto simp: text_cat_def bufncat_def run_bind_def bufncat_copy_def
      split: option.splits run.splits)

lemma bufcpy_ok:
  assumes "buf_ok b" "no_nul s" "length s < 2 ^ 32 - 1"
  shows "\<exists>t. bufcpy plenty b s = Some (Done t) \<and> buf_ok t \<and> buf_contents t = s \<and>
    bufdata t = Some s"
proof -
  obtain t where t: "text_cat (b\<lparr>bindex := 0\<rparr>) s = Some (Done t)" "buf_ok t" "buf_contents t = s"
    using bufncpy_reset_ok [OF assms(1,3)] by blast
  obtain m where "bdata t = Some m" using text_cat_alloc [OF t(1)] by auto
  then have "bufdata t = Some s" using bufdata_ok [OF t(2)] t(3) assms(2) by simp
  then show ?thesis using t assms(2) by (auto simp: bufcpy_text_cat)
qed

lemma bufcat_ok:
  assumes "buf_ok b" "no_nul s" "length (buf_contents b) + length s < 2 ^ 32 - 1"
  shows "\<exists>t. bufcat plenty b s = Some (Done t) \<and> buf_ok t \<and> buf_contents t = buf_contents b @ s \<and>
    bdata t \<noteq> None"
  using tbuf.cat_ok [OF assms(1,3)] text_cat_alloc assms(2) by (fastforce simp: bufcat_text_cat)

lemma bufprefix_ok:
  assumes "buf_ok b" "bdata b \<noteq> None" "no_nul p" "no_nul (buf_contents b)"
    "length p + length (buf_contents b) < 2 ^ 32 - 1"
  shows "\<exists>t. bufprefix plenty b p = Some (Done t) \<and> buf_ok t \<and>
    buf_contents t = p @ buf_contents b"
proof -
  obtain x1 where x1: "bufcpy plenty INIT_BUFFER p = Some (Done x1)" "buf_ok x1"
    "buf_contents x1 = p"
    using bufcpy_ok [OF buf_ok_init(1) assms(3)] assms(5) by auto
  have d: "bufdata b = Some (buf_contents b)"
    using bufdata_ok [OF assms(1)] assms(2,4) by auto
  obtain x2 where x2: "bufcat plenty x1 (buf_contents b) = Some (Done x2)" "buf_ok x2"
    "buf_contents x2 = p @ buf_contents b" "bdata x2 \<noteq> None"
    using bufcat_ok [OF x1(2) assms(4)] x1(3) assms(5) by auto
  have "bufdata x2 = Some (p @ buf_contents b)"
    using bufdata_ok [OF x2(2)] x2(3,4) assms(3,4) by auto
  moreover obtain t where "bufcpy plenty b (p @ buf_contents b) = Some (Done t)" "buf_ok t"
    "buf_contents t = p @ buf_contents b"
    using bufcpy_ok [OF assms(1), of "p @ buf_contents b"] assms(3,4,5) by auto
  ultimately show ?thesis using x1 x2 d by (auto simp: bufprefix_def)
qed

text \<open>Reading a file: the pieces \<open>fgets\<close> delivers are appended without loss.\<close>

lemma read_loop_ok:
  assumes "buf_ok b" "no_nul s" "length (buf_contents b) + length s < 2 ^ 32 - 1"
  shows "\<exists>t. read_loop plenty b s = Some (Done t) \<and> buf_ok t \<and>
    buf_contents t = buf_contents b @ s"
  using assms
proof (induction s arbitrary: b rule: length_induct)
  case (1 s)
  show ?case
  proof (cases s)
    case (Cons c s1)
    obtain l r where lr: "fgets_take 1023 s = (l, r)" by fastforce
    have s: "l @ r = s" using fgets_take_append [OF lr] .
    have "length r < length s" using fgets_take_shorter [of 1023 c s1 l r] lr Cons by simp
    moreover obtain t where "bufcat plenty b l = Some (Done t)" "buf_ok t"
      "buf_contents t = buf_contents b @ l"
      using bufcat_ok [OF 1(2), of l] 1(3,4) s [symmetric] by auto
    moreover have "no_nul r" "length (buf_contents b) + length l + length r < 2 ^ 32 - 1"
      using 1(3,4) s [symmetric] by auto
    moreover have "buf_contents b @ l @ r = buf_contents b @ s" using s by simp
    moreover have "read_loop plenty b s =
      run_bind (bufcat plenty b l) (\<lambda>b. read_loop plenty b r)"
      using lr Cons by (simp del: fgets_take.simps)
    ultimately show ?thesis using 1(1) by (metis append_assoc length_append run_bind_simps(3))
  qed (use 1 in auto)
qed

text \<open>The case mappings touch the whole allocation and keep its length.\<close>

lemma toupper_NUL [simp]: "toupper NUL = NUL" "tolower NUL = NUL"
  by (simp_all add: toupper_def tolower_def)

lemma buftoupper_ok:
  assumes "buf_ok b" "bdata b = Some m"
  shows "\<exists>t. buftoupper b = Some t \<and> buf_ok t \<and> buf_contents t = map toupper (buf_contents b)"
proof -
  have "None \<notin> set (take (unat (bindex b)) m)" "length m = unat (bsize b)"
    "unat (bindex b) < length m" "m ! unat (bindex b) = Some NUL"
    using assms by (auto simp: buf_ok_def buf_mem_def)
  moreover have "None \<notin> set xs \<Longrightarrow> map (the \<circ> map_option f) xs = map (f \<circ> the) xs" for f xs
    by (induction xs) (auto simp: option.map_sel)
  ultimately show ?thesis using assms(2)
    by (auto simp: buftoupper_def buf_ok_def buf_mem_def buf_contents_def take_map comp_def)
qed


section \<open>Properties\<close>

lemma bufncat_alloc:
  assumes "bufncat avail b d len = Some (Done t)"
  shows "bdata t \<noteq> None"
  using assms
  by (auto simp: bufncat_def run_bind_def bufncat_copy_def split: option.splits run.splits)

lemma read_loop_alloc:
  "read_loop avail b s = Some (Done t) \<Longrightarrow> bdata b \<noteq> None \<Longrightarrow> bdata t \<noteq> None"
proof (induction avail b s rule: read_loop.induct)
  case (2 avail b c s)
  obtain l r where lr: "fgets_take 1023 (c # s) = (l, r)" by force
  then obtain b1 where "bufcat avail b l = Some (Done b1)" "read_loop avail b1 r = Some (Done t)"
    using 2(2) by (auto simp: run_bind_def simp del: fgets_take.simps split: option.splits run.splits)
  then show ?case using 2(1) [OF lr [symmetric] refl] bufncat_alloc by (auto simp: bufcat_def)
qed simp

text \<open>Reading a file of any length into any buffer: the lines of at most 1023 characters
  that \<open>fgets\<close> hands out add up to the whole text of the file, and a file that cannot be
  opened leaves the buffer alone and returns 1.\<close>

theorem buffilecpyread_whole_file:
  assumes "buf_ok b" "no_nul s" "length s < 2 ^ 32 - 1"
  shows "(\<exists>t. buffilecpyread plenty b (Some s) = Some (Done (t, 0)) \<and> buf_ok t \<and>
      buf_contents t = s \<and> bufdata t = Some s) \<and>
    buffilecpyread plenty b None = Some (Done (b, 1))"
proof -
  obtain t where t: "bufcpy plenty b [] = Some (Done t)" "buf_ok t" "buf_contents t = []"
    "bufdata t = Some []"
    using bufcpy_ok [OF assms(1), of "[]"] by auto
  then have d: "bdata t \<noteq> None" by (auto simp: bufdata_def split: option.splits)
  obtain u where u: "read_loop plenty t s = Some (Done u)" "buf_ok u" "buf_contents u = s"
    using read_loop_ok [OF t(2) assms(2)] assms(3) t(3) by auto
  have "bdata u \<noteq> None" using read_loop_alloc [OF u(1) d] .
  then have "bufdata u = Some s" using u(2,3) assms(2) by (auto simp: bufdata_ok)
  then show ?thesis using t(1) u by (simp add: buffilecpyread_def)
qed

theorem buffilecpyread_whole_file_witness:
  "\<exists>t. buffilecpyread plenty INIT_BUFFER (Some ''if'') = Some (Done (t, 0)) \<and> buf_contents t = ''if''"
  using buffilecpyread_whole_file [of INIT_BUFFER "''if''"] buf_ok_init by auto

text \<open>Any sequence of appends to a text buffer, from any state of it, yields the
  concatenation of the pieces, keeps the buffer's invariant and the terminating NUL, as long as
  the total stays below the range of \<open>uint32_t\<close> and memory is available.\<close>

theorem text_buffer_concat:
  assumes "buf_ok b" "length (buf_contents b) + length (concat ds) < 2 ^ 32 - 1"
  shows "\<exists>t. cat_all (\<lambda>b d. bufncat plenty b d (of_nat (length d))) b ds = Some (Done t) \<and>
    buf_ok t \<and> buf_contents t = buf_contents b @ concat ds"
  using tbuf.cat_all_ok [OF assms] by (simp add: text_cat_def [abs_def])

theorem text_buffer_concat_witness:
  "\<exists>t. cat_all (\<lambda>b d. bufncat plenty b d (of_nat (length d))) INIT_BUFFER [''S1'', ''F13''] =
    Some (Done t) \<and> buf_contents t = ''S1F13''"
  using text_buffer_concat [of INIT_BUFFER "[''S1'', ''F13'']"] buf_ok_init by auto

text \<open>The same contract for the binary buffers that messages are built in.\<close>

theorem binary_buffer_concat:
  assumes "binary_ok b" "length (binary_contents b) + length (concat ds) < 2 ^ 32"
  shows "\<exists>t. cat_all (\<lambda>b d. binary_bufncat plenty b d (of_nat (length d))) b ds = Some (Done t) \<and>
    binary_ok t \<and> binary_contents t = binary_contents b @ concat ds \<and>
    unat (binary_buffer_num_data t) = length (binary_contents b) + length (concat ds)"
proof -
  obtain t where "cat_all binary_cat b ds = Some (Done t)" "binary_ok t"
    "binary_contents t = binary_contents b @ concat ds"
    using bbuf.cat_all_ok [OF assms] by blast
  then show ?thesis
    using length_binary_contents [of t]
    by (auto simp: binary_cat_def [abs_def] binary_buffer_num_data_def)
qed

theorem binary_buffer_concat_witness:
  "\<exists>t. cat_all (\<lambda>b d. binary_bufncat plenty b d (of_nat (length d))) INIT_BINARY_BUFFER
      [[1, 2], [3]] = Some (Done t) \<and> binary_contents t = [1, 2, 3]"
  using binary_buffer_concat [of INIT_BINARY_BUFFER "[[1, 2], [3]]"] binary_ok_init by auto

end
