(* ===== verification/Parse.thy ===== *)
theory Parse
  imports Prelude
begin

section \<open>The tokenizer (parse.c)\<close>

text \<open>
  \<open>parse\<close> takes one token off the front of a text: its contents, its kind and the number of
  characters it used. The text is the list of characters before the terminating NUL, so
  \<open>[]\<close> is a pointer at the NUL, and a step beyond it is \<open>None\<close>. \<open>PP_ERROR\<close> ends the
  process. Every loop of the source is a function of its own; \<open>parse_loop\<close> is the outer
  one. It calls \<open>isdigit\<close> and its relatives in the C locale.
\<close>

datatype parse_types =
    PT_OTHER | PT_NUMBER | PT_NULL | PT_END_OF_LINE | PT_NAME | PT_STRING | PT_CONSTANT
  | PT_POUND_INCLUDE | PT_POUND_IFDEF | PT_POUND_ELSE | PT_POUND_ENDIF | PT_POUND_DEFINE
  | PT_COMMENT | PT_NOT_ASSIGNED_YET

subsection \<open>Characters\<close>

definition isalpha :: "char \<Rightarrow> bool" where
  "isalpha c \<longleftrightarrow> 65 \<le> (of_char c :: nat) \<and> of_char c \<le> (90 :: nat) \<or>
     97 \<le> (of_char c :: nat) \<and> of_char c \<le> (122 :: nat)"

definition isalnum :: "char \<Rightarrow> bool" where
  "isalnum c \<longleftrightarrow> is_digit c \<or> isalpha c"

definition xdigit_val :: "char \<Rightarrow> nat option" where
  "xdigit_val c =
     (if is_digit c then Some (of_char c - 48)
      else if 65 \<le> (of_char c :: nat) \<and> of_char c \<le> (70 :: nat) then Some (of_char c - 55)
      else if 97 \<le> (of_char c :: nat) \<and> of_char c \<le> (102 :: nat) then Some (of_char c - 87)
      else None)"

definition isxdigit :: "char \<Rightarrow> bool" where
  "isxdigit c \<longleftrightarrow> xdigit_val c \<noteq> None"

definition name_chr :: "char \<Rightarrow> bool" where
  "name_chr c \<longleftrightarrow> isalnum c \<or> c \<in> set ''$_.{}[]''"

definition white :: "char \<Rightarrow> bool" where
  "white c \<longleftrightarrow> c = CHR '' '' \<or> 9 \<le> (of_char c :: nat) \<and> of_char c \<le> (13 :: nat)"

text \<open>\<^verbatim>\<open>sscanf (buf, "%2x", &i)\<close> with \<open>i = 0\<close> before: blanks are skipped, a sign counts as
  one of the two characters, and nothing is stored when there is no digit.\<close>

fun hex_digits :: "nat \<Rightarrow> nat \<Rightarrow> string \<Rightarrow> nat" where
  "hex_digits 0 v s = v"
| "hex_digits (Suc n) v [] = v"
| "hex_digits (Suc n) v (c # s) =
     (case xdigit_val c of None \<Rightarrow> v | Some d \<Rightarrow> hex_digits n (16 * v + d) s)"

definition sscanf_2x :: "string \<Rightarrow> u32" where
  "sscanf_2x s =
     (case dropWhile white s of
        [] \<Rightarrow> 0
      | c # r \<Rightarrow>
          if c = CHR ''-'' then - of_nat (hex_digits 1 0 r)
          else if c = CHR ''+'' then of_nat (hex_digits 1 0 r)
          else of_nat (hex_digits 2 0 (c # r)))"

subsection \<open>The inner loops\<close>

text \<open>A scan carries the token so far, the count and the rest of the text.\<close>

type_synonym scan = "string \<times> nat \<times> string"

fun number_tail :: "string \<Rightarrow> string \<Rightarrow> nat \<Rightarrow> string \<Rightarrow> scan" where
  "number_tail no_parse tok cnt [] = (tok, cnt, [])"
| "number_tail no_parse tok cnt (c # s) =
     (if is_digit c \<or> c = CHR ''.'' then number_tail no_parse (tok @ [c]) (cnt + 1) s
      else if (c = CHR ''e'' \<or> c = CHR ''E'') \<and> s \<noteq> [] \<and> (hd s = CHR ''+'' \<or> hd s = CHR ''-'')
      then number_tail no_parse (tok @ [c, hd s]) (cnt + 2) (tl s)
      else if c \<in> set no_parse then number_tail no_parse (tok @ [c]) (cnt + 1) s
      else (tok, cnt, c # s))"

fun name_tail :: "string \<Rightarrow> nat \<Rightarrow> string \<Rightarrow> scan" where
  "name_tail tok cnt [] = (tok, cnt, [])"
| "name_tail tok cnt (c # s) =
     (if name_chr c then name_tail (tok @ [c]) (cnt + 1) s else (tok, cnt, c # s))"

text \<open>After the opening quote. At the closing quote the pointer stays and the count moves.\<close>

fun string_tail :: "string \<Rightarrow> nat \<Rightarrow> string \<Rightarrow> (string \<times> nat) run option" where
  "string_tail tok cnt [] = Some (Done (tok, cnt))"
| "string_tail tok cnt (c # s) =
     (if c = CHR 0x22 then Some (Done (tok, cnt + 1))
      else if c = CHR 0x5C then
        (case s of
           [] \<Rightarrow> None
         | d # s1 \<Rightarrow>
             if d = CHR ''n'' then string_tail (tok @ [CHR 0x5C, CHR ''n'']) (cnt + 2) s1
             else if d = CHR ''r'' then string_tail (tok @ [CHR 0x5C, CHR ''r'']) (cnt + 2) s1
             else if d = CHR ''x'' then
               (case s1 of
                  a # b # s2 \<Rightarrow>
                    string_tail (tok @ [char_of (unat (sscanf_2x s1))]) (cnt + 4) s2
                | _ \<Rightarrow> None)
             else string_tail (tok @ [d]) (cnt + 2) s1)
      else if c = CHR 0x0A then Some Exit
      else string_tail (tok @ [c]) (cnt + 1) s)"

fun constant_tail :: "string \<Rightarrow> nat \<Rightarrow> string \<Rightarrow> (string \<times> nat) run option" where
  "constant_tail tok cnt [] = Some (Done (tok, cnt))"
| "constant_tail tok cnt (c # s) =
     (if c = CHR 0x27 then Some (Done (tok, cnt + 1))
      else if c = CHR 0x5C then
        (case s of [] \<Rightarrow> None | d # s1 \<Rightarrow> constant_tail (tok @ [c, d]) (cnt + 2) s1)
      else if s \<noteq> [] \<and> hd s = CHR 0x0A then Some Exit
      else constant_tail (tok @ [c]) (cnt + 1) s)"

text \<open>The loops of the directives have no test for the end of the text: where the condition
  \<open>P\<close> holds of the NUL, the loop runs off the text.\<close>

fun copy_while :: "(char \<Rightarrow> bool) \<Rightarrow> (char \<Rightarrow> bool) \<Rightarrow> string \<Rightarrow> nat \<Rightarrow> string \<Rightarrow> scan option" where
  "copy_while P keep tok cnt [] = (if P (CHR 0x00) then None else Some (tok, cnt, []))"
| "copy_while P keep tok cnt (c # s) =
     (if P c then copy_while P keep (if keep c then tok @ [c] else tok) (cnt + 1) s
      else Some (tok, cnt, c # s))"

fun define_tail :: "string \<Rightarrow> nat \<Rightarrow> string \<Rightarrow> (string \<times> nat) option" where
  "define_tail tok cnt [] = None"
| "define_tail tok cnt (c # s) =
     (if c = CHR 0x0A then Some (tok, cnt)
      else if c = CHR 0x5C then
        (case s of [] \<Rightarrow> None | d # s1 \<Rightarrow> define_tail (tok @ [c, d]) (cnt + 2) s1)
      else define_tail (tok @ [c]) (cnt + 1) s)"

text \<open>The rest of a line, its newline included.\<close>

fun line_tail :: "nat \<Rightarrow> string \<Rightarrow> nat" where
  "line_tail cnt [] = cnt"
| "line_tail cnt (c # s) =
     (if s \<noteq> [] \<and> hd s = CHR 0x0A then cnt + 2 else line_tail (cnt + 1) s)"

fun comment_tail :: "string \<Rightarrow> nat \<Rightarrow> string \<Rightarrow> (string \<times> nat) run option" where
  "comment_tail tok cnt [] = None"
| "comment_tail tok cnt (c # s) =
     (if c = CHR ''/'' \<and> s \<noteq> [] \<and> hd s = CHR ''*'' then Some Exit
      else if c = CHR ''*'' \<and> s \<noteq> [] \<and> hd s = CHR ''/'' then Some (Done (tok @ [c, hd s], cnt + 2))
      else comment_tail (tok @ [c]) (cnt + 1) s)"

subsection \<open>The branches that end the token\<close>

type_synonym token = "string \<times> parse_types \<times> nat"

definition parse_include :: "string \<Rightarrow> nat \<Rightarrow> string \<Rightarrow> token option" where
  "parse_include tok cnt buf = do {
     (_, cnt, buf) \<leftarrow> copy_while (\<lambda>c. c \<noteq> CHR '' '') (\<lambda>c. False) tok cnt buf;
     (_, cnt, buf) \<leftarrow> copy_while (\<lambda>c. c = CHR '' '') (\<lambda>c. False) tok cnt buf;
     (tok, cnt, buf) \<leftarrow> copy_while (\<lambda>c. c \<noteq> CHR 0x0A \<and> c \<noteq> CHR '' '')
                          (\<lambda>c. c \<notin> {CHR ''<'', CHR ''>'', CHR 0x22}) tok cnt buf;
     (_, cnt, buf) \<leftarrow> copy_while (\<lambda>c. c \<noteq> CHR 0x0A) (\<lambda>c. False) tok cnt buf;
     Some (tok, PT_POUND_INCLUDE, cnt)
   }"

definition parse_define :: "string \<Rightarrow> nat \<Rightarrow> string \<Rightarrow> token option" where
  "parse_define tok cnt buf = do {
     (_, cnt, buf) \<leftarrow> copy_while (\<lambda>c. c \<noteq> CHR '' '') (\<lambda>c. False) tok cnt buf;
     (_, cnt, buf) \<leftarrow> copy_while (\<lambda>c. c = CHR '' '') (\<lambda>c. False) tok cnt buf;
     (tok, cnt) \<leftarrow> define_tail tok cnt buf;
     Some (tok, PT_POUND_DEFINE, cnt)
   }"

definition parse_ifdef :: "string \<Rightarrow> nat \<Rightarrow> string \<Rightarrow> token option" where
  "parse_ifdef tok cnt buf = do {
     (_, cnt, buf) \<leftarrow> copy_while (\<lambda>c. c \<noteq> CHR '' '') (\<lambda>c. False) tok cnt buf;
     (_, cnt, buf) \<leftarrow> copy_while (\<lambda>c. c = CHR '' '') (\<lambda>c. False) tok cnt buf;
     (tok, cnt, buf) \<leftarrow> copy_while (\<lambda>c. c \<noteq> CHR 0x0A \<and> c \<noteq> CHR '' '') (\<lambda>c. True) tok cnt buf;
     (_, cnt, buf) \<leftarrow> copy_while (\<lambda>c. c \<noteq> CHR 0x0A) (\<lambda>c. False) tok cnt buf;
     Some (tok, PT_POUND_IFDEF, cnt)
   }"

text \<open>The directives; the inner \<open>None\<close> says that the text starts with none of them.\<close>

definition parse_pound :: "string \<Rightarrow> nat \<Rightarrow> string \<Rightarrow> token option option" where
  "parse_pound tok cnt buf =
     (if starts ''#include '' buf then Some (parse_include tok cnt buf)
      else if starts ''#define '' buf then Some (parse_define tok cnt buf)
      else if starts ''#ifdef '' buf then Some (parse_ifdef tok cnt buf)
      else if starts (''#else'' @ [CHR 0x0A]) buf \<or> starts ''#else '' buf
      then Some (Some (tok, PT_POUND_ELSE, cnt + 5))
      else if starts (''#endif'' @ [CHR 0x0A]) buf \<or> starts ''#endif '' buf
      then Some (Some (tok, PT_POUND_ENDIF, cnt + 6))
      else None)"

definition parse_comment :: "string \<Rightarrow> nat \<Rightarrow> string \<Rightarrow> token run option option" where
  "parse_comment tok cnt buf =
     (if starts ''#'' buf \<or> starts ''//'' buf
      then Some (Some (Done (tok, PT_END_OF_LINE, line_tail cnt buf)))
      else if starts ''/*'' buf
      then Some (run_bind (comment_tail (tok @ ''/*'') (cnt + 2) (drop 2 buf))
                   (\<lambda>(t, n). Some (Done (t, PT_COMMENT, n))))
      else None)"

text \<open>Operators, of one character or of two; a token in progress ends before them.\<close>

definition parse_relation :: "string \<Rightarrow> nat \<Rightarrow> parse_types \<Rightarrow> char \<Rightarrow> string \<Rightarrow> token" where
  "parse_relation tok cnt ty c s =
     (if tok = [] then
        (if s \<noteq> [] \<and> hd s = CHR ''='' then ([c, hd s], PT_OTHER, cnt + 2)
         else ([c], PT_OTHER, cnt + 1))
      else (tok, ty, cnt))"

definition parse_operator :: "string \<Rightarrow> nat \<Rightarrow> parse_types \<Rightarrow> char \<Rightarrow> token" where
  "parse_operator tok cnt ty c =
     (if tok \<noteq> [] then (tok, ty, cnt) else ([c], PT_OTHER, cnt + 1))"

text \<open>\<open>chr0\<close> is the character at the pointer, the NUL at the end of the text. The test
  \<^verbatim>\<open>strchr ("nr", *buf)\<close> holds of the NUL.\<close>

definition chr0 :: "string \<Rightarrow> char" where
  "chr0 s = (case s of [] \<Rightarrow> CHR 0x00 | c # _ \<Rightarrow> c)"

definition parse_escape :: "string \<Rightarrow> nat \<Rightarrow> parse_types \<Rightarrow> char \<Rightarrow> string \<Rightarrow> token" where
  "parse_escape tok cnt ty c s =
     (if tok \<noteq> [] then (tok, ty, cnt)
      else if chr0 s \<in> {CHR ''n'', CHR ''r'', CHR 0x00}
      then ([c, chr0 s], PT_OTHER, cnt + 2)
      else if chr0 s = CHR ''x'' then
        (if isxdigit (chr0 (tl s)) then
           (if isxdigit (chr0 (drop 2 s))
            then ([c, CHR ''x'', chr0 (tl s), chr0 (drop 2 s)], PT_OTHER, cnt + 4)
            else ([c, CHR ''x'', CHR ''0'', chr0 (drop 2 s)], PT_OTHER, cnt + 2))
         else ([c, CHR ''x''], PT_OTHER, cnt + 1))
      else ([c], PT_OTHER, cnt + 1))"

definition parse_eol :: "string \<Rightarrow> nat \<Rightarrow> parse_types \<Rightarrow> char \<Rightarrow> string \<Rightarrow> token" where
  "parse_eol tok cnt ty c s =
     (if tok \<noteq> [] then (tok, ty, cnt)
      else if c = CHR 0x0D \<and> s \<noteq> [] \<and> hd s = CHR 0x0A
      then ([CHR 0x0A], PT_END_OF_LINE, cnt + 1)
      else if c = CHR 0x0A then ([c], PT_END_OF_LINE, cnt + 1)
      else if c = CHR '';'' then ('';'', PT_END_OF_LINE, cnt + 1)
      else (tok, PT_END_OF_LINE, cnt))"


subsection \<open>The outer loop\<close>

lemma number_tail_shorter:
  "number_tail np tok cnt s = (t, n, r) \<Longrightarrow>
   cnt \<le> n \<and> length r \<le> length s \<and> length r + n = length s + cnt"
proof (induction np tok cnt s rule: number_tail.induct)
  case (2 np tok cnt c s)
  then show ?case by (cases s) (auto split: if_splits)
qed simp

lemma name_tail_shorter:
  "name_tail tok cnt s = (t, n, r) \<Longrightarrow>
   cnt \<le> n \<and> length r \<le> length s \<and> length r + n = length s + cnt"
  by (induction tok cnt s rule: name_tail.induct) (auto split: if_splits)

text \<open>A quoted token, and the branches from the directives down. \<open>None\<close> of \<open>parse_last\<close>: the
  character is skipped.\<close>

definition parse_quoted :: "string \<Rightarrow> nat \<Rightarrow> char \<Rightarrow> string \<Rightarrow> token run option" where
  "parse_quoted tok cnt c s =
     (if c = CHR 0x22
      then run_bind (string_tail tok (cnt + 1) s) (\<lambda>(t, n). Some (Done (t, PT_STRING, n)))
      else run_bind (constant_tail tok (cnt + 1) s) (\<lambda>(t, n). Some (Done (t, PT_CONSTANT, n))))"

definition parse_mark :: "string \<Rightarrow> nat \<Rightarrow> parse_types \<Rightarrow> char \<Rightarrow> string \<Rightarrow> token option" where
  "parse_mark tok cnt ty c s =
     (if c \<in> set ''<>=!'' then Some (parse_relation tok cnt ty c s)
      else if c \<in> set ''(),$-+/*&|^:.~'' then Some (parse_operator tok cnt ty c)
      else if c = CHR 0x5C then Some (parse_escape tok cnt ty c s)
      else if c \<in> {CHR 0x0A, CHR 0x0D, CHR '';''} then Some (parse_eol tok cnt ty c s)
      else if tok = [] then None
      else Some (tok, ty, cnt))"

definition parse_last ::
    "bool \<Rightarrow> bool \<Rightarrow> string \<Rightarrow> nat \<Rightarrow> parse_types \<Rightarrow> char \<Rightarrow> string \<Rightarrow> token run option option" where
  "parse_last com pp tok cnt ty c s =
     (case if pp then parse_pound tok cnt (c # s) else None of
        Some r \<Rightarrow> Some (map_option Done r)
      | None \<Rightarrow>
          (case if com then parse_comment tok cnt (c # s) else None of
             Some r \<Rightarrow> Some r
           | None \<Rightarrow> map_option (\<lambda>r. Some (Done r)) (parse_mark tok cnt ty c s)))"

function parse_loop ::
    "string \<Rightarrow> bool \<Rightarrow> bool \<Rightarrow> string \<Rightarrow> nat \<Rightarrow> parse_types \<Rightarrow> string \<Rightarrow> token run option" where
  "parse_loop np com pp tok cnt ty [] = Some (Done (tok, ty, cnt))"
| "parse_loop np com pp tok cnt ty (c # s) =
     (if is_digit c then
        (case number_tail np (tok @ [c]) (cnt + 1) s of
           (t, n, r) \<Rightarrow> parse_loop np com pp t n PT_NUMBER r)
      else if name_chr c then
        (case name_tail (tok @ [c]) (cnt + 1) s of
           (t, n, r) \<Rightarrow> parse_loop np com pp t n PT_NAME r)
      else if c = CHR 0x22 \<or> c = CHR 0x27 then parse_quoted tok cnt c s
      else if c \<in> set np then parse_loop np com pp (tok @ [c]) (cnt + 1) PT_OTHER s
      else (case parse_last com pp tok cnt ty c s of
              Some r \<Rightarrow> r
            | None \<Rightarrow> parse_loop np com pp tok (cnt + 1) ty s))"
  by pat_completeness auto
termination
  by (relation "measure (\<lambda>(np, com, pp, tok, cnt, ty, s). length s)")
    (auto dest!: number_tail_shorter [OF sym] name_tail_shorter [OF sym])

declare parse_loop.simps [simp del]

text \<open>The count is a \<open>uint32_t\<close> in the source; a text is shorter than \<open>2 ^ 32\<close>.\<close>

definition parse :: "string \<Rightarrow> string \<Rightarrow> bool \<Rightarrow> bool \<Rightarrow> token run option" where
  "parse buf no_parse comment_flag pp_flag =
     parse_loop no_parse comment_flag pp_flag [] 0 PT_NULL buf"

definition show_parse_type :: "parse_types \<Rightarrow> string run" where
  "show_parse_type ty = (case ty of
     PT_NAME \<Rightarrow> Done ''Name'' | PT_OTHER \<Rightarrow> Done ''Other'' | PT_NUMBER \<Rightarrow> Done ''Number''
   | PT_NULL \<Rightarrow> Done ''Null'' | PT_STRING \<Rightarrow> Done ''String'' | PT_CONSTANT \<Rightarrow> Done ''Constant''
   | PT_END_OF_LINE \<Rightarrow> Done ''End of line'' | PT_POUND_INCLUDE \<Rightarrow> Done ''#include''
   | PT_POUND_DEFINE \<Rightarrow> Done ''#define'' | PT_POUND_IFDEF \<Rightarrow> Done ''#ifdef''
   | PT_POUND_ELSE \<Rightarrow> Done ''#else'' | PT_POUND_ENDIF \<Rightarrow> Done ''#endif''
   | PT_COMMENT \<Rightarrow> Done ''comment'' | PT_NOT_ASSIGNED_YET \<Rightarrow> Exit)"

subsection \<open>Lemmas: the count\<close>

lemma copy_while_shorter:
  "copy_while P k tok cnt s = Some (t, n, r) \<Longrightarrow>
   cnt \<le> n \<and> length r \<le> length s \<and> length r + n = length s + cnt"
  by (induction P k tok cnt s rule: copy_while.induct) (auto split: if_splits)

lemma define_tail_count: "define_tail tok cnt s = Some (t, n) \<Longrightarrow> cnt \<le> n \<and> n \<le> length s + cnt"
  by (induction tok cnt s rule: define_tail.induct) (force split: if_splits list.splits)+

lemma string_tail_count:
  "string_tail tok cnt s = Some (Done (t, n)) \<Longrightarrow> cnt \<le> n \<and> n \<le> length s + cnt"
  by (induction tok cnt s rule: string_tail.induct)
    (force split: if_splits list.splits)+

lemma constant_tail_count:
  "constant_tail tok cnt s = Some (Done (t, n)) \<Longrightarrow> cnt \<le> n \<and> n \<le> length s + cnt"
  by (induction tok cnt s rule: constant_tail.induct) (force split: if_splits list.splits)+

lemma line_tail_count: "s \<noteq> [] \<Longrightarrow> cnt < line_tail cnt s \<and> line_tail cnt s \<le> length s + cnt"
proof (induction cnt s rule: line_tail.induct)
  case (2 cnt c s)
  then show ?case by (cases s) auto
qed simp

lemma comment_tail_count:
  "comment_tail tok cnt s = Some (Done (t, n)) \<Longrightarrow> cnt < n \<and> n \<le> length s + cnt"
proof (induction tok cnt s rule: comment_tail.induct)
  case (2 tok cnt c s)
  then show ?case by (cases s) (auto split: if_splits)
qed simp

lemma starts_length: "starts w s \<Longrightarrow> length w \<le> length s"
  unfolding starts_def by (metis length_take min.cobounded1)

lemma parse_pound_count:
  "parse_pound tok cnt s = Some (Some (t, ty, n)) \<Longrightarrow> cnt \<le> n \<and> n \<le> length s + cnt"
  by (auto simp: parse_pound_def parse_include_def parse_define_def parse_ifdef_def
      split: if_splits dest!: copy_while_shorter define_tail_count starts_length)

lemma parse_comment_count:
  "parse_comment tok cnt s = Some (Some (Done (t, ty, n))) \<Longrightarrow> cnt < n \<and> n \<le> length s + cnt"
  using line_tail_count [of s cnt] comment_tail_count [of "tok @ ''/*''" "cnt + 2" "drop 2 s"]
    starts_length [of "''/*''" s]
  by (cases "s = []")
    (auto simp: parse_comment_def run_bind_def starts_def
      split: if_splits option.splits run.splits)


lemma number_tail_split:
  "number_tail np tok cnt s = (t, n, r) \<Longrightarrow> \<exists>p. s = p @ r \<and> t = tok @ p \<and> n = cnt + length p"
proof (induction np tok cnt s rule: number_tail.induct)
  case (2 np tok cnt c s)
  then show ?case by (cases s) (auto split: if_splits)
qed simp

lemma name_tail_split:
  "name_tail tok cnt s = (t, n, r) \<Longrightarrow>
   \<exists>p. s = p @ r \<and> t = tok @ p \<and> n = cnt + length p \<and> list_all name_chr p"
  by (induction tok cnt s rule: name_tail.induct) (auto split: if_splits)

lemma name_tail_append:
  "list_all name_chr p \<Longrightarrow> (r = [] \<or> \<not> name_chr (hd r)) \<Longrightarrow>
   name_tail tok cnt (p @ r) = (tok @ p, cnt + length p, r)"
proof (induction p arbitrary: tok cnt)
  case Nil
  then show ?case by (cases r) auto
qed simp

lemma parse_operator_count:
  "parse_relation tok cnt ty c s = (t, ty', n) \<Longrightarrow> cnt \<le> n \<and> n \<le> Suc (length s) + cnt"
  "parse_operator tok cnt ty c = (t, ty', n) \<Longrightarrow> cnt \<le> n \<and> n \<le> Suc (length s) + cnt"
  "parse_eol tok cnt ty c s = (t, ty', n) \<Longrightarrow> cnt \<le> n \<and> n \<le> Suc (length s) + cnt"
  by (cases s; auto simp: parse_relation_def parse_operator_def parse_eol_def split: if_splits)+

lemma parse_escape_count:
  "parse_escape tok cnt ty c s = (t, ty', n) \<Longrightarrow>
   cnt \<le> n \<and> (s \<noteq> [] \<longrightarrow> n \<le> Suc (length s) + cnt)"
  by (cases s; cases "tl s"; cases "tl (tl s)")
    (auto simp: parse_escape_def chr0_def isxdigit_def xdigit_val_def is_digit_def
      drop_Suc split: if_splits list.splits)

lemma parse_quoted_count:
  "parse_quoted tok cnt c s = Some (Done (t, ty, n)) \<Longrightarrow> cnt < n \<and> n \<le> Suc (length s) + cnt"
  using string_tail_count [of tok "cnt + 1" s t n] constant_tail_count [of tok "cnt + 1" s t n]
  by (auto simp: parse_quoted_def run_bind_def split: if_splits option.splits run.splits)

lemma parse_mark_count:
  assumes "parse_mark tok cnt ty c s = Some (t, ty', n)"
  shows "cnt \<le> n \<and> (last (c # s) \<noteq> CHR 0x5C \<longrightarrow> n \<le> Suc (length s) + cnt)"
proof -
  consider "parse_relation tok cnt ty c s = (t, ty', n)" | "parse_operator tok cnt ty c = (t, ty', n)"
    | "c = CHR 0x5C" "parse_escape tok cnt ty c s = (t, ty', n)"
    | "parse_eol tok cnt ty c s = (t, ty', n)" | "n = cnt"
    using assms unfolding parse_mark_def by (metis Pair_inject option.distinct(1) option.inject)
  then show ?thesis
  proof cases
    case 1
    show ?thesis using parse_operator_count(1) [OF 1] by blast
  next
    case 2
    show ?thesis using parse_operator_count(2) [OF 2, of s] by blast
  next
    case 3
    show ?thesis using parse_escape_count [OF 3(2)] 3(1) by auto
  next
    case 4
    show ?thesis using parse_operator_count(3) [OF 4] by blast
  qed simp
qed

lemma parse_last_count:
  "parse_last com pp tok cnt ty c s = Some (Some (Done (t, ty', n))) \<Longrightarrow>
   cnt \<le> n \<and> (last (c # s) \<noteq> CHR 0x5C \<longrightarrow> n \<le> Suc (length s) + cnt)"
  unfolding parse_last_def
  by (auto simp del: last.simps split: if_splits option.splits
      dest: parse_mark_count parse_pound_count parse_comment_count)

lemma parse_loop_count:
  assumes "parse_loop np com pp tok cnt ty s = Some (Done (t, ty', n))"
  shows "cnt \<le> n \<and> (s = [] \<or> last s \<noteq> CHR 0x5C \<longrightarrow> n \<le> length s + cnt)"
  using assms
proof (induction np com pp tok cnt ty s rule: parse_loop.induct)
  case (1 np com pp tok cnt ty)
  then show ?case by (simp add: parse_loop.simps)
next
  case (2 np com pp tok cnt ty c s)
  have tail: ?case if st: "\<exists>p. s = p @ r \<and> m = cnt + 1 + length p"
    and rl: "parse_loop np com pp t1 m ty1 r = Some (Done (t, ty', n))"
    and ih: "parse_loop np com pp t1 m ty1 r = Some (Done (t, ty', n)) \<Longrightarrow>
      m \<le> n \<and> (r = [] \<or> last r \<noteq> CHR 0x5C \<longrightarrow> n \<le> length r + m)" for r m t1 ty1
  proof -
    obtain p where p: "s = p @ r" "m = cnt + 1 + length p" using st by blast
    then show ?thesis using ih [OF rl] by (cases "r = []") auto
  qed
  consider
      (digit) "is_digit c"
    | (name) "\<not> is_digit c" "name_chr c"
    | (quote) "\<not> is_digit c" "\<not> name_chr c" "c = CHR 0x22 \<or> c = CHR 0x27"
    | (np) "\<not> is_digit c" "\<not> name_chr c" "\<not> (c = CHR 0x22 \<or> c = CHR 0x27)" "c \<in> set np"
    | (other) "\<not> is_digit c" "\<not> name_chr c" "\<not> (c = CHR 0x22 \<or> c = CHR 0x27)" "c \<notin> set np"
    by blast
  then show ?case
  proof cases
    case digit
    obtain t1 m r where nt: "number_tail np (tok @ [c]) (cnt + 1) s = (t1, m, r)"
      by (metis prod_cases3)
    show ?thesis
      using number_tail_split [OF nt] 2(5) digit nt
      by (intro tail [of r m t1 PT_NUMBER] 2(1) [OF digit nt [symmetric] refl])
        (auto simp: parse_loop.simps)
  next
    case name
    obtain t1 m r where nt: "name_tail (tok @ [c]) (cnt + 1) s = (t1, m, r)"
      by (metis prod_cases3)
    show ?thesis
      using name_tail_split [OF nt] 2(5) name nt
      by (intro tail [of r m t1 PT_NAME] 2(2) [OF name nt [symmetric] refl])
        (auto simp: parse_loop.simps)
  next
    case quote
    then show ?thesis
      using 2(5) parse_quoted_count [of tok cnt c s] by (auto simp: parse_loop.simps)
  next
    case np
    show ?thesis
      using 2(5) np
      by (intro tail [of s "cnt + 1" "tok @ [c]" PT_OTHER] 2(3) [OF np])
        (auto simp: parse_loop.simps)
  next
    case other
    show ?thesis
    proof (cases "parse_last com pp tok cnt ty c s")
      case None
      show ?thesis
        using 2(5) other None
        by (intro tail [of s "cnt + 1" tok ty] 2(4) [OF other None]) (auto simp: parse_loop.simps)
    next
      case (Some r)
      then show ?thesis
        using 2(5) other parse_last_count [of com pp tok cnt ty c s]
        by (simp add: parse_loop.simps)
    qed
  qed
qed


subsection \<open>Lemmas: progress, and the tokens of well-formed texts\<close>

lemma parse_mark_started:
  "tok \<noteq> [] \<Longrightarrow> parse_mark tok cnt ty c s = Some (tok, ty, cnt)"
  by (simp add: parse_mark_def parse_relation_def parse_operator_def parse_escape_def parse_eol_def)

lemma parse_mark_fresh:
  assumes "parse_mark [] cnt ty c s = Some (t, ty', n)"
  shows "cnt < n \<or> ty' = PT_END_OF_LINE"
proof -
  consider "parse_relation [] cnt ty c s = (t, ty', n)" | "parse_operator [] cnt ty c = (t, ty', n)"
    | "parse_escape [] cnt ty c s = (t, ty', n)" | "parse_eol [] cnt ty c s = (t, ty', n)"
    using assms unfolding parse_mark_def by (metis Pair_inject option.distinct(1) option.inject)
  then show ?thesis
    by cases (auto simp: parse_relation_def parse_operator_def parse_escape_def parse_eol_def
        split: if_splits)
qed

lemma parse_loop_digit:
  "is_digit c \<Longrightarrow> number_tail np (tok @ [c]) (cnt + 1) s = (t, m, r) \<Longrightarrow>
   parse_loop np com pp tok cnt ty (c # s) = parse_loop np com pp t m PT_NUMBER r"
  by (simp add: parse_loop.simps)

lemma parse_loop_name:
  "\<not> is_digit c \<Longrightarrow> name_chr c \<Longrightarrow> name_tail (tok @ [c]) (cnt + 1) s = (t, m, r) \<Longrightarrow>
   parse_loop np com pp tok cnt ty (c # s) = parse_loop np com pp t m PT_NAME r"
  by (simp add: parse_loop.simps)

lemma parse_loop_quote:
  "\<not> is_digit c \<Longrightarrow> \<not> name_chr c \<Longrightarrow> c = CHR 0x22 \<or> c = CHR 0x27 \<Longrightarrow>
   parse_loop np com pp tok cnt ty (c # s) = parse_quoted tok cnt c s"
  by (simp add: parse_loop.simps)

lemma parse_loop_np:
  "\<not> is_digit c \<Longrightarrow> \<not> name_chr c \<Longrightarrow> \<not> (c = CHR 0x22 \<or> c = CHR 0x27) \<Longrightarrow> c \<in> set np \<Longrightarrow>
   parse_loop np com pp tok cnt ty (c # s) = parse_loop np com pp (tok @ [c]) (cnt + 1) PT_OTHER s"
  by (simp add: parse_loop.simps)

lemma parse_loop_last:
  "\<not> is_digit c \<Longrightarrow> \<not> name_chr c \<Longrightarrow> \<not> (c = CHR 0x22 \<or> c = CHR 0x27) \<Longrightarrow> c \<notin> set np \<Longrightarrow>
   parse_loop np com pp tok cnt ty (c # s) =
     (case parse_last com pp tok cnt ty c s of
        Some r \<Rightarrow> r | None \<Rightarrow> parse_loop np com pp tok (cnt + 1) ty s)"
  by (simp add: parse_loop.simps)

lemma parse_chr_cases:
  obtains (digit) "is_digit c" | (name) "\<not> is_digit c" "name_chr c"
    | (quote) "\<not> is_digit c" "\<not> name_chr c" "c = CHR 0x22 \<or> c = CHR 0x27"
    | (np) "\<not> is_digit c" "\<not> name_chr c" "\<not> (c = CHR 0x22 \<or> c = CHR 0x27)" "c \<in> set np"
    | (other) "\<not> is_digit c" "\<not> name_chr c" "\<not> (c = CHR 0x22 \<or> c = CHR 0x27)" "c \<notin> set np"
  by blast

lemma parse_progress_loop:
  assumes "parse_loop np com False [] cnt PT_NULL s = Some (Done (t, ty, n))"
  shows "cnt < n \<or> ty = PT_NULL \<or> ty = PT_END_OF_LINE"
proof (cases s)
  case Nil
  then show ?thesis using assms by (simp add: parse_loop.simps)
next
  case (Cons c r)
  note a = assms [unfolded Cons]
  have step: "m \<le> n"
    if "parse_loop np com False tok m ty1 r1 = Some (Done (t, ty, n))" for tok m ty1 r1
    using that parse_loop_count by blast
  show ?thesis
  proof (cases c rule: parse_chr_cases [where np = np])
    case digit
    obtain t1 m1 r1 where e: "number_tail np ([] @ [c]) (cnt + 1) r = (t1, m1, r1)"
      by (metis prod_cases3)
    then have "m1 \<le> n" using a by (intro step) (simp only: parse_loop_digit [OF digit e])
    then show ?thesis using number_tail_shorter [OF e] by linarith
  next
    case name
    obtain t1 m1 r1 where e: "name_tail ([] @ [c]) (cnt + 1) r = (t1, m1, r1)"
      by (metis prod_cases3)
    then have "m1 \<le> n" using a by (intro step) (simp only: parse_loop_name [OF name e])
    then show ?thesis using name_tail_shorter [OF e] by linarith
  next
    case quote
    have "cnt < n \<and> n \<le> Suc (length r) + cnt"
      using a by (intro parse_quoted_count) (simp only: parse_loop_quote [OF quote])
    then show ?thesis by blast
  next
    case np
    have "parse_loop np com False ([] @ [c]) (cnt + 1) PT_OTHER r = Some (Done (t, ty, n))"
      using a by (simp only: parse_loop_np [OF np])
    then have "cnt + 1 \<le> n" by (rule step)
    then show ?thesis by linarith
  next
    case other
    show ?thesis
    proof (cases "parse_last com False [] cnt PT_NULL c r")
      case None
      then have "cnt + 1 \<le> n"
        using a parse_loop_last [OF other, of com False "[]" cnt PT_NULL r] by (intro step) simp
      then show ?thesis by linarith
    next
      case (Some x)
      then have "x = Some (Done (t, ty, n))"
        using a parse_loop_last [OF other, of com False "[]" cnt PT_NULL r] by simp
      then consider "parse_comment [] cnt (c # r) = Some (Some (Done (t, ty, n)))"
        | "parse_mark [] cnt PT_NULL c r = Some (t, ty, n)"
        using Some by (auto simp: parse_last_def split: option.splits if_splits)
      then show ?thesis
      proof cases
        case 1
        then show ?thesis using parse_comment_count by blast
      next
        case 2
        then show ?thesis using parse_mark_fresh by blast
      qed
    qed
  qed
qed


text \<open>A separator ends a token in progress.\<close>

definition separator :: "string \<Rightarrow> string \<Rightarrow> bool" where
  "separator np r \<longleftrightarrow>
     r = [] \<or> \<not> name_chr (hd r) \<and> hd r \<noteq> CHR 0x22 \<and> hd r \<noteq> CHR 0x27 \<and> hd r \<notin> set np"

lemma is_digit_name_chr: "is_digit c \<Longrightarrow> name_chr c"
  by (simp add: name_chr_def isalnum_def)

lemma parse_loop_end:
  assumes "tok \<noteq> []" "separator np r"
  shows "parse_loop np False False tok cnt ty r = Some (Done (tok, ty, cnt))"
proof (cases r)
  case (Cons c s)
  then have "\<not> is_digit c" "\<not> name_chr c" "\<not> (c = CHR 0x22 \<or> c = CHR 0x27)" "c \<notin> set np"
    using assms(2) is_digit_name_chr by (auto simp: separator_def)
  from parse_loop_last [OF this, of False False tok cnt ty s] Cons assms(1)
  show ?thesis by (simp add: parse_last_def parse_mark_started)
qed (simp add: parse_loop.simps)

lemma parse_loop_name_ok:
  assumes "list_all name_chr (c # p)" "\<not> is_digit c" "separator np r"
  shows "parse_loop np False False [] cnt ty ((c # p) @ r) =
    Some (Done (c # p, PT_NAME, cnt + length (c # p)))"
proof -
  have "name_tail ([] @ [c]) (cnt + 1) (p @ r) = (c # p, cnt + length (c # p), r)"
    using assms(1,3) name_tail_append [of p r "[c]" "cnt + 1"]
    by (auto simp: separator_def)
  from parse_loop_name [OF assms(2) _ this] assms(1)
  show ?thesis using parse_loop_end [OF _ assms(3)] by simp
qed

lemma string_tail_plain:
  "list_all (\<lambda>c. c \<noteq> CHR 0x22 \<and> c \<noteq> CHR 0x5C \<and> c \<noteq> CHR 0x0A) s \<Longrightarrow>
   string_tail tok cnt (s @ CHR 0x22 # r) = Some (Done (tok @ s, cnt + length s + 1))"
  by (induction s arbitrary: tok cnt) auto

lemma parse_loop_string_ok:
  assumes "list_all (\<lambda>c. c \<noteq> CHR 0x22 \<and> c \<noteq> CHR 0x5C \<and> c \<noteq> CHR 0x0A) s"
  shows "parse_loop np com pp [] cnt ty (CHR 0x22 # s @ CHR 0x22 # r) =
    Some (Done (s, PT_STRING, cnt + length s + 2))"
proof -
  have q: "\<not> is_digit (CHR 0x22)" "\<not> name_chr (CHR 0x22)"
    by (simp_all add: is_digit_def name_chr_def isalnum_def isalpha_def)
  show ?thesis
    using string_tail_plain [OF assms] by (simp add: parse_loop_quote [OF q] parse_quoted_def)
qed

lemma parse_loop_blank:
  assumes "CHR '' '' \<notin> set np"
  shows "parse_loop np com False [] cnt ty (CHR '' '' # s) = parse_loop np com False [] (cnt + 1) ty s"
proof -
  have "\<not> is_digit (CHR '' '')" "\<not> name_chr (CHR '' '')"
    "\<not> (CHR '' '' = CHR 0x22 \<or> CHR '' '' = CHR 0x27)"
    by (simp_all add: is_digit_def name_chr_def isalnum_def isalpha_def)
  from parse_loop_last [OF this assms, of com False "[]" cnt ty s]
  show ?thesis by (simp add: parse_last_def parse_comment_def starts_def parse_mark_def)
qed

lemma parse_loop_equal:
  assumes "CHR ''='' \<notin> set np" "r = [] \<or> hd r \<noteq> CHR ''=''"
  shows "parse_loop np com False [] cnt ty (CHR ''='' # r) = Some (Done (''='', PT_OTHER, cnt + 1))"
proof -
  have "\<not> is_digit (CHR ''='')" "\<not> name_chr (CHR ''='')"
    "\<not> (CHR ''='' = CHR 0x22 \<or> CHR ''='' = CHR 0x27)"
    by (simp_all add: is_digit_def name_chr_def isalnum_def isalpha_def)
  from parse_loop_last [OF this assms(1), of com False "[]" cnt ty r] assms(2)
  show ?thesis
    by (auto simp: parse_last_def parse_comment_def starts_def parse_mark_def parse_relation_def)
qed


section \<open>Properties\<close>

text \<open>What one call of \<open>parse\<close> consumes is inside the text it was given: the count it returns
  never moves the caller's pointer past the NUL, unless the text ends in a backslash.\<close>

theorem parse_in_bounds:
  assumes "parse buf np com pp = Some (Done (tok, ty, n))" "buf = [] \<or> last buf \<noteq> CHR 0x5C"
  shows "n \<le> length buf"
  using parse_loop_count [OF assms(1) [unfolded parse_def]] assms(2) by simp

theorem parse_in_bounds_witness: "2 \<le> length ''ab''"
proof -
  have "parse ''ab'' [] False False = Some (Done (''ab'', PT_NAME, 2))"
    using parse_loop_name_ok [of "CHR ''a''" "''b''" "[]" "[]"]
    by (simp add: parse_def separator_def name_chr_def isalnum_def isalpha_def is_digit_def)
  then show ?thesis by (rule parse_in_bounds) simp
qed

text \<open>Without preprocessor lines every token takes at least one character, so the loops that
  call \<open>parse\<close> until the end of a line or of the text do end.\<close>

theorem parse_progress:
  assumes "parse buf np com False = Some (Done (tok, ty, n))" "ty \<noteq> PT_NULL" "ty \<noteq> PT_END_OF_LINE"
  shows "0 < n"
  using parse_progress_loop [OF assms(1) [unfolded parse_def]] assms(2,3) by simp

theorem parse_progress_witness: "0 < (2 :: nat) \<and> parse ''ab'' [] False False = Some (Done (''ab'', PT_NAME, 2))"
proof -
  have "parse ''ab'' [] False False = Some (Done (''ab'', PT_NAME, 2))"
    using parse_loop_name_ok [of "CHR ''a''" "''b''" "[]" "[]"]
    by (simp add: parse_def separator_def name_chr_def isalnum_def isalpha_def is_digit_def)
  then show ?thesis using parse_progress by blast
qed

text \<open>After any number of blanks a name is read as a whole up to the next separator, and a
  text in quotes without escapes is read without its quotes; the count is exact in both cases.\<close>

theorem parse_name_and_string:
  assumes "list_all name_chr (c # p)" "\<not> is_digit c" "separator np r" "CHR '' '' \<notin> set np"
    and "list_all (\<lambda>c. c \<noteq> CHR 0x22 \<and> c \<noteq> CHR 0x5C \<and> c \<noteq> CHR 0x0A) v"
  shows "parse (replicate k (CHR '' '') @ (c # p) @ r) np False False =
      Some (Done (c # p, PT_NAME, k + length (c # p))) \<and>
    parse (replicate k (CHR '' '') @ CHR 0x22 # v @ CHR 0x22 # r) np False False =
      Some (Done (v, PT_STRING, k + length v + 2))"
proof -
  have "parse_loop np False False [] m PT_NULL (replicate k (CHR '' '') @ s) =
      parse_loop np False False [] (m + k) PT_NULL s" for m s
    by (induction k arbitrary: m) (simp_all add: parse_loop_blank [OF assms(4)])
  then show ?thesis
    using parse_loop_name_ok [OF assms(1-3)] parse_loop_string_ok [OF assms(5)]
    by (simp add: parse_def)
qed

theorem parse_name_and_string_witness:
  "parse ''  ab=1'' [] False False = Some (Done (''ab'', PT_NAME, 4))"
proof -
  have "replicate 2 (CHR '' '') = ''  ''" by (simp add: numeral_2_eq_2)
  then show ?thesis
    using parse_name_and_string [of "CHR ''a''" "''b''" "[]" "''=1''" "[]" 2]
    by (simp add: separator_def name_chr_def isalnum_def isalpha_def is_digit_def)
qed

end
