(* ===== verification/Sorted_Table.thy ===== *)
theory Sorted_Table
  imports Prelude "HOL-Library.Multiset" "HOL-Library.List_Lexorder"
begin

section \<open>Arrays ordered by a hash of the name\<close>

text \<open>
  The variables of a program and the arguments of a command are kept in arrays of entries
  ordered by a hash of the name, then by the name. Both files carry their own copy of the
  hash and of the comparison; they search with the C library's \<open>bsearch\<close>, find the place
  of a new entry by a linear scan and sort with \<open>qsort\<close>. The locale \<open>comparator\<close> states
  what a comparison promises; the facts about searching, inserting and sorting are proved
  there once and hold of both tables through its interpretation on \<open>name_cmp\<close>. A C string
  is the list of the characters before its NUL.
\<close>

subsection \<open>Hash and comparison\<close>

text \<open>\<open>31 * h\<close> and the sum are computed in \<open>uint32_t\<close>.\<close>

fun hash_loop :: "u32 \<Rightarrow> string \<Rightarrow> u32" where
  "hash_loop h [] = h"
| "hash_loop h (c # s) = hash_loop (of_nat (of_char c) + 31 * h) s"

definition get_hash :: "string \<Rightarrow> u32" where
  "get_hash name = hash_loop 0 name"

fun strcmp :: "string \<Rightarrow> string \<Rightarrow> int" where
  "strcmp [] [] = 0"
| "strcmp [] (d # t) = - 1"
| "strcmp (c # s) [] = 1"
| "strcmp (c # s) (d # t) =
     (if (of_char c :: nat) < of_char d then - 1
      else if (of_char d :: nat) < of_char c then 1
      else strcmp s t)"

definition name_cmp :: "u32 \<times> string \<Rightarrow> u32 \<times> string \<Rightarrow> int" where
  "name_cmp i j =
     (if fst i < fst j then - 1 else if fst i > fst j then 1 else strcmp (snd i) (snd j))"

subsection \<open>The functions of the C library\<close>

text \<open>\<open>bsearch\<close>: \<open>cmp e\<close> compares the key with the entry \<open>e\<close>. The half-open interval
  halves in every round.\<close>

function bsearch_loop :: "('e \<Rightarrow> int) \<Rightarrow> 'e list \<Rightarrow> nat \<Rightarrow> nat \<Rightarrow> nat option" where
  "bsearch_loop cmp xs l u =
     (if l < u then
        let idx = (l + u) div 2; c = cmp (xs ! idx)
        in if c < 0 then bsearch_loop cmp xs l idx
           else if c > 0 then bsearch_loop cmp xs (idx + 1) u
           else Some idx
      else None)"
  by pat_completeness auto
termination by (relation "measure (\<lambda>(cmp, xs, l, u). u - l)") auto

declare bsearch_loop.simps [simp del]

definition bsearch :: "('e \<Rightarrow> int) \<Rightarrow> 'e list \<Rightarrow> nat option" where
  "bsearch cmp xs = bsearch_loop cmp xs 0 (length xs)"

text \<open>\<open>qsort\<close>, as the stable sort it is in glibc.\<close>

fun insort_cmp :: "('e \<Rightarrow> 'e \<Rightarrow> int) \<Rightarrow> 'e \<Rightarrow> 'e list \<Rightarrow> 'e list" where
  "insort_cmp cmp e [] = [e]"
| "insort_cmp cmp e (x # xs) =
     (if cmp e x \<le> 0 then e # x # xs else x # insort_cmp cmp e xs)"

definition qsort :: "('e \<Rightarrow> 'e \<Rightarrow> int) \<Rightarrow> 'e list \<Rightarrow> 'e list" where
  "qsort cmp xs = foldr (insort_cmp cmp) xs []"

text \<open>The scan for the place of a new entry (\<open>below e\<close>: \<open>e\<close> compares below the new
  name) and the two \<open>memmove\<close>s that open it.\<close>

fun find_spot :: "('e \<Rightarrow> bool) \<Rightarrow> 'e list \<Rightarrow> nat" where
  "find_spot below [] = 0"
| "find_spot below (e # es) = (if below e then Suc (find_spot below es) else 0)"

definition insert_at :: "nat \<Rightarrow> 'e \<Rightarrow> 'e list \<Rightarrow> 'e list" where
  "insert_at i e xs = take i xs @ e # drop i xs"

lemma find_spot_eq: "find_spot P xs = length (takeWhile P xs)"
  by (induction xs) auto

lemma find_spot_le [simp]: "find_spot P xs \<le> length xs"
  by (simp add: find_spot_eq length_takeWhile_le)

lemma insert_at_find_spot: "insert_at (find_spot P xs) e xs = takeWhile P xs @ e # dropWhile P xs"
  by (simp add: insert_at_def find_spot_eq takeWhile_eq_take [symmetric] dropWhile_eq_drop)

lemma mset_insert_at [simp]: "mset (insert_at i e xs) = add_mset e (mset xs)"
proof -
  have "mset xs = mset (take i xs) + mset (drop i xs)"
    by (metis append_take_drop_id mset_append)
  then show ?thesis by (simp add: insert_at_def)
qed

lemma set_insert_at [simp]: "set (insert_at i e xs) = insert e (set xs)"
  by (metis mset_insert_at set_mset_add_mset_insert set_mset_mset)

lemma length_insert_at [simp]: "length (insert_at i e xs) = Suc (length xs)"
  by (metis mset_insert_at size_add_mset size_mset)

subsection \<open>The contract of a comparison\<close>

definition ascending_by :: "('k \<Rightarrow> 'k \<Rightarrow> int) \<Rightarrow> ('e \<Rightarrow> 'k) \<Rightarrow> 'e list \<Rightarrow> bool" where
  "ascending_by cmp key xs \<longleftrightarrow> sorted_wrt (\<lambda>x y. cmp (key x) (key y) \<le> 0) xs"

lemma ascending_by_map:
  "ascending_by cmp key xs = sorted_wrt (\<lambda>x y. cmp x y \<le> 0) (map key xs)"
  by (simp add: ascending_by_def sorted_wrt_map)

locale comparator =
  fixes cmp :: "'k \<Rightarrow> 'k \<Rightarrow> int"
  assumes cmp_eq: "cmp a b = 0 \<longleftrightarrow> a = b"
    and cmp_swap: "cmp a b < 0 \<longleftrightarrow> cmp b a > 0"
    and cmp_trans: "cmp a b < 0 \<Longrightarrow> cmp b c < 0 \<Longrightarrow> cmp a c < 0"
begin

lemma cmp_refl [simp]: "cmp a a = 0"
  by (simp add: cmp_eq)

lemma cmp_le_trans: "cmp a b \<le> 0 \<Longrightarrow> cmp b c \<le> 0 \<Longrightarrow> cmp a c \<le> 0"
  by (metis cmp_eq cmp_trans order_le_less)

lemma cmp_lt_le_trans: "cmp a b < 0 \<Longrightarrow> cmp b c \<le> 0 \<Longrightarrow> cmp a c < 0"
  by (metis cmp_eq cmp_trans order_le_less)

lemma cmp_le_lt_trans: "cmp a b \<le> 0 \<Longrightarrow> cmp b c < 0 \<Longrightarrow> cmp a c < 0"
  by (metis cmp_eq cmp_trans order_le_less)

lemma cmp_not_less: "\<not> cmp a b < 0 \<longleftrightarrow> cmp b a \<le> 0"
  by (metis cmp_eq cmp_swap linorder_not_less order_le_less)

lemma ascending_nth:
  "ascending_by cmp key xs \<Longrightarrow> i \<le> j \<Longrightarrow> j < length xs \<Longrightarrow> cmp (key (xs ! i)) (key (xs ! j)) \<le> 0"
  unfolding ascending_by_def
  by (cases "i = j") (auto simp: sorted_wrt_iff_nth_less)

lemma bsearch_loop_found:
  "bsearch_loop (\<lambda>e. cmp k (key e)) xs l u = Some i \<Longrightarrow>
   l \<le> i \<and> i < u \<and> key (xs ! i) = k"
proof (induction "u - l" arbitrary: l u rule: less_induct)
  case less
  let ?m = "(l + u) div 2"
  have lu: "l < u"
    using less.prems by (subst (asm) bsearch_loop.simps) (simp split: if_splits)
  obtain m where m: "m = ?m" "l \<le> m" "m < u" using lu by auto
  consider "bsearch_loop (\<lambda>e. cmp k (key e)) xs l m = Some i"
    | "bsearch_loop (\<lambda>e. cmp k (key e)) xs (m + 1) u = Some i"
    | "i = m" "cmp k (key (xs ! m)) = 0"
    using less.prems lu bsearch_loop.simps [of "\<lambda>e. cmp k (key e)" xs l u]
    unfolding m(1) [symmetric] Let_def
    by (metis linorder_neqE_linordered_idom option.inject)
  then show ?case
  proof cases
    case 1
    have "m - l < u - l" using m(2,3) by linarith
    then have "l \<le> i \<and> i < m \<and> key (xs ! i) = k" using 1 by (rule less.hyps)
    then show ?thesis using m(3) by linarith
  next
    case 2
    have "u - (m + 1) < u - l" using m(2,3) by linarith
    then have "m + 1 \<le> i \<and> i < u \<and> key (xs ! i) = k" using 2 by (rule less.hyps)
    then show ?thesis using m(2) by linarith
  next
    case 3
    then show ?thesis using m(2,3) by (simp add: cmp_eq)
  qed
qed

lemma bsearch_loop_missing:
  assumes "ascending_by cmp key xs" "u \<le> length xs"
    "bsearch_loop (\<lambda>e. cmp k (key e)) xs l u = None" "l \<le> i" "i < u"
  shows "key (xs ! i) \<noteq> k"
  using assms(2-)
proof (induction "u - l" arbitrary: l u rule: less_induct)
  case less
  let ?m = "(l + u) div 2"
  have m: "l \<le> ?m" "?m < u" using less.prems by auto
  consider "cmp k (key (xs ! ?m)) < 0" "bsearch_loop (\<lambda>e. cmp k (key e)) xs l ?m = None"
    | "cmp k (key (xs ! ?m)) > 0" "bsearch_loop (\<lambda>e. cmp k (key e)) xs (?m + 1) u = None"
    using less.prems(2-)
    by (subst (asm) bsearch_loop.simps) (auto simp: Let_def split: if_splits)
  then show ?case
  proof cases
    case 1
    show ?thesis
    proof (cases "i < ?m")
      case True
      then show ?thesis using less.hyps [of ?m l] less.prems m 1 by auto
    next
      case False
      then have "cmp k (key (xs ! i)) < 0"
        using 1 ascending_nth [OF assms(1), of ?m i] less.prems cmp_lt_le_trans by fastforce
      then show ?thesis using cmp_eq by force
    qed
  next
    case 2
    show ?thesis
    proof (cases "?m < i")
      case True
      then show ?thesis using less.hyps [of u "?m + 1"] less.prems m 2 by auto
    next
      case False
      then have "cmp (key (xs ! i)) k < 0"
        using 2 ascending_nth [OF assms(1), of i ?m] less.prems m cmp_swap cmp_le_lt_trans
        by fastforce
      then show ?thesis using cmp_eq by force
    qed
  qed
qed

lemma bsearch_found:
  "bsearch (\<lambda>e. cmp k (key e)) xs = Some i \<Longrightarrow> i < length xs \<and> key (xs ! i) = k"
  by (auto simp: bsearch_def dest: bsearch_loop_found)

lemma bsearch_missing:
  "ascending_by cmp key xs \<Longrightarrow> bsearch (\<lambda>e. cmp k (key e)) xs = None \<longleftrightarrow> k \<notin> key ` set xs"
proof
  assume a: "ascending_by cmp key xs" "bsearch (\<lambda>e. cmp k (key e)) xs = None"
  have "key (xs ! i) \<noteq> k" if "i < length xs" for i
    using bsearch_loop_missing [OF a(1) le_refl, of k 0 i] a(2) that by (simp add: bsearch_def)
  then show "k \<notin> key ` set xs" by (metis (no_types, lifting) imageE in_set_conv_nth)
next
  assume "k \<notin> key ` set xs"
  then show "bsearch (\<lambda>e. cmp k (key e)) xs = None"
    using bsearch_found [of k key xs] by (cases "bsearch (\<lambda>e. cmp k (key e)) xs") auto
qed

lemma ascending_insert_at:
  assumes "ascending_by cmp key xs"
  shows "ascending_by cmp key (insert_at (find_spot (\<lambda>x. cmp (key x) (key e) < 0) xs) e xs)"
proof -
  define us where "us = takeWhile (\<lambda>x. cmp (key x) (key e) < 0) xs"
  define vs where "vs = dropWhile (\<lambda>x. cmp (key x) (key e) < 0) xs"
  have asc: "ascending_by cmp key (us @ vs)" using assms by (simp add: us_def vs_def)
  have us: "cmp (key x) (key e) < 0" if "x \<in> set us" for x
    using set_takeWhileD that unfolding us_def by fast
  have vs: "cmp (key e) (key y) \<le> 0" if "y \<in> set vs" for y
  proof (cases vs)
    case (Cons z zs)
    then have "\<not> cmp (key z) (key e) < 0"
      using hd_dropWhile [of "\<lambda>x. cmp (key x) (key e) < 0" xs] unfolding vs_def by force
    then have "cmp (key e) (key z) \<le> 0" by (simp only: cmp_not_less)
    moreover have "cmp (key z) (key y) \<le> 0"
      using asc that Cons by (auto simp: ascending_by_def sorted_wrt_append)
    ultimately show ?thesis by (rule cmp_le_trans)
  qed (use that in simp)
  have "ascending_by cmp key (us @ e # vs)"
    using asc vs us less_imp_le by (auto simp: ascending_by_def sorted_wrt_append)
  then show ?thesis by (simp only: insert_at_find_spot us_def vs_def)
qed

lemma ascending_distinct_insert_at:
  "distinct (map key xs) \<Longrightarrow> key e \<notin> key ` set xs \<Longrightarrow> distinct (map key (insert_at i e xs))"
proof -
  assume a: "distinct (map key xs)" "key e \<notin> key ` set xs"
  have "mset (map key (insert_at i e xs)) = mset (key e # map key xs)" by simp
  then show ?thesis using a by (metis distinct.simps(2) list.set_map mset_eq_imp_distinct_iff)
qed

lemma mset_insort_cmp [simp]: "mset (insort_cmp c e xs) = add_mset e (mset xs)"
  by (induction xs) auto

lemma mset_qsort [simp]: "mset (qsort c xs) = mset xs"
proof -
  have "mset (foldr (insort_cmp c) xs ys) = mset xs + mset ys" for ys
    by (induction xs) auto
  then show ?thesis by (simp add: qsort_def)
qed

lemma set_insort_cmp [simp]: "set (insort_cmp c e xs) = insert e (set xs)"
  by (metis mset_insort_cmp set_mset_add_mset_insert set_mset_mset)

lemma ascending_insort_cmp:
  "ascending_by cmp key xs \<Longrightarrow> ascending_by cmp key (insort_cmp (\<lambda>a b. cmp (key a) (key b)) e xs)"
proof (induction xs)
  case (Cons x xs)
  have gt: "cmp (key x) (key e) \<le> 0" if "\<not> cmp (key e) (key x) \<le> 0"
    using that cmp_not_less [of "key e" "key x"] by simp
  have "cmp (key e) (key y) \<le> 0" if "cmp (key e) (key x) \<le> 0" "y \<in> set xs" for y
    using that Cons.prems cmp_le_trans [OF that(1), of "key y"] by (simp add: ascending_by_def)
  then show ?case using Cons gt by (auto simp: ascending_by_def)
qed (simp add: ascending_by_def)

lemma ascending_qsort: "ascending_by cmp key (qsort (\<lambda>a b. cmp (key a) (key b)) xs)"
proof -
  have "ascending_by cmp key (foldr (insort_cmp (\<lambda>a b. cmp (key a) (key b))) xs ys)"
    if "ascending_by cmp key ys" for ys
    using that by (induction xs) (auto intro: ascending_insort_cmp)
  then show ?thesis by (simp add: qsort_def ascending_by_def)
qed

end

subsection \<open>The comparison of the two tables keeps the contract\<close>

lemma strcmp_eq: "strcmp s t = 0 \<longleftrightarrow> s = t"
  by (induction s t rule: strcmp.induct) auto

lemma strcmp_swap: "strcmp s t < 0 \<longleftrightarrow> strcmp t s > 0"
  by (induction s t rule: strcmp.induct) auto

lemma strcmp_less_iff: "strcmp s t < 0 \<longleftrightarrow> map of_char s < (map of_char t :: nat list)"
  by (induction s t rule: strcmp.induct) auto

lemma strcmp_trans: "strcmp r s < 0 \<Longrightarrow> strcmp s t < 0 \<Longrightarrow> strcmp r t < 0"
  unfolding strcmp_less_iff by (rule less_trans)

interpretation names: comparator name_cmp
proof unfold_locales
  show "name_cmp a b = 0 \<longleftrightarrow> a = b" for a b
    by (cases a; cases b) (auto simp: name_cmp_def strcmp_eq)
  show "name_cmp a b < 0 \<longleftrightarrow> name_cmp b a > 0" for a b
    using strcmp_swap [of "snd a" "snd b"] by (auto simp: name_cmp_def)
  show "name_cmp a b < 0 \<Longrightarrow> name_cmp b c < 0 \<Longrightarrow> name_cmp a c < 0" for a b c
    using strcmp_trans [of "snd a" "snd b" "snd c"]
    by (auto simp: name_cmp_def split: if_splits)
qed


subsection \<open>Entries\<close>

text \<open>What the \<open>struct variable\<close> of both files have in common: the name, the initialised
  bytes of the block the value points to, the length kept beside it and the hash. The
  hash of an entry is the hash of its name.\<close>

record var_slot =
  v_name :: string
  v_mem :: string
  v_length :: u32
  v_hash :: u32

definition v_key :: "'a var_slot_scheme \<Rightarrow> u32 \<times> string" where
  "v_key e = (v_hash e, v_name e)"

definition name_key :: "string \<Rightarrow> u32 \<times> string" where
  "name_key name = (get_hash name, name)"

definition var_value :: "'a var_slot_scheme \<Rightarrow> string option" where
  "var_value e = do {
     require (unat (v_length e) \<le> length (v_mem e));
     Some (take (unat (v_length e)) (v_mem e))
   }"

definition find_var :: "'a var_slot_scheme list \<Rightarrow> string \<Rightarrow> nat option" where
  "find_var vars name = bsearch (\<lambda>e. name_cmp (name_key name) (v_key e)) vars"

definition insert_var ::
    "'a var_slot_scheme \<Rightarrow> 'a var_slot_scheme list \<Rightarrow> 'a var_slot_scheme list" where
  "insert_var new vars =
     insert_at (find_spot (\<lambda>e. name_cmp (v_key e) (v_key new) < 0) vars) new vars"

text \<open>\<open>vars_ok\<close>: the array is ordered and the hashes are those of the names. \<open>var_map\<close> is
  the map from names to entries the array stands for.\<close>

definition vars_ok :: "'a var_slot_scheme list \<Rightarrow> bool" where
  "vars_ok vars \<longleftrightarrow> ascending_by name_cmp v_key vars \<and> (\<forall>e \<in> set vars. v_hash e = get_hash (v_name e))"

definition var_map :: "'a var_slot_scheme list \<Rightarrow> string \<Rightarrow> 'a var_slot_scheme option" where
  "var_map vars = map_of (map (\<lambda>e. (v_name e, e)) vars)"

lemma v_key_eq: "vars_ok vars \<Longrightarrow> e \<in> set vars \<Longrightarrow> v_key e = name_key (v_name e)"
  by (simp add: vars_ok_def v_key_def name_key_def)

lemma vars_ok_Nil [simp]: "vars_ok []"
  by (simp add: vars_ok_def ascending_by_def)

lemma vars_ok_single: "vars_ok [e] \<longleftrightarrow> v_hash e = get_hash (v_name e)"
  by (simp add: vars_ok_def ascending_by_def)

lemma vars_ok_insert:
  "vars_ok vars \<Longrightarrow> v_hash e = get_hash (v_name e) \<Longrightarrow> vars_ok (insert_var e vars)"
  unfolding vars_ok_def insert_var_def by (simp add: names.ascending_insert_at)

lemma vars_ok_update:
  assumes "vars_ok vars" "i < length vars" "v_key e = v_key (vars ! i)"
  shows "vars_ok (vars[i := e])"
proof -
  have "map v_key (vars[i := e]) = map v_key vars"
    using assms(2,3) by (simp add: map_update list_update_same_conv)
  then have "ascending_by name_cmp v_key (vars[i := e]) = ascending_by name_cmp v_key vars"
    by (simp only: ascending_by_map)
  moreover have "v_hash (vars ! i) = get_hash (v_name (vars ! i))"
    using assms(1,2) by (simp add: vars_ok_def)
  then have "v_hash e = get_hash (v_name e)" using assms(3) by (simp add: v_key_def)
  ultimately show ?thesis
    using assms(1) set_update_subset_insert [of vars i e] by (auto simp: vars_ok_def)
qed

lemma find_var_Some:
  "vars_ok vars \<Longrightarrow> find_var vars name = Some i \<Longrightarrow> i < length vars \<and> v_name (vars ! i) = name"
  unfolding find_var_def using names.bsearch_found [of "name_key name" v_key vars i]
  by (auto simp: v_key_def name_key_def)

lemma find_var_None:
  "vars_ok vars \<Longrightarrow> find_var vars name = None \<longleftrightarrow> name \<notin> v_name ` set vars"
proof -
  assume ok: "vars_ok vars"
  have "name_key name \<in> v_key ` set vars \<longleftrightarrow> name \<in> v_name ` set vars"
    using v_key_eq [OF ok] by (force simp: name_key_def v_key_def image_iff)
  then show ?thesis
    unfolding find_var_def using ok by (simp add: names.bsearch_missing vars_ok_def)
qed

lemma var_map_None: "var_map vars name = None \<longleftrightarrow> name \<notin> v_name ` set vars"
  by (auto simp: var_map_def map_of_eq_None_iff image_iff)

lemma var_map_nth:
  "distinct (map v_name vars) \<Longrightarrow> i < length vars \<Longrightarrow> v_name (vars ! i) = name \<Longrightarrow>
   var_map vars name = Some (vars ! i)"
  unfolding var_map_def by (intro map_of_is_SomeI) (auto simp: comp_def)

lemma find_var_map:
  assumes "vars_ok vars" "distinct (map v_name vars)"
  shows "var_map vars name = map_option (nth vars) (find_var vars name)"
proof (cases "find_var vars name")
  case None
  then show ?thesis using find_var_None [OF assms(1)] var_map_None [of vars name] by simp
next
  case (Some i)
  then show ?thesis using find_var_Some [OF assms(1) Some] var_map_nth [OF assms(2)] by auto
qed

lemma distinct_insert_var:
  "distinct (map v_name vars) \<Longrightarrow> v_name e \<notin> v_name ` set vars \<Longrightarrow>
   distinct (map v_name (insert_var e vars))"
proof -
  assume a: "distinct (map v_name vars)" "v_name e \<notin> v_name ` set vars"
  have "mset (map v_name (insert_var e vars)) = mset (v_name e # map v_name vars)"
    by (simp add: insert_var_def)
  then show ?thesis using a by (metis distinct.simps(2) list.set_map mset_eq_imp_distinct_iff)
qed

lemma set_insert_var [simp]: "set (insert_var e vars) = insert e (set vars)"
  by (simp add: insert_var_def)

lemma length_insert_var [simp]: "length (insert_var e vars) = Suc (length vars)"
  by (simp add: insert_var_def)

lemma map_of_insert_at:
  "v_name e \<notin> v_name ` set vars \<Longrightarrow> var_map (insert_at i e vars) = (var_map vars)(v_name e \<mapsto> e)"
proof -
  assume a: "v_name e \<notin> v_name ` set vars"
  let ?f = "map (\<lambda>e. (v_name e, e))"
  have "v_name e \<notin> dom (map_of (?f (take i vars)))"
    using a by (auto simp: dom_map_of_conv_image_fst dest: in_set_takeD)
  then have "map_of (?f (insert_at i e vars)) =
      (map_of (?f (take i vars @ drop i vars)))(v_name e \<mapsto> e)"
    unfolding insert_at_def map_append map_of_append
    by (simp add: map_add_upd_left)
  then show ?thesis by (simp add: var_map_def)
qed

lemma var_map_insert_var:
  "v_name e \<notin> v_name ` set vars \<Longrightarrow> var_map (insert_var e vars) = (var_map vars)(v_name e \<mapsto> e)"
  unfolding insert_var_def by (rule map_of_insert_at)

lemma var_map_update:
  assumes "distinct (map v_name vars)" "i < length vars" "v_name e = v_name (vars ! i)"
  shows "var_map (vars[i := e]) = (var_map vars)(v_name e \<mapsto> e)"
proof -
  have names: "map v_name (vars[i := e]) = map v_name vars"
    using assms(2,3) by (simp add: map_update list_update_same_conv)
  show ?thesis
  proof
    fix name
    show "var_map (vars[i := e]) name = ((var_map vars)(v_name e \<mapsto> e)) name"
    proof (cases "name \<in> v_name ` set vars")
      case True
      then obtain j where j: "j < length vars" "v_name (vars ! j) = name"
        by (auto simp: in_set_conv_nth)
      have "j = i \<longleftrightarrow> name = v_name e"
        using nth_eq_iff_index_eq [OF assms(1), of j i] assms(2,3) j by auto
      moreover have "v_name (vars[i := e] ! j) = name"
        using assms(2,3) j by (cases "j = i") auto
      ultimately show ?thesis
        using var_map_nth [of "vars[i := e]" j name] var_map_nth [OF assms(1) j] names assms(1,2) j(1)
        by (cases "j = i") simp_all
    next
      case False
      then have "name \<notin> set (map v_name (vars[i := e]))" "name \<noteq> v_name e"
        using names assms(2,3) by auto
      then have "var_map (vars[i := e]) name = None" unfolding var_map_None by simp
      then show ?thesis using False \<open>name \<noteq> v_name e\<close> var_map_None [of vars name] by simp
    qed
  qed
qed

end
