(* ===== verification/Variables.thy ===== *)
theory Variables
  imports Utility Sorted_Table
begin

section \<open>Variables of programs (variables.c)\<close>

text \<open>
  All variables of all programs are in one sorted array. The name of an entry is built of the
  kind of the variable, the program, the label it is local to and its own name, as in
  \<^verbatim>\<open>#(prog)BEGIN\<close> or \<^verbatim>\<open>(prog.label)x\<close>; a look-up tries the label, then the program, then the program
  without a name. An entry of kind \<open>VT_USER_REF\<close> holds the name of another entry, an argument
  passed by reference. Where the program is, \<open>get_program_name ()\<close> and
  \<open>label_get (get_program_token_idx ())\<close>, is passed as a \<open>scope\<close>. The main results are that a
  variable reads back what was written, that local variables hide those of the program and
  do not escape, that a reference writes the variable it names, and that \<open>variable_delete\<close> deletes
  nothing.
\<close>

datatype var_types =
    VT_USER_DEFINE | VT_USER_GLOBAL | VT_USER_LOCAL | VT_USER | VT_USER_REF | VT_SC | VT_LABEL

record sc_var = var_slot +
  v_type :: var_types

record scope =
  sc_program :: string
  sc_label :: string

definition var_prefix :: "var_types \<Rightarrow> string" where
  "var_prefix ty = (if ty = VT_SC \<or> ty = VT_LABEL then ''#'' else [])"

definition DEFAULT_PROGRAM :: string where
  "DEFAULT_PROGRAM = []"

subsection \<open>Names\<close>

text \<open>The prefix is printed into 128 characters.\<close>

definition prefixed :: "string \<Rightarrow> string \<Rightarrow> string option" where
  "prefixed p name = do { require (length p < 128); Some (p @ name) }"

definition program_var :: "var_types \<Rightarrow> string \<Rightarrow> string \<Rightarrow> string option" where
  "program_var ty prog name = prefixed (var_prefix ty @ ''('' @ prog @ '')'') name"

definition label_var :: "var_types \<Rightarrow> scope \<Rightarrow> string \<Rightarrow> string option" where
  "label_var ty sc name =
     prefixed (var_prefix ty @ ''('' @ sc_program sc @ ''.'' @ sc_label sc @ '')'') name"

subsection \<open>Writing\<close>

text \<open>What is found for a name: the name of a new entry, or the index of an old one.\<close>

datatype choice = ADD_IT string | UPDATE_IT nat

definition add_or_update :: "sc_var list \<Rightarrow> string \<Rightarrow> choice" where
  "add_or_update vars name =
     (case find_var vars name of None \<Rightarrow> ADD_IT name | Some i \<Rightarrow> UPDATE_IT i)"

text \<open>The first variable of all goes to the current program, whatever its kind.\<close>

definition find_place :: "scope \<Rightarrow> sc_var list \<Rightarrow> string \<Rightarrow> var_types \<Rightarrow> choice option" where
  "find_place sc vars name ty =
     (if vars = [] then map_option ADD_IT (program_var ty (sc_program sc) name)
      else if ty = VT_USER_GLOBAL
      then map_option (add_or_update vars) (program_var ty DEFAULT_PROGRAM name)
      else if ty = VT_USER_LOCAL
      then map_option (add_or_update vars)
             (if sc_label sc \<noteq> [] then label_var ty sc name else program_var ty (sc_program sc) name)
      else if sc_label sc \<noteq> [] then do {
        full \<leftarrow> label_var ty sc name;
        (case find_var vars full of
           Some i \<Rightarrow> Some (UPDATE_IT i)
         | None \<Rightarrow>
             if ty = VT_USER_REF then Some (ADD_IT full)
             else map_option (add_or_update vars) (program_var ty (sc_program sc) name))
      }
      else map_option (add_or_update vars) (program_var ty (sc_program sc) name))"

definition new_var :: "string \<Rightarrow> string \<Rightarrow> var_types \<Rightarrow> sc_var" where
  "new_var full d ty =
     \<lparr>v_name = full, v_mem = d, v_length = of_nat (length d), v_hash = get_hash full, v_type = ty\<rparr>"

text \<open>The value of a deleted entry is a string literal, which must not be reallocated.\<close>

definition set_value :: "sc_var list \<Rightarrow> nat \<Rightarrow> string \<Rightarrow> sc_var list option" where
  "set_value vars i d = do {
     require (v_name (vars ! i) \<noteq> []);
     Some (vars[i := (vars ! i)\<lparr>v_mem := d, v_length := of_nat (length d)\<rparr>])
   }"

text \<open>A reference to a variable that does not exist is a write through a null pointer.\<close>

definition update_var :: "sc_var list \<Rightarrow> nat \<Rightarrow> string \<Rightarrow> var_types \<Rightarrow> sc_var list run option" where
  "update_var vars i d ty =
     (let old = v_type (vars ! i)
      in if ty = VT_USER_REF then map_option Done (set_value vars i d)
         else if old = VT_USER_REF then do {
           target \<leftarrow> var_value (vars ! i);
           j \<leftarrow> find_var vars (cstr target);
           map_option Done (set_value vars j d)
         }
         else if old = VT_USER_DEFINE then Some (Done vars)
         else if old = VT_LABEL then Some Exit
         else map_option Done (set_value vars i d))"

text \<open>\<open>val\<close> are the characters before the NUL of the argument; with \<open>len = 0\<close> its C string is
  meant.\<close>

definition variable_put ::
    "scope \<Rightarrow> sc_var list \<Rightarrow> string \<Rightarrow> string \<Rightarrow> u32 \<Rightarrow> var_types \<Rightarrow> sc_var list run option" where
  "variable_put sc vars name val len ty = do {
     let n = (if len = 0 then length (cstr val) else unat len);
     require (n \<le> length val + 1);
     let d = take n (val @ [CHR 0x00]);
     c \<leftarrow> find_place sc vars name ty;
     (case c of
        ADD_IT full \<Rightarrow> Some (Done (insert_var (new_var full d ty) vars))
      | UPDATE_IT i \<Rightarrow> update_var vars i d ty)
   }"

subsection \<open>Reading\<close>

text \<open>The entry that is found, with the name it was found under.\<close>

definition find_entry ::
    "scope \<Rightarrow> sc_var list \<Rightarrow> string \<Rightarrow> var_types \<Rightarrow> (string \<times> sc_var) option option" where
  "find_entry sc vars name ty =
     (let look = (\<lambda>full. map_option (\<lambda>i. (full, vars ! i)) (find_var vars full))
      in do {
        in_label \<leftarrow> (if sc_label sc \<noteq> [] then map_option look (label_var ty sc name) else Some None);
        (case in_label of
           Some r \<Rightarrow> Some (Some r)
         | None \<Rightarrow> do {
             full \<leftarrow> program_var ty (sc_program sc) name;
             (case look full of
                Some r \<Rightarrow> Some (Some r)
              | None \<Rightarrow> map_option look (program_var ty DEFAULT_PROGRAM name))
           })
      })"

text \<open>The return code and what the value buffer holds.\<close>

definition variable_get ::
    "scope \<Rightarrow> sc_var list \<Rightarrow> string \<Rightarrow> var_types \<Rightarrow> (u32 \<times> string) option" where
  "variable_get sc vars name ty = do {
     found \<leftarrow> find_entry sc vars name ty;
     (case found of
        None \<Rightarrow> Some (1, [])
      | Some (full, b) \<Rightarrow>
          if ty = VT_USER_REF then Some (0, full)
          else if v_type b = VT_USER_REF then do {
            target \<leftarrow> var_value b;
            (case find_var vars (cstr target) of
               None \<Rightarrow> Some (1, [])
             | Some j \<Rightarrow> do { d \<leftarrow> var_value (vars ! j); Some (0, d) })
          }
          else do { d \<leftarrow> var_value b; Some (0, d) })
   }"

subsection \<open>Deleting and dumping\<close>

definition delete_entry :: "sc_var \<Rightarrow> sc_var" where
  "delete_entry e = e\<lparr>v_name := [], v_mem := [CHR 0x00], v_hash := 0\<rparr>"

text \<open>The name looked for has the program in front of it, but not the parentheses of a stored
  name. A name of no characters reads before its array, and to free the literals of a deleted
  entry again is undefined.\<close>

definition variable_delete :: "scope \<Rightarrow> sc_var list \<Rightarrow> string \<Rightarrow> sc_var list option" where
  "variable_delete sc vars name = do {
     require (name \<noteq> []);
     let full = sc_program sc @ name;
     vars1 \<leftarrow>
       (if last name = CHR ''*''
        then do {
          require (list_all (\<lambda>e. \<not> (starts (butlast full) (v_name e) \<and> v_name e = [])) vars);
          Some (map (\<lambda>e. if starts (butlast full) (v_name e) then delete_entry e else e) vars)
        }
        else (case find_var vars full of
                None \<Rightarrow> Some vars
              | Some i \<Rightarrow> Some (vars[i := delete_entry (vars ! i)])));
     Some (qsort (\<lambda>a b. name_cmp (v_key a) (v_key b)) vars1)
   }"

definition variable_delete_all :: "sc_var list \<Rightarrow> sc_var list option" where
  "variable_delete_all vars = do {
     require (list_all (\<lambda>e. v_name e \<noteq> []) vars);
     Some []
   }"

fun show_var_type :: "var_types \<Rightarrow> string" where
  "show_var_type VT_USER = ''USER''"
| "show_var_type VT_USER_REF = ''REF''"
| "show_var_type VT_SC = ''SC''"
| "show_var_type VT_LABEL = ''LABEL''"
| "show_var_type VT_USER_DEFINE = ''DEFINE''"
| "show_var_type VT_USER_GLOBAL = ''GLOBAL''"
| "show_var_type VT_USER_LOCAL = ''LOCAL''"

definition dump_entry :: "sc_var \<Rightarrow> string option" where
  "dump_entry e = do {
     d \<leftarrow> var_value e;
     let ty = show_var_type (v_type e);
     Some (replicate (8 - length ty) (CHR '' '') @ ty @ '' '' @ v_name e @ '' = ('' @ print_d (v_length e) @
           '') <'' @ d @ ''>'' @ [CHR 0x0A])
   }"

fun dump_loop :: "(string \<Rightarrow> bool) \<Rightarrow> sc_var list \<Rightarrow> string option" where
  "dump_loop sel [] = Some []"
| "dump_loop sel (e # es) = do {
     d \<leftarrow> (if sel (v_name e) then dump_entry e else Some []);
     r \<leftarrow> dump_loop sel es;
     Some (d @ r)
   }"

definition dump_header :: string where
  "dump_header = ''Variables: <type>(<program>.<label>)<variable> = (len) <value>'' @ [CHR 0x0A]"

definition variable_dump :: "sc_var list \<Rightarrow> string \<Rightarrow> string option" where
  "variable_dump vars variable = do {
     r \<leftarrow> dump_loop (\<lambda>n. strstr n variable) vars;
     Some (dump_header @ r)
   }"

definition variable_dump_all :: "sc_var list \<Rightarrow> string option" where
  "variable_dump_all vars = do {
     r \<leftarrow> dump_loop (\<lambda>n. True) vars;
     Some (print_d (of_nat (length vars)) @ '' '' @ dump_header @ r)
   }"


subsection \<open>The store as a map\<close>

definition store_ok :: "sc_var list \<Rightarrow> bool" where
  "store_ok vars \<longleftrightarrow> vars_ok vars \<and> distinct (map v_name vars) \<and>
     (\<forall>e \<in> set vars. v_name e \<noteq> [] \<and> var_value e \<noteq> None)"

abbreviation with_value :: "sc_var \<Rightarrow> string \<Rightarrow> sc_var" where
  "with_value e d \<equiv> e\<lparr>v_mem := d, v_length := of_nat (length d)\<rparr>"

lemma find_map: "store_ok vars \<Longrightarrow> var_map vars name = map_option (nth vars) (find_var vars name)"
  by (simp add: store_ok_def find_var_map)

lemma find_Some:
  "store_ok vars \<Longrightarrow> find_var vars name = Some i \<Longrightarrow>
   i < length vars \<and> v_name (vars ! i) = name \<and> name \<noteq> [] \<and> var_map vars name = Some (vars ! i)"
  using find_var_Some [of vars name i] by (auto simp: store_ok_def find_var_map)

lemma find_None: "store_ok vars \<Longrightarrow> find_var vars name = None \<longleftrightarrow> var_map vars name = None"
  by (simp add: find_map)

lemma var_map_name: "store_ok vars \<Longrightarrow> var_map vars name = Some e \<Longrightarrow>
    e \<in> set vars \<and> v_name e = name \<and> name \<noteq> [] \<and> var_value e \<noteq> None"
proof -
  assume ok: "store_ok vars" and m: "var_map vars name = Some e"
  then obtain i where i: "find_var vars name = Some i" "e = vars ! i" by (auto simp: find_map)
  then show ?thesis using find_Some [OF ok i(1)] ok by (auto simp: store_ok_def)
qed

lemma value_of_new [simp]:
  "length d < 2 ^ 32 \<Longrightarrow> var_value (new_var full d ty) = Some d"
  "length d < 2 ^ 32 \<Longrightarrow> var_value (with_value e d) = Some d"
  by (simp_all add: var_value_def new_var_def)

lemma set_value_ok:
  assumes "store_ok vars" "find_var vars name = Some i" "length d < 2 ^ 32"
  shows "\<exists>vars1. set_value vars i d = Some vars1 \<and> store_ok vars1 \<and> vars1 \<noteq> [] \<and>
    var_map vars1 = (var_map vars)(name \<mapsto> with_value (vars ! i) d)"
proof -
  have i: "i < length vars" "v_name (vars ! i) = name" "name \<noteq> []" using find_Some [OF assms(1,2)] by auto
  let ?e = "with_value (vars ! i) d"
  have "map v_name (vars[i := ?e]) = map v_name vars"
    using i by (simp add: map_update list_update_same_conv)
  moreover have "vars_ok (vars[i := ?e])"
    using assms(1) i by (intro vars_ok_update) (auto simp: store_ok_def v_key_def)
  moreover have "\<forall>e \<in> set (vars[i := ?e]). v_name e \<noteq> [] \<and> var_value e \<noteq> None"
    using assms(1,3) i by (auto simp: store_ok_def dest!: set_update_subset_insert [THEN subsetD])
  ultimately have "store_ok (vars[i := ?e])" using assms(1) by (simp add: store_ok_def)
  moreover have "var_map (vars[i := ?e]) = (var_map vars)(name \<mapsto> ?e)"
    using var_map_update [of vars i ?e] assms(1) i by (simp add: store_ok_def)
  ultimately show ?thesis using i by (auto simp: set_value_def)
qed

lemma insert_ok:
  assumes "store_ok vars" "var_map vars full = None" "full \<noteq> []" "length d < 2 ^ 32"
  shows "store_ok (insert_var (new_var full d ty) vars)"
    "var_map (insert_var (new_var full d ty) vars) = (var_map vars)(full \<mapsto> new_var full d ty)"
proof -
  let ?e = "new_var full d ty"
  have n: "v_name ?e = full" "v_hash ?e = get_hash full" by (simp_all add: new_var_def)
  have notin: "v_name ?e \<notin> v_name ` set vars" using assms(2) n by (simp add: var_map_None)
  show "store_ok (insert_var ?e vars)"
    using assms n notin by (auto simp: store_ok_def vars_ok_insert distinct_insert_var)
  show "var_map (insert_var ?e vars) = (var_map vars)(full \<mapsto> ?e)"
    using var_map_insert_var [OF notin] n by simp
qed

lemma prefixed_Some: "prefixed p name = Some full \<longleftrightarrow> length p < 128 \<and> full = p @ name"
  by (auto simp: prefixed_def)

lemma full_names:
  "program_var ty prog name = Some full \<longleftrightarrow>
     length (var_prefix ty) + length prog < 126 \<and> full = var_prefix ty @ ''('' @ prog @ '')'' @ name"
  "label_var ty sc name = Some full \<longleftrightarrow>
     length (var_prefix ty) + length (sc_program sc) + length (sc_label sc) < 125 \<and>
     full = var_prefix ty @ ''('' @ sc_program sc @ ''.'' @ sc_label sc @ '')'' @ name"
  by (auto simp: program_var_def label_var_def prefixed_Some)

text \<open>The value of an argument, for the two ways its length is passed.\<close>

lemma put_value:
  assumes "length val < 2 ^ 32"
  shows "variable_put sc vars name val (of_nat (length val)) ty = do {
    c \<leftarrow> find_place sc vars name ty;
    (case c of
       ADD_IT full \<Rightarrow> Some (Done (insert_var (new_var full val ty) vars))
     | UPDATE_IT i \<Rightarrow> update_var vars i val ty)
  }"
proof -
  have "(of_nat (length val) :: u32) = 0 \<longleftrightarrow> val = []"
    using of_nat_u32_eq_0_iff [of "length val"] assms by simp
  then show ?thesis using assms
    by (cases "val = []") (simp_all add: variable_put_def Let_def cstr_def)
qed

text \<open>The name a write is about.\<close>

definition place_name :: "sc_var list \<Rightarrow> choice \<Rightarrow> string" where
  "place_name vars c = (case c of ADD_IT full \<Rightarrow> full | UPDATE_IT i \<Rightarrow> v_name (vars ! i))"

definition writable :: "sc_var list \<Rightarrow> choice \<Rightarrow> bool" where
  "writable vars c = (case c of ADD_IT full \<Rightarrow> True
     | UPDATE_IT i \<Rightarrow> v_type (vars ! i) \<notin> {VT_USER_REF, VT_USER_DEFINE, VT_LABEL})"

definition found_ok :: "sc_var list \<Rightarrow> choice \<Rightarrow> bool" where
  "found_ok vars c = (case c of ADD_IT full \<Rightarrow> var_map vars full = None \<and> full \<noteq> []
     | UPDATE_IT i \<Rightarrow> find_var vars (v_name (vars ! i)) = Some i)"

lemma add_or_update_ok:
  assumes "store_ok vars" "full \<noteq> []"
  shows "found_ok vars (add_or_update vars full) \<and> place_name vars (add_or_update vars full) = full"
  using assms find_Some [of vars full] find_None [of vars full]
  by (auto simp: add_or_update_def found_ok_def place_name_def split: option.splits)

lemma found_update: "store_ok vars \<Longrightarrow> find_var vars full = Some i \<Longrightarrow>
    found_ok vars (UPDATE_IT i) \<and> place_name vars (UPDATE_IT i) = full"
  using find_Some [of vars full i] by (auto simp: found_ok_def place_name_def)

lemma write_ok:
  assumes "store_ok vars" "found_ok vars c" "writable vars c" "ty \<noteq> VT_USER_REF" "length d < 2 ^ 32"
  shows "\<exists>vars1 e. (case c of
       ADD_IT full \<Rightarrow> Some (Done (insert_var (new_var full d ty) vars))
     | UPDATE_IT i \<Rightarrow> update_var vars i d ty) = Some (Done vars1) \<and> store_ok vars1 \<and> vars1 \<noteq> [] \<and>
    var_map vars1 = (var_map vars)(place_name vars c \<mapsto> e) \<and> var_value e = Some d \<and>
    v_type e = (case c of ADD_IT full \<Rightarrow> ty | UPDATE_IT i \<Rightarrow> v_type (vars ! i))"
proof (cases c)
  case (ADD_IT full)
  have "insert_var (new_var full d ty) vars \<noteq> []"
    by (metis length_insert_var list.size(3) nat.distinct(1))
  moreover have "v_type (new_var full d ty) = ty" by (simp add: new_var_def)
  ultimately show ?thesis using insert_ok [OF assms(1) _ _ assms(5), of full ty] assms(2,5) ADD_IT
    by (intro exI [of _ "insert_var (new_var full d ty) vars"] exI [of _ "new_var full d ty"])
      (simp add: found_ok_def place_name_def)
next
  case (UPDATE_IT i)
  then have f: "find_var vars (v_name (vars ! i)) = Some i" using assms(2) by (simp add: found_ok_def)
  obtain vars1 where "set_value vars i d = Some vars1" "store_ok vars1" "vars1 \<noteq> []"
    "var_map vars1 = (var_map vars)(v_name (vars ! i) \<mapsto> with_value (vars ! i) d)"
    using set_value_ok [OF assms(1) f assms(5)] by blast
  then show ?thesis using UPDATE_IT assms(3-5)
    by (auto simp: update_var_def writable_def place_name_def Let_def)
qed

text \<open>What a look-up finds, with the map.\<close>

definition seek :: "sc_var list \<Rightarrow> string \<Rightarrow> (string \<times> sc_var) option" where
  "seek vars full = map_option (Pair full) (var_map vars full)"

lemma find_entry_eq:
  "store_ok vars \<Longrightarrow> find_entry sc vars name ty = do {
     in_label \<leftarrow> (if sc_label sc \<noteq> [] then map_option (seek vars) (label_var ty sc name) else Some None);
     (case in_label of
        Some r \<Rightarrow> Some (Some r)
      | None \<Rightarrow> do {
          full \<leftarrow> program_var ty (sc_program sc) name;
          (case seek vars full of
             Some r \<Rightarrow> Some (Some r)
           | None \<Rightarrow> map_option (seek vars) (program_var ty DEFAULT_PROGRAM name))
        })
   }"
proof -
  assume "store_ok vars"
  then have "map_option (\<lambda>i. (full, vars ! i)) (find_var vars full) = seek vars full" for full
    by (simp add: seek_def find_map option.map_comp comp_def)
  then show ?thesis by (simp add: find_entry_def Let_def)
qed

lemma seek_Some: "seek vars full = Some (x, e) \<longleftrightarrow> x = full \<and> var_map vars full = Some e"
  by (auto simp: seek_def)

lemma get_entry:
  assumes "store_ok vars" "find_entry sc vars name ty = Some (Some (full, e))"
    "ty \<noteq> VT_USER_REF" "v_type e \<noteq> VT_USER_REF" "var_value e = Some d"
  shows "variable_get sc vars name ty = Some (0, d)"
  using assms by (simp add: variable_get_def)

text \<open>The place a write chooses is the first a read of the same kind looks at.\<close>

lemma find_place_read:
  assumes "store_ok vars" "vars \<noteq> []" "ty \<noteq> VT_USER_REF" "ty \<noteq> VT_USER_GLOBAL"
    "find_place sc vars name ty = Some c"
    "length (sc_program sc) + length (sc_label sc) < 124"
  shows "found_ok vars c"
    "store_ok vars1 \<Longrightarrow> var_map vars1 = (var_map vars)(place_name vars c \<mapsto> e) \<Longrightarrow>
      find_entry sc vars1 name ty = Some (Some (place_name vars c, e))"
proof -
  have l: "length (var_prefix ty) \<le> 1" by (simp add: var_prefix_def)
  define lv where "lv = var_prefix ty @ ''('' @ sc_program sc @ ''.'' @ sc_label sc @ '')'' @ name"
  define pv where "pv = var_prefix ty @ ''('' @ sc_program sc @ '')'' @ name"
  have L: "label_var ty sc name = Some lv" and P: "program_var ty (sc_program sc) name = Some pv"
    using l assms(6) by (auto simp: full_names lv_def pv_def)
  have ne: "lv \<noteq> []" "pv \<noteq> []" by (simp_all add: lv_def pv_def)
  consider (lab) "sc_label sc \<noteq> []" "c = add_or_update vars lv"
    | (prog) "c = add_or_update vars pv" "sc_label sc \<noteq> [] \<longrightarrow> var_map vars lv = None \<and> lv \<noteq> pv"
  proof (cases "sc_label sc = []")
    case False
    have "lv \<noteq> pv" by (auto simp: lv_def pv_def)
    show thesis
    proof (cases "find_var vars lv")
      case None
      then show thesis using that assms(1-5) False L P \<open>lv \<noteq> pv\<close> find_None [of vars lv]
        by (auto simp: find_place_def split: if_splits)
    next
      case (Some i)
      then have "c = UPDATE_IT i \<or> c = add_or_update vars lv"
        using assms(2-5) False L P by (auto simp: find_place_def split: if_splits)
      then have "c = add_or_update vars lv" using Some by (auto simp: add_or_update_def)
      then show thesis using that False by blast
    qed
  next
    case True
    then show thesis using that assms(2-5) P by (auto simp: find_place_def split: if_splits)
  qed
  note c = this
  show "found_ok vars c" using c add_or_update_ok [OF assms(1)] ne by cases blast+
  show "find_entry sc vars1 name ty = Some (Some (place_name vars c, e))"
    if ok: "store_ok vars1" and m: "var_map vars1 = (var_map vars)(place_name vars c \<mapsto> e)"
    using c
  proof cases
    case lab
    then have "place_name vars c = lv" using add_or_update_ok [OF assms(1) ne(1)] by auto
    then show ?thesis using lab L ok m by (auto simp: find_entry_eq seek_def)
  next
    case prog
    then have p: "place_name vars c = pv" using add_or_update_ok [OF assms(1) ne(2)] by auto
    then have "seek vars1 pv = Some (pv, e)" "sc_label sc \<noteq> [] \<Longrightarrow> seek vars1 lv = None"
      using prog(2) m by (auto simp: seek_def)
    then show ?thesis using p L P ok by (auto simp: find_entry_eq)
  qed
qed

lemma find_entry_keep:
  assumes "store_ok vars" "store_ok vars1"
    "var_map vars1 = (var_map vars)(place \<mapsto> e)"
    "label_var ty sc n \<noteq> Some place" "program_var ty (sc_program sc) n \<noteq> Some place"
    "program_var ty DEFAULT_PROGRAM n \<noteq> Some place"
  shows "find_entry sc vars1 n ty = find_entry sc vars n ty"
proof -
  have s: "seek vars1 full = seek vars full" if "full \<noteq> place" for full
    using assms(3) that by (simp add: seek_def)
  have l: "map_option (seek vars1) m = map_option (seek vars) m" if "m \<noteq> Some place" for m
    using that s by (cases m) auto
  show ?thesis
    using assms l s
    by (cases "label_var ty sc n"; cases "program_var ty (sc_program sc) n")
      (auto simp: find_entry_eq split: option.splits)
qed

lemma find_entry_change:
  assumes "store_ok vars" "store_ok vars1" "find_entry sc vars n ty = Some (Some (place, e0))"
    "var_map vars1 = (var_map vars)(place \<mapsto> e)"
  shows "find_entry sc vars1 n ty = Some (Some (place, e))"
proof -
  have s: "seek vars1 f = (if f = place then Some (place, e) else seek vars f)" for f
    using assms(4) by (simp add: seek_def)
  have p: "seek vars f = Some (g, d) \<Longrightarrow> g = f" for f g d by (auto simp: seek_def)
  show ?thesis using assms(3)
    by (cases "label_var ty sc n"; cases "program_var ty (sc_program sc) n"; cases "program_var ty DEFAULT_PROGRAM n")
      (auto simp: find_entry_eq [OF assms(1)] find_entry_eq [OF assms(2)] s dest: p split: option.splits if_splits)
qed

lemma split_at: "c \<notin> set a \<Longrightarrow> c \<notin> set b \<Longrightarrow> a @ c # x = b @ c # y \<Longrightarrow> a = b"
proof (induction a arbitrary: b)
  case (Cons d a)
  then show ?case by (cases b) auto
next
  case Nil
  then show ?case by (cases b) auto
qed

lemma qsort_sorted: "ascending_by name_cmp v_key vars \<Longrightarrow> qsort (\<lambda>a b. name_cmp (v_key a) (v_key b)) vars = vars"
proof (induction vars)
  case (Cons a vars)
  then have "qsort (\<lambda>a b. name_cmp (v_key a) (v_key b)) vars = vars" "\<forall>x \<in> set vars. name_cmp (v_key a) (v_key x) \<le> 0"
    by (auto simp: ascending_by_def)
  then show ?case by (cases vars) (simp_all add: qsort_def)
qed (simp add: qsort_def)

section \<open>Properties\<close>

text \<open>C35. What is written to a variable is read back: after \<open>variable_put\<close> in a scope, \<open>variable_get\<close>
  of the same name and kind in that scope returns 0 and the value, and no entry but the one written
  has changed. (Global variables may be hidden by one of the program; references, constants
  and labels are not overwritten.)\<close>

theorem variable_put_get:
  assumes "store_ok vars" "vars \<noteq> []" "ty \<noteq> VT_USER_REF" "ty \<noteq> VT_USER_GLOBAL"
    "find_place sc vars name ty = Some c" "writable vars c"
    "length val < 2 ^ 32" "length (sc_program sc) + length (sc_label sc) < 124"
  shows "\<exists>vars1. variable_put sc vars name val (of_nat (length val)) ty = Some (Done vars1) \<and>
    store_ok vars1 \<and> variable_get sc vars1 name ty = Some (0, val) \<and>
    (\<forall>full. full \<noteq> place_name vars c \<longrightarrow> var_map vars1 full = var_map vars full)"
proof -
  note f = find_place_read [OF assms(1-5,8)]
  obtain vars1 e where w: "variable_put sc vars name val (of_nat (length val)) ty = Some (Done vars1)"
    "store_ok vars1" "var_map vars1 = (var_map vars)(place_name vars c \<mapsto> e)" "var_value e = Some val"
    "v_type e = (case c of ADD_IT full \<Rightarrow> ty | UPDATE_IT i \<Rightarrow> v_type (vars ! i))"
    using write_ok [OF assms(1) f(1) assms(6,3,7)] assms(5) by (auto simp: put_value [OF assms(7)])
  have "v_type e \<noteq> VT_USER_REF" using w(5) assms(3,6) by (auto simp: writable_def split: choice.splits)
  then have "variable_get sc vars1 name ty = Some (0, val)"
    using get_entry [OF w(2) f(2) [OF w(2,3)] assms(3) _ w(4)] by blast
  then show ?thesis using w by (intro exI [of _ vars1]) simp
qed

definition example_vars :: "sc_var list" where
  "example_vars = [new_var ''(p)x'' ''1'' VT_USER]"

definition example_scope :: "string \<Rightarrow> scope" where
  "example_scope l = \<lparr>sc_program = ''p'', sc_label = l\<rparr>"

lemma example_vars_ok: "store_ok example_vars"
  by (simp add: example_vars_def store_ok_def vars_ok_single new_var_def var_value_def)

lemma example_find:
  "find_var example_vars name = (if name = ''(p)x'' then Some 0 else None)"
  using find_None [OF example_vars_ok, of name] find_Some [OF example_vars_ok, of name]
  by (cases "find_var example_vars name")
    (auto simp: example_vars_def var_map_def new_var_def split: if_splits)

theorem variable_put_get_witness:
  "\<exists>vars1. variable_put (example_scope []) example_vars ''x'' ''22'' 2 VT_USER = Some (Done vars1) \<and>
    variable_get (example_scope []) vars1 ''x'' VT_USER = Some (0, ''22'')"
proof -
  have "find_place (example_scope []) example_vars ''x'' VT_USER = Some (UPDATE_IT 0)"
    by (simp add: find_place_def example_scope_def full_names program_var_def prefixed_def var_prefix_def
        add_or_update_def example_find) (simp add: example_vars_def)
  moreover have "writable example_vars (UPDATE_IT 0)" by (simp add: writable_def example_vars_def new_var_def)
  ultimately show ?thesis
    using variable_put_get [OF example_vars_ok, of VT_USER "example_scope []" "''x''" "UPDATE_IT 0" "''22''"]
    by (auto simp: example_scope_def example_vars_def)
qed

text \<open>An argument passed by reference: a subroutine that gets the name of a variable of its
  caller under a new name of its own, and writes to that name, has written the variable of the
  caller; it reads the new value under its own name, and so does the caller under the old one.\<close>

theorem variable_by_reference:
  assumes "store_ok vars" "find_entry caller vars x VT_USER_REF = Some (Some (target, e))"
    "v_type e = VT_USER" "no_nul target" "length target < 2 ^ 32" "length val < 2 ^ 32"
    "sc_label callee \<noteq> []" "label_var VT_USER callee y = Some full" "var_map vars full = None"
    "label_var VT_USER caller x \<noteq> Some full" "program_var VT_USER (sc_program caller) x \<noteq> Some full"
    "program_var VT_USER DEFAULT_PROGRAM x \<noteq> Some full"
  shows "variable_get caller vars x VT_USER_REF = Some (0, target) \<and>
    (\<exists>vars1 vars2. variable_put callee vars y target (of_nat (length target)) VT_USER_REF = Some (Done vars1) \<and>
      variable_put callee vars1 y val (of_nat (length val)) VT_USER = Some (Done vars2) \<and>
      variable_get callee vars2 y VT_USER = Some (0, val) \<and>
      variable_get caller vars2 x VT_USER = Some (0, val))"
proof -
  have pre: "label_var VT_USER_REF sc n = label_var VT_USER sc n"
    "program_var VT_USER_REF p n = program_var VT_USER p n" for sc n p
    by (simp_all add: label_var_def program_var_def var_prefix_def)
  have same: "find_entry sc vs n VT_USER_REF = find_entry sc vs n VT_USER" for sc vs n
    unfolding find_entry_def pre ..
  have t: "var_map vars target = Some e"
    using assms(2) by (auto simp: find_entry_eq [OF assms(1)] seek_Some split: option.splits if_splits)
  then have ne: "vars \<noteq> []" "target \<noteq> full" using assms(9) by (auto simp: var_map_def)
  have full: "full \<noteq> []" using assms(8) by (auto simp: full_names)
  have g: "variable_get caller vars x VT_USER_REF = Some (0, target)"
    using assms(2) by (simp add: variable_get_def)
  let ?r = "new_var full target VT_USER_REF"
  let ?vars1 = "insert_var ?r vars"
  have n: "find_var vars full = None" using assms(1,9) by (simp add: find_None)
  have p1: "variable_put callee vars y target (of_nat (length target)) VT_USER_REF = Some (Done ?vars1)"
    using assms(7,8) ne(1) n by (simp add: put_value [OF assms(5)] find_place_def pre)
  note ok1 = insert_ok [OF assms(1,9) full assms(5), of VT_USER_REF]
  have m1: "var_map ?vars1 full = Some ?r" "var_map ?vars1 target = Some e" using ok1(2) t ne(2) by auto
  obtain i where i: "find_var ?vars1 full = Some i" "?vars1 ! i = ?r"
    using m1(1) by (auto simp: find_map [OF ok1(1)])
  obtain j where j: "find_var ?vars1 target = Some j" "?vars1 ! j = e"
    using m1(2) by (auto simp: find_map [OF ok1(1)])
  obtain vars2 where v2: "set_value ?vars1 j val = Some vars2" "store_ok vars2"
    "var_map vars2 = (var_map ?vars1)(target \<mapsto> with_value e val)"
    using set_value_ok [OF ok1(1) j(1) assms(6)] j(2) by auto
  have "?vars1 \<noteq> []" by (metis length_insert_var list.size(3) nat.distinct(1))
  moreover have rt: "v_type ?r = VT_USER_REF" by (simp add: new_var_def)
  ultimately have p2: "variable_put callee ?vars1 y val (of_nat (length val)) VT_USER = Some (Done vars2)"
    using assms(4,5,7,8) i j(1) v2(1)
    by (simp add: put_value [OF assms(6)] find_place_def update_var_def)
  have "find_entry caller ?vars1 x VT_USER = find_entry caller vars x VT_USER"
    using find_entry_keep [OF assms(1) ok1(1,2)] assms(10-12) by blast
  then have f1: "find_entry caller ?vars1 x VT_USER = Some (Some (target, e))" using assms(2) same by simp
  have f2: "find_entry caller vars2 x VT_USER = Some (Some (target, with_value e val))"
    by (rule find_entry_change [OF ok1(1) v2(2) f1 v2(3)])
  have c: "variable_get caller vars2 x VT_USER = Some (0, val)"
    using f2 assms(3,6) by (intro get_entry [OF v2(2)]) auto
  have "find_entry callee vars2 y VT_USER = Some (Some (full, ?r))"
    using assms(7,8) v2(3) m1(1) ne(2) by (auto simp: find_entry_eq [OF v2(2)] seek_def)
  moreover obtain k where "find_var vars2 target = Some k" "vars2 ! k = with_value e val"
  proof -
    have "var_map vars2 target = Some (with_value e val)" using v2(3) by simp
    then show thesis using that by (auto simp: find_map [OF v2(2)])
  qed
  ultimately have "variable_get callee vars2 y VT_USER = Some (0, val)"
    using assms(4) value_of_new(1) [OF assms(5), of full VT_USER_REF] value_of_new(2) [OF assms(6), of e] rt
    by (simp add: variable_get_def)
  then show ?thesis using g p1 p2 c by blast
qed

theorem variable_by_reference_witness:
  "\<exists>vars1 vars2. variable_put (example_scope ''sub'') example_vars ''y'' ''(p)x'' 4 VT_USER_REF = Some (Done vars1) \<and>
    variable_put (example_scope ''sub'') vars1 ''y'' ''9'' 1 VT_USER = Some (Done vars2) \<and>
    variable_get (example_scope []) vars2 ''x'' VT_USER = Some (0, ''9'')"
proof -
  let ?e = "new_var ''(p)x'' ''1'' VT_USER"
  have names: "label_var VT_USER (example_scope ''sub'') ''y'' = Some ''(p.sub)y''"
    "label_var VT_USER (example_scope []) ''x'' = Some ''(p.)x''"
    "program_var VT_USER (sc_program (example_scope [])) ''x'' = Some ''(p)x''"
    "program_var VT_USER_REF (sc_program (example_scope [])) ''x'' = Some ''(p)x''"
    "program_var VT_USER DEFAULT_PROGRAM ''x'' = Some ''()x''"
    by (simp_all add: label_var_def program_var_def prefixed_def var_prefix_def example_scope_def DEFAULT_PROGRAM_def)
  have m: "var_map example_vars ''(p.sub)y'' = None" "var_map example_vars ''(p)x'' = Some ?e"
    by (simp_all add: example_vars_def var_map_def new_var_def)
  have "sc_label (example_scope []) = []" "sc_label (example_scope ''sub'') \<noteq> []" by (simp_all add: example_scope_def)
  moreover from this have "find_entry (example_scope []) example_vars ''x'' VT_USER_REF = Some (Some (''(p)x'', ?e))"
    using names m by (simp add: find_entry_eq [OF example_vars_ok] seek_def)
  moreover have "v_type ?e = VT_USER" by (simp add: new_var_def)
  moreover have "no_nul ''(p)x''" by (simp add: of_char_def)
  ultimately show ?thesis
    using variable_by_reference [OF example_vars_ok, of "example_scope []" "''x''" "''(p)x''" ?e "''9''"
        "example_scope ''sub''" "''y''" "''(p.sub)y''"] names m by auto
qed



text \<open>\<open>variable_delete\<close> deletes nothing: the names in the table begin with a parenthesis or with
  \<^verbatim>\<open>#(\<close>, the name it looks for is that of the program followed by that of the variable. The table is
  the same after a call with a name or a pattern.\<close>

theorem variable_delete_nothing:
  assumes "store_ok vars" "list_all (\<lambda>e. hd (v_name e) \<in> {CHR ''('', CHR ''#''}) vars"
    "name \<noteq> []" "hd (sc_program sc @ name) \<notin> {CHR ''('', CHR ''#''}" "1 < length (sc_program sc @ name)"
  shows "variable_delete sc vars name = Some vars"
proof -
  let ?full = "sc_program sc @ name"
  obtain c cs where f: "?full = c # cs" "cs \<noteq> []" using assms(5) by (cases ?full) auto
  have b: "butlast ?full = c # butlast cs" unfolding f(1) using f(2) by simp
  have no: "\<not> starts (butlast ?full) (v_name e)" "v_name e \<noteq> ?full" if "e \<in> set vars" for e
  proof -
    have "v_name e \<noteq> []" "hd (v_name e) \<noteq> c"
      using assms(1,2,4) that unfolding f(1) by (auto simp: list_all_iff store_ok_def)
    then show "\<not> starts (butlast ?full) (v_name e)" "v_name e \<noteq> ?full"
      unfolding b unfolding f(1) by (cases "v_name e"; simp add: starts_def)+
  qed
  have "var_map vars ?full = None" using no(2) by (force simp: var_map_None)
  then have "find_var vars ?full = None" using assms(1) by (simp add: find_None)
  moreover have "map (\<lambda>e. if starts (butlast ?full) (v_name e) then delete_entry e else e) vars = vars"
    using no(1) by (intro map_idI) simp
  moreover have "qsort (\<lambda>a b. name_cmp (v_key a) (v_key b)) vars = vars"
    using assms(1) by (intro qsort_sorted) (simp add: store_ok_def vars_ok_def)
  moreover have "list_all (\<lambda>e. \<not> (starts (butlast ?full) (v_name e) \<and> v_name e = [])) vars"
    using no(1) by (auto simp: list_all_iff)
  ultimately show ?thesis using assms(3) by (simp add: variable_delete_def Let_def)
qed

theorem variable_delete_nothing_witness:
  "variable_delete (example_scope []) example_vars ''x'' = Some example_vars"
  by (rule variable_delete_nothing [OF example_vars_ok]) (simp_all add: example_vars_def new_var_def example_scope_def)

end
