(* ===== verification/Tokens.thy ===== *)
theory Tokens
  imports Buffers Parse Variables
begin

section \<open>Tokens of the command language (tokens.c)\<close>

text \<open>
  A token is a piece of the text that \<open>parse\<close> has taken off, classified as a keyword, an
  operator, a function, an identifier, a variable, a text or a number. The kinds are the values
  of an \<^verbatim>\<open>enum\<close> that are stored as bytes, so a kind is a byte here. A token of kind \<open>TT_VARIABLE\<close>
  contains \<^verbatim>\<open>$name\<close>s; \<open>evaluate_token\<close> replaces them by the values of the variables, the innermost
  first, as in \<^verbatim>\<open>$x[$i]\<close>. The main results are that a token of one variable becomes its value, that
  text around it is kept, and the two inputs for which this fails: a byte 255 in a value, and a
  closing bracket before the first \<^verbatim>\<open>$\<close>, which makes the loop run for ever.
\<close>

type_synonym token_types = byte

abbreviation (input) TT_SPECIAL :: token_types where "TT_SPECIAL \<equiv> 1"
abbreviation (input) TT_NULL_TOKEN :: token_types where "TT_NULL_TOKEN \<equiv> 2"
abbreviation (input) TT_END_OF_LINE :: token_types where "TT_END_OF_LINE \<equiv> 3"
abbreviation (input) TT_VARIABLE :: token_types where "TT_VARIABLE \<equiv> 4"
abbreviation (input) TT_IDENTIFIER :: token_types where "TT_IDENTIFIER \<equiv> 5"
abbreviation (input) TT_STRING :: token_types where "TT_STRING \<equiv> 6"
abbreviation (input) TT_CONSTANT :: token_types where "TT_CONSTANT \<equiv> 7"
abbreviation (input) TT_OPERATOR :: token_types where "TT_OPERATOR \<equiv> 8"
abbreviation (input) TT_NUMBER :: token_types where "TT_NUMBER \<equiv> 9"
abbreviation (input) TT_LINE_NUMBER :: token_types where "TT_LINE_NUMBER \<equiv> 10"
abbreviation (input) TT_POUND_INCLUDE :: token_types where "TT_POUND_INCLUDE \<equiv> 11"
abbreviation (input) TT_POUND_DEFINE :: token_types where "TT_POUND_DEFINE \<equiv> 12"
abbreviation (input) TT_POUND_IFDEF :: token_types where "TT_POUND_IFDEF \<equiv> 13"
abbreviation (input) TT_POUND_ELSE :: token_types where "TT_POUND_ELSE \<equiv> 14"
abbreviation (input) TT_POUND_ENDIF :: token_types where "TT_POUND_ENDIF \<equiv> 15"
abbreviation (input) TT_COMMENT :: token_types where "TT_COMMENT \<equiv> 16"
abbreviation (input) TT_UNKNOWN :: token_types where "TT_UNKNOWN \<equiv> 17"
abbreviation (input) TT_AFTER :: token_types where "TT_AFTER \<equiv> 18"
abbreviation (input) TT_BREAK :: token_types where "TT_BREAK \<equiv> 19"
abbreviation (input) TT_BREAK_LOOP :: token_types where "TT_BREAK_LOOP \<equiv> 20"
abbreviation (input) TT_BEGIN :: token_types where "TT_BEGIN \<equiv> 21"
abbreviation (input) TT_CONTINUE :: token_types where "TT_CONTINUE \<equiv> 22"
abbreviation (input) TT_CLOSE :: token_types where "TT_CLOSE \<equiv> 23"
abbreviation (input) TT_DEFINE :: token_types where "TT_DEFINE \<equiv> 24"
abbreviation (input) TT_DEFINE_ARRAY :: token_types where "TT_DEFINE_ARRAY \<equiv> 25"
abbreviation (input) TT_DEFINE_XREF :: token_types where "TT_DEFINE_XREF \<equiv> 26"
abbreviation (input) TT_LOCAL_VAR :: token_types where "TT_LOCAL_VAR \<equiv> 27"
abbreviation (input) TT_DELETE :: token_types where "TT_DELETE \<equiv> 28"
abbreviation (input) TT_END :: token_types where "TT_END \<equiv> 29"
abbreviation (input) TT_ELSE :: token_types where "TT_ELSE \<equiv> 30"
abbreviation (input) TT_ELSE_IF :: token_types where "TT_ELSE_IF \<equiv> 31"
abbreviation (input) TT_END_IF :: token_types where "TT_END_IF \<equiv> 32"
abbreviation (input) TT_END_WHILE :: token_types where "TT_END_WHILE \<equiv> 33"
abbreviation (input) TT_ERROR :: token_types where "TT_ERROR \<equiv> 34"
abbreviation (input) TT_EXIT :: token_types where "TT_EXIT \<equiv> 35"
abbreviation (input) TT_FOR :: token_types where "TT_FOR \<equiv> 36"
abbreviation (input) TT_GLET :: token_types where "TT_GLET \<equiv> 37"
abbreviation (input) TT_GOSUB :: token_types where "TT_GOSUB \<equiv> 38"
abbreviation (input) TT_GOTO :: token_types where "TT_GOTO \<equiv> 39"
abbreviation (input) TT_IF :: token_types where "TT_IF \<equiv> 40"
abbreviation (input) TT_LABEL :: token_types where "TT_LABEL \<equiv> 41"
abbreviation (input) TT_LET :: token_types where "TT_LET \<equiv> 42"
abbreviation (input) TT_NEXT :: token_types where "TT_NEXT \<equiv> 43"
abbreviation (input) TT_NO_ERROR :: token_types where "TT_NO_ERROR \<equiv> 44"
abbreviation (input) TT_OPEN :: token_types where "TT_OPEN \<equiv> 45"
abbreviation (input) TT_PRAGMA :: token_types where "TT_PRAGMA \<equiv> 46"
abbreviation (input) TT_PRINT :: token_types where "TT_PRINT \<equiv> 47"
abbreviation (input) TT_RETURN :: token_types where "TT_RETURN \<equiv> 48"
abbreviation (input) TT_SEND :: token_types where "TT_SEND \<equiv> 49"
abbreviation (input) TT_SEND_REPLY :: token_types where "TT_SEND_REPLY \<equiv> 50"
abbreviation (input) TT_SET_PROGRAM :: token_types where "TT_SET_PROGRAM \<equiv> 51"
abbreviation (input) TT_SLEEP :: token_types where "TT_SLEEP \<equiv> 52"
abbreviation (input) TT_START_TIMER :: token_types where "TT_START_TIMER \<equiv> 53"
abbreviation (input) TT_STEP :: token_types where "TT_STEP \<equiv> 54"
abbreviation (input) TT_STOP_TIMER :: token_types where "TT_STOP_TIMER \<equiv> 55"
abbreviation (input) TT_THEN :: token_types where "TT_THEN \<equiv> 56"
abbreviation (input) TT_TO :: token_types where "TT_TO \<equiv> 57"
abbreviation (input) TT_WHILE :: token_types where "TT_WHILE \<equiv> 58"
abbreviation (input) TT_EQUAL :: token_types where "TT_EQUAL \<equiv> 59"
abbreviation (input) TT_ESC :: token_types where "TT_ESC \<equiv> 60"
abbreviation (input) TT_ASSIGN :: token_types where "TT_ASSIGN \<equiv> 61"
abbreviation (input) TT_BANG :: token_types where "TT_BANG \<equiv> 62"
abbreviation (input) TT_COLON :: token_types where "TT_COLON \<equiv> 63"
abbreviation (input) TT_GREATER_THAN :: token_types where "TT_GREATER_THAN \<equiv> 64"
abbreviation (input) TT_GREATER_THAN_EQUAL :: token_types where "TT_GREATER_THAN_EQUAL \<equiv> 65"
abbreviation (input) TT_LESS_THAN :: token_types where "TT_LESS_THAN \<equiv> 66"
abbreviation (input) TT_LESS_THAN_EQUAL :: token_types where "TT_LESS_THAN_EQUAL \<equiv> 67"
abbreviation (input) TT_NOT_EQUAL :: token_types where "TT_NOT_EQUAL \<equiv> 68"
abbreviation (input) TT_BITWISE_AND :: token_types where "TT_BITWISE_AND \<equiv> 69"
abbreviation (input) TT_CLOSE_PAREN :: token_types where "TT_CLOSE_PAREN \<equiv> 70"
abbreviation (input) TT_COMMA :: token_types where "TT_COMMA \<equiv> 71"
abbreviation (input) TT_DIVIDE :: token_types where "TT_DIVIDE \<equiv> 72"
abbreviation (input) TT_LOGICAL_AND :: token_types where "TT_LOGICAL_AND \<equiv> 73"
abbreviation (input) TT_LOGICAL_OR :: token_types where "TT_LOGICAL_OR \<equiv> 74"
abbreviation (input) TT_MINUS :: token_types where "TT_MINUS \<equiv> 75"
abbreviation (input) TT_UNARY_MINUS :: token_types where "TT_UNARY_MINUS \<equiv> 76"
abbreviation (input) TT_MULT :: token_types where "TT_MULT \<equiv> 77"
abbreviation (input) TT_OPEN_PAREN :: token_types where "TT_OPEN_PAREN \<equiv> 78"
abbreviation (input) TT_BITWISE_OR :: token_types where "TT_BITWISE_OR \<equiv> 79"
abbreviation (input) TT_BITWISE_XOR :: token_types where "TT_BITWISE_XOR \<equiv> 80"
abbreviation (input) TT_UNARY_ONES_COMPLEMENT :: token_types where "TT_UNARY_ONES_COMPLEMENT \<equiv> 81"
abbreviation (input) TT_PLUS :: token_types where "TT_PLUS \<equiv> 82"
abbreviation (input) TT_UNARY_PLUS :: token_types where "TT_UNARY_PLUS \<equiv> 83"
abbreviation (input) TT_PERIOD :: token_types where "TT_PERIOD \<equiv> 84"
abbreviation (input) TT_STR_EQUAL :: token_types where "TT_STR_EQUAL \<equiv> 85"
abbreviation (input) TT_STR_NOT_EQUAL :: token_types where "TT_STR_NOT_EQUAL \<equiv> 86"
abbreviation (input) TT_X :: token_types where "TT_X \<equiv> 87"
abbreviation (input) TT_FUNCTION :: token_types where "TT_FUNCTION \<equiv> 88"
abbreviation (input) TT_FUNCTION_MIN :: token_types where "TT_FUNCTION_MIN \<equiv> 89"
abbreviation (input) TT_SCAN :: token_types where "TT_SCAN \<equiv> 90"
abbreviation (input) TT_SUBSTR :: token_types where "TT_SUBSTR \<equiv> 91"
abbreviation (input) TT_SQRT :: token_types where "TT_SQRT \<equiv> 92"
abbreviation (input) TT_STRFTIME :: token_types where "TT_STRFTIME \<equiv> 93"
abbreviation (input) TT_STRLEN :: token_types where "TT_STRLEN \<equiv> 94"
abbreviation (input) TT_GET_TMP_VAR :: token_types where "TT_GET_TMP_VAR \<equiv> 95"
abbreviation (input) TT_GET_VERSION :: token_types where "TT_GET_VERSION \<equiv> 96"
abbreviation (input) TT_FILE_CLOSE :: token_types where "TT_FILE_CLOSE \<equiv> 97"
abbreviation (input) TT_FILE_OPEN :: token_types where "TT_FILE_OPEN \<equiv> 98"
abbreviation (input) TT_FILE_OWC :: token_types where "TT_FILE_OWC \<equiv> 99"
abbreviation (input) TT_FILE_READ :: token_types where "TT_FILE_READ \<equiv> 100"
abbreviation (input) TT_FILE_WRITE :: token_types where "TT_FILE_WRITE \<equiv> 101"
abbreviation (input) TT_FORMAT :: token_types where "TT_FORMAT \<equiv> 102"
abbreviation (input) TT_DUMP :: token_types where "TT_DUMP \<equiv> 103"
abbreviation (input) TT_TRACE :: token_types where "TT_TRACE \<equiv> 104"
abbreviation (input) TT_DEL_TMP_VAR :: token_types where "TT_DEL_TMP_VAR \<equiv> 105"
abbreviation (input) TT_SORT_TMP_VAR :: token_types where "TT_SORT_TMP_VAR \<equiv> 106"
abbreviation (input) TT_ADD_TMP_VAR :: token_types where "TT_ADD_TMP_VAR \<equiv> 107"
abbreviation (input) TT_SET_TMP_VAR :: token_types where "TT_SET_TMP_VAR \<equiv> 108"
abbreviation (input) TT_HTOI :: token_types where "TT_HTOI \<equiv> 109"
abbreviation (input) TT_OTOI :: token_types where "TT_OTOI \<equiv> 110"
abbreviation (input) TT_ITOH :: token_types where "TT_ITOH \<equiv> 111"
abbreviation (input) TT_IMPORT :: token_types where "TT_IMPORT \<equiv> 112"
abbreviation (input) TT_FTOH :: token_types where "TT_FTOH \<equiv> 113"
abbreviation (input) TT_HTOF :: token_types where "TT_HTOF \<equiv> 114"
abbreviation (input) TT_SWAP :: token_types where "TT_SWAP \<equiv> 115"
abbreviation (input) TT_BTOI :: token_types where "TT_BTOI \<equiv> 116"
abbreviation (input) TT_ITOA :: token_types where "TT_ITOA \<equiv> 117"
abbreviation (input) TT_ITOB :: token_types where "TT_ITOB \<equiv> 118"
abbreviation (input) TT_ABS :: token_types where "TT_ABS \<equiv> 119"
abbreviation (input) TT_ITOO :: token_types where "TT_ITOO \<equiv> 120"
abbreviation (input) TT_INSTRING :: token_types where "TT_INSTRING \<equiv> 121"
abbreviation (input) TT_IS_LABEL :: token_types where "TT_IS_LABEL \<equiv> 122"
abbreviation (input) TT_IS_TMP_VAR :: token_types where "TT_IS_TMP_VAR \<equiv> 123"
abbreviation (input) TT_IS_VAR :: token_types where "TT_IS_VAR \<equiv> 124"
abbreviation (input) TT_GET_CLIENT :: token_types where "TT_GET_CLIENT \<equiv> 125"
abbreviation (input) TT_GET_ENV :: token_types where "TT_GET_ENV \<equiv> 126"
abbreviation (input) TT_SYSTEM :: token_types where "TT_SYSTEM \<equiv> 127"
abbreviation (input) TT_SYSTEM_SHELL :: token_types where "TT_SYSTEM_SHELL \<equiv> 128"
abbreviation (input) TT_TEST :: token_types where "TT_TEST \<equiv> 129"
abbreviation (input) TT_TIME :: token_types where "TT_TIME \<equiv> 130"
abbreviation (input) TT_TOLOWER :: token_types where "TT_TOLOWER \<equiv> 131"
abbreviation (input) TT_TOUPPER :: token_types where "TT_TOUPPER \<equiv> 132"
abbreviation (input) TT_MOD :: token_types where "TT_MOD \<equiv> 133"
abbreviation (input) TT_T_PARSE :: token_types where "TT_T_PARSE \<equiv> 134"
abbreviation (input) TT_PARSE :: token_types where "TT_PARSE \<equiv> 135"
abbreviation (input) TT_POW :: token_types where "TT_POW \<equiv> 136"
abbreviation (input) TT_EXPORT :: token_types where "TT_EXPORT \<equiv> 137"
abbreviation (input) TT_FUNCTION_MAX :: token_types where "TT_FUNCTION_MAX \<equiv> 138"
abbreviation (input) TT_NOT_ASSIGNED_YET :: token_types where "TT_NOT_ASSIGNED_YET \<equiv> 139"
abbreviation (input) TT_END_OF_LIST :: token_types where "TT_END_OF_LIST \<equiv> 140"

subsection \<open>Keywords, operators and functions\<close>

definition words_A_D :: "(string \<times> token_types) list" where
  "words_A_D = [
     (''AND'', TT_LOGICAL_AND), (''AFTER'', TT_AFTER), (''BREAK'', TT_BREAK),
     (''BREAK_LOOP'', TT_BREAK_LOOP), (''BEGIN'', TT_BEGIN), (''CLOSE'', TT_CLOSE),
     (''CONTINUE'', TT_CONTINUE), (''DEFINE'', TT_DEFINE), (''DEFINE_ARRAY'', TT_DEFINE_ARRAY),
     (''DEFINE_XREF'', TT_DEFINE_XREF), (''DELETE'', TT_DELETE)]"

definition words_E_L :: "(string \<times> token_types) list" where
  "words_E_L = [
     (''END'', TT_END), (''EQ'', TT_STR_EQUAL), (''ELSE'', TT_ELSE), (''ELSE_IF'', TT_ELSE_IF),
     (''ERROR'', TT_ERROR), (''END_IF'', TT_END_IF), (''END_WHILE'', TT_END_WHILE),
     (''EXIT'', TT_EXIT), (''FOR'', TT_FOR), (''GOSUB'', TT_GOSUB), (''GOTO'', TT_GOTO),
     (''GLET'', TT_GLET), (''IF'', TT_IF), (''LET'', TT_LET), (''LABEL'', TT_LABEL),
     (''LOCAL_VAR'', TT_LOCAL_VAR)]"

definition words_N_R :: "(string \<times> token_types) list" where
  "words_N_R = [
     (''NE'', TT_STR_NOT_EQUAL), (''NO_ERROR'', TT_NO_ERROR), (''NEXT'', TT_NEXT),
     (''OPEN'', TT_OPEN), (''OR'', TT_LOGICAL_OR), (''PRAGMA'', TT_PRAGMA), (''PRINT'', TT_PRINT),
     (''RETURN'', TT_RETURN)]"

definition words_S_W :: "(string \<times> token_types) list" where
  "words_S_W = [
     (''SEND'', TT_SEND), (''SEND_REPLY'', TT_SEND_REPLY), (''SLEEP'', TT_SLEEP),
     (''START_TIMER'', TT_START_TIMER), (''STEP'', TT_STEP), (''STOP_TIMER'', TT_STOP_TIMER),
     (''SET_PROGRAM'', TT_SET_PROGRAM), (''TO'', TT_TO), (''THEN'', TT_THEN), (''WHILE'', TT_WHILE)]"

definition word_operators :: "(string \<times> token_types) list" where
  "word_operators = [
     (''<'', TT_LESS_THAN), (''>'', TT_GREATER_THAN), (''='', TT_ASSIGN), (''!'', TT_BANG),
     (''<='', TT_LESS_THAN_EQUAL), (''>='', TT_GREATER_THAN_EQUAL), (''=='', TT_EQUAL),
     (''!='', TT_NOT_EQUAL), (''('', TT_OPEN_PAREN), ('')'', TT_CLOSE_PAREN), ('','', TT_COMMA),
     (''-'', TT_MINUS), (''~'', TT_UNARY_ONES_COMPLEMENT), (''+'', TT_PLUS), (''/'', TT_DIVIDE),
     (''*'', TT_MULT), (''|'', TT_BITWISE_OR), (''^'', TT_BITWISE_XOR), (''&'', TT_BITWISE_AND),
     (''.'', TT_PERIOD), ('':'', TT_COLON), ([CHR 0x5C], TT_ESC)]"

text \<open>The word is copied into 128 characters and turned into upper case; from 127 characters on
  there is no NUL at its end. The nested comparisons of the source look a word up.\<close>

definition upper_word :: "string \<Rightarrow> string option" where
  "upper_word t = do { require (length (cstr t) < 127); Some (map toupper (cstr t)) }"

definition get_token_type :: "string \<Rightarrow> token_types option" where
  "get_token_type t = do {
     w \<leftarrow> upper_word t;
     Some (case map_of (words_A_D @ words_E_L @ words_N_R @ words_S_W @ word_operators) w of
             Some ty \<Rightarrow> ty
           | None \<Rightarrow>
               if w \<in> {''XTREALIZEWIDGET'', ''XTSETVALUES'', ''XTAPPINITIALIZE''} \<or> starts ''XMCREATE'' w
               then TT_X else TT_UNKNOWN)
   }"

definition functions_A_H :: "(string \<times> token_types) list" where
  "functions_A_H = [
     (''ABS'', TT_ABS), (''ADD_TMP_VAR'', TT_ADD_TMP_VAR), (''BTOI'', TT_BTOI),
     (''DEL_TMP_VAR'', TT_DEL_TMP_VAR), (''DUMP'', TT_DUMP), (''EXPORT'', TT_EXPORT),
     (''FILE_CLOSE'', TT_FILE_CLOSE), (''FILE_OPEN'', TT_FILE_OPEN), (''FILE_OWC'', TT_FILE_OWC),
     (''FILE_READ'', TT_FILE_READ), (''FILE_WRITE'', TT_FILE_WRITE), (''FORMAT'', TT_FORMAT),
     (''FTOH'', TT_FTOH), (''GET_CLIENT'', TT_GET_CLIENT), (''GET_ENV'', TT_GET_ENV),
     (''GET_TMP_VAR'', TT_GET_TMP_VAR), (''GET_VERSION'', TT_GET_VERSION), (''HTOF'', TT_HTOF),
     (''HTOI'', TT_HTOI)]"

definition functions_I_T :: "(string \<times> token_types) list" where
  "functions_I_T = [
     (''IMPORT'', TT_IMPORT), (''INSTRING'', TT_INSTRING), (''IS_LABEL'', TT_IS_LABEL),
     (''IS_TMP_VAR'', TT_IS_TMP_VAR), (''IS_VAR'', TT_IS_VAR), (''ITOA'', TT_ITOA),
     (''ITOB'', TT_ITOB), (''ITOH'', TT_ITOH), (''ITOO'', TT_ITOO), (''MOD'', TT_MOD),
     (''OTOI'', TT_OTOI), (''PARSE'', TT_PARSE), (''POW'', TT_POW), (''SCAN'', TT_SCAN),
     (''SET_TMP_VAR'', TT_SET_TMP_VAR), (''SORT_TMP_VAR'', TT_SORT_TMP_VAR), (''SQRT'', TT_SQRT),
     (''STRFTIME'', TT_STRFTIME), (''STRLEN'', TT_STRLEN), (''SUBSTR'', TT_SUBSTR),
     (''SWAP'', TT_SWAP), (''SYSTEM'', TT_SYSTEM), (''SYSTEM_SHELL'', TT_SYSTEM_SHELL),
     (''TEST'', TT_TEST), (''TIME'', TT_TIME), (''TOUPPER'', TT_TOUPPER),
     (''TOLOWER'', TT_TOLOWER), (''TRACE'', TT_TRACE), (''T_PARSE'', TT_T_PARSE)]"

definition get_token_type_function :: "string \<Rightarrow> token_types option" where
  "get_token_type_function t = do {
     w \<leftarrow> upper_word t;
     Some (case map_of (functions_A_H @ functions_I_T) w of Some ty \<Rightarrow> ty | None \<Rightarrow> TT_UNKNOWN)
   }"

definition type_names :: "(token_types \<times> string) list" where
  "type_names = [
     (TT_IDENTIFIER, ''identifier''), (TT_LINE_NUMBER, ''#''), (TT_NUMBER, ''number''),
     (TT_VARIABLE, ''variable''), (TT_STRING, ''string''), (TT_CONSTANT, ''constant''),
     (TT_OPERATOR, ''operator''), (TT_END_OF_LINE, ''eol''), (TT_NULL_TOKEN, ''null token''),
     (TT_SPECIAL, ''special''), (TT_POUND_INCLUDE, ''#include''), (TT_POUND_DEFINE, ''#define''),
     (TT_POUND_IFDEF, ''#ifdef''), (TT_POUND_ELSE, ''#else''), (TT_POUND_ENDIF, ''#endif''),
     (TT_COMMENT, ''comment''), (TT_UNKNOWN, ''unknown''), (TT_AFTER, ''after''),
     (TT_BREAK, ''break''), (TT_BREAK_LOOP, ''break_loop''), (TT_BEGIN, ''begin''),
     (TT_CLOSE, ''close''), (TT_CONTINUE, ''continue''), (TT_DEFINE, ''define''),
     (TT_LOCAL_VAR, ''local_var''), (TT_TRACE, ''trace''), (TT_DEFINE_ARRAY, ''define_array''),
     (TT_DEFINE_XREF, ''define_xref''), (TT_DELETE, ''delete''), (TT_DUMP, ''dump''),
     (TT_LET, ''let''), (TT_GLET, ''glet''), (TT_END, ''end''), (TT_ELSE, ''else''),
     (TT_ELSE_IF, ''else_if''), (TT_END_IF, ''end_if''), (TT_END_WHILE, ''end_while''),
     (TT_ERROR, ''error''), (TT_EXIT, ''exit''), (TT_FILE_CLOSE, ''file_close''),
     (TT_FILE_OPEN, ''file_open''), (TT_FILE_OWC, ''file_owc''), (TT_FILE_READ, ''file_read''),
     (TT_FILE_WRITE, ''file_write''), (TT_FOR, ''for''), (TT_FORMAT, ''format''),
     (TT_GOSUB, ''gosub''), (TT_GOTO, ''goto''), (TT_IF, ''if''), (TT_LABEL, ''label''),
     (TT_NEXT, ''next''), (TT_NO_ERROR, ''no_error''), (TT_OPEN, ''open''),
     (TT_T_PARSE, ''t_parse''), (TT_PARSE, ''parse''), (TT_PRAGMA, ''pragma''),
     (TT_PRINT, ''print''), (TT_RETURN, ''return''), (TT_SCAN, ''scan''), (TT_SEND, ''send''),
     (TT_SEND_REPLY, ''send_reply''), (TT_SET_PROGRAM, ''set_program''), (TT_SLEEP, ''sleep''),
     (TT_THEN, ''then''), (TT_WHILE, ''while''), (TT_ASSIGN, ''=''), (TT_BANG, ''!''),
     (TT_EQUAL, ''==''), (TT_GREATER_THAN, ''>''), (TT_GREATER_THAN_EQUAL, ''>=''),
     (TT_LESS_THAN, ''<''), (TT_LESS_THAN_EQUAL, ''<=''), (TT_NOT_EQUAL, ''!=''),
     (TT_BITWISE_AND, ''&''), (TT_CLOSE_PAREN, '')''), (TT_COMMA, '',''), (TT_DIVIDE, ''/''),
     (TT_LOGICAL_AND, ''and''), (TT_LOGICAL_OR, ''or''), (TT_MINUS, ''-''),
     (TT_UNARY_MINUS, ''unary -''), (TT_UNARY_ONES_COMPLEMENT, ''~''), (TT_MULT, ''*''),
     (TT_OPEN_PAREN, ''(''), (TT_BITWISE_OR, ''|''), (TT_BITWISE_XOR, ''^''), (TT_PLUS, ''+''),
     (TT_UNARY_PLUS, ''unary +''), (TT_PERIOD, ''.''), (TT_COLON, '':''), (TT_ESC, ''esc''),
     (TT_STR_EQUAL, ''eq''), (TT_STR_NOT_EQUAL, ''ne''), (TT_FUNCTION_MIN, ''function_min''),
     (TT_FUNCTION_MAX, ''function_max''), (TT_FUNCTION, ''function''), (TT_SUBSTR, ''substr''),
     (TT_SYSTEM, ''system''), (TT_SYSTEM_SHELL, ''system_shell''), (TT_GET_CLIENT, ''get_client''),
     (TT_GET_ENV, ''get_env''), (TT_GET_VERSION, ''get_version''), (TT_ABS, ''abs''),
     (TT_HTOI, ''htoi''), (TT_OTOI, ''otoi''), (TT_ITOH, ''itoh''), (TT_BTOI, ''btoi''),
     (TT_EXPORT, ''export''), (TT_IMPORT, ''import''), (TT_ITOA, ''itoa''), (TT_HTOF, ''htof''),
     (TT_FTOH, ''ftoh''), (TT_SWAP, ''swap''), (TT_ITOB, ''itob''), (TT_ITOO, ''itoo''),
     (TT_INSTRING, ''instring''), (TT_IS_LABEL, ''is_label''), (TT_IS_VAR, ''is_var''),
     (TT_IS_TMP_VAR, ''is_tmp_var''), (TT_SQRT, ''sqrt''), (TT_STRFTIME, ''strftime''),
     (TT_MOD, ''mod''), (TT_STRLEN, ''strlen''), (TT_GET_TMP_VAR, ''get_tmp_var''),
     (TT_DEL_TMP_VAR, ''del_tmp_var''), (TT_SORT_TMP_VAR, ''sort_tmp_var''),
     (TT_ADD_TMP_VAR, ''add_tmp_var''), (TT_SET_TMP_VAR, ''set_tmp_var''), (TT_TEST, ''test''),
     (TT_TIME, ''time''), (TT_POW, ''pow''), (TT_TO, ''to''), (TT_TOLOWER, ''tolower''),
     (TT_TOUPPER, ''toupper''), (TT_START_TIMER, ''start_timer''), (TT_STEP, ''step''),
     (TT_STOP_TIMER, ''stop_timer''), (TT_X, ''x<command>'')]"

definition show_type :: "token_types \<Rightarrow> string run" where
  "show_type ty = (case map_of type_names ty of Some s \<Rightarrow> Done s | None \<Rightarrow> Exit)"

definition is_operator :: "token_types \<Rightarrow> bool" where
  "is_operator ty \<longleftrightarrow> ty \<in> {TT_PLUS, TT_MINUS, TT_UNARY_MINUS, TT_UNARY_PLUS, TT_MULT, TT_DIVIDE,
     TT_LOGICAL_AND, TT_LOGICAL_OR, TT_BITWISE_AND, TT_BITWISE_OR, TT_BITWISE_XOR, TT_LESS_THAN,
     TT_GREATER_THAN, TT_EQUAL, TT_STR_EQUAL, TT_STR_NOT_EQUAL, TT_LESS_THAN_EQUAL,
     TT_GREATER_THAN_EQUAL, TT_NOT_EQUAL, TT_COLON, TT_UNARY_ONES_COMPLEMENT, TT_PERIOD}"

definition is_function :: "token_types \<Rightarrow> bool" where
  "is_function ty \<longleftrightarrow> TT_FUNCTION_MIN < ty \<and> ty < TT_FUNCTION_MAX"

definition is_variable :: "string \<Rightarrow> bool" where
  "is_variable token \<longleftrightarrow> CHR ''$'' \<in> set (cstr token)"

subsection \<open>Reading tokens\<close>

text \<open>\<open>tk_buffer\<close> and \<open>tk_prev\<close> are the texts the two pointers point at.\<close>

record tok_state =
  tk_buffer :: string
  tk_prev :: string

definition set_token :: "string \<Rightarrow> tok_state" where
  "set_token buf = \<lparr>tk_buffer = cstr buf, tk_prev = cstr buf\<rparr>"

definition put_token :: "tok_state \<Rightarrow> tok_state" where
  "put_token s = s\<lparr>tk_buffer := tk_prev s\<rparr>"

text \<open>The kind of a name; \<open>rest\<close> is the text after it.\<close>

definition name_type :: "bool \<Rightarrow> string \<Rightarrow> string \<Rightarrow> token_types run option" where
  "name_type pp token rest =
     (if is_variable token then Some (Done TT_VARIABLE)
      else do {
        ty \<leftarrow> get_token_type token;
        if ty \<noteq> TT_UNKNOWN then Some (Done ty)
        else run_bind (parse rest [] True pp) (\<lambda>(next, pt, n).
          if cstr next = ''('' then do {
            f \<leftarrow> get_token_type_function token;
            Some (Done (if f = TT_UNKNOWN then TT_IDENTIFIER else f))
          }
          else Some (Done TT_IDENTIFIER))
      })"

definition token_type :: "bool \<Rightarrow> parse_types \<Rightarrow> string \<Rightarrow> string \<Rightarrow> token_types run option" where
  "token_type pp pt token rest =
     (case pt of
        PT_NUMBER \<Rightarrow> Some (Done TT_NUMBER)
      | PT_NULL \<Rightarrow> Some (Done TT_NULL_TOKEN)
      | PT_END_OF_LINE \<Rightarrow> Some (Done TT_END_OF_LINE)
      | PT_OTHER \<Rightarrow> map_option Done (get_token_type token)
      | PT_NAME \<Rightarrow> name_type pp token rest
      | PT_STRING \<Rightarrow> Some (Done TT_STRING)
      | PT_CONSTANT \<Rightarrow> Some (Done TT_CONSTANT)
      | PT_POUND_INCLUDE \<Rightarrow> Some (Done TT_POUND_INCLUDE)
      | PT_POUND_IFDEF \<Rightarrow> Some (Done TT_POUND_IFDEF)
      | PT_POUND_ELSE \<Rightarrow> Some (Done TT_POUND_ELSE)
      | PT_POUND_ENDIF \<Rightarrow> Some (Done TT_POUND_ENDIF)
      | PT_POUND_DEFINE \<Rightarrow> Some (Done TT_POUND_DEFINE)
      | PT_COMMENT \<Rightarrow> Some (Done TT_COMMENT)
      | PT_NOT_ASSIGNED_YET \<Rightarrow> Some Exit)"

definition get_token :: "bool \<Rightarrow> tok_state \<Rightarrow> ((string \<times> token_types) \<times> tok_state) run option" where
  "get_token pp s =
     run_bind (parse (tk_buffer s) [] True pp) (\<lambda>(token, pt, n). do {
       require (n \<le> length (tk_buffer s));
       let rest = drop n (tk_buffer s);
       run_bind (token_type pp pt token rest) (\<lambda>ty.
         Some (Done ((token, ty), \<lparr>tk_buffer = rest, tk_prev = tk_buffer s\<rparr>)))
     })"

subsection \<open>The variables in a token\<close>

record look_state =
  lo_var :: bool
  lo_nest :: int
  lo_nest_var :: int
  lo_name :: string
  lo_idx1 :: nat
  lo_idx2 :: nat

text \<open>One character of \<open>look\<close>, with the one after it; the boolean says that the loop goes on.\<close>

definition look_dollar :: "nat \<Rightarrow> char \<Rightarrow> look_state \<Rightarrow> bool \<times> look_state" where
  "look_dollar i next s =
     (let start = s\<lparr>lo_name := [], lo_idx1 := i, lo_idx2 := i + 1, lo_var := True\<rparr>
      in if next = CHR ''$'' then (True, s)
         else if lo_nest s \<noteq> 0 then
           (if lo_nest_var s = lo_nest s then (False, s)
            else (True, start\<lparr>lo_nest_var := lo_nest s\<rparr>))
         else if lo_name s \<noteq> [] then (False, s)
         else (True, start))"

definition look_chr :: "nat \<Rightarrow> char \<Rightarrow> char \<Rightarrow> look_state \<Rightarrow> bool \<times> look_state" where
  "look_chr i c next s =
     (let skip = s\<lparr>lo_idx2 := lo_idx2 s + 1\<rparr>; take = skip\<lparr>lo_name := lo_name s @ [c]\<rparr>
      in if c = CHR ''$'' then look_dollar i next s
         else if c = CHR ''{'' then (True, skip\<lparr>lo_nest := lo_nest s + 1\<rparr>)
         else if c = CHR ''}'' then
           (if lo_nest_var s = lo_nest s then (False, s) else (True, skip\<lparr>lo_nest := lo_nest s - 1\<rparr>))
         else if c = CHR ''['' then (True, take\<lparr>lo_nest := lo_nest s + 1\<rparr>)
         else if c = CHR '']'' then
           (if lo_nest_var s = lo_nest s then (False, s) else (True, take\<lparr>lo_nest := lo_nest s - 1\<rparr>))
         else if lo_var s then
           (if isalnum c \<or> c = CHR ''_'' \<or> c = CHR ''.'' then (True, take) else (False, s))
         else (True, s))"

fun look_loop :: "nat \<Rightarrow> string \<Rightarrow> look_state \<Rightarrow> look_state" where
  "look_loop i [] s = s"
| "look_loop i (c # rest) s =
     (case look_chr i c (case rest of [] \<Rightarrow> CHR 0x00 | d # ds \<Rightarrow> d) s of
        (True, s1) \<Rightarrow> look_loop (i + 1) rest s1
      | (False, s1) \<Rightarrow> s1)"

definition look :: "string \<Rightarrow> string \<times> nat \<times> nat" where
  "look token =
     (let s = look_loop 0 token
        \<lparr>lo_var = False, lo_nest = 0, lo_nest_var = 0, lo_name = [], lo_idx1 = 0, lo_idx2 = 0\<rparr>
      in (lo_name s, lo_idx1 s, lo_idx2 s))"

text \<open>\<^verbatim>\<open>while (strchr (s, c)) *strchr (s, c) = d\<close>: the characters before the first NUL.\<close>

definition replace_chr :: "char \<Rightarrow> char \<Rightarrow> string \<Rightarrow> string" where
  "replace_chr c d s = map (\<lambda>x. if x = c then d else x) (cstr s) @ drop (length (cstr s)) s"

definition MARK :: char where
  "MARK = CHR 0xFF"

text \<open>\<open>None\<close> is also the value of a loop that never ends. The copy of the token ends at its first
  NUL.\<close>

partial_function (option) evaluate_loop :: "scope \<Rightarrow> sc_var list \<Rightarrow> string \<Rightarrow> string option" where
  "evaluate_loop sc vars token =
     (if is_variable token then
        (case look token of (name, idx1, idx2) \<Rightarrow> do {
           (r, valu) \<leftarrow> variable_get sc vars name VT_USER;
           let tmp = cstr token;
           require (idx1 \<le> length tmp + 1 \<and> idx2 \<le> length tmp);
           evaluate_loop sc vars
             (take idx1 (tmp @ [CHR 0x00]) @ replace_chr (CHR ''$'') MARK valu @ drop idx2 tmp)
         })
      else Some token)"

declare evaluate_loop.simps [code]

definition evaluate_token :: "scope \<Rightarrow> sc_var list \<Rightarrow> string \<Rightarrow> string option" where
  "evaluate_token sc vars token = do {
     t \<leftarrow> evaluate_loop sc vars token;
     Some (replace_chr MARK (CHR ''$'') t)
   }"

definition get_token_eval ::
    "scope \<Rightarrow> sc_var list \<Rightarrow> tok_state \<Rightarrow> ((string \<times> token_types) \<times> tok_state) run option" where
  "get_token_eval sc vars s =
     run_bind (get_token False s) (\<lambda>((token, ty), s1).
       if ty = TT_VARIABLE then do {
         t \<leftarrow> evaluate_token sc vars token;
         Some (Done ((t, ty), s1))
       }
       else Some (Done ((token, ty), s1)))"

definition get_token_toupper :: "tok_state \<Rightarrow> ((string \<times> token_types) \<times> tok_state) run option" where
  "get_token_toupper s =
     run_bind (get_token False s) (\<lambda>((token, ty), s1). Some (Done ((map toupper token, ty), s1)))"


subsection \<open>Lemmas: looking for a variable\<close>

definition word_chr :: "char \<Rightarrow> bool" where
  "word_chr c \<longleftrightarrow> isalnum c \<or> c = CHR ''_'' \<or> c = CHR ''.''"

definition plain_chr :: "char \<Rightarrow> bool" where
  "plain_chr c \<longleftrightarrow> c \<notin> set ''$[]{}'' \<and> c \<noteq> CHR 0x00"

lemma word_plain: "word_chr c \<Longrightarrow> plain_chr c"
  by (auto simp: word_chr_def plain_chr_def isalnum_def isalpha_def is_digit_def)

lemma look_chr_word:
  "word_chr c \<Longrightarrow> lo_var s \<Longrightarrow>
   look_chr i c d s = (True, s\<lparr>lo_idx2 := lo_idx2 s + 1, lo_name := lo_name s @ [c]\<rparr>)"
  using word_plain [of c] by (auto simp: look_chr_def plain_chr_def word_chr_def Let_def)

lemma look_chr_plain: "plain_chr c \<Longrightarrow> \<not> lo_var s \<Longrightarrow> look_chr i c d s = (True, s)"
  by (auto simp: look_chr_def plain_chr_def Let_def)

lemma look_loop_plain:
  "list_all plain_chr pre \<Longrightarrow> \<not> lo_var s \<Longrightarrow>
   look_loop i (pre @ rest) s = look_loop (i + length pre) rest s"
  by (induction pre arbitrary: i) (simp_all add: look_chr_plain)

lemma look_loop_word:
  "list_all word_chr w \<Longrightarrow> lo_var s \<Longrightarrow>
   look_loop i (w @ rest) s = look_loop (i + length w) rest
     (s\<lparr>lo_name := lo_name s @ w, lo_idx2 := lo_idx2 s + length w\<rparr>)"
proof (induction w arbitrary: i s)
  case (Cons c w)
  then show ?case by (simp add: look_chr_word)
qed simp

text \<open>Where the name of a variable ends: at the end of the token, or at another variable.\<close>

definition name_end :: "string \<Rightarrow> bool" where
  "name_end post \<longleftrightarrow> post = [] \<or>
     (\<exists>c s. post = CHR ''$'' # c # s \<and> c \<noteq> CHR ''$'')"

lemma look_name:
  assumes "list_all plain_chr pre" "list_all word_chr w" "w \<noteq> []" "name_end post"
  shows "look (pre @ CHR ''$'' # w @ post) = (w, length pre, length pre + 1 + length w)"
proof -
  let ?s0 = "\<lparr>lo_var = False, lo_nest = 0, lo_nest_var = 0, lo_name = [], lo_idx1 = 0, lo_idx2 = 0\<rparr>"
  let ?s1 = "?s0\<lparr>lo_name := [], lo_idx1 := length pre, lo_idx2 := length pre + 1, lo_var := True\<rparr>"
  let ?s2 = "?s1\<lparr>lo_name := w, lo_idx2 := length pre + 1 + length w\<rparr>"
  obtain c w1 where w: "w = c # w1" "plain_chr c" using assms(2,3) word_plain by (cases w) auto
  then have d: "look_chr (length pre) (CHR ''$'') c ?s0 = (True, ?s1)"
    by (auto simp: look_chr_def look_dollar_def plain_chr_def Let_def)
  have "look_loop 0 (pre @ CHR ''$'' # w @ post) ?s0 = look_loop (length pre) (CHR ''$'' # w @ post) ?s0"
    using look_loop_plain [OF assms(1), of ?s0 0] by simp
  also have "\<dots> = look_loop (length pre + 1) (w @ post) ?s1" using d w(1) by simp
  also have "\<dots> = look_loop (length pre + 1 + length w) post ?s2"
    using look_loop_word [OF assms(2), of ?s1 "length pre + 1" post] by simp
  also have "\<dots> = ?s2"
    using assms(3,4) by (auto simp: name_end_def look_chr_def look_dollar_def Let_def)
  finally show ?thesis by (simp add: look_def)
qed

lemma cstr_append: "no_nul a \<Longrightarrow> cstr (a @ b) = a @ cstr b"
  by (induction a) (simp_all add: cstr_def)

lemma nul_iff: "of_char c = (0 :: nat) \<longleftrightarrow> c = CHR 0x00"
proof
  assume "of_char c = (0 :: nat)"
  then have "of_char c = (of_char (CHR 0x00) :: nat)" by simp
  then show "c = CHR 0x00" by (metis char_of_char)
qed simp

lemma plain_no_nul: "list_all plain_chr s \<Longrightarrow> no_nul s"
  by (induction s) (auto simp: plain_chr_def nul_iff)

text \<open>One round of the loop.\<close>

definition marked :: "string \<Rightarrow> string" where
  "marked v = map (\<lambda>x. if x = CHR ''$'' then MARK else x) v"

lemma evaluate_round:
  assumes "list_all plain_chr pre" "list_all word_chr w" "w \<noteq> []" "name_end post" "no_nul post"
    "variable_get sc vars w VT_USER = Some (r, v)" "no_nul v"
  shows "evaluate_loop sc vars (pre @ CHR ''$'' # w @ post) = evaluate_loop sc vars (pre @ marked v @ post)"
proof -
  let ?t = "pre @ CHR ''$'' # w @ post"
  have "list_all plain_chr w" using assms(2) by (auto simp: list_all_iff word_plain)
  then have "no_nul ?t" using assms(1,5) by (simp add: plain_no_nul of_char_def)
  then have c: "cstr ?t = ?t" by simp
  have "is_variable ?t" unfolding is_variable_def c by simp
  moreover have "replace_chr (CHR ''$'') MARK v = marked v"
    using assms(7) by (simp add: replace_chr_def marked_def)
  ultimately show ?thesis
    using c assms(6) look_name [OF assms(1-4)] by (subst evaluate_loop.simps) (simp add: Let_def)
qed

text \<open>What the values may hold: no brackets, no NUL and no byte 255.\<close>

definition value_chr :: "char \<Rightarrow> bool" where
  "value_chr c \<longleftrightarrow> (plain_chr c \<or> c = CHR ''$'') \<and> c \<noteq> MARK"

lemma marked_plain: "list_all value_chr v \<Longrightarrow> list_all plain_chr (marked v) \<and> no_nul v"
  by (induction v) (auto simp: marked_def value_chr_def plain_chr_def MARK_def nul_iff)

lemma unmark: "list_all value_chr v \<Longrightarrow> map (\<lambda>x. if x = MARK then CHR ''$'' else x) (marked v) = v"
  by (induction v) (auto simp: marked_def value_chr_def)

lemma unmark_plain: "list_all plain_chr s \<Longrightarrow> replace_chr MARK d s = map (\<lambda>x. if x = MARK then d else x) s"
  by (simp add: replace_chr_def plain_no_nul)

definition good_var :: "scope \<Rightarrow> sc_var list \<Rightarrow> string \<times> string \<Rightarrow> bool" where
  "good_var sc vars nv \<longleftrightarrow> fst nv \<noteq> [] \<and> list_all word_chr (fst nv) \<and> list_all value_chr (snd nv) \<and>
     variable_get sc vars (fst nv) VT_USER = Some (0, snd nv)"

abbreviation dollars :: "(string \<times> string) list \<Rightarrow> string" where
  "dollars nvs \<equiv> concat (map (\<lambda>(n, v). CHR ''$'' # n) nvs)"

lemma dollars_end: "list_all (good_var sc vars) nvs \<Longrightarrow> no_nul (dollars nvs) \<and> name_end (dollars nvs)"
proof (induction nvs)
  case (Cons a nvs)
  obtain m u where a: "a = (m, u)" by force
  then have m: "m \<noteq> []" "list_all word_chr m" using Cons.prems by (auto simp: good_var_def)
  then obtain c m1 where c: "m = c # m1" "plain_chr c" using word_plain by (cases m) auto
  have "list_all plain_chr m" using m(2) by (auto simp: list_all_iff word_plain)
  then have "no_nul m" by (rule plain_no_nul)
  moreover have "name_end (CHR ''$'' # m @ dollars nvs)"
    using c by (simp add: name_end_def plain_chr_def)
  ultimately show ?case using Cons a by (simp add: of_char_def)
qed (simp add: name_end_def)

lemma evaluate_loop_names:
  "list_all plain_chr pre \<Longrightarrow> list_all (good_var sc vars) nvs \<Longrightarrow>
   evaluate_loop sc vars (pre @ dollars nvs) = Some (pre @ concat (map (\<lambda>(n, v). marked v) nvs))"
proof (induction nvs arbitrary: pre)
  case Nil
  have "CHR ''$'' \<notin> set pre" using Nil(1) by (auto simp: list_all_iff plain_chr_def)
  then show ?case using Nil(1) by (subst evaluate_loop.simps) (simp add: is_variable_def plain_no_nul)
next
  case (Cons nv nvs)
  obtain n v where nv: "nv = (n, v)" by force
  have g: "n \<noteq> []" "list_all word_chr n" "list_all value_chr v" "variable_get sc vars n VT_USER = Some (0, v)"
    using Cons.prems(2) nv by (auto simp: good_var_def)
  have "no_nul (dollars nvs) \<and> name_end (dollars nvs)" using Cons.prems(2) dollars_end [of sc vars nvs] by simp
  then have "evaluate_loop sc vars (pre @ CHR ''$'' # n @ dollars nvs) =
      evaluate_loop sc vars ((pre @ marked v) @ dollars nvs)"
    using evaluate_round [OF Cons.prems(1) g(2,1) _ _ g(4)] marked_plain [OF g(3)] by simp
  also have "\<dots> = Some ((pre @ marked v) @ concat (map (\<lambda>(n, v). marked v) nvs))"
    using Cons marked_plain [OF g(3)] by (intro Cons.IH) auto
  finally show ?case using nv by simp
qed

lemma look_index:
  assumes "list_all word_chr x" "x \<noteq> []" "list_all word_chr i" "i \<noteq> []"
  shows "look (CHR ''$'' # x @ CHR ''['' # CHR ''$'' # i @ '']'') =
      (i, length x + 2, length x + 3 + length i)"
    "look (CHR ''$'' # x @ CHR ''['' # i @ '']'') = (x @ CHR ''['' # i @ '']'', 0, length x + length i + 3)"
proof -
  let ?s0 = "\<lparr>lo_var = False, lo_nest = 0, lo_nest_var = 0, lo_name = [], lo_idx1 = 0, lo_idx2 = 0\<rparr>"
  let ?s1 = "?s0\<lparr>lo_var := True, lo_idx2 := 1\<rparr>"
  let ?s2 = "?s1\<lparr>lo_name := x, lo_idx2 := 1 + length x\<rparr>"
  let ?s3 = "?s2\<lparr>lo_name := x @ ''['', lo_idx2 := 2 + length x, lo_nest := 1\<rparr>"
  obtain c x1 where x: "x = c # x1" "plain_chr c" using assms(1,2) word_plain by (cases x) auto
  obtain d i1 where i: "i = d # i1" "plain_chr d" using assms(3,4) word_plain by (cases i) auto
  have a: "look_loop 0 (CHR ''$'' # x @ CHR ''['' # rest) ?s0 = look_loop (length x + 2) rest ?s3" for rest
  proof -
    have "look_chr 0 (CHR ''$'') c ?s0 = (True, ?s1)"
      using x(2) by (auto simp: look_chr_def look_dollar_def plain_chr_def Let_def)
    then have "look_loop 0 (CHR ''$'' # x @ CHR ''['' # rest) ?s0 = look_loop 1 (x @ CHR ''['' # rest) ?s1"
      using x(1) by simp
    also have "\<dots> = look_loop (1 + length x) (CHR ''['' # rest) ?s2"
      using look_loop_word [OF assms(1), of ?s1 1] by simp
    also have "\<dots> = look_loop (length x + 2) rest ?s3"
      by (simp add: look_chr_def Let_def)
    finally show ?thesis .
  qed
  let ?s4 = "?s3\<lparr>lo_name := [], lo_idx1 := length x + 2, lo_idx2 := length x + 3, lo_nest_var := 1\<rparr>"
  let ?s5 = "?s4\<lparr>lo_name := i, lo_idx2 := length x + 3 + length i\<rparr>"
  have "look_chr (length x + 2) (CHR ''$'') d ?s3 = (True, ?s4)"
    using i(2) by (auto simp: look_chr_def look_dollar_def plain_chr_def Let_def)
  then have "look_loop (length x + 2) (CHR ''$'' # i @ '']'') ?s3 = look_loop (length x + 3) (i @ '']'') ?s4"
    using i(1) by (simp add: numeral_3_eq_3)
  also have "\<dots> = look_loop (length x + 3 + length i) '']'' ?s5"
    using look_loop_word [OF assms(3), of ?s4 "length x + 3"] by simp
  also have "\<dots> = ?s5" by (simp add: look_chr_def Let_def)
  finally have "look_loop 0 (CHR ''$'' # x @ CHR ''['' # CHR ''$'' # i @ '']'') ?s0 = ?s5" using a by simp
  then show "look (CHR ''$'' # x @ CHR ''['' # CHR ''$'' # i @ '']'') =
      (i, length x + 2, length x + 3 + length i)"
    by (simp only: look_def) simp
  let ?s6 = "?s3\<lparr>lo_name := x @ CHR ''['' # i, lo_idx2 := 2 + length x + length i\<rparr>"
  have "look_loop (length x + 2) (i @ '']'') ?s3 = look_loop (length x + 2 + length i) '']'' ?s6"
    using look_loop_word [OF assms(3), of ?s3 "length x + 2"] by simp
  also have "\<dots> = ?s6\<lparr>lo_name := x @ CHR ''['' # i @ '']'', lo_idx2 := length x + length i + 3, lo_nest := 0\<rparr>"
    by (simp add: look_chr_def Let_def)
  finally have "look_loop 0 (CHR ''$'' # x @ CHR ''['' # i @ '']'') ?s0 =
      ?s6\<lparr>lo_name := x @ CHR ''['' # i @ '']'', lo_idx2 := length x + length i + 3, lo_nest := 0\<rparr>"
    unfolding a .
  then show "look (CHR ''$'' # x @ CHR ''['' # i @ '']'') = (x @ CHR ''['' # i @ '']'', 0, length x + length i + 3)"
    by (simp only: look_def) simp
qed

section \<open>Properties\<close>

text \<open>C37. A token of text and variables, such as \<^verbatim>\<open>a.$x$y\<close>, is replaced by the text and the values of
  the variables in their order, for any number of variables, when no value holds a bracket, a
  NUL or a byte 255. A \<^verbatim>\<open>$\<close> in a value is not taken for another variable.\<close>

theorem evaluate_token_names:
  assumes "list_all plain_chr pre" "MARK \<notin> set pre" "list_all (good_var sc vars) nvs"
  shows "evaluate_token sc vars (pre @ concat (map (\<lambda>(n, v). CHR ''$'' # n) nvs)) =
    Some (pre @ concat (map snd nvs))"
proof -
  let ?un = "map (\<lambda>x. if x = MARK then CHR ''$'' else x)"
  have v: "list_all plain_chr (concat (map (\<lambda>(n, v). marked v) nvs)) \<and>
      ?un (concat (map (\<lambda>(n, v). marked v) nvs)) = concat (map snd nvs)"
    using assms(3)
  proof (induction nvs)
    case (Cons nv nvs)
    obtain n v where nv: "nv = (n, v)" by force
    then have "list_all value_chr v" using Cons.prems by (simp add: good_var_def)
    then show ?case using Cons nv marked_plain [of v] unmark [of v] by simp
  qed simp
  have "?un pre = pre" using assms(2) by (induction pre) auto
  then show ?thesis
    using evaluate_loop_names [OF assms(1,3)] unmark_plain assms(1) v by (simp add: evaluate_token_def)
qed

theorem evaluate_token_names_witness:
  "evaluate_token (example_scope []) example_vars ''a-$x$x'' = Some ''a-11''"
proof -
  have "variable_get (example_scope []) example_vars ''x'' VT_USER = Some (0, ''1'')"
    by (simp add: variable_get_def find_entry_def example_scope_def program_var_def prefixed_def var_prefix_def
        example_find) (simp add: example_vars_def new_var_def var_value_def)
  then have "good_var (example_scope []) example_vars (''x'', ''1'')"
    by (simp add: good_var_def word_chr_def value_chr_def plain_chr_def isalnum_def isalpha_def MARK_def)
  then show ?thesis
    using evaluate_token_names [of "''a-''" "example_scope []" example_vars "[(''x'', ''1''), (''x'', ''1'')]"]
    by (simp add: plain_chr_def MARK_def)
qed

text \<open>The variable in the index of an array is evaluated before the array: \<^verbatim>\<open>$x[$i]\<close> is the value
  of the variable \<^verbatim>\<open>x[v]\<close> where \<^verbatim>\<open>v\<close> is the value of \<^verbatim>\<open>i\<close>.\<close>

theorem evaluate_token_index:
  assumes "list_all word_chr x" "x \<noteq> []" "list_all word_chr i" "i \<noteq> []"
    "variable_get sc vars i VT_USER = Some (0, v)" "list_all word_chr v" "v \<noteq> []"
    "variable_get sc vars (x @ CHR ''['' # v @ '']'') VT_USER = Some (0, w)" "list_all value_chr w"
  shows "evaluate_token sc vars (CHR ''$'' # x @ CHR ''['' # CHR ''$'' # i @ '']'') = Some w"
proof -
  let ?t1 = "CHR ''$'' # x @ CHR ''['' # CHR ''$'' # i @ '']''" and ?t2 = "CHR ''$'' # x @ CHR ''['' # v @ '']''"
  have nn: "list_all word_chr s \<Longrightarrow> no_nul s" for s
    by (intro plain_no_nul) (auto simp: list_all_iff word_plain)
  have c: "cstr ?t1 = ?t1" "cstr ?t2 = ?t2" using nn assms(1,3,6) by (simp_all add: of_char_def)
  have iv: "is_variable ?t1" "is_variable ?t2" unfolding is_variable_def c by simp_all
  have "marked v = v"
    unfolding marked_def using assms(6) by (intro map_idI) (auto simp: list_all_iff word_chr_def isalnum_def
        isalpha_def is_digit_def)
  then have "replace_chr (CHR ''$'') MARK v = v" using nn [OF assms(6)] by (simp add: replace_chr_def marked_def)
  moreover have "take (length x + 2) (CHR ''$'' # x @ CHR ''['' # r) = CHR ''$'' # x @ ''[''" for r by simp
  moreover have "drop (length x + 3 + length i) ?t1 = '']''"
    using drop_append [of "length x + 3 + length i" "CHR ''$'' # x @ CHR ''['' # CHR ''$'' # i" "'']''"] by simp
  ultimately have "evaluate_loop sc vars ?t1 = evaluate_loop sc vars ?t2"
    using look_index(1) [OF assms(1-4)] iv(1) c(1) assms(5)
    by (subst evaluate_loop.simps) (simp add: Let_def del: drop_append take_append drop_Suc_Cons take_Suc_Cons)
  also have "\<dots> = evaluate_loop sc vars (marked w)"
    using look_index(2) [OF assms(1,2,6,7)] iv(2) c(2) assms(8) marked_plain [OF assms(9)]
    by (subst evaluate_loop.simps) (simp add: Let_def replace_chr_def marked_def)
  also have "\<dots> = Some (marked w)"
    using evaluate_loop_names [of "marked w" sc vars "[]"] marked_plain [OF assms(9)] by simp
  finally show ?thesis
    using unmark [OF assms(9)] unmark_plain marked_plain [OF assms(9)] by (simp add: evaluate_token_def)
qed

text \<open>A closing bracket before the first \<^verbatim>\<open>$\<close> makes the loop run for ever: nothing is replaced and
  the token stays the same. (\<open>None\<close> is the loop without end; every step of it is defined.)\<close>

theorem evaluate_token_never_ends:
  assumes "list_all plain_chr pre" "CHR ''$'' \<in> set s" "no_nul s"
    "variable_get sc vars [] VT_USER = Some (r, [])"
  shows "evaluate_token sc vars (pre @ CHR '']'' # s) = None"
proof -
  let ?t = "pre @ CHR '']'' # s"
  let ?s0 = "\<lparr>lo_var = False, lo_nest = 0, lo_nest_var = 0, lo_name = [], lo_idx1 = 0, lo_idx2 = 0\<rparr>"
  have "no_nul ?t" using assms(1,3) by (simp add: plain_no_nul of_char_def)
  then have c: "cstr ?t = ?t" by simp
  have iv: "is_variable ?t" unfolding is_variable_def c using assms(2) by simp
  have "look_loop 0 ?t ?s0 = ?s0"
    using look_loop_plain [OF assms(1), of ?s0 0] by (simp add: look_chr_def Let_def)
  then have l: "look ?t = ([], 0, 0)" by (simp add: look_def)
  have False if e: "evaluate_loop sc vars ?t = Some u" for u
  proof -
    have "sc1 = sc \<longrightarrow> vars1 = vars \<longrightarrow> t = ?t \<longrightarrow> y \<noteq> u" if v: "evaluate_loop sc1 vars1 t = Some y" for sc1 vars1 t y
    proof (induction rule: evaluate_loop.raw_induct [OF _ v])
      case (1 loop sc1 vars1 t y)
      show ?case
      proof (intro impI notI)
        assume eq: "sc1 = sc" "vars1 = vars" "t = ?t" "y = u"
        have "replace_chr (CHR ''$'') MARK [] = []" by (simp add: replace_chr_def cstr_def)
        then have "loop sc vars ?t = Some u"
          using 1(2) unfolding eq using iv l assms(4) c by (simp add: Let_def)
        then show False using 1(1) e by blast
      qed
    qed
    then show False using e by blast
  qed
  then have "evaluate_loop sc vars ?t = None" by (cases "evaluate_loop sc vars ?t") auto
  then show ?thesis by (simp add: evaluate_token_def)
qed

theorem evaluate_token_never_ends_witness:
  "evaluate_token (example_scope []) example_vars '']$x'' = None"
proof -
  have "variable_get (example_scope []) example_vars [] VT_USER = Some (1, [])"
    by (simp add: variable_get_def find_entry_def example_scope_def program_var_def prefixed_def var_prefix_def
        example_find DEFAULT_PROGRAM_def)
  then show ?thesis
    using evaluate_token_never_ends [of "[]" "''$x''" "example_scope []" example_vars 1]
    by (simp add: of_char_def)
qed

theorem evaluate_token_index_witness:
  "evaluate_token (example_scope []) [new_var ''(p)i'' ''2'' VT_USER, new_var ''(p)x[2]'' ''LOT'' VT_USER]
     ''$x[$i]'' = Some ''LOT''"
proof -
  let ?vars = "[new_var ''(p)i'' ''2'' VT_USER, new_var ''(p)x[2]'' ''LOT'' VT_USER]"
  have h: "get_hash ''(p)i'' < get_hash ''(p)x[2]''"
    by (simp add: get_hash_def of_char_def)
  have ok: "store_ok ?vars"
    using h by (simp add: store_ok_def vars_ok_def new_var_def var_value_def ascending_by_def v_key_def name_cmp_def)
  have m: "var_map ?vars ''(p)i'' = Some (new_var ''(p)i'' ''2'' VT_USER)"
    "var_map ?vars ''(p)x[2]'' = Some (new_var ''(p)x[2]'' ''LOT'' VT_USER)"
    by (simp_all add: var_map_def new_var_def)
  have "variable_get (example_scope []) ?vars ''i'' VT_USER = Some (0, ''2'')"
    "variable_get (example_scope []) ?vars ''x[2]'' VT_USER = Some (0, ''LOT'')"
    using m by (simp_all add: variable_get_def find_entry_eq [OF ok] seek_def example_scope_def program_var_def
        prefixed_def var_prefix_def) (simp_all add: new_var_def var_value_def)
  then show ?thesis
    using evaluate_token_index [of "''x''" "''i''" "example_scope []" ?vars "''2''" "''LOT''"]
    by (simp add: word_chr_def value_chr_def plain_chr_def isalnum_def isalpha_def is_digit_def MARK_def)
qed

end
