(* ===== verification/Tmp_Variables.thy ===== *)
theory Tmp_Variables
  imports Utility Parse Sorted_Table
begin

section \<open>Temporary variables (tmp_variables.c)\<close>

text \<open>
  The arguments of a command and the values of a decoded message live in a table of their
  own. \<open>tmp_variable_put\<close> keeps the table ordered; \<open>tmp_variable_add\<close> appends and leaves the
  ordering to \<open>tmp_variable_sort\<close>. Names and values passed as \<open>char *\<close> are C strings, the
  block of a value may hold any bytes. \<open>tt_room\<close> is the number of entries the array was
  allocated for, \<open>tt_max\<close> the static \<open>variable_count_max\<close> of \<open>tmp_variable_add\<close>; a write
  beyond the array, or a read beyond the initialised bytes of a value, is \<open>None\<close>.
\<close>

type_synonym tmp_var = var_slot

record tmp_table =
  tt_vars :: "tmp_var list"
  tt_room :: nat
  tt_max :: u32

definition tmp_init :: tmp_table where
  "tmp_init = \<lparr>tt_vars = [], tt_room = 0, tt_max = 0\<rparr>"

definition NUM_TMP_VARS :: nat where
  "NUM_TMP_VARS = 1000"

subsection \<open>Operations\<close>

text \<open>\<^verbatim>\<open>malloc (length); memcpy (., bufdata (&tmp_value), length)\<close>: the buffer holds the value
  and its NUL.\<close>

definition new_tmp_var :: "string \<Rightarrow> string \<Rightarrow> u32 \<Rightarrow> tmp_var option" where
  "new_tmp_var name val len = do {
     require (unat len \<le> length val + 1);
     Some \<lparr>v_name = name, v_mem = take (unat len) (val @ [CHR 0x00]), v_length = len,
           v_hash = get_hash name\<rparr>
   }"

definition tmp_variable_put :: "tmp_table \<Rightarrow> string \<Rightarrow> string \<Rightarrow> u32 \<Rightarrow> tmp_table option" where
  "tmp_variable_put t name val len =
     (if tt_vars t = [] then do {
        v \<leftarrow> new_tmp_var name val len;
        Some (t\<lparr>tt_vars := [v], tt_room := 1\<rparr>)
      }
      else case find_var (tt_vars t) name of
        Some i \<Rightarrow>
          Some (t\<lparr>tt_vars := (tt_vars t)[i := (tt_vars t ! i)\<lparr>v_mem := val @ [CHR 0x00]\<rparr>]\<rparr>)
      | None \<Rightarrow> do {
          v \<leftarrow> new_tmp_var name val len;
          Some (t\<lparr>tt_vars := insert_var v (tt_vars t), tt_room := length (tt_vars t) + 1\<rparr>)
        })"

definition tmp_add_grow :: "tmp_table \<Rightarrow> tmp_table" where
  "tmp_add_grow t =
     (if tt_vars t = [] then t\<lparr>tt_room := NUM_TMP_VARS, tt_max := of_nat NUM_TMP_VARS\<rparr>
      else if of_nat (length (tt_vars t)) \<ge> tt_max t
      then t\<lparr>tt_room := length (tt_vars t) + NUM_TMP_VARS,
             tt_max := tt_max t + of_nat NUM_TMP_VARS\<rparr>
      else t)"

text \<open>A negative \<open>len\<close> stands for the length of the C string \<open>val\<close>.\<close>

definition tmp_variable_add :: "tmp_table \<Rightarrow> string \<Rightarrow> string \<Rightarrow> int \<Rightarrow> tmp_table option" where
  "tmp_variable_add t name val len = do {
     let n = (if len < 0 then length (cstr val) else nat len);
     let t1 = tmp_add_grow t;
     require (length (tt_vars t1) < tt_room t1);
     require (n \<le> length val);
     Some (t1\<lparr>tt_vars := tt_vars t1 @
        [\<lparr>v_name = name, v_mem = take n val, v_length = of_nat n, v_hash = get_hash name\<rparr>]\<rparr>)
   }"

definition tmp_variable_sort :: "tmp_table \<Rightarrow> tmp_table" where
  "tmp_variable_sort t =
     t\<lparr>tt_vars := qsort (\<lambda>a b. name_cmp (v_key a) (v_key b)) (tt_vars t)\<rparr>"

definition tmp_variable_delete_all :: "tmp_table \<Rightarrow> tmp_table" where
  "tmp_variable_delete_all t = t\<lparr>tt_vars := [], tt_room := 0\<rparr>"

text \<open>The return code and what the value buffer holds.\<close>

definition tmp_variable_get :: "tmp_table \<Rightarrow> string \<Rightarrow> (u32 \<times> string) option" where
  "tmp_variable_get t name =
     (case find_var (tt_vars t) name of
        None \<Rightarrow> Some (1, [])
      | Some i \<Rightarrow> do { d \<leftarrow> var_value (tt_vars t ! i); Some (0, d) })"

text \<open>The prefix \<open>tmp\<close> of the source is an empty buffer, which every name starts with.\<close>

fun tmp_get_all_loop :: "tmp_var list \<Rightarrow> string option" where
  "tmp_get_all_loop [] = Some []"
| "tmp_get_all_loop (e # es) = do {
     d \<leftarrow> var_value e;
     r \<leftarrow> tmp_get_all_loop es;
     Some ([CHR 0x0A] @ v_name e @ ''='' @ d @ r)
   }"

definition tmp_variable_get_all :: "tmp_table \<Rightarrow> string option" where
  "tmp_variable_get_all t = tmp_get_all_loop (tt_vars t)"

fun tmp_dump_loop :: "(string \<Rightarrow> bool) \<Rightarrow> tmp_var list \<Rightarrow> string option" where
  "tmp_dump_loop sel [] = Some []"
| "tmp_dump_loop sel (e # es) = do {
     d \<leftarrow> (if sel (v_name e) then do {
             d \<leftarrow> var_value e;
             Some (''           '' @ v_name e @ ''=<'' @ d @ ''>'' @ [CHR 0x0A])
           } else Some []);
     r \<leftarrow> tmp_dump_loop sel es;
     Some (d @ r)
   }"

definition tmp_dump_header :: string where
  "tmp_dump_header = ''Temp variables: <variable>=<value>'' @ [CHR 0x0A]"

definition tmp_variable_dump :: "tmp_table \<Rightarrow> string \<Rightarrow> string option" where
  "tmp_variable_dump t variable = do {
     r \<leftarrow> tmp_dump_loop (\<lambda>n. strstr n variable) (tt_vars t);
     Some (tmp_dump_header @ r)
   }"

definition tmp_variable_dump_all :: "tmp_table \<Rightarrow> string option" where
  "tmp_variable_dump_all t = do {
     r \<leftarrow> tmp_dump_loop (\<lambda>n. True) (tt_vars t);
     Some (my_utoa (length (tt_vars t)) @ '' '' @ tmp_dump_header @ r)
   }"

subsection \<open>Variables from the text of a command\<close>

text \<open>\<open>next_token\<close> is a call of \<open>parse\<close> and the step \<^verbatim>\<open>buf += len\<close>: the token as the C string
  \<open>bufdata (&token)\<close>, its length \<open>bufsize (&token)\<close>, its kind and the rest of the text. A
  step beyond the NUL makes the next read undefined.\<close>

definition next_token ::
    "string \<Rightarrow> string \<Rightarrow> (string \<times> nat \<times> parse_types \<times> string) run option" where
  "next_token np buf =
     run_bind (parse buf np False False) (\<lambda>(tok, ty, n). do {
       require (n \<le> length buf);
       Some (Done (cstr tok, length tok, ty, drop n buf))
     })"

lemma next_token_shorter:
  "next_token np buf = Some (Done (tok, n, ty, rest)) \<Longrightarrow> length rest \<le> length buf"
  "next_token np buf = Some (Done (tok, n, ty, rest)) \<Longrightarrow> ty \<noteq> PT_NULL \<Longrightarrow>
   ty \<noteq> PT_END_OF_LINE \<Longrightarrow> length rest < length buf"
proof -
  show "next_token np buf = Some (Done (tok, n, ty, rest)) \<Longrightarrow> length rest \<le> length buf"
    by (auto simp: next_token_def run_bind_def split: option.splits run.splits)
next
  assume a: "next_token np buf = Some (Done (tok, n, ty, rest))" "ty \<noteq> PT_NULL" "ty \<noteq> PT_END_OF_LINE"
  obtain s m where "parse_loop np False False [] 0 PT_NULL buf = Some (Done (s, ty, m))"
    "m \<le> length buf" "rest = drop m buf"
    using a(1) by (auto simp: next_token_def run_bind_def parse_def split: option.splits run.splits)
  then show "length rest < length buf"
    using parse_progress_loop a(2,3) by fastforce
qed

function make_vars_loop :: "string \<Rightarrow> tmp_table \<Rightarrow> nat \<Rightarrow> string \<Rightarrow> (tmp_table \<times> nat) run option" where
  "make_vars_loop np t arg_num buf =
     (case next_token np buf of
        None \<Rightarrow> None
      | Some Exit \<Rightarrow> Some Exit
      | Some (Done (x, n, ty, buf1)) \<Rightarrow>
          if ty = PT_NULL \<or> ty = PT_END_OF_LINE then Some (Done (t, arg_num))
          else (case next_token np buf1 of
            None \<Rightarrow> None
          | Some Exit \<Rightarrow> Some Exit
          | Some (Done (eq, n2, ty2, buf2)) \<Rightarrow>
              if eq = ''='' then
                (case next_token np buf2 of
                   None \<Rightarrow> None
                 | Some Exit \<Rightarrow> Some Exit
                 | Some (Done (v, vn, ty3, buf3)) \<Rightarrow>
                     (case tmp_variable_put t x v (of_nat vn) of
                        None \<Rightarrow> None
                      | Some t1 \<Rightarrow> make_vars_loop np t1 arg_num buf3))
              else
                (case tmp_variable_put t (''ARG'' @ my_utoa arg_num) x (of_nat (length x)) of
                   None \<Rightarrow> None
                 | Some t1 \<Rightarrow> make_vars_loop np t1 (arg_num + 1) buf1)))"
  by pat_completeness auto
termination
  by (relation "measure (\<lambda>(np, t, arg_num, buf). length buf)")
    (use next_token_shorter in \<open>simp_all, (meson le_less_trans order_trans)+\<close>)

declare make_vars_loop.simps [simp del]

definition make_tmp_variables ::
    "tmp_table \<Rightarrow> string \<Rightarrow> string \<Rightarrow> bool \<Rightarrow> tmp_table run option" where
  "make_tmp_variables t text np args =
     (let t0 = tmp_variable_delete_all t
      in case if args then tmp_variable_put t0 ''ARGS'' text (of_nat (length text)) else Some t0 of
           None \<Rightarrow> None
         | Some t1 \<Rightarrow> run_bind (make_vars_loop np t1 0 text) (\<lambda>(t2, k).
             map_option Done
               (tmp_variable_put t2 ''NUM_ARG'' (my_utoa k) (of_nat (length (my_utoa k))))))"


subsection \<open>The table as a map\<close>

definition tmp_ok :: "tmp_table \<Rightarrow> bool" where
  "tmp_ok t \<longleftrightarrow> vars_ok (tt_vars t) \<and> distinct (map v_name (tt_vars t)) \<and>
     length (tt_vars t) \<le> tt_room t"

lemma tmp_ok_init [simp]: "tmp_ok tmp_init" "tmp_ok (tmp_variable_delete_all t)"
  by (simp_all add: tmp_ok_def tmp_init_def tmp_variable_delete_all_def)

lemma tmp_find_map:
  "tmp_ok t \<Longrightarrow> var_map (tt_vars t) name = map_option (nth (tt_vars t)) (find_var (tt_vars t) name)"
  by (simp add: tmp_ok_def find_var_map)

lemma tmp_variable_get_eq:
  "tmp_ok t \<Longrightarrow> tmp_variable_get t name =
     (case var_map (tt_vars t) name of
        None \<Rightarrow> Some (1, [])
      | Some e \<Rightarrow> map_option (Pair 0) (var_value e))"
  by (simp add: tmp_variable_get_def tmp_find_map map_conv_bind_option comp_def
      split: option.splits)

lemma new_tmp_var_Some:
  "new_tmp_var name val len = Some v \<longleftrightarrow>
     unat len \<le> length val + 1 \<and>
     v = \<lparr>v_name = name, v_mem = take (unat len) (val @ [CHR 0x00]), v_length = len,
           v_hash = get_hash name\<rparr>"
  by (auto simp: new_tmp_var_def)

lemma tmp_put_new:
  assumes "tmp_ok t" "var_map (tt_vars t) name = None" "unat len \<le> length val + 1"
  shows "\<exists>t1 v. tmp_variable_put t name val len = Some t1 \<and> tmp_ok t1 \<and>
    new_tmp_var name val len = Some v \<and>
    var_map (tt_vars t1) = (var_map (tt_vars t))(name \<mapsto> v)"
proof -
  obtain v where v: "new_tmp_var name val len = Some v" "v_name v = name"
    "v_hash v = get_hash name"
    using assms(3) by (simp add: new_tmp_var_def)
  have notin: "name \<notin> v_name ` set (tt_vars t)" using assms(2) by (simp add: var_map_None)
  show ?thesis
  proof (cases "tt_vars t = []")
    case True
    then show ?thesis using v assms(1)
      by (auto simp: tmp_variable_put_def tmp_ok_def vars_ok_single var_map_def)
  next
    case False
    have "find_var (tt_vars t) name = None"
      using assms(1) notin by (simp add: find_var_None tmp_ok_def)
    then show ?thesis using False v assms(1) notin
      by (auto simp: tmp_variable_put_def tmp_ok_def vars_ok_insert distinct_insert_var
          var_map_insert_var)
  qed
qed

lemma tmp_put_old:
  assumes "tmp_ok t" "var_map (tt_vars t) name = Some e"
  shows "\<exists>t1. tmp_variable_put t name val len = Some t1 \<and> tmp_ok t1 \<and>
    var_map (tt_vars t1) = (var_map (tt_vars t))(name \<mapsto> e\<lparr>v_mem := val @ [CHR 0x00]\<rparr>)"
proof -
  obtain i where i: "find_var (tt_vars t) name = Some i" "e = tt_vars t ! i"
    using assms by (auto simp: tmp_find_map)
  have l: "i < length (tt_vars t)" "v_name (tt_vars t ! i) = name"
    using find_var_Some [of "tt_vars t"] assms(1) i by (auto simp: tmp_ok_def)
  let ?vars = "(tt_vars t)[i := e\<lparr>v_mem := val @ [CHR 0x00]\<rparr>]"
  have "map v_name ?vars = map v_name (tt_vars t)"
    using l i(2) by (simp add: map_update list_update_same_conv)
  moreover have "vars_ok ?vars"
    using assms(1) l i(2) by (intro vars_ok_update) (auto simp: tmp_ok_def v_key_def)
  moreover have "var_map ?vars = (var_map (tt_vars t))(name \<mapsto> e\<lparr>v_mem := val @ [CHR 0x00]\<rparr>)"
    using var_map_update [of "tt_vars t" i "e\<lparr>v_mem := val @ [CHR 0x00]\<rparr>"] assms(1) l i(2)
    by (simp add: tmp_ok_def)
  ultimately show ?thesis using i l assms(1) by (auto simp: tmp_variable_put_def tmp_ok_def)
qed

lemma var_value_new:
  "new_tmp_var name val (of_nat (length val)) = Some v \<Longrightarrow> length val < 2 ^ 32 \<Longrightarrow>
   var_value v = Some val"
  by (auto simp: new_tmp_var_Some var_value_def)

subsection \<open>The contract of a store of arguments\<close>

text \<open>What \<open>make_tmp_variables\<close> relies on: a value put under a new name is read back, the
  other names keep theirs. (Putting a name a second time does not have this law, see
  \<open>tmp_put_old\<close>: the length of the first value stays.)\<close>

fun put_all :: "('s \<Rightarrow> string \<Rightarrow> string \<Rightarrow> 's option) \<Rightarrow> 's \<Rightarrow> (string \<times> string) list \<Rightarrow> 's option" where
  "put_all put s [] = Some s"
| "put_all put s ((k, v) # kvs) = do { t \<leftarrow> put s k v; put_all put t kvs }"

locale arg_store =
  fixes put :: "'s \<Rightarrow> string \<Rightarrow> string \<Rightarrow> 's option"
    and look :: "'s \<Rightarrow> string \<Rightarrow> string option"
    and ok :: "'s \<Rightarrow> bool"
    and fits :: "string \<Rightarrow> bool"
  assumes put_fresh: "ok s \<Longrightarrow> look s k = None \<Longrightarrow> fits v \<Longrightarrow>
    \<exists>t. put s k v = Some t \<and> ok t \<and> look t = (look s)(k \<mapsto> v)"
begin

lemma put_all_fresh:
  "ok s \<Longrightarrow> distinct (map fst kvs) \<Longrightarrow> \<forall>k \<in> fst ` set kvs. look s k = None \<Longrightarrow>
   \<forall>v \<in> snd ` set kvs. fits v \<Longrightarrow>
   \<exists>t. put_all put s kvs = Some t \<and> ok t \<and> look t = look s ++ map_of kvs"
proof (induction kvs arbitrary: s)
  case (Cons kv kvs)
  obtain k v where kv: "kv = (k, v)" by force
  obtain t where t: "put s k v = Some t" "ok t" "look t = (look s)(k \<mapsto> v)"
    using put_fresh [OF Cons.prems(1), of k v] Cons.prems(3,4) kv by auto
  have "k \<notin> dom (map_of kvs)"
    using Cons.prems(2) kv by (simp add: dom_map_of_conv_image_fst)
  then have m: "look t ++ map_of kvs = look s ++ map_of (kv # kvs)"
    using t(3) kv by (simp add: map_add_upd_left)
  have "\<forall>k' \<in> fst ` set kvs. look t k' = None" using Cons.prems(2,3) t(3) kv by force
  then obtain u where u: "put_all put t kvs = Some u" "ok u" "look u = look t ++ map_of kvs"
    using Cons.IH [OF t(2)] Cons.prems(2,4) kv by auto
  have "put_all put s (kv # kvs) = Some u" using t(1) u(1) kv by simp
  then show ?case using u(2) u(3) [unfolded m] by blast
qed simp

end

definition tmp_look :: "tmp_table \<Rightarrow> string \<Rightarrow> string option" where
  "tmp_look t name = do { e \<leftarrow> var_map (tt_vars t) name; var_value e }"

definition tmp_good :: "tmp_table \<Rightarrow> bool" where
  "tmp_good t \<longleftrightarrow> tmp_ok t \<and> (\<forall>e \<in> ran (var_map (tt_vars t)). var_value e \<noteq> None)"

lemma tmp_look_None:
  "tmp_good t \<Longrightarrow> tmp_look t name = None \<longleftrightarrow> var_map (tt_vars t) name = None"
  by (cases "var_map (tt_vars t) name") (auto simp: tmp_look_def tmp_good_def ran_def)

definition tmp_put :: "tmp_table \<Rightarrow> string \<Rightarrow> string \<Rightarrow> tmp_table option" where
  "tmp_put t name val = tmp_variable_put t name val (of_nat (length val))"

interpretation tmp_store: arg_store tmp_put tmp_look tmp_good "\<lambda>v. length v < 2 ^ 32"
proof unfold_locales
  fix s k v
  assume a: "tmp_good s" "tmp_look s k = None" "length (v :: string) < 2 ^ 32"
  then have n: "var_map (tt_vars s) k = None" "tmp_ok s"
    by (simp_all add: tmp_look_None tmp_good_def)
  obtain t e where t: "tmp_put s k v = Some t" "tmp_ok t"
    "new_tmp_var k v (of_nat (length v)) = Some e"
    "var_map (tt_vars t) = (var_map (tt_vars s))(k \<mapsto> e)"
    using tmp_put_new [OF n(2,1), of "of_nat (length v)" v] a(3) by (auto simp: tmp_put_def)
  have e: "var_value e = Some v" using var_value_new [OF t(3)] a(3) by simp
  then have "tmp_good t" using t a(1) n(1) by (auto simp: tmp_good_def)
  moreover have "tmp_look t = (tmp_look s)(k \<mapsto> v)" using t(4) e by (auto simp: tmp_look_def)
  ultimately show "\<exists>t. tmp_put s k v = Some t \<and> tmp_good t \<and> tmp_look t = (tmp_look s)(k \<mapsto> v)"
    using t(1) by blast
qed


subsection \<open>The arguments a text stands for\<close>

text \<open>An argument is a named value in quotes or a bare word; \<open>arg_text\<close> writes a list of them
  and \<open>arg_vars\<close> says which variables they are to become.\<close>

datatype arg = Named string string | Bare string

definition name_ok :: "string \<Rightarrow> bool" where
  "name_ok p \<longleftrightarrow> p \<noteq> [] \<and> list_all name_chr p \<and> \<not> is_digit (hd p)"

definition value_ok :: "string \<Rightarrow> bool" where
  "value_ok v \<longleftrightarrow> no_nul v \<and> length v < 2 ^ 32 \<and>
     list_all (\<lambda>c. c \<noteq> CHR 0x22 \<and> c \<noteq> CHR 0x5C \<and> c \<noteq> CHR 0x0A) v"

fun arg_ok :: "arg \<Rightarrow> bool" where
  "arg_ok (Named k v) = (name_ok k \<and> value_ok v)"
| "arg_ok (Bare w) = (name_ok w \<and> length w < 2 ^ 32)"

fun arg_text :: "arg list \<Rightarrow> string" where
  "arg_text [] = []"
| "arg_text (Named k v # as) = '' '' @ k @ ''='' @ [CHR 0x22] @ v @ [CHR 0x22] @ arg_text as"
| "arg_text (Bare w # as) = '' '' @ w @ arg_text as"

fun arg_vars :: "nat \<Rightarrow> arg list \<Rightarrow> (string \<times> string) list" where
  "arg_vars n [] = [(''NUM_ARG'', my_utoa n)]"
| "arg_vars n (Named k v # as) = (k, v) # arg_vars n as"
| "arg_vars n (Bare w # as) = (''ARG'' @ my_utoa n, w) # arg_vars (n + 1) as"

lemma name_chr_no_nul: "list_all name_chr p \<Longrightarrow> no_nul p"
  by (auto simp: no_nul_def list_all_iff name_chr_def isalnum_def is_digit_def isalpha_def)

lemma separator_simps [simp]:
  "separator [] (CHR ''='' # r)" "separator [] (CHR '' '' # r)" "separator [] []"
  by (simp_all add: separator_def name_chr_def isalnum_def is_digit_def isalpha_def)

lemma next_token_name:
  assumes "name_ok p" "separator [] r"
  shows "next_token [] (CHR '' '' # p @ r) = Some (Done (p, length p, PT_NAME, r))"
proof -
  obtain c q where p: "p = c # q" using assms(1) by (cases p) (auto simp: name_ok_def)
  have "parse (CHR '' '' # p @ r) [] False False = Some (Done (p, PT_NAME, Suc (length p)))"
    using parse_loop_blank [of "[]" False 0 PT_NULL "p @ r"]
      parse_loop_name_ok [of c q "[]" r 1 PT_NULL] assms p
    by (simp add: parse_def name_ok_def)
  then show ?thesis using assms(1) by (simp add: next_token_def name_ok_def name_chr_no_nul)
qed

lemma next_token_equal:
  "next_token [] (CHR ''='' # CHR 0x22 # r) = Some (Done (''='', 1, PT_OTHER, CHR 0x22 # r))"
  by (simp add: next_token_def parse_def parse_loop_equal)

lemma next_token_string:
  "value_ok v \<Longrightarrow> next_token [] (CHR 0x22 # v @ CHR 0x22 # r) = Some (Done (v, length v, PT_STRING, r))"
  by (simp add: next_token_def parse_def parse_loop_string_ok value_ok_def)

lemma next_token_Nil: "next_token np [] = Some (Done ([], 0, PT_NULL, []))"
  by (simp add: next_token_def parse_def parse_loop.simps)

lemma next_token_args:
  assumes "list_all arg_ok as"
  shows "\<exists>tok n ty rest. next_token [] (arg_text as) = Some (Done (tok, n, ty, rest)) \<and> tok \<noteq> ''=''"
proof (cases as rule: arg_text.cases)
  case 1
  then show ?thesis by (simp add: next_token_Nil)
next
  case (2 k v as1)
  then have "k \<noteq> ''=''" "name_ok k"
    using assms by (auto simp: name_ok_def name_chr_def isalnum_def is_digit_def isalpha_def)
  then show ?thesis using 2 next_token_name by simp
next
  case (3 w as1)
  then have "w \<noteq> ''=''" "name_ok w"
    using assms by (auto simp: name_ok_def name_chr_def isalnum_def is_digit_def isalpha_def)
  moreover have "separator [] (arg_text as1)" by (cases as1 rule: arg_text.cases) simp_all
  ultimately show ?thesis using 3 next_token_name by simp
qed

lemma make_vars_loop_args:
  "list_all arg_ok as \<Longrightarrow>
   run_bind (make_vars_loop [] t n (arg_text as))
     (\<lambda>(t2, k). map_option Done (tmp_put t2 ''NUM_ARG'' (my_utoa k))) =
   map_option Done (put_all tmp_put t (arg_vars n as))"
proof (induction n as arbitrary: t rule: arg_vars.induct)
  case (1 n)
  then show ?case
    by (cases "tmp_put t ''NUM_ARG'' (my_utoa n)")
      (simp_all add: make_vars_loop.simps next_token_Nil)
next
  case (2 n k v as)
  then show ?case
    using next_token_name [of k]
    by (cases "tmp_variable_put t k v (of_nat (length v))")
      (simp_all add: make_vars_loop.simps [of "[]" t] next_token_equal next_token_string tmp_put_def)
next
  case (3 n w as)
  have sep: "separator [] (arg_text as)" by (cases as rule: arg_text.cases) simp_all
  obtain tok m ty rest where nt: "next_token [] (arg_text as) = Some (Done (tok, m, ty, rest))"
    "tok \<noteq> ''=''"
    using next_token_args [of as] 3(2) by auto
  show ?case
    using 3 next_token_name [OF _ sep, of w] nt
    by (cases "tmp_variable_put t (''ARG'' @ my_utoa n) w (of_nat (length w))")
      (simp_all add: make_vars_loop.simps [of "[]" t] tmp_put_def)
qed


subsection \<open>Appending and sorting\<close>

text \<open>While a table is only appended to, the array is as large as \<open>tt_max\<close> says.\<close>

definition tmp_grown :: "tmp_table \<Rightarrow> bool" where
  "tmp_grown t \<longleftrightarrow>
     tt_vars t = [] \<or> length (tt_vars t) \<le> unat (tt_max t) \<and> tt_room t = unat (tt_max t)"

definition added_var :: "string \<Rightarrow> string \<Rightarrow> tmp_var" where
  "added_var name val =
     \<lparr>v_name = name, v_mem = val, v_length = of_nat (length val), v_hash = get_hash name\<rparr>"

lemma tmp_grown_init [simp]: "tmp_grown tmp_init"
  by (simp add: tmp_grown_def tmp_init_def)

lemma tmp_add_grow_ok:
  assumes "tmp_grown t" "length (tt_vars t) + 2000 < 2 ^ 32"
  shows "tt_vars (tmp_add_grow t) = tt_vars t"
    "length (tt_vars t) < tt_room (tmp_add_grow t)"
    "tt_room (tmp_add_grow t) = unat (tt_max (tmp_add_grow t))"
proof -
  have u: "unat (of_nat (length (tt_vars t)) :: u32) = length (tt_vars t)"
    using assms(2) by (intro unat_of_nat_u32) simp
  show "tt_vars (tmp_add_grow t) = tt_vars t" by (simp add: tmp_add_grow_def)
  consider (empty) "tt_vars t = []"
    | (full) "tt_vars t \<noteq> []" "of_nat (length (tt_vars t)) \<ge> tt_max t"
    | (room) "tt_vars t \<noteq> []" "\<not> of_nat (length (tt_vars t)) \<ge> tt_max t" by blast
  then have "length (tt_vars t) < tt_room (tmp_add_grow t) \<and>
      tt_room (tmp_add_grow t) = unat (tt_max (tmp_add_grow t))"
  proof cases
    case empty
    then show ?thesis by (simp add: tmp_add_grow_def NUM_TMP_VARS_def)
  next
    case full
    then have "unat (tt_max t) = length (tt_vars t)"
      using assms(1) u by (simp add: tmp_grown_def word_le_nat_alt)
    then show ?thesis
      using full assms(2) unat_add_of_nat_u32 [of "tt_max t" NUM_TMP_VARS]
      by (simp add: tmp_add_grow_def NUM_TMP_VARS_def)
  next
    case room
    then show ?thesis
      using assms(1) u by (auto simp: tmp_add_grow_def tmp_grown_def word_le_nat_alt)
  qed
  then show "length (tt_vars t) < tt_room (tmp_add_grow t)"
    "tt_room (tmp_add_grow t) = unat (tt_max (tmp_add_grow t))" by auto
qed

lemma tmp_add_ok:
  assumes "tmp_grown t" "length (tt_vars t) + 2000 < 2 ^ 32"
    "take (if len < 0 then length (cstr val) else nat len) val = d"
    "(if len < 0 then length (cstr val) else nat len) = length d"
  shows "\<exists>t1. tmp_variable_add t name val len = Some t1 \<and> tmp_grown t1 \<and>
    tt_vars t1 = tt_vars t @ [added_var name d]"
proof -
  let ?n = "if len < 0 then length (cstr val) else nat len"
  have "length d \<le> length val" using assms(3,4) by (metis length_take min.cobounded1)
  then show ?thesis
    using tmp_add_grow_ok [OF assms(1,2)] assms(3,4)
    by (auto simp: tmp_variable_add_def tmp_grown_def added_var_def Let_def)
qed

lemma tmp_add_string_ok:
  assumes "tmp_grown t" "length (tt_vars t) + 2000 < 2 ^ 32" "no_nul val"
  shows "\<exists>t1. tmp_variable_add t name val (-1) = Some t1 \<and> tmp_grown t1 \<and>
    tt_vars t1 = tt_vars t @ [added_var name val]"
  using assms by (intro tmp_add_ok) simp_all

text \<open>After the sort the table finds what was appended under distinct names.\<close>

lemma var_map_qsort:
  assumes "distinct (map v_name vars)"
  shows "var_map (qsort c vars) = var_map vars"
proof -
  have m: "mset (qsort c vars) = mset vars" by (rule names.mset_qsort)
  then have "mset (map v_name (qsort c vars)) = mset (map v_name vars)" by simp
  then have "distinct (map v_name (qsort c vars))"
    using assms mset_eq_imp_distinct_iff by blast
  moreover have "set (qsort c vars) = set vars" using m by (rule mset_eq_setD)
  ultimately show ?thesis
    unfolding var_map_def using assms by (intro map_of_eqI) (auto simp: comp_def image_iff)
qed

lemma tmp_sort_get:
  assumes "\<forall>e \<in> set (tt_vars t). v_hash e = get_hash (v_name e)"
    "distinct (map v_name (tt_vars t))" "length (tt_vars t) \<le> tt_room t" "e \<in> set (tt_vars t)"
  shows "tmp_variable_get (tmp_variable_sort t) (v_name e) = map_option (Pair 0) (var_value e)"
proof -
  let ?vars = "qsort (\<lambda>a b. name_cmp (v_key a) (v_key b)) (tt_vars t)"
  have set: "set ?vars = set (tt_vars t)"
    by (rule mset_eq_setD) (rule names.mset_qsort)
  have "mset (map v_name ?vars) = mset (map v_name (tt_vars t))"
    using names.mset_qsort by (metis mset_map)
  then have d: "distinct (map v_name ?vars)" "length ?vars = length (tt_vars t)"
    using assms(2) mset_eq_imp_distinct_iff mset_eq_length by (blast, fastforce)
  have ok: "tmp_ok (tmp_variable_sort t)"
    using assms(1,3) d set names.ascending_qsort [of v_key "tt_vars t"]
    by (simp add: tmp_ok_def tmp_variable_sort_def vars_ok_def)
  have "var_map ?vars (v_name e) = Some e"
    unfolding var_map_qsort [OF assms(2)] using assms(2,4)
    by (auto simp: var_map_def comp_def intro!: map_of_is_SomeI)
  then show ?thesis
    by (simp add: tmp_variable_get_eq [OF ok]) (simp add: tmp_variable_sort_def)
qed

text \<open>The bound kept by \<open>tmp_variable_add\<close> is not the one \<open>tmp_variable_put\<close> leaves: an
  append after a put into the middle writes beyond the array.\<close>

lemma tmp_add_after_put:
  assumes "tmp_ok t" "tt_vars t \<noteq> []" "var_map (tt_vars t) name = None"
    "length (tt_vars t) + 1 < unat (tt_max t)" "tmp_variable_put t name val len = Some t1"
  shows "tmp_variable_add t1 name2 val2 len2 = None"
proof -
  have "find_var (tt_vars t) name = None" using assms(1,3) by (simp add: tmp_find_map)
  then have t1: "length (tt_vars t1) = length (tt_vars t) + 1" "tt_room t1 = length (tt_vars t) + 1"
    "tt_max t1 = tt_max t"
    using assms(2,5) by (auto simp: tmp_variable_put_def)
  have "unat (of_nat (length (tt_vars t1)) :: u32) = length (tt_vars t1)"
    using assms(4) t1(1) unat_u32_less [of "tt_max t"] by (intro unat_of_nat_u32) linarith
  then have "\<not> of_nat (length (tt_vars t1)) \<ge> tt_max t1" "tt_vars t1 \<noteq> []"
    using assms(4) t1 by (auto simp: word_le_nat_alt)
  then have "tmp_add_grow t1 = t1" by (simp add: tmp_add_grow_def)
  then show ?thesis using t1 by (simp add: tmp_variable_add_def Let_def)
qed


section \<open>Properties\<close>

lemma tmp_empty_map [simp]:
  "var_map (tt_vars tmp_init) = Map.empty" "var_map (tt_vars (tmp_variable_delete_all t)) = Map.empty"
  by (simp_all add: tmp_init_def tmp_variable_delete_all_def var_map_def)

lemma tmp_get_init: "tmp_variable_get tmp_init name = Some (1, [])"
  by (simp add: tmp_variable_get_eq)

text \<open>The sorted array with its hashed binary search refines a map: putting a value under a
  new name keeps the table's invariant (sorted by hash and name, names distinct, memory for all),
  the value is read back, and every other name reads as before.\<close>

theorem tmp_variable_put_new_get:
  assumes "tmp_ok t" "tmp_variable_get t name = Some (1, [])" "length val < 2 ^ 32"
  shows "\<exists>t1. tmp_variable_put t name val (of_nat (length val)) = Some t1 \<and> tmp_ok t1 \<and>
    (\<forall>m. tmp_variable_get t1 m = (if m = name then Some (0, val) else tmp_variable_get t m))"
proof -
  have n: "var_map (tt_vars t) name = None"
    using assms(2) by (auto simp: tmp_variable_get_eq [OF assms(1)] split: option.splits)
  obtain t1 v where t1: "tmp_variable_put t name val (of_nat (length val)) = Some t1" "tmp_ok t1"
    "new_tmp_var name val (of_nat (length val)) = Some v"
    "var_map (tt_vars t1) = (var_map (tt_vars t))(name \<mapsto> v)"
    using tmp_put_new [OF assms(1) n, of "of_nat (length val)" val] assms(3) by auto
  have "var_value v = Some val" using var_value_new [OF t1(3)] assms(3) by simp
  then show ?thesis
    using t1 assms(1) by (auto simp: tmp_variable_get_eq)
qed

theorem tmp_variable_put_new_get_witness:
  "\<exists>t1. tmp_variable_put tmp_init ''A'' ''12'' 2 = Some t1 \<and> tmp_variable_get t1 ''A'' = Some (0, ''12'')"
proof -
  show ?thesis using tmp_variable_put_new_get [of tmp_init "''A''" "''12''"] tmp_get_init by auto
qed

text \<open>Putting a name a second time replaces the text but not the recorded length: the value
  that is read back has the length of the first value. A longer second value is cut off, a
  shorter one makes the reader leave the string.\<close>

theorem tmp_variable_put_old_length:
  assumes "tmp_ok t" "tmp_variable_get t name = Some (0, old)"
  shows "\<exists>t1. tmp_variable_put t name val len = Some t1 \<and> tmp_ok t1 \<and>
    tmp_variable_get t1 name =
      (if length old \<le> length val + 1 then Some (0, take (length old) (val @ [CHR 0x00])) else None)"
proof -
  obtain e where e: "var_map (tt_vars t) name = Some e" "var_value e = Some old"
    using assms(2) by (auto simp: tmp_variable_get_eq [OF assms(1)] split: option.splits)
  then have l: "unat (v_length e) = length old" by (auto simp: var_value_def)
  obtain t1 where "tmp_variable_put t name val len = Some t1" "tmp_ok t1"
    "var_map (tt_vars t1) = (var_map (tt_vars t))(name \<mapsto> e\<lparr>v_mem := val @ [CHR 0x00]\<rparr>)"
    using tmp_put_old [OF assms(1) e(1)] by blast
  then show ?thesis using l by (auto simp: tmp_variable_get_eq var_value_def)
qed

theorem tmp_variable_put_old_length_witness:
  "\<exists>t t1. tmp_variable_put tmp_init ''A'' ''1'' 1 = Some t \<and>
    tmp_variable_put t ''A'' ''234'' 3 = Some t1 \<and> tmp_variable_get t1 ''A'' = Some (0, ''2'')"
proof -
  obtain t where t: "tmp_variable_put tmp_init ''A'' ''1'' 1 = Some t" "tmp_ok t"
    "tmp_variable_get t ''A'' = Some (0, ''1'')"
    using tmp_put_new [of tmp_init "''A''" 1 "''1''"]
    by (auto simp: tmp_variable_get_eq new_tmp_var_Some var_value_def)
  then show ?thesis using tmp_variable_put_old_length [OF t(2,3), of "''234''" 3] by auto
qed

lemma arg_vars_length:
  "list_all arg_ok as \<Longrightarrow> n + length as < 10 ^ Suc 9 \<Longrightarrow>
   \<forall>v \<in> snd ` set (arg_vars n as). length v < 2 ^ 32"
proof (induction n as rule: arg_vars.induct)
  case (1 n)
  then show ?case using my_utoa_length_le [of n 9] by simp
qed (auto simp: value_ok_def)



text \<open>A variable that is added after one was put can be written outside the array: \<open>put\<close>
  shrinks the array to what it needs, \<open>add\<close> goes by the size it last asked for itself.\<close>

theorem tmp_variable_add_after_put:
  assumes "tmp_ok t" "tt_vars t \<noteq> []" "var_map (tt_vars t) name = None"
    "length (tt_vars t) + 1 < unat (tt_max t)" "tmp_variable_put t name val len = Some t1"
  shows "tmp_variable_add t1 name2 val2 len2 = None"
  using assms by (rule tmp_add_after_put)

theorem tmp_variable_add_after_put_witness:
  "\<exists>t t1. tmp_variable_add tmp_init ''A'' ''1'' 1 = Some t \<and> tmp_variable_put t ''B'' ''2'' 1 = Some t1 \<and>
    tmp_variable_add t1 ''C'' ''3'' 1 = None"
proof -
  define t where "t = tmp_init\<lparr>tt_vars := [added_var ''A'' ''1''], tt_room := 1000, tt_max := 1000\<rparr>"
  have t: "tmp_variable_add tmp_init ''A'' ''1'' 1 = Some t"
    by (simp add: tmp_variable_add_def tmp_add_grow_def tmp_init_def t_def added_var_def NUM_TMP_VARS_def)
  have ok: "tmp_ok t" "tt_vars t \<noteq> []" "var_map (tt_vars t) ''B'' = None"
    by (simp_all add: t_def tmp_ok_def vars_ok_single added_var_def var_map_def)
  obtain t1 where t1: "tmp_variable_put t ''B'' ''2'' 1 = Some t1"
    using tmp_put_new [OF ok(1,3), of 1 "''2''"] by auto
  have "tmp_variable_add t1 ''C'' ''3'' 1 = None"
    by (rule tmp_variable_add_after_put [OF ok _ t1]) (simp add: t_def)
  then show ?thesis using t t1 by blast
qed

end
