(* ===== verification/Scan.thy ===== *)
theory Scan
  imports Buffers
begin

section \<open>Reading numbers with sscanf and atoi\<close>

text \<open>
  The interpreter keeps numbers as text and reads them with \<^verbatim>\<open>sscanf (s, "%d", &x)\<close>, \<^verbatim>\<open>"%u"\<close> and
  \<open>atoi\<close>, which skip white space, take a sign and as many digits as there are, and leave the
  object unchanged when there is no digit. A number that the object cannot hold is undefined
  behaviour. What \<open>sprintf\<close> has printed is read back.
\<close>

definition dec_value :: "string \<Rightarrow> nat" where
  "dec_value s = foldl (\<lambda>n c. 10 * n + digit_val c) 0 s"

definition scan_sign :: "string \<Rightarrow> bool \<times> string" where
  "scan_sign s =
     (case s of [] \<Rightarrow> (False, [])
      | c # r \<Rightarrow> if c = CHR ''-'' then (True, r) else if c = CHR ''+'' then (False, r) else (False, s))"

definition scan_num :: "string \<Rightarrow> (int \<times> string) option" where
  "scan_num s =
     (let (neg, r) = scan_sign (dropWhile isspace (cstr s));
          ds = takeWhile is_digit r;
          v = int (dec_value ds)
      in if ds = [] then None else Some (if neg then - v else v, dropWhile is_digit r))"

definition sscanf_d :: "string \<Rightarrow> u32 \<Rightarrow> u32 option" where
  "sscanf_d s old =
     (case scan_num s of
        None \<Rightarrow> Some old
      | Some (v, r) \<Rightarrow> do { require (- (2 ^ 31) \<le> v \<and> v < 2 ^ 31); Some (of_int v) })"

definition sscanf_u :: "string \<Rightarrow> u32 \<Rightarrow> u32 option" where
  "sscanf_u s old =
     (case scan_num s of
        None \<Rightarrow> Some old
      | Some (v, r) \<Rightarrow> do { require (- (2 ^ 32) < v \<and> v < 2 ^ 32); Some (of_int v) })"

definition atoi :: "string \<Rightarrow> u32 option" where
  "atoi s = sscanf_d s 0"

subsection \<open>Lemmas\<close>

lemma dec_value_Nil [simp]: "dec_value [] = 0"
  by (simp add: dec_value_def)

lemma dec_value_snoc [simp]: "dec_value (s @ [c]) = 10 * dec_value s + digit_val c"
  by (simp add: dec_value_def)

lemma utoa_loop_append: "utoa_loop n (p @ q) = utoa_loop n p @ q"
  by (induction n p rule: utoa_loop.induct) (subst (1 2) utoa_loop.simps, simp add: Let_def)

lemma my_utoa_rec: "my_utoa n = (if n < 10 then [digit_chr n] else my_utoa (n div 10) @ [digit_chr (n mod 10)])"
proof (cases "n < 10")
  case False
  then have "my_utoa n = utoa_loop (n div 10) ([] @ [digit_chr (n mod 10)])"
    unfolding my_utoa_def by (subst utoa_loop.simps) (auto simp: Let_def)
  moreover have "utoa_loop (n div 10) ([] @ [digit_chr (n mod 10)]) = my_utoa (n div 10) @ [digit_chr (n mod 10)]"
    by (simp only: utoa_loop_append my_utoa_def)
  ultimately show ?thesis using False by simp
qed (unfold my_utoa_def, subst utoa_loop_unfold, simp)

lemma my_utoa_digits:
  "my_utoa n \<noteq> [] \<and> list_all is_digit (my_utoa n) \<and> dec_value (my_utoa n) = n \<and> no_nul (my_utoa n)"
proof (induction n rule: less_induct)
  case (less n)
  show ?case
  proof (cases "n < 10")
    case True
    then show ?thesis by (subst (1 2 3 4) my_utoa_rec) (simp add: dec_value_def)
  next
    case False
    then show ?thesis using less.IH [of "n div 10"] by (subst (1 2 3 4) my_utoa_rec) simp
  qed
qed

lemma is_digit_not: "is_digit c \<Longrightarrow> \<not> isspace c \<and> c \<noteq> CHR ''-'' \<and> c \<noteq> CHR ''+''"
  by (auto simp: is_digit_def isspace_def)

lemma scan_digits:
  assumes "list_all is_digit ds" "ds \<noteq> []" "no_nul ds" "rest = [] \<or> \<not> is_digit (hd rest)" "no_nul rest"
  shows "scan_num (ds @ rest) = Some (int (dec_value ds), rest)"
    and "scan_num (CHR ''-'' # ds @ rest) = Some (- int (dec_value ds), rest)"
proof -
  obtain d ds1 where d: "ds = d # ds1" "is_digit d" using assms(1,2) by (cases ds) auto
  have t: "takeWhile is_digit (ds @ rest) = ds \<and> dropWhile is_digit (ds @ rest) = rest"
    using assms(1,4) by (induction ds) (auto simp: list_all_iff, (cases rest, auto)+)
  have c: "cstr (ds @ rest) = ds @ rest" using assms by simp
  have "scan_sign (dropWhile isspace (ds @ rest)) = (False, ds @ rest)"
    using d is_digit_not [of d] by (simp add: scan_sign_def)
  then show "scan_num (ds @ rest) = Some (int (dec_value ds), rest)"
    using t c assms(2) by (simp add: scan_num_def Let_def)
  have "cstr (CHR ''-'' # ds @ rest) = CHR ''-'' # ds @ rest" using assms by simp
  moreover have "dropWhile isspace (CHR ''-'' # ds @ rest) = CHR ''-'' # ds @ rest" by (simp add: isspace_def)
  ultimately show "scan_num (CHR ''-'' # ds @ rest) = Some (- int (dec_value ds), rest)"
    using t assms(2) by (simp add: scan_num_def Let_def scan_sign_def)
qed

lemma scan_print_d: "scan_num (print_d w) = Some (sint w, [])"
proof -
  have "scan_num (my_utoa n) = Some (int n, []) \<and> scan_num (CHR ''-'' # my_utoa n) = Some (- int n, [])" for n
    using my_utoa_digits [of n] scan_digits [of "my_utoa n" "[]"] by simp
  then show ?thesis by (auto simp: print_d_def)
qed

lemma sint_u32_bounds: "- 2147483648 \<le> sint (w :: u32)" "sint (w :: u32) < 2147483648"
  using sint_greater_eq [of w] sint_less [of w] by simp_all

lemma sscanf_print_d [simp]:
  "sscanf_d (print_d w) old = Some w"
  "sscanf_u (print_d w) old = Some w"
  using sint_u32_bounds [of w] by (auto simp: sscanf_d_def sscanf_u_def scan_print_d)

lemma print_d_no_nul [simp]: "no_nul (print_d w)"
  using my_utoa_digits by (simp add: print_d_def of_char_def)

end
