(* ===== verification/Timers.thy ===== *)
theory Timers
  imports Prelude
begin

section \<open>Program timers and open transactions (timers.c, secs.c)\<close>

text \<open>
  Fifty timers, of which 0 to 9 are meant for the program and the others for the protocols,
  and the table of the fifty primary messages that wait for a reply. \<open>now\<close> is what
  \<open>time (NULL)\<close> returns, as an integer; both tables are lists of fifty entries. \<open>FATAL\<close>
  ends the process.
\<close>

subsection \<open>timers.c\<close>

record timer =
  tm_active :: bool
  tm_start :: int
  tm_end :: int
  tm_program_idx :: u32
  tm_msg :: string
  tm_comment :: string

definition MAX_TIMERS :: nat where
  "MAX_TIMERS = 50"

definition MSG_SIZE :: nat where
  "MSG_SIZE = 128"

definition no_timer :: timer where
  "no_timer = \<lparr>tm_active = False, tm_start = 0, tm_end = 0, tm_program_idx = 0, tm_msg = [],
     tm_comment = []\<rparr>"

definition timers_init :: "timer list" where
  "timers_init = replicate MAX_TIMERS no_timer"

text \<open>The first free timer from \<open>i\<close> on.\<close>

fun free_timer :: "nat \<Rightarrow> timer list \<Rightarrow> nat option" where
  "free_timer i [] = None"
| "free_timer i (t # ts) = (if tm_active t then free_timer (Suc i) ts else Some i)"

text \<open>\<open>calc_min_time\<close>: the seconds until the next timer ends, 0 if none is active.\<close>

fun min_time_loop :: "int \<Rightarrow> timer list \<Rightarrow> nat \<Rightarrow> int \<Rightarrow> nat \<times> int" where
  "min_time_loop now [] num min_time = (num, min_time)"
| "min_time_loop now (t # ts) num min_time =
     (if tm_active t then min_time_loop now ts (Suc num) (min min_time (tm_end t - now))
      else min_time_loop now ts num min_time)"

definition calc_min_time :: "int \<Rightarrow> timer list \<Rightarrow> u32" where
  "calc_min_time now ts =
     (let (num, m) = min_time_loop now ts 0 300
      in of_int (if num \<noteq> 0 then (if m \<le> 0 then 1 else m) else 0))"

text \<open>\<open>start_timer\<close>: any index but 0 is replaced by a free one, the fixed ones too. The
  result is the index used and the time-out for the server's \<open>select\<close>. \<open>strncpy\<close> copies at
  most the 512 characters of \<open>comment\<close>.\<close>

definition start_timer ::
    "int \<Rightarrow> timer list \<Rightarrow> int \<Rightarrow> int \<Rightarrow> u32 \<Rightarrow> string \<Rightarrow> string \<Rightarrow> (timer list \<times> nat \<times> u32) run" where
  "start_timer now ts timer_idx seconds program_idx msg comment =
     (if \<not> (timer_idx = -1 \<or> 0 \<le> timer_idx \<and> timer_idx < 10) then Exit
      else case (if timer_idx \<noteq> 0 then free_timer 10 (drop 10 ts) else Some 0) of
             None \<Rightarrow> Exit
           | Some i \<Rightarrow>
               if MSG_SIZE \<le> length msg then Exit
               else let ts1 = ts[i := \<lparr>tm_active = True, tm_start = now, tm_end = now + seconds,
                                       tm_program_idx = program_idx, tm_msg = msg,
                                       tm_comment = take 512 comment\<rparr>]
                    in Done (ts1, i, calc_min_time now ts1))"

definition stop_timer :: "timer list \<Rightarrow> nat \<Rightarrow> timer list option" where
  "stop_timer ts idx = do {
     require (idx < length ts);
     Some (ts[idx := (ts ! idx)\<lparr>tm_active := False\<rparr>])
   }"

text \<open>\<open>timer_handler\<close> looks for the timer that is overdue longest; of two that are equally
  late it takes the later one.\<close>

fun expired_loop :: "int \<Rightarrow> nat \<Rightarrow> timer list \<Rightarrow> int \<Rightarrow> nat option \<Rightarrow> nat option" where
  "expired_loop now i [] mx idx = idx"
| "expired_loop now i (t # ts) mx idx =
     (if tm_active t \<and> now \<ge> tm_end t \<and> mx \<le> now - tm_end t
      then expired_loop now (Suc i) ts (now - tm_end t) (Some i)
      else expired_loop now (Suc i) ts mx idx)"

definition expired_timer :: "int \<Rightarrow> timer list \<Rightarrow> nat option" where
  "expired_timer now ts = expired_loop now 0 ts 0 None"

text \<open>The timer that went off, to be resumed at its program index with its message.\<close>

definition timer_handler :: "int \<Rightarrow> timer list \<Rightarrow> (timer list \<times> (u32 \<times> string) option) \<times> u32" where
  "timer_handler now ts =
     (case expired_timer now ts of
        None \<Rightarrow> ((ts, None), calc_min_time now ts)
      | Some i \<Rightarrow>
          let ts1 = ts[i := (ts ! i)\<lparr>tm_active := False\<rparr>]
          in ((ts1, Some (tm_program_idx (ts ! i), tm_msg (ts ! i))), calc_min_time now ts1))"

subsection \<open>secs.c\<close>

record trans =
  tr_active :: bool
  tr_program_idx :: u32
  tr_system_bytes :: u32
  tr_timer_idx :: u32
  tr_end_time :: int

definition MAX_OPEN_TRANS_TABLE :: nat where
  "MAX_OPEN_TRANS_TABLE = 50"

definition no_trans :: trans where
  "no_trans = \<lparr>tr_active = False, tr_program_idx = 0, tr_system_bytes = 0, tr_timer_idx = 0,
     tr_end_time = 0\<rparr>"

definition trans_init :: "trans list" where
  "trans_init = replicate MAX_OPEN_TRANS_TABLE no_trans"

definition trans_expire :: "int \<Rightarrow> trans list \<Rightarrow> trans list" where
  "trans_expire now ts =
     map (\<lambda>e. if tr_active e \<and> tr_end_time e < now then e\<lparr>tr_active := False\<rparr> else e) ts"

fun trans_place :: "trans \<Rightarrow> trans list \<Rightarrow> trans list option" where
  "trans_place new [] = None"
| "trans_place new (e # es) =
     (if \<not> tr_active e then Some (new # es) else map_option ((#) e) (trans_place new es))"

definition open_trans_table_add ::
    "int \<Rightarrow> trans list \<Rightarrow> u32 \<Rightarrow> u32 \<Rightarrow> u32 \<Rightarrow> u32 \<Rightarrow> trans list run" where
  "open_trans_table_add now ts program_idx sysb timer_idx seconds =
     (case trans_place
        \<lparr>tr_active = True, tr_program_idx = program_idx, tr_system_bytes = sysb,
         tr_timer_idx = timer_idx, tr_end_time = now + int (unat seconds)\<rparr> (trans_expire now ts) of
        Some ts1 \<Rightarrow> Done ts1
      | None \<Rightarrow> Exit)"

text \<open>The entry is found by its system bytes alone, whether it is active or not.\<close>

fun trans_find :: "u32 \<Rightarrow> nat \<Rightarrow> trans list \<Rightarrow> nat option" where
  "trans_find sysb i [] = None"
| "trans_find sysb i (e # es) =
     (if tr_system_bytes e = sysb then Some i else trans_find sysb (Suc i) es)"

record trans_state =
  ts_trans :: "trans list"
  ts_timers :: "timer list"

text \<open>The return code, and the program index when it is set.\<close>

definition open_trans_table_del ::
    "int \<Rightarrow> trans_state \<Rightarrow> u32 \<Rightarrow> (u32 \<times> u32 option \<times> trans_state) option" where
  "open_trans_table_del now s sysb =
     (case trans_find sysb 0 (ts_trans s) of
        None \<Rightarrow> Some (1, None, s)
      | Some i \<Rightarrow>
          let e = ts_trans s ! i
          in if now > tr_end_time e then Some (1, None, s)
             else do {
               tms \<leftarrow> stop_timer (ts_timers s) (unat (tr_timer_idx e));
               Some (0, Some (tr_program_idx e),
                 s\<lparr>ts_trans := (ts_trans s)[i := e\<lparr>tr_active := False\<rparr>], ts_timers := tms\<rparr>)
             })"

text \<open>The two bytes of the sum of the bytes of a block.\<close>

definition secs_calc_checksum :: "byte list \<Rightarrow> byte \<times> byte" where
  "secs_calc_checksum block =
     (let v = sum_list (map (\<lambda>b. of_nat (unat b)) block) :: u32
      in (of_nat (unat v div 256 mod 256), of_nat (unat v mod 256)))"

record secs_globals =
  saved_system_bytes :: u32
  system_bytes :: u32

definition secs_set_system_bytes :: "secs_globals \<Rightarrow> u32 \<Rightarrow> secs_globals" where
  "secs_set_system_bytes g v = g\<lparr>saved_system_bytes := v\<rparr>"

definition secs_get_system_bytes :: "secs_globals \<Rightarrow> u32" where
  "secs_get_system_bytes g = saved_system_bytes g"

text \<open>The counter starts with 1 and goes on with 0 after \<open>2 ^ 32 - 1\<close>.\<close>

definition secs_inc_system_bytes :: "secs_globals \<Rightarrow> u32 \<times> secs_globals" where
  "secs_inc_system_bytes g =
     (let v = (if system_bytes g = 0 then 1 else system_bytes g + 1)
      in (v, g\<lparr>system_bytes := v\<rparr>))"


subsection \<open>Lemmas: timers\<close>

lemma free_timer_Some:
  "free_timer i ts = Some j \<Longrightarrow> \<exists>k < length ts. j = i + k \<and> \<not> tm_active (ts ! k)"
proof (induction i ts rule: free_timer.induct)
  case (2 i t ts)
  show ?case
  proof (cases "tm_active t")
    case True
    then obtain k where "k < length ts" "j = Suc i + k" "\<not> tm_active (ts ! k)"
      using 2 by auto
    then show ?thesis by (intro exI [of _ "Suc k"]) simp
  next
    case False
    then show ?thesis using 2(2) by (intro exI [of _ 0]) simp
  qed
qed simp

lemma Min_insert_min: "finite S \<Longrightarrow> Min (insert (min a b) S) = Min (insert a (insert b S))"
  for a b :: int
  by (cases "S = {}") (simp_all add: min.assoc)

lemma free_timer_None: "free_timer i ts = None \<longleftrightarrow> (\<forall>t \<in> set ts. tm_active t)"
  by (induction i ts rule: free_timer.induct) auto

lemma min_time_loop_eq:
  "min_time_loop now ts num m =
     (num + length (filter tm_active ts), Min (insert m ((\<lambda>t. tm_end t - now) ` {t \<in> set ts. tm_active t})))"
proof (induction now ts num m rule: min_time_loop.induct)
  case (2 now t ts num m)
  let ?S = "(\<lambda>t. tm_end t - now) ` {t \<in> set ts. tm_active t}"
  show ?case
  proof (cases "tm_active t")
    case True
    then have "(\<lambda>t. tm_end t - now) ` {u \<in> set (t # ts). tm_active u} = insert (tm_end t - now) ?S"
      by auto
    moreover have "Min (insert (min m (tm_end t - now)) ?S) = Min (insert m (insert (tm_end t - now) ?S))"
      by (rule Min_insert_min) simp
    ultimately show ?thesis using 2 True by simp
  next
    case False
    then have "{u \<in> set (t # ts). tm_active u} = {u \<in> set ts. tm_active u}" by auto
    then show ?thesis using 2 False by simp
  qed
qed simp

lemma expired_loop_inv:
  assumes "expired_loop now i ts mx idx = r" "0 \<le> mx"
  shows "(r = idx \<and> (\<forall>t \<in> set ts. tm_active t \<longrightarrow> now \<ge> tm_end t \<longrightarrow> now - tm_end t < mx)) \<or>
    (\<exists>j < length ts. r = Some (i + j) \<and> tm_active (ts ! j) \<and> tm_end (ts ! j) \<le> now \<and>
       mx \<le> now - tm_end (ts ! j) \<and>
       (\<forall>t \<in> set ts. tm_active t \<longrightarrow> now \<ge> tm_end t \<longrightarrow> now - tm_end t \<le> now - tm_end (ts ! j)))"
  using assms
proof (induction now i ts mx idx rule: expired_loop.induct)
  case (2 now i t ts mx idx)
  show ?case
  proof (cases "tm_active t \<and> now \<ge> tm_end t \<and> mx \<le> now - tm_end t")
    case True
    then have "expired_loop now (Suc i) ts (now - tm_end t) (Some i) = r" using 2(3) by simp
    from 2(1) [OF True this] True
    consider "r = Some i"
        "\<forall>u \<in> set ts. tm_active u \<longrightarrow> now \<ge> tm_end u \<longrightarrow> now - tm_end u < now - tm_end t"
      | j where "j < length ts" "r = Some (Suc i + j)" "tm_active (ts ! j)" "tm_end (ts ! j) \<le> now"
        "now - tm_end t \<le> now - tm_end (ts ! j)"
        "\<forall>u \<in> set ts. tm_active u \<longrightarrow> now \<ge> tm_end u \<longrightarrow> now - tm_end u \<le> now - tm_end (ts ! j)"
      by auto
    then show ?thesis
    proof cases
      case 1
      then show ?thesis using True by (intro disjI2 exI [of _ 0]) auto
    next
      case (2 j)
      then show ?thesis using True by (intro disjI2 exI [of _ "Suc j"]) auto
    qed
  next
    case False
    then have "expired_loop now (Suc i) ts mx idx = r" using 2(3) by auto
    from 2(2) [OF False this 2(4)] show ?thesis
    proof (elim disjE exE conjE, goal_cases)
      case 1
      then show ?case using False by auto
    next
      case (2 j)
      then show ?case using False by (intro disjI2 exI [of _ "Suc j"]) auto
    qed
  qed
qed simp

lemma expired_timer_Some:
  assumes "expired_timer now ts = Some i"
  shows "i < length ts \<and> tm_active (ts ! i) \<and> tm_end (ts ! i) \<le> now \<and>
    (\<forall>t \<in> set ts. tm_active t \<longrightarrow> tm_end (ts ! i) \<le> tm_end t \<or> now < tm_end t)"
  using expired_loop_inv [of now 0 ts 0 None "Some i"] assms unfolding expired_timer_def by fastforce

lemma expired_timer_None:
  "expired_timer now ts = None \<longleftrightarrow> (\<forall>t \<in> set ts. tm_active t \<longrightarrow> now < tm_end t)"
proof
  assume "expired_timer now ts = None"
  then show "\<forall>t \<in> set ts. tm_active t \<longrightarrow> now < tm_end t"
    using expired_loop_inv [of now 0 ts 0 None None] unfolding expired_timer_def by force
next
  assume a: "\<forall>t \<in> set ts. tm_active t \<longrightarrow> now < tm_end t"
  then show "expired_timer now ts = None"
    using expired_timer_Some [of now ts] by (cases "expired_timer now ts") (auto dest: nth_mem)
qed

subsection \<open>Lemmas: transactions\<close>

lemma trans_find_Some:
  "trans_find sysb i ts = Some j \<Longrightarrow> \<exists>k < length ts. j = i + k \<and> tr_system_bytes (ts ! k) = sysb"
proof (induction sysb i ts rule: trans_find.induct)
  case (2 sysb i e es)
  show ?case
  proof (cases "tr_system_bytes e = sysb")
    case False
    then obtain k where "k < length es" "j = Suc i + k" "tr_system_bytes (es ! k) = sysb"
      using 2 by auto
    then show ?thesis by (intro exI [of _ "Suc k"]) simp
  next
    case True
    then show ?thesis using 2(2) by (intro exI [of _ 0]) simp
  qed
qed simp

lemma trans_place_find:
  assumes "trans_place new ts = Some ts1" "\<forall>e \<in> set ts. tr_system_bytes e \<noteq> tr_system_bytes new"
  shows "\<exists>j. trans_find (tr_system_bytes new) i ts1 = Some (i + j) \<and> j < length ts1 \<and> ts1 ! j = new"
  using assms
proof (induction new ts arbitrary: ts1 i rule: trans_place.induct)
  case (2 new e es)
  show ?case
  proof (cases "tr_active e")
    case True
    then obtain us where us: "trans_place new es = Some us" "ts1 = e # us" using 2(2) by auto
    obtain j where "trans_find (tr_system_bytes new) (Suc i) us = Some (Suc i + j)" "j < length us"
      "us ! j = new"
      using 2(1) [OF _ us(1), of "Suc i"] True 2(3) by auto
    then show ?thesis using us(2) 2(3) by (intro exI [of _ "Suc j"]) auto
  next
    case False
    then show ?thesis using 2(2) by (intro exI [of _ 0]) auto
  qed
qed simp

lemma trans_place_None: "trans_place new ts = None \<longleftrightarrow> (\<forall>e \<in> set ts. tr_active e)"
  by (induction new ts rule: trans_place.induct) auto

lemma length_trans_place: "trans_place new ts = Some ts1 \<Longrightarrow> length ts1 = length ts"
  by (induction new ts arbitrary: ts1 rule: trans_place.induct) (auto split: if_splits)

lemma length_trans_expire [simp]: "length (trans_expire now ts) = length ts"
  by (simp add: trans_expire_def)

lemma trans_expire_bytes:
  "tr_system_bytes ` set (trans_expire now ts) = tr_system_bytes ` set ts"
proof -
  have "tr_system_bytes (if tr_active e \<and> tr_end_time e < now then e\<lparr>tr_active := False\<rparr> else e) =
      tr_system_bytes e" for e :: trans by simp
  then show ?thesis unfolding trans_expire_def set_map image_image by (rule image_cong [OF refl])
qed

text \<open>A reply finds its request while it is not too late.\<close>

lemma open_trans_reply:
  assumes "open_trans_table_add now (ts_trans s) idx sysb tmr secs = Done ts1"
    "\<forall>e \<in> set (ts_trans s). tr_system_bytes e \<noteq> sysb"
    "now1 \<le> now + int (unat secs)" "unat tmr < length (ts_timers s)"
  shows "\<exists>s1. open_trans_table_del now1 (s\<lparr>ts_trans := ts1\<rparr>) sysb = Some (0, Some idx, s1) \<and>
    \<not> tm_active (ts_timers s1 ! unat tmr)"
proof -
  let ?new = "\<lparr>tr_active = True, tr_program_idx = idx, tr_system_bytes = sysb,
    tr_timer_idx = tmr, tr_end_time = now + int (unat secs)\<rparr>"
  have place: "trans_place ?new (trans_expire now (ts_trans s)) = Some ts1"
    using assms(1) by (auto simp: open_trans_table_add_def split: option.splits)
  have "\<forall>e \<in> set (trans_expire now (ts_trans s)). tr_system_bytes e \<noteq> sysb"
    using assms(2) trans_expire_bytes [of now "ts_trans s"] by (metis image_iff)
  then obtain j where "trans_find sysb 0 ts1 = Some j" "ts1 ! j = ?new"
    using trans_place_find [OF place, of 0] by auto
  then show ?thesis using assms(3,4) by (simp add: open_trans_table_del_def stop_timer_def)
qed

text \<open>It is found again: the entry stays, inactive.\<close>

lemma open_trans_reply_again:
  assumes "open_trans_table_del now s sysb = Some (0, Some idx, s1)"
  shows "\<exists>s2. open_trans_table_del now s1 sysb = Some (0, Some idx, s2)"
proof -
  obtain i where i: "trans_find sysb 0 (ts_trans s) = Some i"
    using assms by (auto simp: open_trans_table_del_def split: option.splits)
  let ?e = "ts_trans s ! i"
  have len: "i < length (ts_trans s)" "tr_system_bytes ?e = sysb"
    using trans_find_Some [OF i] by auto
  have s1: "ts_trans s1 = (ts_trans s)[i := ?e\<lparr>tr_active := False\<rparr>]"
    "length (ts_timers s1) = length (ts_timers s)" "\<not> now > tr_end_time ?e"
    "idx = tr_program_idx ?e" "unat (tr_timer_idx ?e) < length (ts_timers s)"
    using assms i by (auto simp: open_trans_table_del_def Let_def stop_timer_def split: if_splits)
  have "trans_find sysb k (es[j := (es ! j)\<lparr>tr_active := False\<rparr>]) = trans_find sysb k es" for k j es
    by (induction sysb k es arbitrary: j rule: trans_find.induct) (auto split: nat.splits)
  then have "trans_find sysb 0 (ts_trans s1) = Some i" using s1(1) i by simp
  then show ?thesis using s1 len by (simp add: open_trans_table_del_def stop_timer_def)
qed

subsection \<open>Lemmas: the checksum\<close>

lemma add_le_255: "a < 256 \<Longrightarrow> s \<le> 255 * n \<Longrightarrow> a + s \<le> 255 + 255 * (n :: nat)"
  by simp

lemma checksum_sum:
  assumes "length (block :: byte list) \<le> 254"
  shows "unat (sum_list (map (\<lambda>b. of_nat (unat b)) block) :: u32) = sum_list (map unat block)"
    "sum_list (map unat (block :: byte list)) \<le> 255 * length block"
proof -
  show le: "sum_list (map unat block) \<le> 255 * length block"
  proof (induction block)
    case (Cons b bs)
    then show ?case using add_le_255 [OF unat_byte_less [of b]] by simp
  qed simp
  have "(sum_list (map (\<lambda>b. of_nat (unat b)) block) :: u32) = of_nat (sum_list (map unat block))"
    by (induction block) simp_all
  moreover have "sum_list (map unat block) < 4294967296" using le assms by linarith
  ultimately show "unat (sum_list (map (\<lambda>b. of_nat (unat b)) block) :: u32) = sum_list (map unat block)"
    by simp
qed

lemma byte_of_nat_inj: "a < 256 \<Longrightarrow> b < 256 \<Longrightarrow> (of_nat a :: byte) = of_nat b \<longleftrightarrow> a = b"
  by (auto simp: word_eq_iff_unsigned [where ?'a = nat] unat_of_nat)

lemma checksum_eq_iff:
  assumes "length b1 \<le> 254" "length b2 \<le> 254"
  shows "secs_calc_checksum b1 = secs_calc_checksum b2 \<longleftrightarrow>
    sum_list (map unat b1) = sum_list (map unat b2)"
proof -
  let ?n = "\<lambda>b. sum_list (map unat (b :: byte list))"
  have small: "?n b1 < 65536" "?n b2 < 65536"
    using checksum_sum(2) [OF assms(1)] checksum_sum(2) [OF assms(2)] assms by simp_all
  have "secs_calc_checksum b = (of_nat (?n b div 256 mod 256), of_nat (?n b mod 256))"
    if "length b \<le> 254" for b
    using checksum_sum(1) [OF that] by (simp add: secs_calc_checksum_def Let_def)
  then have "secs_calc_checksum b1 = secs_calc_checksum b2 \<longleftrightarrow>
      ?n b1 div 256 mod 256 = ?n b2 div 256 mod 256 \<and> ?n b1 mod 256 = ?n b2 mod 256"
    using assms by (simp add: byte_of_nat_inj)
  moreover have "?n b1 div 256 < 256" "?n b2 div 256 < 256" using small by simp_all
  ultimately show ?thesis by (metis div_mult_mod_eq mod_less)
qed

lemma sum_list_update_less:
  "i < length xs \<Longrightarrow> sum_list (xs[i := y]) + xs ! i = sum_list xs + (y :: nat)"
  by (induction xs arbitrary: i) (auto split: nat.splits)


section \<open>Properties\<close>

text \<open>C38. The server's alarm resumes the program whose timer has been overdue longest, makes this
  timer and no other inactive, and does nothing when no active timer has ended; the result says
  exactly which case it is.\<close>

theorem timer_handler_most_overdue:
  shows "(\<forall>t \<in> set ts. tm_active t \<longrightarrow> now < tm_end t) \<and>
      fst (timer_handler now ts) = (ts, None) \<or>
    (\<exists>i < length ts. tm_active (ts ! i) \<and> tm_end (ts ! i) \<le> now \<and>
      (\<forall>t \<in> set ts. tm_active t \<longrightarrow> tm_end (ts ! i) \<le> tm_end t \<or> now < tm_end t) \<and>
      fst (timer_handler now ts) =
        (ts[i := (ts ! i)\<lparr>tm_active := False\<rparr>], Some (tm_program_idx (ts ! i), tm_msg (ts ! i))))"
proof (cases "expired_timer now ts")
  case None
  then show ?thesis using expired_timer_None [of now ts] by (simp add: timer_handler_def)
next
  case (Some i)
  then show ?thesis using expired_timer_Some [OF Some]
    by (intro disjI2 exI [of _ i]) (simp add: timer_handler_def Let_def)
qed

theorem timer_handler_most_overdue_witness:
  "snd (fst (timer_handler 10 [no_timer, no_timer\<lparr>tm_active := True, tm_end := 5, tm_program_idx := 3\<rparr>])) =
    Some (3, [])"
  using timer_handler_most_overdue
    [of "[no_timer, no_timer\<lparr>tm_active := True, tm_end := 5, tm_program_idx := 3\<rparr>]" 10]
  by (auto simp: no_timer_def less_Suc_eq)

text \<open>C39. The time-out of the server's \<open>select\<close>: 0 when no timer is active; otherwise the
  distance to the end of the first active timer, at least 1 and at most 300 seconds, so that no
  timer is slept over.\<close>

theorem calc_min_time_bounds:
  assumes "\<exists>t \<in> set ts. tm_active t"
  shows "int (unat (calc_min_time now ts)) =
    max 1 (Min (insert 300 ((\<lambda>t. tm_end t - now) ` {t \<in> set ts. tm_active t}))) \<and>
    1 \<le> unat (calc_min_time now ts) \<and> unat (calc_min_time now ts) \<le> 300"
proof -
  let ?S = "(\<lambda>t. tm_end t - now) ` {t \<in> set ts. tm_active t}"
  let ?m = "Min (insert 300 ?S)"
  have ne: "length (filter tm_active ts) \<noteq> 0"
    using assms by (auto simp: filter_empty_conv)
  have le: "?m \<le> 300" by (rule Min_le) auto
  have "(if m \<le> 0 then 1 else m) = max 1 m" for m :: int by auto
  then have "calc_min_time now ts = of_int (max 1 ?m)"
    using ne by (simp only: calc_min_time_def min_time_loop_eq Let_def prod.case add_0 if_True not_False_eq_True)
  moreover have "int (unat (of_int (max 1 ?m) :: u32)) = max 1 ?m"
  proof -
    have r: "0 \<le> max 1 ?m" "max 1 ?m < 2 ^ 32" using le_less_trans [OF le, of "2 ^ 32"] by simp_all
    have "uint (of_int (max 1 ?m) :: u32) = max 1 ?m mod 2 ^ 32" by (simp add: uint_word_of_int)
    also have "\<dots> = max 1 ?m" using r by (intro mod_pos_pos_trivial)
    finally show ?thesis by simp
  qed
  ultimately have eq: "int (unat (calc_min_time now ts)) = max 1 ?m" by simp
  have "1 \<le> max 1 ?m" "max 1 ?m \<le> 300" using le by simp_all
  then have "1 \<le> int (unat (calc_min_time now ts))" "int (unat (calc_min_time now ts)) \<le> 300"
    unfolding eq by simp_all
  then have "1 \<le> unat (calc_min_time now ts)" "unat (calc_min_time now ts) \<le> 300" by linarith+
  then show ?thesis using eq by blast
qed

theorem calc_min_time_bounds_witness:
  "int (unat (calc_min_time 100 [no_timer\<lparr>tm_active := True, tm_end := 107\<rparr>, no_timer])) = 7"
  using calc_min_time_bounds [of "[no_timer\<lparr>tm_active := True, tm_end := 107\<rparr>, no_timer]" 100]
proof -
  have "{t \<in> set [no_timer\<lparr>tm_active := True, tm_end := 107\<rparr>, no_timer]. tm_active t} =
      {no_timer\<lparr>tm_active := True, tm_end := 107\<rparr>}" by (auto simp: no_timer_def)
  then show ?thesis
    using calc_min_time_bounds [of "[no_timer\<lparr>tm_active := True, tm_end := 107\<rparr>, no_timer]" 100]
    by (simp add: no_timer_def)
qed

text \<open>\<open>start_timer\<close> never touches a running timer unless index 0 is asked for, keeps the
  number of entries, and what it starts is found again by \<open>stop_timer\<close> under the index it
  returns; the indices 1 to 9 are never used.\<close>

theorem start_timer_free:
  assumes "start_timer now ts idx secs prog msg com = Done (ts1, i, tmo)" "length ts = MAX_TIMERS"
  shows "length ts1 = MAX_TIMERS \<and> i < MAX_TIMERS \<and> (i = 0 \<or> 10 \<le> i) \<and>
    (i = 0 \<longleftrightarrow> idx = 0) \<and> (i \<noteq> 0 \<longrightarrow> \<not> tm_active (ts ! i)) \<and>
    tm_active (ts1 ! i) \<and> tm_end (ts1 ! i) = now + secs \<and> tm_program_idx (ts1 ! i) = prog \<and>
    tm_msg (ts1 ! i) = msg \<and> (\<forall>j. j \<noteq> i \<longrightarrow> ts1 ! j = ts ! j) \<and>
    stop_timer ts1 i = Some (ts1[i := (ts1 ! i)\<lparr>tm_active := False\<rparr>]) \<and> tmo = calc_min_time now ts1"
proof -
  define new where "new = \<lparr>tm_active = True, tm_start = now, tm_end = now + secs,
    tm_program_idx = prog, tm_msg = msg, tm_comment = take 512 com\<rparr>"
  obtain i0 where i0: "(if idx \<noteq> 0 then free_timer 10 (drop 10 ts) else Some 0) = Some i0"
    "i = i0" "ts1 = ts[i := new]" "tmo = calc_min_time now ts1"
    using assms(1) by (auto simp: start_timer_def new_def Let_def split: if_splits option.splits)
  have i: "i < MAX_TIMERS \<and> (i = 0 \<longleftrightarrow> idx = 0) \<and> (i \<noteq> 0 \<longrightarrow> 10 \<le> i \<and> \<not> tm_active (ts ! i))"
  proof (cases "idx = 0")
    case True
    then show ?thesis using i0 by (simp add: MAX_TIMERS_def)
  next
    case False
    then obtain k where "k < length (drop 10 ts)" "i = 10 + k" "\<not> tm_active (drop 10 ts ! k)"
      using i0(1,2) free_timer_Some [of 10 "drop 10 ts" i] by auto
    then show ?thesis using False assms(2) by simp
  qed
  then have "ts1 ! i = new" "length ts1 = MAX_TIMERS" using i0(3) assms(2) by simp_all
  then show ?thesis using i i0(3,4) by (auto simp: new_def stop_timer_def)
qed

theorem start_timer_free_witness:
  "\<exists>ts1 i tmo. start_timer 100 timers_init 3 5 7 ''m'' [] = Done (ts1, i, tmo) \<and> 10 \<le> i"
proof -
  have "free_timer 10 (drop 10 timers_init) = Some 10"
    by (simp add: timers_init_def MAX_TIMERS_def drop_replicate replicate_Suc numeral_eq_Suc no_timer_def)
  then obtain ts1 i tmo where "start_timer 100 timers_init 3 5 7 ''m'' [] = Done (ts1, i, tmo)"
    by (auto simp: start_timer_def MSG_SIZE_def Let_def)
  then show ?thesis using start_timer_free [of 100 timers_init 3 5 7 "''m''" "[]"]
    by (fastforce simp: timers_init_def)
qed

text \<open>C40. A primary message and its reply: the entry that \<open>open_trans_table_add\<close> makes is found
  by the reply's system bytes within the reply time-out, the reply goes to the program that sent
  the primary, and the timer of the transaction is stopped.\<close>

theorem open_trans_table_reply:
  assumes "open_trans_table_add now (ts_trans s) idx sysb tmr secs = Done ts1"
    "\<forall>e \<in> set (ts_trans s). tr_system_bytes e \<noteq> sysb"
    "now1 \<le> now + int (unat secs)" "unat tmr < length (ts_timers s)"
  shows "\<exists>s1. open_trans_table_del now1 (s\<lparr>ts_trans := ts1\<rparr>) sysb = Some (0, Some idx, s1) \<and>
    \<not> tm_active (ts_timers s1 ! unat tmr)"
  using assms by (rule open_trans_reply)

theorem open_trans_table_reply_witness:
  "\<exists>ts1 s1. open_trans_table_add 100 [no_trans] 7 42 0 45 = Done ts1 \<and>
    open_trans_table_del 120 \<lparr>ts_trans = ts1, ts_timers = [no_timer]\<rparr> 42 = Some (0, Some 7, s1)"
proof -
  let ?s = "\<lparr>ts_trans = [no_trans], ts_timers = [no_timer]\<rparr>"
  obtain ts1 where a: "open_trans_table_add 100 (ts_trans ?s) 7 42 0 45 = Done ts1"
    by (simp add: open_trans_table_add_def trans_expire_def no_trans_def)
  then have "\<exists>s1. open_trans_table_del 120 (?s\<lparr>ts_trans := ts1\<rparr>) 42 = Some (0, Some 7, s1) \<and>
      \<not> tm_active (ts_timers s1 ! unat (0 :: u32))"
    by (rule open_trans_table_reply) (simp_all add: no_trans_def)
  then show ?thesis using a by auto
qed

text \<open>A reply that arrives a second time is accepted again within the time-out: the look-up
  goes by the system bytes and does not ask whether the transaction is still open.\<close>

theorem open_trans_table_duplicate:
  assumes "open_trans_table_del now s sysb = Some (0, Some idx, s1)"
  shows "\<exists>s2. open_trans_table_del now s1 sysb = Some (0, Some idx, s2)"
  using assms by (rule open_trans_reply_again)

theorem open_trans_table_duplicate_witness:
  "\<exists>s1 s2. open_trans_table_del 0 \<lparr>ts_trans = [no_trans], ts_timers = [no_timer]\<rparr> 0 = Some (0, Some 0, s1) \<and>
    open_trans_table_del 0 s1 0 = Some (0, Some 0, s2)"
proof -
  obtain s1 where "open_trans_table_del 0 \<lparr>ts_trans = [no_trans], ts_timers = [no_timer]\<rparr> 0 = Some (0, Some 0, s1)"
    by (simp add: open_trans_table_del_def no_trans_def stop_timer_def)
  then show ?thesis using open_trans_table_duplicate by blast
qed

text \<open>The checksum of a block tells any two blocks apart whose bytes do not have the same
  sum; so a single byte that is damaged on the line is always noticed, whatever the block.\<close>

theorem checksum_single_byte:
  assumes "length block \<le> 254" "i < length block" "b \<noteq> block ! i"
  shows "secs_calc_checksum (block[i := b]) \<noteq> secs_calc_checksum block"
proof -
  have "sum_list (map unat (block[i := b])) + unat (block ! i) = sum_list (map unat block) + unat b"
    using sum_list_update_less [of i "map unat block" "unat b"] assms(2) by (simp add: map_update)
  moreover have "unat b \<noteq> unat (block ! i)" using assms(3) by (metis word_unat_eq_iff)
  ultimately have "sum_list (map unat (block[i := b])) \<noteq> sum_list (map unat block)" by linarith
  then show ?thesis using checksum_eq_iff [of "block[i := b]" block] assms(1) by simp
qed

theorem checksum_single_byte_witness:
  "secs_calc_checksum ([1, 2, 3][1 := 7]) \<noteq> secs_calc_checksum [1, 2, 3]"
  by (rule checksum_single_byte) simp_all

end
