(* ===== verification/Program.thy ===== *)
theory Program
  imports Tokens Tmp_Variables Scan Timers
begin

section \<open>The program store and its labels (program.c, label.c)\<close>

text \<open>
  A program is a sequence of tokens, stored one after the other as bytes: the kind, then for
  names and numbers the text with a NUL, for strings four bytes of length and the characters.
  The interpreter moves an index over these bytes. \<open>label_build_idx_table\<close> notes from which
  index to which each label reaches, so that \<open>label_get\<close> tells which local variables are seen;
  \<open>make_labels\<close> stores the index of every label as a variable. The main results are that the
  tokens stored are the tokens read back, that the label of an index is the one whose section
  the index is in, and that a label variable holds the index after its label.
\<close>

record label =
  lb_lower :: int
  lb_upper :: int
  lb_name :: string

text \<open>The state of the interpreter: the static variables of \<^verbatim>\<open>program.c\<close>, \<^verbatim>\<open>label.c\<close>,
  \<^verbatim>\<open>execute.c\<close>, \<^verbatim>\<open>while.c\<close>, \<^verbatim>\<open>for.c\<close>, \<^verbatim>\<open>gosub.c\<close>, \<^verbatim>\<open>timers.c\<close> and \<^verbatim>\<open>pragma.c\<close>, the two tables of
  variables and the flags \<open>g_syntax_check\<close> and \<open>g_trace\<close>. An index is a number below \<open>2 ^ 32\<close>.\<close>

record interp =
  st_prog :: "byte list"
  st_idx :: nat
  st_saved :: nat
  st_name :: string
  st_labels :: "label list"
  st_vars :: "sc_var list"
  st_tmp :: tmp_table
  st_line :: string
  st_while :: int
  st_for :: int
  st_gosub :: int
  st_syntax :: bool
  st_trace :: u32
  st_timers :: "timer list"
  st_pragma :: "bool list"

type_synonym token = "string \<times> token_types"

subsection \<open>Labels\<close>

definition idx_cmp :: "int \<Rightarrow> label \<Rightarrow> int" where
  "idx_cmp idx j = (if idx < lb_lower j then - 1 else if idx > lb_upper j then 1 else 0)"

definition label_get :: "label list \<Rightarrow> u32 \<Rightarrow> string" where
  "label_get ls idx =
     (if ls = [] then []
      else case bsearch (idx_cmp (sint idx)) ls of
             None \<Rightarrow> []
           | Some i \<Rightarrow> lb_name (ls ! i))"

definition label_put :: "label list \<Rightarrow> string \<Rightarrow> int \<Rightarrow> int \<Rightarrow> label list" where
  "label_put ls name lower upper = ls @ [\<lparr>lb_lower = lower, lb_upper = upper, lb_name = cstr name\<rparr>]"

text \<open>Where the variables of a program are looked for.\<close>

definition scope_of :: "interp \<Rightarrow> scope" where
  "scope_of st = \<lparr>sc_program = st_name st, sc_label = label_get (st_labels st) (of_nat (st_idx st))\<rparr>"

definition put_var :: "interp \<Rightarrow> string \<Rightarrow> string \<Rightarrow> u32 \<Rightarrow> var_types \<Rightarrow> interp run option" where
  "put_var st name val len ty =
     run_bind (variable_put (scope_of st) (st_vars st) name val len ty)
       (\<lambda>vars. Some (Done (st\<lparr>st_vars := vars\<rparr>)))"

definition get_var :: "interp \<Rightarrow> string \<Rightarrow> var_types \<Rightarrow> (u32 \<times> string) option" where
  "get_var st name ty = variable_get (scope_of st) (st_vars st) name ty"

subsection \<open>Tokens as bytes\<close>

definition text_kinds :: "token_types set" where
  "text_kinds = {TT_NUMBER, TT_CONSTANT, TT_IDENTIFIER, TT_VARIABLE, TT_LINE_NUMBER}"

text \<open>\<open>store_token\<close> is the end of \<open>read_it\<close>: what is appended to the program for a token.\<close>

definition store_token :: "token \<Rightarrow> byte list" where
  "store_token t =
     (case t of (token, ty) \<Rightarrow>
        if ty \<in> text_kinds then ty # bytes_of token @ [0]
        else if ty = TT_STRING then ty # le_bytes 4 (length token) @ bytes_of token
        else [ty])"

definition decode_program_token :: "byte list \<Rightarrow> (token \<times> nat) option" where
  "decode_program_token p =
     (case p of
        [] \<Rightarrow> None
      | ty # r \<Rightarrow>
          if ty \<in> text_kinds then do {
            require (0 \<in> set r);
            let s = takeWhile (\<lambda>b. b \<noteq> 0) r;
            Some ((text_of s, ty), length s + 2)
          }
          else if ty = TT_STRING then do {
            require (4 \<le> length r);
            let n = le_val (take 4 r);
            require (n \<le> length r - 4);
            Some ((text_of (take n (drop 4 r)), ty), n + 5)
          }
          else Some (([], ty), 1))"

definition get_program_token_no_eval :: "interp \<Rightarrow> (token \<times> interp) option" where
  "get_program_token_no_eval st =
     (let st1 = st\<lparr>st_saved := st_idx st\<rparr>
      in if length (st_prog st) \<le> st_idx st then Some (([], TT_NULL_TOKEN), st1)
         else do {
           (t, n) \<leftarrow> decode_program_token (drop (st_idx st) (st_prog st));
           Some (t, st1\<lparr>st_idx := st_idx st + n\<rparr>)
         })"

definition get_program_token :: "interp \<Rightarrow> (token \<times> interp) option" where
  "get_program_token st = do {
     ((token, ty), st1) \<leftarrow> get_program_token_no_eval st;
     if ty = TT_VARIABLE then do {
       t \<leftarrow> evaluate_token (scope_of st1) (st_vars st1) token;
       Some ((t, ty), st1)
     }
     else Some ((token, ty), st1)
   }"

definition put_program_token :: "interp \<Rightarrow> interp" where
  "put_program_token st = st\<lparr>st_idx := st_saved st\<rparr>"

definition set_program_token_idx :: "interp \<Rightarrow> u32 \<Rightarrow> interp" where
  "set_program_token_idx st idx = st\<lparr>st_idx := unat idx\<rparr>"

definition set_line_number :: "interp \<Rightarrow> string \<Rightarrow> interp option" where
  "set_line_number st ln = do { require (length (cstr ln) < 32); Some (st\<lparr>st_line := cstr ln\<rparr>) }"

lemma decode_progress: "decode_program_token p = Some (t, n) \<Longrightarrow> 0 < n \<and> n \<le> length p"
proof (cases p)
  case (Cons ty r)
  have "length (takeWhile (\<lambda>b. b \<noteq> 0) r) + 1 \<le> length r" if "0 \<in> set r"
    using that by (induction r) auto
  then show "decode_program_token p = Some (t, n) \<Longrightarrow> ?thesis"
    using Cons by (auto simp: decode_program_token_def Let_def split: if_splits)
qed (simp add: decode_program_token_def)

lemma get_no_eval_progress:
  assumes "get_program_token_no_eval st = Some ((tok, ty), st1)"
  shows "(ty = TT_NULL_TOKEN \<or> st_idx st < st_idx st1 \<and> st_idx st < length (st_prog st)) \<and>
    st_idx st \<le> st_idx st1 \<and> st_prog st1 = st_prog st \<and> st_vars st1 = st_vars st"
  using assms
  by (auto simp: get_program_token_no_eval_def Let_def split: if_splits dest: decode_progress)

lemma get_progress:
  assumes "get_program_token st = Some ((tok, ty), st1)"
  shows "(ty = TT_NULL_TOKEN \<or> st_idx st < st_idx st1 \<and> st_idx st < length (st_prog st)) \<and>
    st_idx st \<le> st_idx st1 \<and> st_prog st1 = st_prog st \<and> st_vars st1 = st_vars st"
  using assms by (auto simp: get_program_token_def split: if_splits dest: get_no_eval_progress)

subsection \<open>The table of labels\<close>

text \<open>The index of the interpreter as a signed number; the table of a program is built from its
  start. \<open>lower\<close> is -1 outside of the sections of labels.\<close>

definition sidx :: "interp \<Rightarrow> int" where
  "sidx st = sint (of_nat (st_idx st) :: u32)"

definition label_end :: "label list \<Rightarrow> string \<Rightarrow> int \<Rightarrow> int \<Rightarrow> label list" where
  "label_end ls name lower upper = (if lower = - 1 then ls else label_put ls name lower upper)"

function label_loop :: "interp \<Rightarrow> label list \<Rightarrow> int \<Rightarrow> string \<Rightarrow> (u32 \<times> label list \<times> interp) option" where
  "label_loop st ls lower name =
     (case get_program_token_no_eval st of
        None \<Rightarrow> None
      | Some ((t, ty), st1) \<Rightarrow>
          if ty = TT_AFTER \<or> ty = TT_LABEL then
            (case get_program_token_no_eval st1 of
               None \<Rightarrow> None
             | Some ((t2, ty2), st2) \<Rightarrow>
                 if ty2 = TT_IDENTIFIER
                 then label_loop st2 (label_end ls name lower (sidx st2)) (sidx st2) t2
                 else Some (1, ls, st2))
          else if ty = TT_END then label_loop st1 (label_end ls name lower (sidx st1)) (- 1) name
          else if ty = TT_NULL_TOKEN then Some (0, label_end ls name lower (sidx st1), st1)
          else label_loop st1 ls lower name)"
  by pat_completeness auto
termination
  by (relation "measure (\<lambda>(st, _). length (st_prog st) - st_idx st)")
    (auto dest!: get_no_eval_progress)

declare label_loop.simps [simp del]

definition label_build_idx_table :: "interp \<Rightarrow> (u32 \<times> interp) option" where
  "label_build_idx_table st = do {
     (iret, ls, st1) \<leftarrow> label_loop (set_program_token_idx st 0) [] (- 1) [];
     Some (iret, st1\<lparr>st_labels := ls\<rparr>)
   }"

subsection \<open>The variables of the labels\<close>

definition UNDEFINED_PROGRAM :: string where
  "UNDEFINED_PROGRAM = ''undefined''"

text \<open>The name after a \<open>BEGIN\<close>; \<open>None\<close> under the option says that a program is not ended yet.\<close>

definition begin_name :: "interp \<Rightarrow> token \<Rightarrow> string option" where
  "begin_name st t =
     (if snd t = TT_END_OF_LINE then Some UNDEFINED_PROGRAM
      else if cstr (st_name st) = DEFAULT_PROGRAM then Some (cstr (fst t))
      else None)"

definition put_begin :: "interp \<Rightarrow> interp run option" where
  "put_begin st =
     run_bind (put_var st [] ''DEFINED'' 0 VT_SC) (\<lambda>st1.
     put_var st1 ''BEGIN'' (print_d (of_nat (st_idx st1))) 0 VT_SC)"

lemma put_var_same:
  "put_var st name val len ty = Some (Done st1) \<Longrightarrow> st_prog st1 = st_prog st \<and> st_idx st1 = st_idx st"
  by (cases "variable_put (scope_of st) (st_vars st) name val len ty")
    (auto simp: put_var_def run_bind_def split: run.splits)

lemma put_begin_same:
  "put_begin st = Some (Done st1) \<Longrightarrow> st_prog st1 = st_prog st \<and> st_idx st1 = st_idx st"
  by (auto simp: put_begin_def run_bind_def split: option.splits run.splits dest!: put_var_same)

lemma set_line_same:
  "set_line_number st t = Some st1 \<Longrightarrow> st_prog st1 = st_prog st \<and> st_idx st1 = st_idx st"
  by (auto simp: set_line_number_def)

function labels_loop :: "interp \<Rightarrow> (u32 \<times> interp) run option" where
  "labels_loop st =
     (case get_program_token_no_eval st of
        None \<Rightarrow> None
      | Some ((t, ty), st1) \<Rightarrow>
          if ty = TT_NULL_TOKEN then Some (Done (0, st1))
          else if ty = TT_LINE_NUMBER then
            (case set_line_number st1 t of None \<Rightarrow> None | Some st2 \<Rightarrow> labels_loop st2)
          else if ty = TT_BEGIN then
            (case get_program_token st1 of
               None \<Rightarrow> None
             | Some (t2, st2) \<Rightarrow>
                 (case begin_name st2 t2 of
                    None \<Rightarrow> Some (Done (1, st2))
                  | Some name \<Rightarrow>
                      (case put_begin (st2\<lparr>st_name := name\<rparr>) of
                         None \<Rightarrow> None
                       | Some Exit \<Rightarrow> Some Exit
                       | Some (Done st3) \<Rightarrow> labels_loop st3)))
          else if ty = TT_END then labels_loop (st1\<lparr>st_name := DEFAULT_PROGRAM\<rparr>)
          else if ty = TT_AFTER \<or> ty = TT_LABEL then
            (case get_program_token st1 of
               None \<Rightarrow> None
             | Some ((t2, ty2), st2) \<Rightarrow>
                 if ty2 = TT_IDENTIFIER then
                   (case put_var st2 (cstr t2) (print_d (of_nat (st_idx st2))) 0 VT_LABEL of
                      None \<Rightarrow> None
                    | Some Exit \<Rightarrow> Some Exit
                    | Some (Done st3) \<Rightarrow> labels_loop st3)
                 else Some (Done (1, st2)))
          else labels_loop st1)"
  by pat_completeness auto
termination
  by (relation "measure (\<lambda>st. length (st_prog st) - st_idx st)")
    (auto dest!: get_no_eval_progress get_progress put_var_same put_begin_same set_line_same)

declare labels_loop.simps [simp del]

definition make_labels :: "interp \<Rightarrow> (u32 \<times> interp) run option" where
  "make_labels st =
     run_bind (labels_loop (st\<lparr>st_name := DEFAULT_PROGRAM, st_idx := 0\<rparr>)) (\<lambda>(iret, st1).
     Some (Done (iret, st1\<lparr>st_name := DEFAULT_PROGRAM\<rparr>)))"

text \<open>\<open>SET_PROGRAM\<close>; the name that is left is marked before the new one is looked up.\<close>

definition program_not_found :: "interp \<Rightarrow> string \<Rightarrow> (u32 \<times> interp) run option" where
  "program_not_found st old =
     run_bind (put_var (st\<lparr>st_name := old\<rparr>) [] ''ACTIVE'' 0 VT_SC) (\<lambda>st1. Some (Done (1, st1)))"

definition cmd_set_program :: "interp \<Rightarrow> (u32 \<times> interp) run option" where
  "cmd_set_program st = do {
     ((t, ty), st1) \<leftarrow> get_program_token st;
     let name = (if ty = TT_END_OF_LINE then UNDEFINED_PROGRAM else cstr t);
     let old = cstr (st_name st1);
     run_bind (put_var st1 [] ''INACTIVE'' 0 VT_SC) (\<lambda>st2. do {
       let st3 = st2\<lparr>st_name := name\<rparr>;
       (iret, valu) \<leftarrow> get_var st3 ''BEGIN'' VT_SC;
       if iret \<noteq> 0 then program_not_found st3 old
       else do {
         num \<leftarrow> sscanf_u valu 0;
         run_bind (put_var (set_program_token_idx st3 num) [] ''ACTIVE'' 0 VT_SC)
           (\<lambda>st4. Some (Done (0, st4)))
       }
     })
   }"

subsection \<open>Listing\<close>

definition list_token :: "token \<Rightarrow> string run" where
  "list_token t =
     (case t of (s, ty) \<Rightarrow>
        if ty = TT_LINE_NUMBER then Done s
        else if ty = TT_END_OF_LINE then Done [CHR 0x0A]
        else if ty = TT_STRING then Done ([CHR 0x22] @ s @ [CHR 0x22])
        else if ty = TT_CONSTANT then Done ([CHR 0x27] @ s @ [CHR 0x27])
        else if 0 < length s then Done s
        else show_type ty)"

function list_loop :: "(nat \<Rightarrow> nat \<Rightarrow> token \<Rightarrow> string run option) \<Rightarrow> nat \<Rightarrow> byte list \<Rightarrow> string run option" where
  "list_loop show at p =
     (if p = [] then Some (Done [])
      else case decode_program_token p of
        None \<Rightarrow> None
      | Some (t, n) \<Rightarrow>
          run_bind (show at n t) (\<lambda>s.
          run_bind (list_loop show (at + n) (drop n p)) (\<lambda>r. Some (Done (s @ r)))))"
  by pat_completeness auto
termination by (relation "measure (\<lambda>(_, _, p). length p)") (auto dest: decode_progress)

declare list_loop.simps [simp del]

definition list_program :: "interp \<Rightarrow> string run option" where
  "list_program st =
     list_loop (\<lambda>at n t. Some (case list_token t of Exit \<Rightarrow> Exit | Done s \<Rightarrow> Done (s @ '' ''))) 0 (st_prog st)"

definition dump_token :: "nat \<Rightarrow> nat \<Rightarrow> token \<Rightarrow> string run option" where
  "dump_token at n t = do {
     loc \<leftarrow> my_itoa (int at);
     Some (case show_type (snd t) of
             Exit \<Rightarrow> Exit
           | Done s \<Rightarrow> Done (''<Loc '' @ loc @ ''><'' @ s @ ''>'' @ fst t @
               (if snd t = TT_END_OF_LINE then [CHR 0x0A] else [])))
   }"

definition dump_program_tokens :: "interp \<Rightarrow> string run option" where
  "dump_program_tokens st = list_loop dump_token 0 (st_prog st)"


subsection \<open>Lemmas: reading what was stored\<close>

definition token_ok :: "token \<Rightarrow> bool" where
  "token_ok t =
     (case t of (s, ty) \<Rightarrow>
        if ty \<in> text_kinds then no_nul s else if ty = TT_STRING then length s < 2 ^ 32 else s = [])"

definition tokens_bytes :: "token list \<Rightarrow> byte list" where
  "tokens_bytes ts = concat (map store_token ts)"

lemma tokens_bytes_simps [simp]:
  "tokens_bytes [] = []"
  "tokens_bytes (t # ts) = store_token t @ tokens_bytes ts"
  "tokens_bytes (ts @ us) = tokens_bytes ts @ tokens_bytes us"
  by (simp_all add: tokens_bytes_def)

lemma store_token_pos [simp]: "0 < length (store_token t)" "store_token t \<noteq> []"
  by (auto simp: store_token_def split: prod.splits)

lemma zero_notin_bytes: "no_nul s \<Longrightarrow> 0 \<notin> set (bytes_of s)"
proof (induction s)
  case (Cons c s)
  have "byte_of c \<noteq> 0"
  proof
    assume "byte_of c = 0"
    then have "chr_of (byte_of c) = chr_of 0" by simp
    then have "c = char_of (0 :: nat)" by (simp only: chr_of_byte_of) (simp add: chr_of_def)
    then have "of_char c = (0 :: nat)" by (simp only: of_char_of)
    then show False using Cons.prems by simp
  qed
  then show ?case using Cons by (simp add: bytes_of_def)
qed (simp add: bytes_of_def)

lemma decode_store:
  assumes "token_ok t"
  shows "decode_program_token (store_token t @ rest) = Some (t, length (store_token t))"
proof -
  obtain s ty where t: "t = (s, ty)" by force
  have tw: "takeWhile (\<lambda>b. b \<noteq> 0) (bytes_of s @ 0 # rest) = bytes_of s" if "no_nul s"
    using zero_notin_bytes [OF that] by (subst takeWhile_append2) auto
  have l: "length (bytes_of s) = length s" by (simp add: bytes_of_def)
  show ?thesis
    using assms tw le_val_le_bytes [of "length s" 4]
    by (auto simp: t token_ok_def store_token_def decode_program_token_def Let_def l)
qed

text \<open>\<open>reads st ts\<close>: the tokens \<open>ts\<close> are what the interpreter still has before it.\<close>

definition reads :: "interp \<Rightarrow> token list \<Rightarrow> bool" where
  "reads st ts \<longleftrightarrow> st_idx st \<le> length (st_prog st) \<and>
     drop (st_idx st) (st_prog st) = tokens_bytes ts \<and> list_all token_ok ts"

definition advance :: "interp \<Rightarrow> token \<Rightarrow> interp" where
  "advance st t = st\<lparr>st_saved := st_idx st, st_idx := st_idx st + length (store_token t)\<rparr>"

lemma reads_Cons:
  assumes "reads st (t # ts)"
  shows "get_program_token_no_eval st = Some (t, advance st t)" "reads (advance st t) ts"
proof -
  have d: "drop (st_idx st) (st_prog st) = store_token t @ tokens_bytes ts" "token_ok t"
    using assms by (simp_all add: reads_def)
  then have "length (drop (st_idx st) (st_prog st)) = length (store_token t) + length (tokens_bytes ts)" by simp
  then have len: "st_idx st + length (store_token t) \<le> length (st_prog st)" "st_idx st < length (st_prog st)"
    using store_token_pos(1) [of t] assms unfolding reads_def length_drop by linarith+
  then show "get_program_token_no_eval st = Some (t, advance st t)"
    using decode_store [OF d(2)] d(1) by (simp add: get_program_token_no_eval_def Let_def advance_def)
  have "drop (st_idx st + length (store_token t)) (st_prog st) =
      drop (length (store_token t)) (drop (st_idx st) (st_prog st))" by (simp add: add.commute)
  then have "drop (st_idx st + length (store_token t)) (st_prog st) = tokens_bytes ts" using d by simp
  then show "reads (advance st t) ts" using assms len by (simp add: reads_def advance_def)
qed

lemma reads_Nil:
  assumes "reads st []"
  shows "get_program_token_no_eval st = Some (([], TT_NULL_TOKEN), st\<lparr>st_saved := st_idx st\<rparr>)"
  using assms by (simp add: reads_def get_program_token_no_eval_def Let_def)

lemma get_plain:
  "reads st (t # ts) \<Longrightarrow> snd t \<noteq> TT_VARIABLE \<Longrightarrow> get_program_token st = Some (t, advance st t)"
  using reads_Cons(1) [of st t ts] by (cases t) (simp add: get_program_token_def)

lemma get_null:
  "reads st [] \<Longrightarrow> get_program_token st = Some (([], TT_NULL_TOKEN), st\<lparr>st_saved := st_idx st\<rparr>)"
  using reads_Nil [of st] by (simp add: get_program_token_def)

lemma reads_put: "reads st ts \<Longrightarrow> put_program_token (advance st t) = st\<lparr>st_saved := st_idx st\<rparr>"
  by (simp add: put_program_token_def advance_def)

lemma advance_simps [simp]:
  "st_prog (advance st t) = st_prog st" "st_vars (advance st t) = st_vars st"
  "st_name (advance st t) = st_name st" "st_labels (advance st t) = st_labels st"
  "st_tmp (advance st t) = st_tmp st" "st_syntax (advance st t) = st_syntax st"
  "st_while (advance st t) = st_while st" "st_for (advance st t) = st_for st"
  "st_gosub (advance st t) = st_gosub st" "st_line (advance st t) = st_line st"
  "st_trace (advance st t) = st_trace st" "st_saved (advance st t) = st_idx st"
  "st_idx (advance st t) = st_idx st + length (store_token t)"
  by (simp_all add: advance_def)

definition advances :: "interp \<Rightarrow> token list \<Rightarrow> interp" where
  "advances st ts = foldl advance st ts"

lemma advances_simps [simp]:
  "advances st [] = st" "advances st (t # ts) = advances (advance st t) ts"
  "advances st (ts @ us) = advances (advances st ts) us"
  by (simp_all add: advances_def)

lemma advances_fields [simp]:
  "st_prog (advances st ts) = st_prog st" "st_vars (advances st ts) = st_vars st"
  "st_name (advances st ts) = st_name st" "st_labels (advances st ts) = st_labels st"
  "st_syntax (advances st ts) = st_syntax st" "st_while (advances st ts) = st_while st"
  "st_for (advances st ts) = st_for st" "st_gosub (advances st ts) = st_gosub st"
  "st_idx (advances st ts) = st_idx st + length (tokens_bytes ts)"
  by (induction ts arbitrary: st) simp_all

lemma reads_append: "reads st (ts @ us) \<Longrightarrow> reads (advances st ts) us"
  by (induction ts arbitrary: st) (auto dest: reads_Cons)

lemma reads_idx: "reads st ts \<Longrightarrow> st_idx st + length (tokens_bytes ts) = length (st_prog st)"
proof -
  assume a: "reads st ts"
  then have "length (drop (st_idx st) (st_prog st)) = length (tokens_bytes ts)" by (simp add: reads_def)
  moreover have "st_idx st \<le> length (st_prog st)" using a by (simp add: reads_def)
  ultimately show ?thesis by simp
qed

fun read_tokens :: "nat \<Rightarrow> interp \<Rightarrow> (token list \<times> interp) option" where
  "read_tokens 0 st = Some ([], st)"
| "read_tokens (Suc n) st = do {
     (t, st1) \<leftarrow> get_program_token_no_eval st;
     (ts, st2) \<leftarrow> read_tokens n st1;
     Some (t # ts, st2)
   }"

subsection \<open>Lemmas: the table of labels\<close>

lemma bsearch_interval:
  assumes "k < length xs" "cmp (xs ! k) = 0" "\<And>i. i < k \<Longrightarrow> cmp (xs ! i) > 0"
    "\<And>i. k < i \<Longrightarrow> i < length xs \<Longrightarrow> cmp (xs ! i) < 0"
  shows "bsearch cmp xs = Some k"
proof -
  have "l \<le> k \<Longrightarrow> k < u \<Longrightarrow> u \<le> length xs \<Longrightarrow> bsearch_loop cmp xs l u = Some k" for l u
  proof (induction "u - l" arbitrary: l u rule: less_induct)
    case less
    let ?m = "(l + u) div 2"
    consider "?m = k" | "?m < k" | "k < ?m" by linarith
    then show ?case
    proof cases
      case 1
      then show ?thesis using less.prems assms(2) by (subst bsearch_loop.simps) (simp add: Let_def)
    next
      case 2
      have "bsearch_loop cmp xs (?m + 1) u = Some k" using less.prems 2 by (intro less.hyps) auto
      then show ?thesis using less.prems assms(3) [OF 2] by (subst bsearch_loop.simps) (simp add: Let_def)
    next
      case 3
      have "cmp (xs ! ?m) < 0" using less.prems 3 by (intro assms(4)) auto
      moreover have "bsearch_loop cmp xs l ?m = Some k" using less.prems 3 by (intro less.hyps) auto
      ultimately show ?thesis using less.prems by (subst bsearch_loop.simps) (simp add: Let_def)
    qed
  qed
  then show ?thesis using assms(1) by (simp add: bsearch_def)
qed

text \<open>The sections in the table follow each other, one may begin where the other ends.\<close>

definition sections_ok :: "label list \<Rightarrow> int \<Rightarrow> bool" where
  "sections_ok ls hi \<longleftrightarrow> sorted_wrt (\<lambda>a b. lb_upper a \<le> lb_lower b) ls \<and>
     (\<forall>l \<in> set ls. 0 \<le> lb_lower l \<and> lb_lower l \<le> lb_upper l \<and> lb_upper l \<le> hi)"

lemma sections_ok_mono: "sections_ok ls hi \<Longrightarrow> hi \<le> hi1 \<Longrightarrow> sections_ok ls hi1"
  by (auto simp: sections_ok_def)

lemma sections_ok_put:
  "sections_ok ls lower \<Longrightarrow> 0 \<le> lower \<Longrightarrow> lower \<le> upper \<Longrightarrow> sections_ok (label_put ls name lower upper) upper"
  by (auto simp: sections_ok_def label_put_def sorted_wrt_append)

lemma label_get_inside:
  assumes "sections_ok ls hi" "ls = a @ l # b" "lb_lower l < sint idx"
    "sint idx < lb_upper l \<or> sint idx \<le> lb_upper l \<and> b = []"
  shows "label_get ls idx = lb_name l"
proof -
  have s: "sorted_wrt (\<lambda>a b. lb_upper a \<le> lb_lower b) (a @ l # b)"
    and r: "\<forall>x \<in> set (a @ l # b). lb_lower x \<le> lb_upper x"
    using assms(1) unfolding assms(2) sections_ok_def by auto
  have "bsearch (idx_cmp (sint idx)) ls = Some (length a)"
  proof (rule bsearch_interval)
    show "length a < length ls" "idx_cmp (sint idx) (ls ! length a) = 0"
      using assms(2-4) by (auto simp: idx_cmp_def)
    show "idx_cmp (sint idx) (ls ! i) > 0" if "i < length a" for i
    proof -
      have "lb_upper (a ! i) \<le> lb_lower l" using s that by (simp add: sorted_wrt_append)
      moreover have "lb_lower (a ! i) \<le> lb_upper (a ! i)" using r that by simp
      ultimately show ?thesis using assms(2,3) that by (simp add: nth_append idx_cmp_def)
    qed
    show "idx_cmp (sint idx) (ls ! i) < 0" if "length a < i" "i < length ls" for i
    proof -
      obtain j where j: "i = length a + Suc j" using \<open>length a < i\<close> less_imp_Suc_add by fastforce
      then have jb: "j < length b" using that assms(2) by simp
      then have "lb_upper l \<le> lb_lower (b ! j)" using s by (simp add: sorted_wrt_append)
      moreover have "sint idx < lb_upper l" using assms(4) jb by auto
      ultimately show ?thesis using assms(2) j by (simp add: nth_append idx_cmp_def)
    qed
  qed
  then show ?thesis using assms(2) by (simp add: label_get_def)
qed

lemma get_idx_bound:
  "get_program_token_no_eval st = Some (t, st1) \<Longrightarrow> st_idx st \<le> length (st_prog st) \<Longrightarrow>
   st_idx st1 \<le> length (st_prog st1)"
  by (auto simp: get_program_token_no_eval_def Let_def split: if_splits dest!: decode_progress)

lemma sidx_nat: "st_idx st \<le> length (st_prog st) \<Longrightarrow> length (st_prog st) < 2 ^ 31 \<Longrightarrow> sidx st = int (st_idx st)"
  by (simp add: sidx_def signed_of_nat signed_take_bit_int_eq_self)

definition lower_ok :: "label list \<Rightarrow> int \<Rightarrow> interp \<Rightarrow> bool" where
  "lower_ok ls lower st \<longleftrightarrow> st_idx st \<le> length (st_prog st) \<and> length (st_prog st) < 2 ^ 31 \<and>
     (if lower = - 1 then sections_ok ls (int (st_idx st))
      else 0 \<le> lower \<and> lower \<le> int (st_idx st) \<and> sections_ok ls lower)"

lemma lower_ok_end:
  assumes "lower_ok ls lower st" "st_idx st \<le> st_idx st1" "st_idx st1 \<le> length (st_prog st1)"
    "st_prog st1 = st_prog st"
  shows "sections_ok (label_end ls name lower (sidx st1)) (int (st_idx st1))"
    "lower_ok (label_end ls name lower (sidx st1)) (sidx st1) st1"
    "lower_ok (label_end ls name lower (sidx st1)) (- 1) st1"
    "lower_ok ls lower st1"
    "sidx st1 \<noteq> - 1" "sidx st1 = int (st_idx st1)"
proof -
  show s: "sidx st1 = int (st_idx st1)" using assms by (intro sidx_nat) (auto simp: lower_ok_def)
  then show "sidx st1 \<noteq> - 1" by simp
  show t: "sections_ok (label_end ls name lower (sidx st1)) (int (st_idx st1))"
    using assms s unfolding label_end_def lower_ok_def
    by (auto intro: sections_ok_mono sections_ok_put split: if_splits)
  show "lower_ok (label_end ls name lower (sidx st1)) (sidx st1) st1"
    "lower_ok (label_end ls name lower (sidx st1)) (- 1) st1"
    using t s assms by (auto simp: lower_ok_def)
  show "lower_ok ls lower st1"
    using assms by (auto simp: lower_ok_def intro: sections_ok_mono split: if_splits)
qed

text \<open>What the loop adds to the table.\<close>

lemma label_loop_adds:
  assumes "label_loop st ls lower name = Some (0, ls1, st1)" "lower_ok ls lower st"
  shows "sections_ok ls1 (int (length (st_prog st))) \<and>
    (\<exists>b. ls1 = ls @ b \<and> (lower = - 1 \<or> (\<exists>u b1. b = \<lparr>lb_lower = lower, lb_upper = u, lb_name = cstr name\<rparr> # b1 \<and>
       (int (st_idx st) < u \<or> int (st_idx st) \<le> u \<and> b1 = []))))"
  using assms
proof (induction st ls lower name rule: label_loop.induct)
  case (1 st ls lower name)
  obtain t ty st2 where g: "get_program_token_no_eval st = Some ((t, ty), st2)"
    using 1(4) by (subst (asm) label_loop.simps) (auto split: option.splits)
  have p2: "st_idx st \<le> st_idx st2" "st_prog st2 = st_prog st" "st_idx st2 \<le> length (st_prog st2)"
    "ty = TT_NULL_TOKEN \<or> st_idx st < st_idx st2"
    using get_no_eval_progress [OF g] get_idx_bound [OF g] 1(5) by (auto simp: lower_ok_def)
  note e2 = lower_ok_end [OF 1(5) p2(1,3,2)]
  consider (label) "ty = TT_AFTER \<or> ty = TT_LABEL" | (fin) "ty = TT_END" | (null) "ty = TT_NULL_TOKEN"
    | (other) "\<not> (ty = TT_AFTER \<or> ty = TT_LABEL)" "ty \<noteq> TT_END" "ty \<noteq> TT_NULL_TOKEN" by blast
  then show ?case
  proof cases
    case label
    obtain t3 ty3 st3 where g3: "get_program_token_no_eval st2 = Some ((t3, ty3), st3)"
      using 1(4) g label by (subst (asm) label_loop.simps) (auto split: option.splits)
    have ty3: "ty3 = TT_IDENTIFIER"
      using 1(4) g label g3 by (subst (asm) label_loop.simps) (auto split: if_splits)
    have r: "label_loop st3 (label_end ls name lower (sidx st3)) (sidx st3) t3 = Some (0, ls1, st1)"
      using 1(4) g label g3 ty3 by (subst (asm) label_loop.simps) auto
    have p3: "st_idx st \<le> st_idx st3" "st_prog st3 = st_prog st" "st_idx st3 \<le> length (st_prog st3)"
      "st_idx st < st_idx st3"
      using get_no_eval_progress [OF g3] get_idx_bound [OF g3] p2 ty3 by auto
    note e3 = lower_ok_end [OF 1(5) p3(1,3,2)]
    have "sections_ok ls1 (int (length (st_prog st3))) \<and> (\<exists>b. ls1 = label_end ls name lower (sidx st3) @ b)"
      using 1(1) [OF g refl refl label g3 refl refl ty3 r e3(2)] by auto
    then show ?thesis using p3 e3(6) by (auto simp: label_end_def label_put_def)
  next
    case fin
    then have r: "label_loop st2 (label_end ls name lower (sidx st2)) (- 1) name = Some (0, ls1, st1)"
      using 1(4) g by (subst (asm) label_loop.simps) auto
    have "sections_ok ls1 (int (length (st_prog st2))) \<and> (\<exists>b. ls1 = label_end ls name lower (sidx st2) @ b)"
      using 1(2) [OF g refl refl _ fin r e2(3)] fin by auto
    then show ?thesis using p2 e2(6) fin by (auto simp: label_end_def label_put_def)
  next
    case null
    then have l: "ls1 = label_end ls name lower (sidx st2)"
      using 1(4) g by (subst (asm) label_loop.simps) auto
    have "sections_ok ls1 (int (length (st_prog st)))"
      using e2(1) p2(2,3) unfolding l by (intro sections_ok_mono [OF e2(1)]) simp
    then show ?thesis using l e2(6) p2 by (auto simp: label_end_def label_put_def)
  next
    case other
    then have r: "label_loop st2 ls lower name = Some (0, ls1, st1)"
      using 1(4) g by (subst (asm) label_loop.simps) auto
    then show ?thesis using 1(3) [OF g refl refl other r e2(4)] p2 other(3) by auto
  qed
qed

text \<open>The loop comes to a label that is written after other tokens.\<close>

lemma label_loop_reaches:
  assumes "reads st (pre @ (s, k) # (n, TT_IDENTIFIER) # post)" "k = TT_AFTER \<or> k = TT_LABEL"
    "list_all (\<lambda>t. snd t \<noteq> TT_NULL_TOKEN) pre" "label_loop st ls lower name = Some (0, ls1, st1)"
    "lower_ok ls lower st"
  shows "\<exists>st2 ls2. label_loop st2 ls2 (int (st_idx st2)) n = Some (0, ls1, st1) \<and>
    lower_ok ls2 (int (st_idx st2)) st2 \<and> reads st2 post \<and> st_prog st2 = st_prog st"
  using assms(1,3-5)
proof (induction "length pre" arbitrary: pre st ls lower name rule: less_induct)
  case less
  have step: "lower_ok ls lower (advance st t) \<and>
      lower_ok (label_end ls name lower (sidx (advance st t))) (sidx (advance st t)) (advance st t) \<and>
      lower_ok (label_end ls name lower (sidx (advance st t))) (- 1) (advance st t)" if "reads st (t # ts)" for t ts
    using lower_ok_end(2-4) [OF less.prems(4), of "advance st t"] reads_Cons(2) [OF that] by (simp add: reads_def)
  have two: "lower_ok (label_end ls name lower (sidx st2)) (sidx st2) st2 \<and> sidx st2 = int (st_idx st2)"
    if "reads st (t # t2 # ts)" "st2 = advance (advance st t) t2" for t t2 ts st2
    using lower_ok_end(2,6) [OF less.prems(4), of st2] reads_Cons(2) [OF reads_Cons(2) [OF that(1)]] that(2)
    by (simp add: reads_def)
  show ?case
  proof (cases pre)
    case Nil
    let ?st2 = "advance (advance st (s, k)) (n, TT_IDENTIFIER)"
    have r: "reads st ((s, k) # (n, TT_IDENTIFIER) # post)" using less.prems(1) Nil by simp
    note r1 = reads_Cons [OF r]  note r2 = reads_Cons [OF r1(2)]
    have "label_loop ?st2 (label_end ls name lower (sidx ?st2)) (sidx ?st2) n = Some (0, ls1, st1)"
      using less.prems(3) r1(1) r2(1) assms(2) by (subst (asm) label_loop.simps) auto
    then show ?thesis using two [OF r refl] r2(2) by (intro exI [of _ ?st2]) auto
  next
    case (Cons t ts)
    obtain x ty where t: "t = (x, ty)" by force
    have r: "reads st ((x, ty) # ts @ (s, k) # (n, TT_IDENTIFIER) # post)" using less.prems(1) Cons t by simp
    note r1 = reads_Cons [OF r]
    show ?thesis
    proof (cases "ty = TT_AFTER \<or> ty = TT_LABEL")
      case False
      then obtain ls2 lower2 where l: "label_loop (advance st t) ls2 lower2 name = Some (0, ls1, st1)"
        "lower_ok ls2 lower2 (advance st t)"
        using less.prems(2,3) Cons t r1(1) step [OF r]
        by (subst (asm) label_loop.simps) (auto split: if_splits)
      have "\<exists>st2 ls2. label_loop st2 ls2 (int (st_idx st2)) n = Some (0, ls1, st1) \<and>
        lower_ok ls2 (int (st_idx st2)) st2 \<and> reads st2 post \<and> st_prog st2 = st_prog (advance st t)"
        using less.prems(2) Cons r1(2) t by (intro less.hyps [OF _ _ _ l]) auto
      then show ?thesis by simp
    next
      case True
      show ?thesis
      proof (cases ts)
        case Nil
        then have "reads (advance st (x, ty)) ((s, k) # (n, TT_IDENTIFIER) # post)" using r1(2) by simp
        then show ?thesis using less.prems(3) r1(1) reads_Cons(1) [of "advance st (x, ty)" "(s, k)"] True assms(2)
          by (subst (asm) label_loop.simps) (auto split: if_splits)
      next
        case (Cons t2 ts2)
        obtain y ty2 where t2: "t2 = (y, ty2)" by force
        let ?st2 = "advance (advance st t) t2"
        have r': "reads st (t # t2 # ts2 @ (s, k) # (n, TT_IDENTIFIER) # post)" using r Cons t by simp
        note r2 = reads_Cons [OF reads_Cons(2) [OF r']]
        have l: "label_loop ?st2 (label_end ls name lower (sidx ?st2)) (sidx ?st2) y = Some (0, ls1, st1)"
          using less.prems(3) r1(1) r2(1) True t t2 by (subst (asm) label_loop.simps) (auto split: if_splits)
        have "\<exists>st2 ls2. label_loop st2 ls2 (int (st_idx st2)) n = Some (0, ls1, st1) \<and>
          lower_ok ls2 (int (st_idx st2)) st2 \<and> reads st2 post \<and> st_prog st2 = st_prog ?st2"
          using less.prems(2) \<open>pre = t # ts\<close> Cons r2(2) two [OF r' refl] by (intro less.hyps [OF _ _ _ l]) auto
        then show ?thesis by simp
      qed
    qed
  qed
qed

lemma label_loop_body:
  assumes "reads st (body @ rest)" "list_all (\<lambda>t. snd t \<notin> {TT_AFTER, TT_LABEL, TT_END, TT_NULL_TOKEN}) body"
  shows "label_loop st ls lower name = label_loop (advances st body) ls lower name"
  using assms
proof (induction body arbitrary: st)
  case (Cons t body)
  then show ?case using reads_Cons [of st t "body @ rest"]
    by (cases t) (subst label_loop.simps, auto)
qed simp

section \<open>Properties\<close>

text \<open>C27. What is stored is read back: from the tokens of a program stored one after the other, at any
  place in the store, the interpreter reads the same tokens, texts with NULs included, and stops
  behind the last of them.\<close>

theorem program_tokens_roundtrip:
  assumes "st_prog st = a @ concat (map store_token ts) @ b" "st_idx st = length a" "list_all token_ok ts"
  shows "\<exists>sv. read_tokens (length ts) st =
    Some (ts, st\<lparr>st_idx := length a + length (concat (map store_token ts)), st_saved := sv\<rparr>)"
  using assms
proof (induction ts arbitrary: st a)
  case Nil
  have "st = st\<lparr>st_idx := length a, st_saved := st_saved st\<rparr>" using Nil(2) by simp
  then show ?case by (metis read_tokens.simps(1) list.size(3) list.map(1) concat.simps(1) add.right_neutral)
next
  case (Cons t ts)
  let ?s1 = "advance st t"
  have "get_program_token_no_eval st = Some (t, ?s1)"
    using Cons.prems decode_store [of t] by (simp add: get_program_token_no_eval_def Let_def advance_def)
  moreover obtain sv where "read_tokens (length ts) ?s1 =
    Some (ts, ?s1\<lparr>st_idx := length (a @ store_token t) + length (concat (map store_token ts)), st_saved := sv\<rparr>)"
    using Cons.IH [of ?s1 "a @ store_token t"] Cons.prems by auto
  ultimately show ?case by (auto simp: advance_def add.assoc)
qed

definition fresh_interp :: "byte list \<Rightarrow> interp" where
  "fresh_interp p = \<lparr>st_prog = p, st_idx = 0, st_saved = 0, st_name = [], st_labels = [], st_vars = [],
     st_tmp = tmp_init, st_line = [], st_while = 0, st_for = 0, st_gosub = 0, st_syntax = False, st_trace = 0, st_timers = timers_init,
     st_pragma = replicate 4 False\<rparr>"

definition example_tokens :: "token list" where
  "example_tokens = [([], TT_LABEL), (''a'', TT_IDENTIFIER), ([], TT_END_OF_LINE), (''x'', TT_STRING),
     ([], TT_END_OF_LINE), ([], TT_LABEL), (''b'', TT_IDENTIFIER), ([], TT_END)]"

lemma example_tokens_ok: "list_all token_ok example_tokens"
  by (simp add: example_tokens_def token_ok_def text_kinds_def of_char_def)

theorem program_tokens_roundtrip_witness:
  "\<exists>st1. read_tokens 8 (fresh_interp (concat (map store_token example_tokens) @ [7])) = Some (example_tokens, st1)"
proof -
  let ?st = "fresh_interp (concat (map store_token example_tokens) @ [7])"
  have "\<exists>st1. read_tokens (length example_tokens) ?st = Some (example_tokens, st1)"
    using program_tokens_roundtrip [of ?st "[]" example_tokens "[7]"] example_tokens_ok
    by (auto simp: fresh_interp_def)
  moreover have "length example_tokens = 8" by (simp add: example_tokens_def)
  ultimately show ?thesis by metis
qed

text \<open>C28. The label of an index is the label whose section the index is in: from the first token
  behind the name of a label up to the next label, the next \<open>END\<close> or the end of the program,
  \<open>label_get\<close> yields this name, whatever comes before and after.\<close>

theorem label_get_section:
  assumes "st_prog st = concat (map store_token (pre @ (s, k) # (n, TT_IDENTIFIER) # body @ rest))"
    "list_all token_ok (pre @ (s, k) # (n, TT_IDENTIFIER) # body @ rest)" "k = TT_AFTER \<or> k = TT_LABEL"
    "list_all (\<lambda>t. snd t \<noteq> TT_NULL_TOKEN) pre"
    "list_all (\<lambda>t. snd t \<notin> {TT_AFTER, TT_LABEL, TT_END, TT_NULL_TOKEN}) body"
    "length (st_prog st) < 2 ^ 31" "label_build_idx_table st = Some (0, st1)"
    "lower = length (concat (map store_token (pre @ [(s, k), (n, TT_IDENTIFIER)])))"
    "lower < i" "i \<le> lower + length (concat (map store_token body))"
  shows "label_get (st_labels st1) (of_nat i) = n"
proof -
  let ?s0 = "set_program_token_idx st 0" and ?ts = "pre @ (s, k) # (n, TT_IDENTIFIER) # body @ rest"
  have p: "st_prog st = tokens_bytes ?ts" using assms(1) by (simp add: tokens_bytes_def)
  have lower: "lower = length (tokens_bytes pre) + length (tokens_bytes [(s, k), (n, TT_IDENTIFIER)])"
    using assms(8) by (simp add: tokens_bytes_def)
  have r0: "reads ?s0 ?ts"
    using p assms(2) unfolding reads_def set_program_token_idx_def by simp
  have l0: "lower_ok [] (- 1) ?s0"
    using assms(6) by (simp add: lower_ok_def sections_ok_def set_program_token_idx_def)
  obtain st9 where l1: "label_loop ?s0 [] (- 1) [] = Some (0, st_labels st1, st9)"
    using assms(7) by (auto simp: label_build_idx_table_def)
  obtain st2 ls2 where st2: "label_loop st2 ls2 (int (st_idx st2)) n = Some (0, st_labels st1, st9)"
    "lower_ok ls2 (int (st_idx st2)) st2" "reads st2 (body @ rest)" "st_prog st2 = st_prog st"
    using label_loop_reaches [OF r0 assms(3,4) l1 l0] by (auto simp: set_program_token_idx_def)
  have len: "length (st_prog st) = lower + length (tokens_bytes (body @ rest))" using p lower by simp
  then have low: "st_idx st2 = lower" using reads_idx [OF st2(3)] st2(4) by simp
  let ?s3 = "advances st2 body"
  have l3: "label_loop ?s3 ls2 (int lower) n = Some (0, st_labels st1, st9)"
    using label_loop_body [OF st2(3) assms(5)] st2(1) low by simp
  have i: "lower + length (tokens_bytes body) \<le> length (st_prog st)" using len by simp
  have "lower_ok ls2 (int lower) ?s3"
    using lower_ok_end(4) [OF st2(2), of ?s3] reads_append [OF st2(3)] low by (simp add: reads_def)
  then obtain u b where b: "sections_ok (st_labels st1) (int (length (st_prog st)))"
    "st_labels st1 = ls2 @ \<lparr>lb_lower = int lower, lb_upper = u, lb_name = cstr n\<rparr> # b"
    "int (st_idx ?s3) < u \<or> int (st_idx ?s3) \<le> u \<and> b = []"
    using label_loop_adds [OF l3] st2(4) by auto
  have "sint (of_nat i :: u32) = int i"
    using i assms(6,10) by (simp add: signed_of_nat signed_take_bit_int_eq_self tokens_bytes_def)
  moreover have "cstr n = n" using assms(2) by (simp add: token_ok_def text_kinds_def)
  moreover have "i \<le> st_idx ?s3" using low assms(10) by (simp add: tokens_bytes_def)
  ultimately show ?thesis using label_get_inside [OF b(1,2), of "of_nat i"] b(3) assms(9) by auto
qed

theorem label_get_section_witness:
  "\<exists>st1. label_build_idx_table (fresh_interp (tokens_bytes example_tokens)) = Some (0, st1) \<and>
     label_get (st_labels st1) 8 = ''a''"
proof -
  let ?st = "fresh_interp (tokens_bytes example_tokens)"
  have "map_option fst (label_build_idx_table ?st) = Some 0" by code_simp
  then obtain st1 where b: "label_build_idx_table ?st = Some (0, st1)" by auto
  have "label_get (st_labels st1) (of_nat 8) = ''a''"
    using example_tokens_ok b
    by (intro label_get_section [of ?st "[]" "[]" TT_LABEL "''a''"
          "[([], TT_END_OF_LINE), (''x'', TT_STRING), ([], TT_END_OF_LINE)]"
          "[([], TT_LABEL), (''b'', TT_IDENTIFIER), ([], TT_END)]" st1 4])
      (simp_all add: fresh_interp_def example_tokens_def tokens_bytes_def store_token_def text_kinds_def bytes_of_def)
  then show ?thesis using b by auto
qed

end
