(* ===== verification/Float_Text.thy ===== *)
theory Float_Text
  imports Utility
begin

section \<open>Printing floating point numbers\<close>

text \<open>
  The decoders print \<open>float\<close> and \<open>double\<close> elements with \<^verbatim>\<open>sprintf (num, "%G", .)\<close>. The model
  follows IEEE 754 and the C standard exactly, on natural numbers: the value is a fraction
  \<open>N / D\<close>, rounded to six significant digits (half to even, on the exact value), printed
  in the style the exponent selects, without trailing zeros.
\<close>

definition ieee_sign :: "nat \<Rightarrow> nat \<Rightarrow> nat \<Rightarrow> bool" where
  "ieee_sign ew mw v \<longleftrightarrow> v div 2 ^ (ew + mw) mod 2 = 1"

definition ieee_exp :: "nat \<Rightarrow> nat \<Rightarrow> nat \<Rightarrow> nat" where
  "ieee_exp ew mw v = v div 2 ^ mw mod 2 ^ ew"

definition ieee_frac :: "nat \<Rightarrow> nat \<Rightarrow> nat" where
  "ieee_frac mw v = v mod 2 ^ mw"

text \<open>The magnitude of a finite number as a fraction.\<close>

definition ieee_ratio :: "nat \<Rightarrow> nat \<Rightarrow> nat \<Rightarrow> nat \<times> nat" where
  "ieee_ratio ew mw v =
     (let ex = ieee_exp ew mw v; fr = ieee_frac mw v;
          m = (if ex = 0 then fr else 2 ^ mw + fr);
          shift = max ex 1; bias = 2 ^ (ew - 1) - 1 + mw
      in if bias \<le> shift then (m * 2 ^ (shift - bias), 1) else (m, 2 ^ (bias - shift)))"

text \<open>The decimal exponent of \<open>N / D\<close>.\<close>

definition dec_exp :: "nat \<Rightarrow> nat \<Rightarrow> int" where
  "dec_exp N D =
     (if D \<le> N then int (ndig (N div D)) - 1
      else - int (hd (filter (\<lambda>k. D \<le> N * 10 ^ k) [1..<400])))"

definition round_div :: "nat \<Rightarrow> nat \<Rightarrow> nat" where
  "round_div n d =
     (let q = n div d; r = n mod d
      in if 2 * r < d \<or> 2 * r = d \<and> even q then q else q + 1)"

text \<open>Six digits and their exponent.\<close>

definition dec_digits :: "nat \<Rightarrow> nat \<Rightarrow> nat \<times> int" where
  "dec_digits N D =
     (let X = dec_exp N D;
          q = (if X \<le> 5 then round_div (N * 10 ^ nat (5 - X)) D
               else round_div N (D * 10 ^ nat (X - 5)))
      in if q = 1000000 then (100000, X + 1) else (q, X))"

definition strip_zeros :: "string \<Rightarrow> string" where
  "strip_zeros s = rev (dropWhile (\<lambda>c. c = CHR ''0'') (rev s))"

definition with_point :: "string \<Rightarrow> string \<Rightarrow> string" where
  "with_point i s = (let f = strip_zeros s in if f = [] then i else i @ ''.'' @ f)"

definition exp_text :: "int \<Rightarrow> string" where
  "exp_text X =
     (let a = nat \<bar>X\<bar>
      in ''E'' @ (if X < 0 then ''-'' else ''+'') @ (if a < 10 then ''0'' else []) @ my_utoa a)"

definition fmt_ratio :: "nat \<Rightarrow> nat \<Rightarrow> string" where
  "fmt_ratio N D =
     (if N = 0 then ''0''
      else let (q, X) = dec_digits N D; ds = my_utoa q
           in if X < -4 \<or> 6 \<le> X then with_point (take 1 ds) (drop 1 ds) @ exp_text X
              else if 0 \<le> X then with_point (take (nat X + 1) ds) (drop (nat X + 1) ds)
              else with_point ''0'' (replicate (nat (- X - 1)) (CHR ''0'') @ ds))"

definition fmt_G :: "nat \<Rightarrow> nat \<Rightarrow> nat \<Rightarrow> string" where
  "fmt_G ew mw v =
     (if ieee_sign ew mw v then ''-'' else []) @
     (if ieee_exp ew mw v = 2 ^ ew - 1
      then (if ieee_frac mw v = 0 then ''INF'' else ''NAN'')
      else case ieee_ratio ew mw v of (N, D) \<Rightarrow> fmt_ratio N D)"

definition fmt_G_float :: "nat \<Rightarrow> string" where
  "fmt_G_float v = fmt_G 8 23 v"

definition fmt_G_double :: "nat \<Rightarrow> string" where
  "fmt_G_double v = fmt_G 11 52 v"

end
