(* ===== verification/Float_Ops.thy ===== *)
theory Float_Ops
  imports Float_Text Scan
begin

section \<open>Arithmetic on floats as the expressions of programs use it\<close>

text \<open>
  Expressions on numbers with a fraction are computed in \<open>float\<close>: \<^verbatim>\<open>sscanf (s, "%g", &f)\<close>, one
  operation, \<^verbatim>\<open>sprintf (s, "%G", f)\<close>. A \<open>float\<close> is its 32 bits, here a number; the operations are
  those of IEEE 754: the exact result, a fraction, is rounded to the nearest float (half to
  even). The sign of a NaN, which IEEE leaves open, is taken to be positive.
\<close>

datatype fnum = FNan | FInf bool | FFin bool nat nat

definition float_num :: "nat \<Rightarrow> fnum" where
  "float_num v =
     (if ieee_exp 8 23 v = 255 then (if ieee_frac 23 v = 0 then FInf (ieee_sign 8 23 v) else FNan)
      else case ieee_ratio 8 23 v of (N, D) \<Rightarrow> FFin (ieee_sign 8 23 v) N D)"

fun log2 :: "nat \<Rightarrow> nat" where
  "log2 n = (if n < 2 then 0 else Suc (log2 (n div 2)))"

declare log2.simps [simp del]

definition sign_bit :: "bool \<Rightarrow> nat" where
  "sign_bit s = (if s then 2 ^ 31 else 0)"

definition float_inf :: "bool \<Rightarrow> nat" where
  "float_inf s = sign_bit s + 255 * 2 ^ 23"

definition float_nan :: nat where
  "float_nan = 255 * 2 ^ 23 + 2 ^ 22"

text \<open>The exponent \<open>e\<close> with \<open>2 ^ e \<le> N / D < 2 ^ (e + 1)\<close>.\<close>

definition bin_exp :: "nat \<Rightarrow> nat \<Rightarrow> int" where
  "bin_exp N D =
     (if D \<le> N then int (log2 (N div D))
      else let up = (D + N - 1) div N
           in - int (if 2 ^ log2 up = up then log2 up else log2 up + 1))"

definition round_float :: "bool \<Rightarrow> nat \<Rightarrow> nat \<Rightarrow> nat" where
  "round_float s N D =
     (if N = 0 then sign_bit s
      else let e = max (bin_exp N D) (- 126);
               m = (if e \<le> 23 then round_div (N * 2 ^ nat (23 - e)) D else round_div N (D * 2 ^ nat (e - 23)));
               b = nat (e + 126) * 2 ^ 23 + m
           in if 255 * 2 ^ 23 \<le> b then float_inf s else sign_bit s + b)"

definition signed :: "bool \<Rightarrow> nat \<Rightarrow> int" where
  "signed s n = (if s then - int n else int n)"

definition float_neg :: "nat \<Rightarrow> nat" where
  "float_neg v = (if v < 2 ^ 31 then v + 2 ^ 31 else v - 2 ^ 31)"

definition float_add :: "nat \<Rightarrow> nat \<Rightarrow> nat" where
  "float_add v w =
     (case (float_num v, float_num w) of
        (FFin s N D, FFin t M E) \<Rightarrow>
          let n = signed s N * int E + signed t M * int D
          in if n = 0 then sign_bit (s \<and> t) else round_float (n < 0) (nat \<bar>n\<bar>) (D * E)
      | (FInf s, FInf t) \<Rightarrow> if s = t then float_inf s else float_nan
      | (FInf s, FFin _ _ _) \<Rightarrow> float_inf s
      | (FFin _ _ _, FInf t) \<Rightarrow> float_inf t
      | _ \<Rightarrow> float_nan)"

definition float_sub :: "nat \<Rightarrow> nat \<Rightarrow> nat" where
  "float_sub v w = float_add v (float_neg w)"

definition float_mul :: "nat \<Rightarrow> nat \<Rightarrow> nat" where
  "float_mul v w =
     (case (float_num v, float_num w) of
        (FFin s N D, FFin t M E) \<Rightarrow> round_float (s \<noteq> t) (N * M) (D * E)
      | (FInf s, FInf t) \<Rightarrow> float_inf (s \<noteq> t)
      | (FInf s, FFin t M _) \<Rightarrow> if M = 0 then float_nan else float_inf (s \<noteq> t)
      | (FFin s N _, FInf t) \<Rightarrow> if N = 0 then float_nan else float_inf (s \<noteq> t)
      | _ \<Rightarrow> float_nan)"

text \<open>The program divides by a float that is not zero only.\<close>

definition float_div :: "nat \<Rightarrow> nat \<Rightarrow> nat" where
  "float_div v w =
     (case (float_num v, float_num w) of
        (FFin s N D, FFin t M E) \<Rightarrow> round_float (s \<noteq> t) (N * E) (D * M)
      | (FInf s, FFin t _ _) \<Rightarrow> float_inf (s \<noteq> t)
      | (FFin s _ _, FInf t) \<Rightarrow> sign_bit (s \<noteq> t)
      | _ \<Rightarrow> float_nan)"

definition float_less :: "nat \<Rightarrow> nat \<Rightarrow> bool" where
  "float_less v w =
     (case (float_num v, float_num w) of
        (FFin s N D, FFin t M E) \<Rightarrow> signed s N * int E < signed t M * int D
      | (FInf s, FInf t) \<Rightarrow> s \<and> \<not> t
      | (FInf s, FFin _ _ _) \<Rightarrow> s
      | (FFin _ _ _, FInf t) \<Rightarrow> \<not> t
      | _ \<Rightarrow> False)"

definition float_eq :: "nat \<Rightarrow> nat \<Rightarrow> bool" where
  "float_eq v w \<longleftrightarrow>
     float_num v \<noteq> FNan \<and> float_num w \<noteq> FNan \<and> \<not> float_less v w \<and> \<not> float_less w v"

definition float_le :: "nat \<Rightarrow> nat \<Rightarrow> bool" where
  "float_le v w \<longleftrightarrow> float_less v w \<or> float_eq v w"

definition float_true :: "nat \<Rightarrow> bool" where
  "float_true v \<longleftrightarrow> \<not> float_eq v 0"

subsection \<open>Reading: \<^verbatim>\<open>%g\<close>\<close>

definition is_xdigit :: "char \<Rightarrow> bool" where
  "is_xdigit c \<longleftrightarrow> is_digit c \<or> 97 \<le> (of_char (tolower c) :: nat) \<and> of_char (tolower c) \<le> (102 :: nat)"

definition xdigit_val :: "char \<Rightarrow> nat" where
  "xdigit_val c = (if is_digit c then digit_val c else of_char (tolower c) - 87)"

definition base_value :: "nat \<Rightarrow> string \<Rightarrow> nat" where
  "base_value b s = foldl (\<lambda>n c. b * n + xdigit_val c) 0 s"

text \<open>The exponent after the letter \<open>c\<close>; a letter without digits is no number at all.\<close>

definition scan_exp :: "char \<Rightarrow> string \<Rightarrow> (int \<times> string) option" where
  "scan_exp c s =
     (case s of
        [] \<Rightarrow> Some (0, [])
      | d # r \<Rightarrow>
          if tolower d = c then
            (let (neg, r1) = scan_sign r; ds = takeWhile is_digit r1; v = int (dec_value ds)
             in if ds = [] then None else Some (if neg then - v else v, dropWhile is_digit r1))
          else Some (0, s))"

text \<open>Digits with at most one point; \<open>b\<close> is the base of the digits, \<open>p\<close> that of the exponent.\<close>

definition scan_mantissa ::
    "(char \<Rightarrow> bool) \<Rightarrow> nat \<Rightarrow> nat \<Rightarrow> char \<Rightarrow> bool \<Rightarrow> string \<Rightarrow> (nat \<times> string) option" where
  "scan_mantissa dig b p ec neg s =
     (let ip = takeWhile dig s; r = dropWhile dig s;
          (fp, r1) = (case r of c # r0 \<Rightarrow> if c = CHR ''.'' then (takeWhile dig r0, dropWhile dig r0) else ([], r)
                              | [] \<Rightarrow> ([], []))
      in if ip = [] \<and> fp = [] then None
         else do {
           (ex, rest) \<leftarrow> scan_exp ec r1;
           let N = base_value b (ip @ fp);
           let D = b ^ length fp;
           Some (if 0 \<le> ex then round_float neg (N * p ^ nat ex) D else round_float neg N (D * p ^ nat (- ex)), rest)
         })"

definition scan_g :: "string \<Rightarrow> (nat \<times> string) option" where
  "scan_g s =
     (let (neg, r) = scan_sign (dropWhile isspace (cstr s)); l = map tolower r
      in if starts ''infinity'' l then Some (float_inf neg, drop 8 r)
         else if starts ''inf'' l then (if starts ''infi'' l then None else Some (float_inf neg, drop 3 r))
         else if starts ''nan'' l then Some (float_nan, drop 3 r)
         else if starts ''0x'' l then scan_mantissa is_xdigit 16 2 (CHR ''p'') neg (drop 2 r)
         else scan_mantissa is_digit 10 10 (CHR ''e'') neg r)"

definition sscanf_g :: "string \<Rightarrow> nat \<Rightarrow> nat" where
  "sscanf_g s old = (case scan_g s of None \<Rightarrow> old | Some (v, _) \<Rightarrow> v)"

text \<open>\<^verbatim>\<open>sprintf (s, "%f", f)\<close>\<close>

definition fmt_f :: "nat \<Rightarrow> string" where
  "fmt_f v =
     (if ieee_sign 8 23 v then ''-'' else []) @
     (case float_num v of
        FNan \<Rightarrow> ''nan''
      | FInf s \<Rightarrow> ''inf''
      | FFin s N D \<Rightarrow>
          let q = round_div (N * 10 ^ 6) D; r = my_utoa (q mod 10 ^ 6)
          in my_utoa (q div 10 ^ 6) @ ''.'' @ replicate (6 - length r) (CHR ''0'') @ r)"

end
