(* ===== verification/Expression.thy ===== *)
theory Expression
  imports Program Float_Ops "HOL-Library.Signed_Division"
begin

unbundle bit_operations_syntax

section \<open>Expressions (expression.c)\<close>

text \<open>
  An expression is read from the program into a list of tokens, \<open>q_of_tokens\<close>, which is then
  worked off from its end: the last value, the operator before it and the value before that
  are taken off and the result is put back. So the operators of an expression have no
  precedence and group to the right: \<^verbatim>\<open>8 - 4 - 2\<close> is 6 and \<^verbatim>\<open>2 * 3 + 4\<close> is 14. The main result is
  that \<open>expression\<close> computes the value of the syntax tree read this way, for every expression of
  operators, signs, parentheses and calls; others give the values of operators and the
  inputs for which the work goes wrong. Both loops are functions on options, \<open>None\<close> being also
  the value of a run that never ends.
\<close>

subsection \<open>The queue\<close>

text \<open>The queue, its end first.\<close>

type_synonym queue = "token list"

definition MAX_Q :: nat where
  "MAX_Q = 500"

definition q_token :: "token \<Rightarrow> queue \<Rightarrow> queue run option" where
  "q_token t q = Some (if MAX_Q \<le> length q then Exit else Done (t # q))"

definition dq_token :: "queue \<Rightarrow> token \<times> queue" where
  "dq_token q = (case q of [] \<Rightarrow> (([], TT_NULL_TOKEN), []) | t # q1 \<Rightarrow> (t, q1))"

subsection \<open>Operators\<close>

definition isint :: "string \<Rightarrow> bool option" where
  "isint p =
     (case scan_num p of
        None \<Rightarrow> Some False
      | Some (v, r) \<Rightarrow> do {
          require (- (2 ^ 31) \<le> v \<and> v < 2 ^ 31);
          Some (dropWhile isspace r = [])
        })"

definition both_int :: "string \<Rightarrow> string \<Rightarrow> bool option" where
  "both_int a b = do { x \<leftarrow> isint a; if x then isint b else Some False }"

text \<open>The value of an \<open>int\<close> operation; what does not fit is undefined.\<close>

definition print_int :: "int \<Rightarrow> string option" where
  "print_int r = do { require (- (2 ^ 31) \<le> r \<and> r < 2 ^ 31); Some (print_d (of_int r)) }"

definition print_bool :: "bool \<Rightarrow> string" where
  "print_bool b = (if b then ''1'' else ''0'')"

definition int_arith :: "token_types \<Rightarrow> int \<Rightarrow> int \<Rightarrow> (u32 \<times> string) option" where
  "int_arith ty i1 i2 =
     (if ty = TT_PLUS then map_option (Pair 0) (print_int (i1 + i2))
      else if ty = TT_MINUS then map_option (Pair 0) (print_int (i2 - i1))
      else if ty = TT_MULT then map_option (Pair 0) (print_int (i1 * i2))
      else if ty = TT_DIVIDE then
        (if i1 = 0 then Some (1, []) else map_option (Pair 0) (print_int (i2 sdiv i1)))
      else Some (0, []))"

definition float_arith :: "token_types \<Rightarrow> nat \<Rightarrow> nat \<Rightarrow> u32 \<times> string" where
  "float_arith ty f1 f2 =
     (if ty = TT_PLUS then (0, fmt_G_float (float_add f1 f2))
      else if ty = TT_MINUS then (0, fmt_G_float (float_sub f2 f1))
      else if ty = TT_MULT then (0, fmt_G_float (float_mul f1 f2))
      else if ty = TT_DIVIDE then
        (if float_eq f1 0 then (1, []) else (0, fmt_G_float (float_div f2 f1)))
      else (0, []))"

text \<open>The result is the return code and what \<open>token\<close> holds. \<open>syntax\<close> is \<open>g_syntax_check\<close>.\<close>

definition add_sub_mult_div :: "bool \<Rightarrow> token_types \<Rightarrow> string \<Rightarrow> string \<Rightarrow> (u32 \<times> string) option" where
  "add_sub_mult_div syntax ty arg1 arg2 =
     (if syntax then Some (0, ''0'')
      else do {
        ints \<leftarrow> both_int arg1 arg2;
        if ints then do {
          i1 \<leftarrow> sscanf_d arg1 0;
          i2 \<leftarrow> sscanf_d arg2 0;
          int_arith ty (sint i1) (sint i2)
        }
        else Some (float_arith ty (sscanf_g arg1 0) (sscanf_g arg2 0))
      })"

definition ones_complement :: "string \<Rightarrow> (u32 \<times> string) option" where
  "ones_complement token = do {
     x \<leftarrow> isint token;
     if x then do { i \<leftarrow> sscanf_d token 0; Some (0, print_d (NOT i)) } else Some (1, token)
   }"

definition concat_with :: "string \<Rightarrow> string \<Rightarrow> string \<Rightarrow> string" where
  "concat_with arg1 arg2 delimiter = arg2 @ delimiter @ arg1"

definition int_logical :: "token_types \<Rightarrow> u32 \<Rightarrow> u32 \<Rightarrow> string" where
  "int_logical ty i1 i2 =
     (if ty = TT_LOGICAL_AND then print_bool (i1 \<noteq> 0 \<and> i2 \<noteq> 0)
      else if ty = TT_LOGICAL_OR then print_bool (i1 \<noteq> 0 \<or> i2 \<noteq> 0)
      else if ty = TT_BITWISE_AND then print_d (i1 AND i2)
      else if ty = TT_BITWISE_OR then print_d (i1 OR i2)
      else if ty = TT_BITWISE_XOR then print_d (i1 XOR i2)
      else if ty = TT_LESS_THAN then print_bool (sint i1 < sint i2)
      else if ty = TT_GREATER_THAN then print_bool (sint i1 > sint i2)
      else if ty = TT_EQUAL then print_bool (i1 = i2)
      else if ty = TT_NOT_EQUAL then print_bool (i1 \<noteq> i2)
      else if ty = TT_GREATER_THAN_EQUAL then print_bool (sint i1 \<ge> sint i2)
      else if ty = TT_LESS_THAN_EQUAL then print_bool (sint i1 \<le> sint i2)
      else [])"

definition float_logical :: "token_types \<Rightarrow> nat \<Rightarrow> nat \<Rightarrow> u32 \<times> string" where
  "float_logical ty f1 f2 =
     (if ty = TT_LOGICAL_AND then (0, print_bool (float_true f1 \<and> float_true f2))
      else if ty = TT_LOGICAL_OR then (0, print_bool (float_true f1 \<or> float_true f2))
      else if ty \<in> {TT_BITWISE_AND, TT_BITWISE_OR, TT_BITWISE_XOR} then (1, [])
      else if ty = TT_LESS_THAN then (0, print_bool (float_less f1 f2))
      else if ty = TT_GREATER_THAN then (0, print_bool (float_less f2 f1))
      else if ty = TT_EQUAL then (0, print_bool (float_eq f1 f2))
      else if ty = TT_NOT_EQUAL then (0, print_bool (\<not> float_eq f1 f2))
      else if ty = TT_GREATER_THAN_EQUAL then (0, print_bool (float_le f2 f1))
      else if ty = TT_LESS_THAN_EQUAL then (0, print_bool (float_le f1 f2))
      else (0, []))"

definition logical_bitwise :: "bool \<Rightarrow> token_types \<Rightarrow> string \<Rightarrow> string \<Rightarrow> (u32 \<times> string) option" where
  "logical_bitwise syntax ty arg1 arg2 =
     (if syntax then Some (0, ''0'')
      else do {
        ints \<leftarrow> both_int arg1 arg2;
        if ints then do {
          i2 \<leftarrow> sscanf_d arg1 0;
          i1 \<leftarrow> sscanf_d arg2 0;
          Some (0, int_logical ty i1 i2)
        }
        else Some (float_logical ty (sscanf_g arg2 0) (sscanf_g arg1 0))
      })"

definition str_cmp :: "token_types \<Rightarrow> string \<Rightarrow> string \<Rightarrow> string" where
  "str_cmp ty arg1 arg2 = print_bool ((strcmp (cstr arg2) (cstr arg1) = 0) = (ty = TT_STR_EQUAL))"

text \<open>The chain of comparisons in \<open>solve\<close>; the code is not 0 for what is no operator.\<close>

definition apply_operator :: "bool \<Rightarrow> token_types \<Rightarrow> string \<Rightarrow> string \<Rightarrow> string \<Rightarrow> (u32 \<times> string) option" where
  "apply_operator syntax ty arg1 arg2 token =
     (if ty \<in> {TT_PLUS, TT_MINUS, TT_MULT, TT_DIVIDE} then add_sub_mult_div syntax ty arg1 arg2
      else if ty = TT_PERIOD then Some (0, concat_with arg1 arg2 [])
      else if ty = TT_COLON then Some (0, concat_with arg1 arg2 '' '')
      else if ty \<in> {TT_LOGICAL_AND, TT_LOGICAL_OR, TT_BITWISE_AND, TT_BITWISE_OR, TT_BITWISE_XOR,
          TT_GREATER_THAN, TT_LESS_THAN, TT_EQUAL, TT_NOT_EQUAL, TT_LESS_THAN_EQUAL, TT_GREATER_THAN_EQUAL}
      then logical_bitwise syntax ty arg1 arg2
      else if ty \<in> {TT_STR_EQUAL, TT_STR_NOT_EQUAL} then Some (0, str_cmp ty arg1 arg2)
      else Some (1, token))"

subsection \<open>Functions\<close>

text \<open>What \<open>solve_function\<close> does once the arguments are there. An argument buffer that was never
  written has no memory: its text is \<open>None\<close> and using it is undefined. The result is the return
  code, what \<open>token\<close> holds and the kind it is queued with, if it is. \<open>host\<close> stands for the
  functions that ask the operating system, and for those that print with a format the program
  gives.\<close>

type_synonym fun_result = "u32 \<times> string \<times> token_types option \<times> interp"

record fun_args =
  fa_count :: nat
  fa_arg0 :: "string option"
  fa_arg1 :: "string option"
  fa_arg2 :: "string option"

type_synonym host = "token_types \<Rightarrow> fun_args \<Rightarrow> string \<Rightarrow> interp \<Rightarrow> fun_result run option"

definition arg_size :: "string option \<Rightarrow> nat" where
  "arg_size a = (case a of None \<Rightarrow> 0 | Some s \<Rightarrow> length s)"

definition result_as :: "token_types \<Rightarrow> string \<Rightarrow> interp \<Rightarrow> fun_result run option" where
  "result_as ty s st = Some (Done (0, s, Some ty, st))"

text \<open>\<open>strtol\<close> with the rest of the text; it saturates.\<close>

definition digit_in :: "nat \<Rightarrow> char \<Rightarrow> bool" where
  "digit_in base c \<longleftrightarrow> is_xdigit c \<and> xdigit_val c < base"

definition strtol :: "nat \<Rightarrow> string \<Rightarrow> int \<times> string" where
  "strtol base s =
     (let (neg, r) = scan_sign (dropWhile isspace (cstr s));
          r1 = (if base = 16 \<and> starts ''0x'' (map tolower r) \<and> (\<exists>c \<in> set (take 1 (drop 2 r)). is_xdigit c)
                then drop 2 r else r);
          ds = takeWhile (digit_in base) r1;
          v = (if neg then - int (base_value base ds) else int (base_value base ds))
      in if ds = [] then (0, cstr s)
         else (max (- (2 ^ 63)) (min v (2 ^ 63 - 1)), dropWhile (digit_in base) r1))"

definition fun_base :: "nat \<Rightarrow> string \<Rightarrow> interp \<Rightarrow> fun_result run option" where
  "fun_base base a st =
     (case strtol base a of (v, rest) \<Rightarrow>
        if rest \<noteq> [] then Some (Done (1, [], None, st))
        else result_as TT_NUMBER (my_utoa (unat (of_int v :: u64))) st)"

text \<open>\<open>SWAP\<close> reverses the bytes of a hexadecimal text in a buffer that is not initialised.\<close>

fun swap_pairs :: "nat \<Rightarrow> nat \<Rightarrow> string \<Rightarrow> char mem \<Rightarrow> char mem option" where
  "swap_pairs j 0 arg m = Some m"
| "swap_pairs j (Suc k) arg m = do {
     let i = j - Suc k;
     require (2 * i + 2 \<le> length arg + 1);
     m1 \<leftarrow> mem_write m (2 * j - 2 * i - 1) (take 2 (drop (2 * i) (arg @ [NUL])));
     swap_pairs j k arg m1
   }"

definition fun_swap :: "string \<Rightarrow> string \<Rightarrow> string option" where
  "fun_swap a0 a1 = do {
     j \<leftarrow> sscanf_u a0 0;
     m \<leftarrow> swap_pairs (unat j) (unat j) a1 (mem_alloc 1024);
     require (NUL \<in> set (init_prefix m));
     Some (cstr (init_prefix m))
   }"

definition fun_itoa :: "string \<Rightarrow> string option" where
  "fun_itoa a0 = do {
     tmp \<leftarrow> sscanf_d a0 0;
     require (- 1 \<le> sint tmp \<and> sint tmp \<le> 255);
     let c = char_of (nat (sint tmp));
     Some (if 0 \<le> sint tmp \<and> isprint c then [c] else ''?'')
   }"

definition find_str :: "string \<Rightarrow> string \<Rightarrow> nat option" where
  "find_str w s = List.find (\<lambda>i. starts w (drop i s)) [0..<Suc (length s)]"

definition fun_instring :: "string \<Rightarrow> string \<Rightarrow> string" where
  "fun_instring a0 a1 =
     (case find_str (cstr a0) (cstr a1) of None \<Rightarrow> ''0'' | Some i \<Rightarrow> print_d (of_nat (Suc i)))"

text \<open>The counts are unsigned, the characters are read from the buffer with its NUL.\<close>

definition fun_substr :: "string \<Rightarrow> string \<Rightarrow> string option \<Rightarrow> string \<Rightarrow> string option" where
  "fun_substr a0 a1 a2 token = do {
     y \<leftarrow> sscanf_u a0 0;
     x \<leftarrow> sscanf_u a1 0;
     let size = (of_nat (arg_size a2) :: u32);
     let n = (if y > size - x then (size - x) + 1 else y);
     if 1 \<le> x then do {
       s \<leftarrow> a2;
       require (unat (x - 1) + unat n \<le> length s + 1);
       Some (take (unat n) (drop (unat (x - 1)) (s @ [NUL])))
     }
     else Some token
   }"

definition fun_get_tmp_var :: "fun_args \<Rightarrow> interp \<Rightarrow> string option" where
  "fun_get_tmp_var fa st =
     (if arg_size (fa_arg0 fa) = 0 then tmp_variable_get_all (st_tmp st)
      else if arg_size (fa_arg1 fa) = 0 then do {
        a0 \<leftarrow> fa_arg0 fa;
        (r, v) \<leftarrow> tmp_variable_get (st_tmp st) (cstr a0);
        Some v
      }
      else do {
        a0 \<leftarrow> fa_arg0 fa;
        a1 \<leftarrow> fa_arg1 fa;
        (r, v) \<leftarrow> tmp_variable_get (st_tmp st) (cstr a1);
        Some (if r \<noteq> 0 then cstr a0 else v)
      })"

text \<open>The pieces \<open>strtok\<close> yields one after the other.\<close>

function strtok :: "string \<Rightarrow> string \<Rightarrow> string list" where
  "strtok delim s =
     (let r = dropWhile (\<lambda>c. c \<in> set delim) s
      in if r = [] then []
         else takeWhile (\<lambda>c. c \<notin> set delim) r #
              strtok delim (drop 1 (dropWhile (\<lambda>c. c \<notin> set delim) r)))"
  by pat_completeness auto
termination
proof (relation "measure (\<lambda>(_, s). length s)", simp_all del: dropWhile_eq_Nil_conv)
  fix delim s :: string
  assume a: "dropWhile (\<lambda>c. c \<in> set delim) s \<noteq> []"
  have "length (dropWhile (\<lambda>c. c \<notin> set delim) (dropWhile (\<lambda>c. c \<in> set delim) s)) \<le> length s"
    by (meson length_dropWhile_le order_trans)
  then show "length (dropWhile (\<lambda>c. c \<notin> set delim) (dropWhile (\<lambda>c. c \<in> set delim) s)) - Suc 0 < length s"
    using a by (cases s) auto
qed

declare strtok.simps [simp del]

fun put_pieces :: "string \<Rightarrow> nat \<Rightarrow> string list \<Rightarrow> interp \<Rightarrow> interp run option" where
  "put_pieces name j [] st = Some (Done st)"
| "put_pieces name j (p # ps) st =
     run_bind (put_var st (name @ ''['' @ my_utoa (Suc j) @ '']'') p 0 VT_USER) (put_pieces name (Suc j) ps)"

definition fun_parse :: "string \<Rightarrow> string \<Rightarrow> string option \<Rightarrow> interp \<Rightarrow> fun_result run option" where
  "fun_parse a0 a1 a2 st =
     (case a2 of
        Some (c # s) \<Rightarrow>
          (let ps = strtok (cstr a1) (cstr (c # s))
           in run_bind (put_pieces (cstr a0) 0 ps st) (result_as TT_NUMBER (my_utoa (length ps))))
      | _ \<Rightarrow> result_as TT_NUMBER (my_utoa (length (strtok (cstr a0) (cstr a1)))) st)"

fun put_tmp_pieces :: "string \<Rightarrow> nat \<Rightarrow> string list \<Rightarrow> tmp_table \<Rightarrow> tmp_table option" where
  "put_tmp_pieces name j [] t = Some t"
| "put_tmp_pieces name j (p # ps) t = do {
     t1 \<leftarrow> tmp_variable_put t (name @ ''['' @ my_utoa (Suc j) @ '']'') p (of_nat (length p));
     put_tmp_pieces name (Suc j) ps t1
   }"

definition fun_t_parse :: "string \<Rightarrow> string \<Rightarrow> string \<Rightarrow> interp \<Rightarrow> fun_result run option" where
  "fun_t_parse a0 a1 a2 st = do {
     let ps = strtok (cstr a1) (cstr a2);
     t \<leftarrow> put_tmp_pieces (cstr a0) 0 ps (st_tmp st);
     result_as TT_NUMBER (my_utoa (length ps)) (st\<lparr>st_tmp := t\<rparr>)
   }"

definition fun_mod :: "string \<Rightarrow> string \<Rightarrow> interp \<Rightarrow> fun_result run option" where
  "fun_mod a0 a1 st = do {
     y \<leftarrow> sscanf_u a0 0;
     if y = 0 then Some (Done (1, [], None, st))
     else do {
       x \<leftarrow> sscanf_u a1 0;
       result_as TT_NUMBER (print_d (x mod y)) st
     }
   }"

text \<open>\<^verbatim>\<open>sscanf (s, "%x", &x)\<close>\<close>

definition sscanf_x :: "string \<Rightarrow> u32 \<Rightarrow> u32" where
  "sscanf_x s old =
     (let (neg, r) = scan_sign (dropWhile isspace (cstr s));
          r1 = (if starts ''0x'' (map tolower r) then drop 2 r else r);
          ds = takeWhile is_xdigit r1;
          v = int (base_value 16 ds)
      in if ds = [] \<and> r1 = r then old else of_int (if neg then - v else v))"

definition fun_ftoh :: "string \<Rightarrow> string option" where
  "fun_ftoh a0 = do {
     (v, r) \<leftarrow> scan_g a0;
     Some (concat (map my_btoh (rev (le_bytes 4 v))))
   }"

definition var_known :: "interp \<Rightarrow> string \<Rightarrow> var_types \<Rightarrow> fun_result run option" where
  "var_known st name ty = do {
     (r, v) \<leftarrow> get_var st name ty;
     result_as TT_NUMBER (print_bool (r = 0)) st
   }"

definition fun_tmp_vars :: "token_types \<Rightarrow> fun_args \<Rightarrow> interp \<Rightarrow> fun_result run option" where
  "fun_tmp_vars ty fa st =
     (if ty = TT_DEL_TMP_VAR then result_as TT_NUMBER ''0'' (st\<lparr>st_tmp := tmp_variable_delete_all (st_tmp st)\<rparr>)
      else if ty = TT_SORT_TMP_VAR then result_as TT_NUMBER ''0'' (st\<lparr>st_tmp := tmp_variable_sort (st_tmp st)\<rparr>)
      else if ty = TT_IS_TMP_VAR then do {
        a0 \<leftarrow> fa_arg0 fa;
        (r, v) \<leftarrow> tmp_variable_get (st_tmp st) (cstr a0);
        result_as TT_NUMBER (print_bool (r = 0)) st
      }
      else if ty = TT_GET_TMP_VAR then do {
        v \<leftarrow> fun_get_tmp_var fa st;
        result_as TT_IDENTIFIER v st
      }
      else do {
        a0 \<leftarrow> fa_arg0 fa;
        a1 \<leftarrow> fa_arg1 fa;
        t \<leftarrow> (if ty = TT_ADD_TMP_VAR then tmp_variable_add (st_tmp st) (cstr a1) a0 (int (length a0))
             else tmp_variable_put (st_tmp st) (cstr a1) a0 (of_nat (length a0)));
        result_as TT_NUMBER ''0'' (st\<lparr>st_tmp := t\<rparr>)
      })"

definition fun_text :: "token_types \<Rightarrow> fun_args \<Rightarrow> string \<Rightarrow> interp \<Rightarrow> fun_result run option" where
  "fun_text ty fa token st =
     (if ty = TT_STRLEN then result_as TT_NUMBER (print_d (of_nat (arg_size (fa_arg0 fa)))) st
      else if ty = TT_GET_VERSION then result_as TT_STRING ''2.6.0'' st
      else do {
        a0 \<leftarrow> fa_arg0 fa;
        if ty = TT_TOLOWER then result_as TT_STRING (map tolower a0) st
        else if ty = TT_TOUPPER then result_as TT_STRING (map toupper a0) st
        else if ty = TT_TRACE then do {
          v \<leftarrow> sscanf_u a0 0;
          result_as TT_NUMBER ''0'' (st\<lparr>st_trace := v\<rparr>)
        }
        else if ty = TT_IS_LABEL then var_known st (cstr a0) VT_LABEL
        else if ty = TT_IS_VAR then var_known st (cstr a0) VT_USER
        else do {
          a1 \<leftarrow> fa_arg1 fa;
          if ty = TT_INSTRING then result_as TT_NUMBER (fun_instring a0 a1) st
          else if ty = TT_SUBSTR then do {
            t \<leftarrow> fun_substr a0 a1 (fa_arg2 fa) token;
            result_as TT_STRING t st
          }
          else if ty = TT_PARSE then fun_parse a0 a1 (fa_arg2 fa) st
          else do { a2 \<leftarrow> fa_arg2 fa; fun_t_parse a0 a1 a2 st }
        }
      })"

definition fun_number :: "token_types \<Rightarrow> fun_args \<Rightarrow> interp \<Rightarrow> fun_result run option" where
  "fun_number ty fa st = do {
     a0 \<leftarrow> fa_arg0 fa;
     if ty = TT_HTOF then result_as TT_NUMBER (fmt_f (unat (sscanf_x a0 0))) st
     else if ty = TT_FTOH then do { t \<leftarrow> fun_ftoh a0; result_as TT_NUMBER t st }
     else if ty = TT_HTOI then fun_base 16 a0 st
     else if ty = TT_OTOI then fun_base 8 a0 st
     else if ty = TT_BTOI then fun_base 2 a0 st
     else if ty = TT_ITOA then do { t \<leftarrow> fun_itoa a0; result_as TT_NUMBER t st }
     else if ty = TT_ABS then do { x \<leftarrow> sscanf_u a0 0; result_as TT_NUMBER (print_u x) st }
     else do {
       a1 \<leftarrow> fa_arg1 fa;
       if ty = TT_SWAP then do { t \<leftarrow> fun_swap a0 a1; result_as TT_NUMBER t st }
       else fun_mod a0 a1 st
     }
   }"

definition tmp_var_functions :: "token_types set" where
  "tmp_var_functions = {TT_DEL_TMP_VAR, TT_SORT_TMP_VAR, TT_IS_TMP_VAR, TT_GET_TMP_VAR, TT_ADD_TMP_VAR, TT_SET_TMP_VAR}"

definition text_functions :: "token_types set" where
  "text_functions = {TT_STRLEN, TT_GET_VERSION, TT_TOLOWER, TT_TOUPPER, TT_TRACE, TT_IS_LABEL, TT_IS_VAR,
     TT_INSTRING, TT_SUBSTR, TT_PARSE, TT_T_PARSE}"

definition number_functions :: "token_types set" where
  "number_functions = {TT_FTOH, TT_HTOI, TT_OTOI, TT_BTOI, TT_ITOA, TT_ABS, TT_SWAP, TT_MOD}"

definition call_function :: "host \<Rightarrow> token_types \<Rightarrow> fun_args \<Rightarrow> string \<Rightarrow> interp \<Rightarrow> fun_result run option" where
  "call_function host ty fa token st =
     (if st_syntax st then result_as TT_NUMBER ''0'' st
      else if ty \<in> tmp_var_functions then fun_tmp_vars ty fa st
      else if ty \<in> text_functions then fun_text ty fa token st
      else if ty \<in> number_functions \<or> ty = TT_HTOF \<and> arg_size (fa_arg1 fa) = 0 then fun_number ty fa st
      else host ty fa token st)"

subsection \<open>Working off the queue\<close>

lemma run_bind_mono [partial_function_mono]:
  assumes "mono_option A" "\<And>y. mono_option (\<lambda>f. B y f)"
  shows "mono_option (\<lambda>f. run_bind (A f) (\<lambda>y. B y f))"
proof -
  have eq: "run_bind m g = Option.bind m (\<lambda>r. case r of Done x \<Rightarrow> g x | Exit \<Rightarrow> Some Exit)"
    for m :: "'x run option" and g :: "'x \<Rightarrow> 'y run option"
    by (cases m) (auto simp: run_bind_def split: run.splits)
  have "mono_option (\<lambda>f. case r of Done x \<Rightarrow> B x f | Exit \<Rightarrow> Some Exit)" for r
    using assms(2) by (cases r) (auto intro: option.const_mono)
  then show ?thesis unfolding eq by (intro bind_mono assms(1))
qed

type_synonym solve_result = "u32 \<times> queue \<times> string \<times> interp"

text \<open>A return code other than 0 leaves the loops.\<close>

definition and_then ::
    "solve_result run option \<Rightarrow> (queue \<Rightarrow> string \<Rightarrow> interp \<Rightarrow> solve_result run option) \<Rightarrow> solve_result run option" where
  "and_then m f =
     run_bind m (\<lambda>(iret, q, tk, st). if iret \<noteq> 0 then Some (Done (iret, q, tk, st)) else f q tk st)"

lemma and_then_mono [partial_function_mono]:
  assumes "mono_option A" "\<And>q tk st. mono_option (\<lambda>f. B q tk st f)"
  shows "mono_option (\<lambda>f. and_then (A f) (\<lambda>q tk st. B q tk st f))"
  unfolding and_then_def
proof (rule run_bind_mono [OF assms(1)])
  fix y :: solve_result
  obtain iret q tk st where y: "y = (iret, q, tk, st)" by (cases y) auto
  show "mono_option (\<lambda>f. case y of (iret, q, tk, st) \<Rightarrow>
      if iret \<noteq> 0 then Some (Done (iret, q, tk, st)) else B q tk st f)"
    unfolding y using assms(2) by (cases "iret = 0") (auto intro: option.const_mono)
qed

text \<open>What the loop of \<open>solve\<close> does after the operator: go on, leave the loop, or take the second
  value.\<close>

datatype next_step = Go queue string | Stop u32 queue string | Second token token_types queue

definition push_go :: "token \<Rightarrow> queue \<Rightarrow> string \<Rightarrow> next_step run option" where
  "push_go t q token = run_bind (q_token t q) (\<lambda>q1. Some (Done (Go q1 token)))"

definition after_operator :: "bool \<Rightarrow> token \<Rightarrow> token \<Rightarrow> queue \<Rightarrow> string \<Rightarrow> next_step run option" where
  "after_operator syntax arg1 op q token =
     (if snd op = TT_NULL_TOKEN then Some (Done (Go q (fst arg1)))
      else if snd op = TT_OPEN_PAREN then run_bind (q_token arg1 q) (\<lambda>q1. Some (Done (Stop 0 q1 token)))
      else if snd op = TT_COMMA \<or> is_function (snd op) then
        run_bind (q_token op q) (\<lambda>q1. run_bind (q_token arg1 q1) (\<lambda>q2. Some (Done (Stop 0 q2 token))))
      else if snd op = TT_UNARY_MINUS then do {
        (iret, v) \<leftarrow> add_sub_mult_div syntax TT_MULT (fst arg1) ''-1'';
        if iret \<noteq> 0 then Some (Done (Stop iret q v)) else push_go (v, snd arg1) q v
      }
      else if snd op = TT_UNARY_ONES_COMPLEMENT then do {
        (iret, v) \<leftarrow> ones_complement (fst arg1);
        if iret \<noteq> 0 then Some (Done (Stop iret q token)) else push_go (v, snd arg1) q token
      }
      else if snd op = TT_UNARY_PLUS then push_go arg1 q token
      else Some (Done (Second arg1 (snd op) q)))"

definition operator_step :: "bool \<Rightarrow> queue \<Rightarrow> string \<Rightarrow> next_step run option" where
  "operator_step syntax q token =
     (case dq_token q of (arg1, q1) \<Rightarrow> (case dq_token q1 of (op, q2) \<Rightarrow> after_operator syntax arg1 op q2 token))"

text \<open>A sign before the second value; the result is its value and whether the token was used.\<close>

definition sign_of_second ::
    "bool \<Rightarrow> token_types \<Rightarrow> string \<Rightarrow> string \<Rightarrow> (u32 \<times> string \<times> bool \<times> string) option" where
  "sign_of_second syntax op2 arg2 token =
     (if op2 = TT_UNARY_MINUS then do {
        (iret, v) \<leftarrow> add_sub_mult_div syntax TT_MULT arg2 ''-1'';
        Some (iret, cstr v, True, v)
      }
      else if op2 = TT_UNARY_ONES_COMPLEMENT then do {
        (iret, v) \<leftarrow> ones_complement arg2;
        Some (iret, v, True, token)
      }
      else Some (0, arg2, op2 = TT_UNARY_PLUS, token))"

definition binary_step :: "token \<Rightarrow> token_types \<Rightarrow> token \<Rightarrow> queue \<Rightarrow> string \<Rightarrow> interp \<Rightarrow> solve_result run option" where
  "binary_step arg1 op1 arg2 q token st =
     (case dq_token q of (op2, q1) \<Rightarrow> do {
        (iret, v2, used, tk) \<leftarrow> sign_of_second (st_syntax st) (snd op2) (fst arg2) token;
        if iret \<noteq> 0 then Some (Done (iret, q1, tk, st))
        else run_bind (if used then Some (Done q1) else q_token op2 q1) (\<lambda>q2. do {
          (iret2, v) \<leftarrow> apply_operator (st_syntax st) op1 (fst arg1) v2 tk;
          if iret2 \<noteq> 0 then Some (Done (iret2, q2, v, st))
          else run_bind (q_token (v, snd arg1) q2) (\<lambda>q3. Some (Done (0, q3, v, st)))
        })
      })"

definition no_args :: fun_args where
  "no_args = \<lparr>fa_count = 0, fa_arg0 = None, fa_arg1 = None, fa_arg2 = None\<rparr>"

definition set_arg :: "fun_args \<Rightarrow> string \<Rightarrow> fun_args option" where
  "set_arg fa s =
     (if fa_count fa = 0 then Some (fa\<lparr>fa_arg0 := Some s\<rparr>)
      else if fa_count fa = 1 then Some (fa\<lparr>fa_arg1 := Some s\<rparr>)
      else if fa_count fa = 2 then Some (fa\<lparr>fa_arg2 := Some s\<rparr>)
      else None)"

definition function_result :: "queue \<Rightarrow> fun_result \<Rightarrow> solve_result run option" where
  "function_result q r =
     (case r of
        (iret, tk, None, st) \<Rightarrow> Some (Done (iret, q, tk, st))
      | (iret, tk, Some ty, st) \<Rightarrow> run_bind (q_token (tk, ty) q) (\<lambda>q1. Some (Done (iret, q1, tk, st))))"

definition go_on :: "queue \<Rightarrow> string \<Rightarrow> interp \<Rightarrow> solve_result run option" where
  "go_on q token st = Some (Done (0, q, token, st))"

text \<open>\<open>Solve\<close> is \<open>solve\<close>, one call per round of its loop, \<open>Second_Value\<close> the part of a round from the
  second value on; \<open>Fun_Args\<close> is \<open>solve_function\<close>, one call per round of the loop that collects
  the arguments, the last argument first. The calls they make are the parameter \<open>rec\<close> of their
  bodies.\<close>

datatype solve_call = Solve | Second_Value token token_types | Fun_Args fun_args

type_synonym solve_rec = "solve_call \<Rightarrow> queue \<Rightarrow> string \<Rightarrow> interp \<Rightarrow> solve_result run option"

definition solve_body :: "solve_rec \<Rightarrow> queue \<Rightarrow> string \<Rightarrow> interp \<Rightarrow> solve_result run option" where
  "solve_body rec q token st =
     (if q = [] then go_on q token st
      else and_then
        (if snd (hd q) = TT_CLOSE_PAREN then rec Solve (tl q) token st
         else if snd (hd q) = TT_FUNCTION then rec (Fun_Args no_args) (tl q) token st
         else go_on q token st)
        (\<lambda>q2 tk2 st2. run_bind (operator_step (st_syntax st2) q2 tk2) (\<lambda>r.
          case r of
            Go q5 tk5 \<Rightarrow> rec Solve q5 tk5 st2
          | Stop iret5 q5 tk5 \<Rightarrow> Some (Done (iret5, q5, tk5, st2))
          | Second arg1 op1 q5 \<Rightarrow> rec (Second_Value arg1 op1) q5 tk2 st2)))"

definition second_body ::
    "solve_rec \<Rightarrow> token \<Rightarrow> token_types \<Rightarrow> queue \<Rightarrow> string \<Rightarrow> interp \<Rightarrow> solve_result run option" where
  "second_body rec arg1 op1 q token st =
     (if snd (fst (dq_token q)) = TT_NULL_TOKEN then rec Solve (snd (dq_token q)) token st
      else and_then
        (if snd (hd q) = TT_FUNCTION then rec (Fun_Args no_args) (tl q) token st else go_on q token st)
        (\<lambda>q6 tk6 st6. and_then
          (if snd (fst (dq_token q6)) = TT_CLOSE_PAREN then rec Solve (snd (dq_token q6)) tk6 st6
           else go_on q6 tk6 st6)
          (\<lambda>q8 tk8 st8. and_then
            (binary_step arg1 op1 (fst (dq_token q8)) (snd (dq_token q8)) tk8 st8)
            (\<lambda>q10 tk10 st10. rec Solve q10 tk10 st10))))"

definition args_body ::
    "host \<Rightarrow> solve_rec \<Rightarrow> fun_args \<Rightarrow> queue \<Rightarrow> string \<Rightarrow> interp \<Rightarrow> solve_result run option" where
  "args_body host rec fa q token st =
     (if is_function (snd (fst (dq_token q))) then
        run_bind (call_function host (snd (hd q)) fa (fst (hd q)) st) (function_result (tl q))
      else if snd (fst (dq_token q)) = TT_COMMA then
        rec (Fun_Args (fa\<lparr>fa_count := fa_count fa + 1\<rparr>)) (tl q) (fst (hd q)) st
      else run_bind (q_token (fst (dq_token q)) (snd (dq_token q))) (\<lambda>q2.
        and_then (rec Solve q2 (fst (fst (dq_token q))) st) (\<lambda>q3 tk3 st3.
          case set_arg fa (fst (fst (dq_token q3))) of
            None \<Rightarrow> Some (Done (1, snd (dq_token q3), fst (fst (dq_token q3)), st3))
          | Some fa1 \<Rightarrow> rec (Fun_Args fa1) (snd (dq_token q3)) (fst (fst (dq_token q3))) st3)))"

lemma solve_bodies_mono [partial_function_mono]:
  assumes "\<And>c q tk st. mono_option (\<lambda>f. R f c q tk st)"
  shows "mono_option (\<lambda>f. solve_body (R f) q tk st)"
    "mono_option (\<lambda>f. second_body (R f) arg1 op1 q tk st)"
    "mono_option (\<lambda>f. args_body host (R f) fa q tk st)"
proof -
  have n: "mono_option (\<lambda>f. case r of Go q5 tk5 \<Rightarrow> R f Solve q5 tk5 st2
      | Stop iret5 q5 tk5 \<Rightarrow> Some (Done (iret5, q5, tk5, st2))
      | Second arg1 op1 q5 \<Rightarrow> R f (Second_Value arg1 op1) q5 tk2 st2)" for r tk2 st2
    using assms by (cases r) (auto intro: option.const_mono)
  have a: "mono_option (\<lambda>f. case x of None \<Rightarrow> y | Some fa1 \<Rightarrow> R f (Fun_Args fa1) q3 tk3 st3)" for x y q3 tk3 st3
    using assms by (cases x) (auto intro: option.const_mono)
  show "mono_option (\<lambda>f. solve_body (R f) q tk st)"
    unfolding solve_body_def
    by (intro if_mono and_then_mono run_bind_mono option.const_mono n assms)
  show "mono_option (\<lambda>f. second_body (R f) arg1 op1 q tk st)"
    unfolding second_body_def by (intro if_mono and_then_mono option.const_mono assms)
  show "mono_option (\<lambda>f. args_body host (R f) fa q tk st)"
    unfolding args_body_def
    by (intro if_mono and_then_mono run_bind_mono option.const_mono a assms)
qed

partial_function (option) solve_any ::
    "host \<Rightarrow> solve_call \<Rightarrow> queue \<Rightarrow> string \<Rightarrow> interp \<Rightarrow> solve_result run option" where
  "solve_any host c q token st =
     (case c of
        Solve \<Rightarrow> solve_body (\<lambda>c q tk st. solve_any host c q tk st) q token st
      | Second_Value arg1 op1 \<Rightarrow> second_body (\<lambda>c q tk st. solve_any host c q tk st) arg1 op1 q token st
      | Fun_Args fa \<Rightarrow> args_body host (\<lambda>c q tk st. solve_any host c q tk st) fa q token st)"

declare solve_any.simps [code]

subsection \<open>Reading an expression from the program\<close>

datatype expr_call = Expr | More_Terms | Term | Func | More_Args

type_synonym expr_rec = "expr_call \<Rightarrow> queue \<Rightarrow> interp \<Rightarrow> solve_result run option"

definition next_token :: "interp \<Rightarrow> (token \<times> interp) run option" where
  "next_token st = map_option Done (get_program_token st)"

text \<open>A token is queued, then the reading goes on.\<close>

definition queue_then :: "expr_rec \<Rightarrow> expr_call \<Rightarrow> token \<Rightarrow> queue \<Rightarrow> interp \<Rightarrow> solve_result run option" where
  "queue_then rec c t q st = run_bind (q_token t q) (\<lambda>q1. rec c q1 st)"

definition queue_end :: "token \<Rightarrow> queue \<Rightarrow> interp \<Rightarrow> solve_result run option" where
  "queue_end t q st = run_bind (q_token t q) (\<lambda>q1. go_on q1 (fst t) st)"

text \<open>The term after a sign; its return code is not looked at.\<close>

definition after_sign :: "expr_rec \<Rightarrow> token \<Rightarrow> queue \<Rightarrow> interp \<Rightarrow> solve_result run option" where
  "after_sign rec t q st =
     run_bind (queue_then rec Term t q st) (\<lambda>(iret, q1, tk1, st1). go_on q1 tk1 st1)"

definition term_body :: "expr_rec \<Rightarrow> queue \<Rightarrow> interp \<Rightarrow> solve_result run option" where
  "term_body rec q st = run_bind (next_token st) (\<lambda>(t, st1).
     if is_function (snd t) then queue_then rec Func t q st1
     else if snd t \<in> {TT_VARIABLE, TT_IDENTIFIER, TT_STRING, TT_CONSTANT, TT_NUMBER} then queue_end t q st1
     else if snd t = TT_MINUS then after_sign rec (fst t, TT_UNARY_MINUS) q st1
     else if snd t = TT_PLUS then after_sign rec (fst t, TT_UNARY_PLUS) q st1
     else if snd t = TT_UNARY_ONES_COMPLEMENT then after_sign rec t q st1
     else if snd t = TT_OPEN_PAREN then
       and_then (queue_then rec Expr t q st1) (\<lambda>q2 tk2 st2. run_bind (next_token st2) (\<lambda>(t3, st3).
         if snd t3 = TT_CLOSE_PAREN then queue_end t3 q2 st3 else Some (Done (1, q2, fst t3, st3))))
     else Some (Done (1, q, fst t, st1)))"

definition func_body :: "expr_rec \<Rightarrow> queue \<Rightarrow> interp \<Rightarrow> solve_result run option" where
  "func_body rec q st = run_bind (next_token st) (\<lambda>(t, st1).
     if snd t = TT_OPEN_PAREN then
       run_bind (next_token st1) (\<lambda>(t2, st2).
         if snd t2 = TT_CLOSE_PAREN then queue_end (fst t2, TT_FUNCTION) q st2
         else and_then (rec Expr q (put_program_token st2)) (\<lambda>q3 tk3 st3. rec More_Args q3 st3))
     else Some (Done (1, q, fst t, st1)))"

definition more_args_body :: "expr_rec \<Rightarrow> queue \<Rightarrow> interp \<Rightarrow> solve_result run option" where
  "more_args_body rec q st = run_bind (next_token st) (\<lambda>(t, st1).
     if snd t = TT_CLOSE_PAREN then queue_end (fst t, TT_FUNCTION) q st1
     else if snd t = TT_COMMA then
       and_then (queue_then rec Expr t q st1) (\<lambda>q2 tk2 st2. rec More_Args q2 st2)
     else Some (Done (1, q, fst t, st1)))"

definition more_terms_body :: "expr_rec \<Rightarrow> queue \<Rightarrow> interp \<Rightarrow> solve_result run option" where
  "more_terms_body rec q st = run_bind (next_token st) (\<lambda>(t, st1).
     if is_operator (snd t) then
       and_then (queue_then rec Term t q st1) (\<lambda>q2 tk2 st2. rec More_Terms q2 st2)
     else go_on q (fst t) (put_program_token st1))"

lemma prod_mono [partial_function_mono]:
  "(\<And>a b. mono_option (\<lambda>f. B a b f)) \<Longrightarrow> mono_option (\<lambda>f. case y of (a, b) \<Rightarrow> B a b f)"
  by (cases y) simp

lemma expr_bodies_mono [partial_function_mono]:
  assumes "\<And>c q st. mono_option (\<lambda>f. R f c q st)"
  shows "mono_option (\<lambda>f. term_body (R f) q st)"
    "mono_option (\<lambda>f. func_body (R f) q st)"
    "mono_option (\<lambda>f. more_args_body (R f) q st)"
    "mono_option (\<lambda>f. more_terms_body (R f) q st)"
  unfolding term_body_def func_body_def more_args_body_def more_terms_body_def after_sign_def
    queue_then_def
  by (intro if_mono and_then_mono run_bind_mono prod_mono option.const_mono assms)+

partial_function (option) expr_any :: "expr_call \<Rightarrow> queue \<Rightarrow> interp \<Rightarrow> solve_result run option" where
  "expr_any c q st =
     (case c of
        Expr \<Rightarrow> and_then (expr_any Term q st) (\<lambda>q1 tk1 st1. expr_any More_Terms q1 st1)
      | More_Terms \<Rightarrow> more_terms_body (\<lambda>c q st. expr_any c q st) q st
      | Term \<Rightarrow> term_body (\<lambda>c q st. expr_any c q st) q st
      | Func \<Rightarrow> func_body (\<lambda>c q st. expr_any c q st) q st
      | More_Args \<Rightarrow> more_args_body (\<lambda>c q st. expr_any c q st) q st)"

declare expr_any.simps [code]

text \<open>The return code, what \<open>token\<close> holds and the state.\<close>

definition expression :: "host \<Rightarrow> interp \<Rightarrow> (u32 \<times> string \<times> interp) run option" where
  "expression host st =
     run_bind (and_then (expr_any Expr [] st) (\<lambda>q tk st1. solve_any host Solve q tk st1))
       (\<lambda>(iret, q, tk, st2). Some (Done (iret, tk, st2)))"

end
