(* ===== verification/Control.thy ===== *)
theory Control
  imports Expression
begin

unbundle bit_operations_syntax

section \<open>The commands of a program (execute.c and the commands it calls)\<close>

text \<open>
  \<open>execute\<close> reads a token and calls the command it stands for. A command moves the index of the
  program, writes variables and returns a code; a code other than 0 is followed by the search for
  an error label. Blocks are skipped token by token with a count of the nested ones,
  loops and subroutines keep the index to go back to in a variable whose name has the depth in it.
  The state is \<open>interp\<close>; opening and closing connections and sending are the
  parameter \<open>w_device\<close>, functions of the operating system \<open>w_host\<close>, the time
  \<open>w_now\<close>, and \<open>w_enum\<close> is the size the compiler gives an \<open>enum\<close>.
\<close>

record world =
  w_host :: host
  w_device :: "token_types \<Rightarrow> interp \<Rightarrow> (u32 \<times> bool \<times> interp) run option"
  w_now :: "interp \<Rightarrow> int"
  w_enum :: nat

type_synonym command = "(u32 \<times> interp) run option"

definition return_code :: "u32 \<Rightarrow> interp \<Rightarrow> command" where
  "return_code iret st = Some (Done (iret, st))"

definition program_idx :: "interp \<Rightarrow> string" where
  "program_idx st = print_d (of_nat (st_idx st))"

text \<open>The name of the variable that belongs to the depth \<open>n\<close>.\<close>

definition nest_name :: "string \<Rightarrow> int \<Rightarrow> string" where
  "nest_name s n = s @ ''.'' @ print_d (of_int n)"

definition nest_more :: "int \<Rightarrow> int option" where
  "nest_more n = do { require (n < 2 ^ 31 - 1); Some (n + 1) }"

subsection \<open>Skipping a block\<close>

text \<open>To the closing token of a block or to a token in \<open>stops\<close>, nested blocks left out; the result is the
  kind of the token it ends with.\<close>

function skip_block ::
    "token_types \<Rightarrow> token_types \<Rightarrow> token_types set \<Rightarrow> nat \<Rightarrow> interp \<Rightarrow> (token_types \<times> interp) option" where
  "skip_block open close stops nest st =
     (case get_program_token_no_eval st of
        None \<Rightarrow> None
      | Some ((t, ty), st1) \<Rightarrow>
          if ty = TT_NULL_TOKEN then Some (ty, st1)
          else if ty = open then skip_block open close stops (Suc nest) st1
          else if ty \<in> stops then
            (if nest \<noteq> 0 then skip_block open close stops nest st1 else Some (ty, st1))
          else if ty = close then
            (if nest \<noteq> 0 then skip_block open close stops (nest - 1) st1 else Some (ty, st1))
          else skip_block open close stops nest st1)"
  by pat_completeness auto
termination
  by (relation "measure (\<lambda>(_, _, _, _, st). length (st_prog st) - st_idx st)")
    (auto dest!: get_no_eval_progress)

declare skip_block.simps [simp del]

subsection \<open>IF (if.c)\<close>

text \<open>The code that an \<open>ELSE_IF\<close> returns is not looked at.\<close>

definition if_body :: "world \<Rightarrow> (interp \<Rightarrow> command) \<Rightarrow> interp \<Rightarrow> command" where
  "if_body w rec st = run_bind (expression (w_host w) st) (\<lambda>(iret, token, st1).
     if iret \<noteq> 0 then return_code iret st1
     else if st_syntax st1 then return_code 0 st1
     else do {
       c \<leftarrow> atoi token;
       if c \<noteq> 0 then return_code 0 st1
       else do {
         (ty, st2) \<leftarrow> skip_block TT_IF TT_END_IF {TT_ELSE, TT_ELSE_IF} 0 st1;
         if ty = TT_NULL_TOKEN then return_code 1 st2
         else if ty = TT_ELSE_IF then run_bind (rec st2) (\<lambda>(_, st3). return_code 0 st3)
         else return_code 0 st2
       }
     })"

lemma if_body_mono [partial_function_mono]:
  assumes "\<And>st. mono_option (\<lambda>f. R f st)"
  shows "mono_option (\<lambda>f. if_body w (R f) st)"
  unfolding if_body_def
  by (intro run_bind_mono prod_mono if_mono bind_mono option.const_mono assms)

partial_function (option) cmd_if :: "world \<Rightarrow> interp \<Rightarrow> command" where
  "cmd_if w st = if_body w (\<lambda>st. cmd_if w st) st"

declare cmd_if.simps [code]

text \<open>\<open>ELSE\<close> and \<open>ELSE_IF\<close> when they are reached: to the end of the block. The code is always 0.\<close>

definition cmd_else :: "interp \<Rightarrow> command" where
  "cmd_else st = do { (ty, st1) \<leftarrow> skip_block TT_IF TT_END_IF {} 0 st; return_code 0 st1 }"

definition cmd_else_if :: "interp \<Rightarrow> command" where
  "cmd_else_if st = do { (ty, st1) \<leftarrow> skip_block TT_IF TT_END_IF {} 0 st; return_code 0 st1 }"

subsection \<open>WHILE (while.c)\<close>

definition while_skip :: "interp \<Rightarrow> command" where
  "while_skip st = do {
     (ty, st1) \<leftarrow> skip_block TT_WHILE TT_END_WHILE {} 0 st;
     if ty = TT_NULL_TOKEN then return_code 1 st1
     else return_code 0 (st1\<lparr>st_while := st_while st1 - 1\<rparr>)
   }"

text \<open>The index kept is that of the \<open>WHILE\<close> itself, so it is read again after \<open>END_WHILE\<close>.\<close>

definition while_test :: "world \<Rightarrow> interp \<Rightarrow> command" where
  "while_test w st = run_bind (expression (w_host w) st) (\<lambda>(iret, token, st1).
     if iret \<noteq> 0 then return_code iret st1
     else if st_syntax st1 then return_code 0 st1
     else do {
       c \<leftarrow> atoi token;
       if c \<noteq> 0 then return_code 0 st1 else while_skip st1
     })"

definition cmd_while :: "world \<Rightarrow> interp \<Rightarrow> command" where
  "cmd_while w st = do {
     n \<leftarrow> nest_more (st_while st);
     let st1 = put_program_token (st\<lparr>st_while := n\<rparr>);
     run_bind (put_var st1 (nest_name ''WHILE'' n) (program_idx st1) 0 VT_SC) (\<lambda>st2.
     run_bind (next_token st2) (\<lambda>(t, st3). while_test w st3))
   }"

definition cmd_end_while :: "interp \<Rightarrow> command" where
  "cmd_end_while st =
     (if st_while st < 1 then return_code 0 st
      else if st_syntax st then return_code 0 st
      else do {
        (iret, valu) \<leftarrow> get_var st (nest_name ''WHILE'' (st_while st)) VT_SC;
        if iret \<noteq> 0 then return_code iret st
        else do {
          x \<leftarrow> sscanf_d valu 0;
          return_code 0 ((set_program_token_idx st x)\<lparr>st_while := st_while st - 1\<rparr>)
        }
      })"

definition while_reset :: "interp \<Rightarrow> interp" where
  "while_reset st = st\<lparr>st_while := 0\<rparr>"

subsection \<open>FOR (for.c)\<close>

definition for_step :: "world \<Rightarrow> interp \<Rightarrow> (u32 \<times> string \<times> interp) run option" where
  "for_step w st = run_bind (next_token st) (\<lambda>(t, st1).
     if snd t = TT_STEP then expression (w_host w) st1
     else Some (Done (0, ''1'', put_program_token st1)))"

text \<open>Nothing is undone when a part is missing: the code, the start and the end found so far.\<close>

definition for_rest :: "world \<Rightarrow> string \<Rightarrow> u32 \<Rightarrow> interp \<Rightarrow> (u32 \<times> u32 \<times> interp) run option" where
  "for_rest w tk y st =
     run_bind (put_var st (nest_name ''TO'' (st_for st)) tk (of_nat (length tk)) VT_SC) (\<lambda>st3.
     run_bind (for_step w st3) (\<lambda>(iret, tk4, st4).
     run_bind (put_var st4 (nest_name ''STEP'' (st_for st4)) tk4 (of_nat (length tk4)) VT_SC) (\<lambda>st5.
     run_bind (put_var st5 (nest_name ''FOR'' (st_for st5)) (program_idx st5) 0 VT_SC) (\<lambda>st6.
     Some (Done (iret, y, st6))))))"

definition for_to :: "world \<Rightarrow> interp \<Rightarrow> (u32 \<times> u32 \<times> interp) run option" where
  "for_to w st = run_bind (next_token st) (\<lambda>(t, st1).
     if snd t = TT_TO then
       run_bind (expression (w_host w) st1) (\<lambda>(iret, tk, st2).
         if iret \<noteq> 0 then Some (Done (iret, 0, st2))
         else do { y \<leftarrow> sscanf_d tk 0; for_rest w tk y st2 })
     else Some (Done (1, 0, st1)))"

definition for_from :: "world \<Rightarrow> string \<Rightarrow> interp \<Rightarrow> (u32 \<times> u32 \<times> u32 \<times> interp) run option" where
  "for_from w name st = run_bind (next_token st) (\<lambda>(t, st1).
     if snd t = TT_ASSIGN then
       run_bind (expression (w_host w) st1) (\<lambda>(iret, tk, st2).
         if iret \<noteq> 0 then Some (Done (iret, 0, 0, st2))
         else do {
           x \<leftarrow> sscanf_d tk 0;
           run_bind (put_var st2 name tk (of_nat (length tk)) VT_USER) (\<lambda>st3.
           run_bind (for_to w st3) (\<lambda>(iret4, y, st4). Some (Done (iret4, x, y, st4))))
         })
     else Some (Done (1, 0, 0, st1)))"

text \<open>To the \<open>NEXT\<close> of the variable, whatever stands in between.\<close>

function for_skip :: "string \<Rightarrow> bool \<Rightarrow> interp \<Rightarrow> (bool \<times> interp) option" where
  "for_skip name flag st =
     (case get_program_token_no_eval st of
        None \<Rightarrow> None
      | Some ((t, ty), st1) \<Rightarrow>
          if ty = TT_NULL_TOKEN then Some (False, st1)
          else if flag then (if cstr t = name then Some (True, st1) else for_skip name False st1)
          else for_skip name (ty = TT_NEXT) st1)"
  by pat_completeness auto
termination
  by (relation "measure (\<lambda>(_, _, st). length (st_prog st) - st_idx st)")
    (auto dest!: get_no_eval_progress)

declare for_skip.simps [simp del]

definition for_end :: "string \<Rightarrow> u32 \<Rightarrow> interp \<Rightarrow> command" where
  "for_end name iret st = do {
     (found, st1) \<leftarrow> for_skip name False (st\<lparr>st_for := st_for st - 1\<rparr>);
     if found then return_code iret st1 else return_code 1 (st1\<lparr>st_idx := st_idx st\<rparr>)
   }"

definition cmd_for :: "world \<Rightarrow> interp \<Rightarrow> command" where
  "cmd_for w st = do {
     n \<leftarrow> nest_more (st_for st);
     run_bind (next_token (st\<lparr>st_for := n\<rparr>)) (\<lambda>(t, st1).
     run_bind (if snd t = TT_IDENTIFIER then for_from w (cstr (fst t)) st1 else Some (Done (1, 0, 0, st1)))
       (\<lambda>(iret, x, y, st2).
         if sint x > sint y then for_end (cstr (fst t)) iret st2 else return_code iret st2))
   }"

text \<open>A missing internal variable ends the process.\<close>

definition for_var :: "string \<Rightarrow> interp \<Rightarrow> u32 run option" where
  "for_var s st = do {
     (iret, valu) \<leftarrow> get_var st (nest_name s (st_for st)) VT_SC;
     if iret \<noteq> 0 then Some Exit else do { x \<leftarrow> sscanf_d valu 0; Some (Done x) }
   }"

definition next_round :: "string \<Rightarrow> int \<Rightarrow> interp \<Rightarrow> command" where
  "next_round name x st = run_bind (put_var st name (print_d (of_int x)) 0 VT_USER) (\<lambda>st1.
     run_bind (for_var ''FOR'' st1) (\<lambda>i. return_code 0 (set_program_token_idx st1 i)))"

definition cmd_next :: "interp \<Rightarrow> command" where
  "cmd_next st = run_bind (next_token st) (\<lambda>(t, st1). do {
     (iret, valu) \<leftarrow> get_var st1 (cstr (fst t)) VT_USER;
     if iret \<noteq> 0 then return_code iret st1
     else if st_syntax st1 then return_code 0 st1
     else do {
       x \<leftarrow> sscanf_d valu 0;
       run_bind (for_var ''TO'' st1) (\<lambda>y. run_bind (for_var ''STEP'' st1) (\<lambda>z. do {
         require (- (2 ^ 31) \<le> sint x + sint z \<and> sint x + sint z < 2 ^ 31);
         if sint x + sint z \<le> sint y then next_round (cstr (fst t)) (sint x + sint z) st1
         else return_code 0 (st1\<lparr>st_for := st_for st1 - 1\<rparr>)
       }))
     }
   })"

definition for_reset :: "interp \<Rightarrow> interp" where
  "for_reset st = st\<lparr>st_for := 0\<rparr>"

subsection \<open>BREAK_LOOP and CONTINUE (break.c, continue.c)\<close>

text \<open>To the end of the innermost loop around, or to the end of the program's section.\<close>

function loop_end :: "nat \<Rightarrow> nat \<Rightarrow> interp \<Rightarrow> (token_types \<times> interp) option" where
  "loop_end fors whiles st =
     (case get_program_token_no_eval st of
        None \<Rightarrow> None
      | Some ((t, ty), st1) \<Rightarrow>
          if ty = TT_NULL_TOKEN \<or> ty \<in> {TT_AFTER, TT_BEGIN, TT_END, TT_LABEL} then Some (ty, st1)
          else if ty = TT_FOR then loop_end (Suc fors) whiles st1
          else if ty = TT_WHILE then loop_end fors (Suc whiles) st1
          else if ty = TT_NEXT then
            (if fors \<noteq> 0 then loop_end (fors - 1) whiles st1 else Some (ty, st1))
          else if ty = TT_END_WHILE then
            (if whiles \<noteq> 0 then loop_end fors (whiles - 1) st1 else Some (ty, st1))
          else loop_end fors whiles st1)"
  by pat_completeness auto
termination
  by (relation "measure (\<lambda>(_, _, st). length (st_prog st) - st_idx st)")
    (auto dest!: get_no_eval_progress)

declare loop_end.simps [simp del]

definition cmd_break_loop :: "interp \<Rightarrow> interp option" where
  "cmd_break_loop st =
     (if st_syntax st then Some st
      else do {
        (ty, st1) \<leftarrow> loop_end 0 0 st;
        if ty = TT_NEXT then map_option snd (get_program_token_no_eval st1)
        else if ty = TT_END_WHILE then Some (st1\<lparr>st_while := st_while st1 - 1\<rparr>)
        else Some (put_program_token st1)
      })"

definition cmd_continue :: "interp \<Rightarrow> command" where
  "cmd_continue st = do {
     (ty, st1) \<leftarrow> loop_end 0 0 st;
     return_code 0 (if ty = TT_NEXT \<or> ty = TT_END_WHILE then put_program_token st1 else st1)
   }"

end
