(* ===== verification/Commands.thy ===== *)
theory Commands
  imports Control
begin

unbundle bit_operations_syntax

section \<open>Commands without blocks (goto.c, gosub.c, let.c, define.c and others)\<close>

text \<open>
  Assignments, jumps and subroutines. A \<open>GOSUB\<close> queues its arguments as bytes (kind, length, data),
  moves to the label and assigns them to the names it finds there. The timers and settings
  of \<^verbatim>\<open>timers.c\<close>, \<^verbatim>\<open>sleep.c\<close> and \<^verbatim>\<open>pragma.c\<close> take options in any order.
\<close>

subsection \<open>Assignments\<close>

definition assign :: "world \<Rightarrow> string \<Rightarrow> var_types \<Rightarrow> interp \<Rightarrow> command" where
  "assign w name ty st = run_bind (expression (w_host w) st) (\<lambda>(iret, tk, st1).
     if iret \<noteq> 0 then return_code iret st1
     else run_bind (put_var st1 name tk (of_nat (length tk)) ty) (return_code 0))"

definition let_var :: "world \<Rightarrow> var_types \<Rightarrow> interp \<Rightarrow> command" where
  "let_var w ty st = run_bind (next_token st) (\<lambda>(n, st1).
     if snd n = TT_IDENTIFIER \<or> snd n = TT_VARIABLE then
       run_bind (next_token st1) (\<lambda>(t, st2).
         if snd t = TT_ASSIGN then assign w (cstr (fst n)) ty st2 else return_code 1 st2)
     else return_code 1 st1)"

definition cmd_let :: "world \<Rightarrow> interp \<Rightarrow> command" where
  "cmd_let w st = let_var w VT_USER st"

definition cmd_glet :: "world \<Rightarrow> interp \<Rightarrow> command" where
  "cmd_glet w st = let_var w VT_USER_GLOBAL st"

definition cmd_define :: "world \<Rightarrow> interp \<Rightarrow> command" where
  "cmd_define w st = let_var w VT_USER_DEFINE st"

text \<open>Without a value the token behind the name is taken all the same.\<close>

definition cmd_local_var :: "world \<Rightarrow> interp \<Rightarrow> command" where
  "cmd_local_var w st = run_bind (next_token st) (\<lambda>(n, st1).
     if snd n = TT_IDENTIFIER \<or> snd n = TT_VARIABLE then
       run_bind (next_token st1) (\<lambda>(t, st2).
         if snd t = TT_ASSIGN then assign w (cstr (fst n)) VT_USER_LOCAL st2
         else run_bind (put_var st2 (cstr (fst n)) [] 0 VT_USER_LOCAL) (return_code 0))
     else return_code 1 st1)"

definition element :: "string \<Rightarrow> string \<Rightarrow> string" where
  "element name i = cstr name @ ''['' @ cstr i @ '']''"

text \<open>The values of an array up to the first token that is no comma, and their number.\<close>

definition array_body ::
    "world \<Rightarrow> string \<Rightarrow> (u32 \<Rightarrow> interp \<Rightarrow> (u32 \<times> u32 \<times> interp) run option) \<Rightarrow> u32 \<Rightarrow> interp \<Rightarrow>
     (u32 \<times> u32 \<times> interp) run option" where
  "array_body w name rec index st = run_bind (expression (w_host w) st) (\<lambda>(iret, v, st1).
     if iret \<noteq> 0 then Some (Done (iret, index, st1))
     else run_bind (put_var st1 (element name (print_d (index + 1))) v (of_nat (length v)) VT_USER_DEFINE) (\<lambda>st2.
       run_bind (next_token st2) (\<lambda>(t, st3).
         if snd t = TT_COMMA then rec (index + 1) st3
         else Some (Done (0, index + 1, put_program_token st3)))))"

lemma array_body_mono [partial_function_mono]:
  assumes "\<And>i st. mono_option (\<lambda>f. R f i st)"
  shows "mono_option (\<lambda>f. array_body w name (R f) i st)"
  unfolding array_body_def
  by (intro run_bind_mono prod_mono if_mono option.const_mono assms)

partial_function (option) array_loop ::
    "world \<Rightarrow> string \<Rightarrow> u32 \<Rightarrow> interp \<Rightarrow> (u32 \<times> u32 \<times> interp) run option" where
  "array_loop w name index st = array_body w name (\<lambda>i st. array_loop w name i st) index st"

declare array_loop.simps [code]

definition cmd_define_array :: "world \<Rightarrow> interp \<Rightarrow> command" where
  "cmd_define_array w st = run_bind (next_token st) (\<lambda>(n, st1).
     if snd n = TT_IDENTIFIER \<or> snd n = TT_VARIABLE then
       run_bind (next_token st1) (\<lambda>(t, st2).
         if snd t = TT_ASSIGN then
           run_bind (array_loop w (fst n) 0 st2) (\<lambda>(iret, index, st3).
           run_bind (put_var st3 (element (fst n) ''0'') (print_d index) 0 VT_USER_DEFINE) (return_code iret))
         else return_code 1 st2)
     else return_code 1 st1)"

text \<open>A pair of values is stored both ways. A missing comma is reported and returns 0.\<close>

definition xref_second :: "world \<Rightarrow> string \<Rightarrow> string \<Rightarrow> interp \<Rightarrow> command" where
  "xref_second w name v1 st = run_bind (expression (w_host w) st) (\<lambda>(iret, v2, st1).
     if iret \<noteq> 0 then return_code iret st1
     else run_bind (put_var st1 (element name v1) v2 (of_nat (length v2)) VT_USER_DEFINE) (\<lambda>st2.
          run_bind (put_var st2 (element name v2) v1 (of_nat (length v1)) VT_USER_DEFINE) (return_code 0)))"

definition cmd_define_xref :: "world \<Rightarrow> interp \<Rightarrow> command" where
  "cmd_define_xref w st = run_bind (next_token st) (\<lambda>(n, st1).
     if snd n = TT_IDENTIFIER \<or> snd n = TT_VARIABLE then
       run_bind (next_token st1) (\<lambda>(t, st2).
         if snd t = TT_ASSIGN then
           run_bind (expression (w_host w) st2) (\<lambda>(iret, v1, st3).
             if iret \<noteq> 0 then return_code iret st3
             else run_bind (next_token st3) (\<lambda>(c, st4).
               if snd c = TT_COMMA then xref_second w (fst n) v1 st4 else return_code 0 st4))
         else return_code 1 st2)
     else return_code 1 st1)"

definition cmd_delete :: "interp \<Rightarrow> command" where
  "cmd_delete st = run_bind (next_token st) (\<lambda>(t, st1).
     if snd t \<in> {TT_IDENTIFIER, TT_VARIABLE, TT_STRING} then do {
       vars \<leftarrow> variable_delete (scope_of st1) (st_vars st1) (cstr (fst t));
       return_code 0 (st1\<lparr>st_vars := vars\<rparr>)
     }
     else return_code 1 st1)"

definition cmd_print :: "world \<Rightarrow> interp \<Rightarrow> command" where
  "cmd_print w st = run_bind (expression (w_host w) st) (\<lambda>(iret, tk, st1). return_code iret st1)"

subsection \<open>GOTO, GOSUB, RETURN (goto.c, gosub.c)\<close>

definition cmd_goto :: "world \<Rightarrow> interp \<Rightarrow> command" where
  "cmd_goto w st = run_bind (expression (w_host w) st) (\<lambda>(iret, tk, st1).
     if iret \<noteq> 0 then return_code iret st1
     else do {
       (r, valu) \<leftarrow> get_var st1 (cstr tk) VT_LABEL;
       if r \<noteq> 0 then return_code 1 st1
       else if st_syntax st1 then return_code 0 st1
       else do { num \<leftarrow> sscanf_u valu 0; return_code 0 (set_program_token_idx st1 num) }
     })"

text \<open>An argument in the queue. \<open>sizeof (type)\<close> bytes are copied from a variable of one byte.\<close>

definition queue_arg :: "nat \<Rightarrow> token_types \<Rightarrow> string \<Rightarrow> byte list \<Rightarrow> byte list option" where
  "queue_arg sz ty s stack = do {
     require (sz = 1);
     Some (stack @ [ty] @ le_bytes 4 (length s) @ bytes_of s)
   }"

text \<open>The arguments up to the end of the line: code, queue and number. An identifier is queued with the
  name of the variable it stands for. The end of the program is an argument like any other.\<close>

definition gosub_body ::
    "world \<Rightarrow> (u32 \<Rightarrow> byte list \<Rightarrow> nat \<Rightarrow> interp \<Rightarrow> (u32 \<times> byte list \<times> nat \<times> interp) run option) \<Rightarrow>
     u32 \<Rightarrow> byte list \<Rightarrow> nat \<Rightarrow> interp \<Rightarrow> (u32 \<times> byte list \<times> nat \<times> interp) run option" where
  "gosub_body w rec iret stack cnt st = run_bind (next_token st) (\<lambda>(t, st1).
     if snd t = TT_END_OF_LINE then Some (Done (iret, stack, cnt, st1))
     else if snd t = TT_COMMA then rec iret stack cnt st1
     else if snd t = TT_IDENTIFIER then do {
       (r, valu) \<leftarrow> get_var st1 (cstr (fst t)) VT_USER_REF;
       if r \<noteq> 0 then Some (Done (r, stack, cnt, st1))
       else do {
         stack1 \<leftarrow> queue_arg (w_enum w) TT_IDENTIFIER valu stack;
         rec r stack1 (Suc cnt) st1
       }
     }
     else do {
       stack1 \<leftarrow> queue_arg (w_enum w) (snd t) (fst t) stack;
       rec iret stack1 (Suc cnt) st1
     })"

lemma gosub_body_mono [partial_function_mono]:
  assumes "\<And>r s c st. mono_option (\<lambda>f. R f r s c st)"
  shows "mono_option (\<lambda>f. gosub_body w (R f) r s c st)"
  unfolding gosub_body_def
  by (intro run_bind_mono prod_mono if_mono bind_mono option.const_mono assms)

partial_function (option) gosub_args ::
    "world \<Rightarrow> u32 \<Rightarrow> byte list \<Rightarrow> nat \<Rightarrow> interp \<Rightarrow> (u32 \<times> byte list \<times> nat \<times> interp) run option" where
  "gosub_args w iret stack cnt st =
     gosub_body w (\<lambda>r s c st. gosub_args w r s c st) iret stack cnt st"

declare gosub_args.simps [code]

text \<open>An argument taken from the queue is assigned to a name.\<close>

definition take_arg :: "string \<Rightarrow> byte list \<Rightarrow> interp \<Rightarrow> (byte list \<times> interp) run option" where
  "take_arg name stack st = do {
     require (5 \<le> length stack);
     let n = le_val (take 4 (drop 1 stack));
     require (n \<le> length stack - 5);
     let s = text_of (take n (drop 5 stack));
     run_bind (put_var st (cstr name) s (of_nat n) (if hd stack = TT_IDENTIFIER then VT_USER_REF else VT_USER_LOCAL))
       (\<lambda>st1. Some (Done (drop (5 + n) stack, st1)))
   }"

lemma take_arg_same:
  "take_arg name stack st = Some (Done (stack1, st1)) \<Longrightarrow> st_prog st1 = st_prog st \<and> st_idx st1 = st_idx st"
  by (auto simp: take_arg_def Let_def run_bind_def split: option.splits run.splits if_splits bind_splits
      dest!: put_var_same)

function gosub_params :: "u32 \<Rightarrow> byte list \<Rightarrow> nat \<Rightarrow> interp \<Rightarrow> (u32 \<times> nat \<times> interp) run option" where
  "gosub_params iret stack cnt st =
     (case get_program_token st of
        None \<Rightarrow> None
      | Some ((t, ty), st1) \<Rightarrow>
          if ty = TT_END_OF_LINE then Some (Done (iret, cnt, st1))
          else if ty = TT_COMMA then gosub_params iret stack cnt st1
          else if ty = TT_IDENTIFIER then
            (if cnt = 0 then Some (Done (1, 0, st1))
             else case take_arg t stack st1 of
                    None \<Rightarrow> None
                  | Some Exit \<Rightarrow> Some Exit
                  | Some (Done (stack1, st2)) \<Rightarrow> gosub_params iret stack1 (cnt - 1) st2)
          else Some (Done (1, 0, st1)))"
  by pat_completeness auto
termination
  by (relation "measure (\<lambda>(_, _, _, st). length (st_prog st) - st_idx st)")
    (auto dest!: get_progress take_arg_same)

declare gosub_params.simps [simp del]

text \<open>The index of the label, 0 if there is none, and the code.\<close>

definition gosub_label :: "interp \<Rightarrow> string \<Rightarrow> (u32 \<times> u32) option" where
  "gosub_label st name = do {
     (r, valu) \<leftarrow> get_var st (cstr name) VT_LABEL;
     if r \<noteq> 0 then Some (r, 0) else do { idx \<leftarrow> sscanf_u valu 0; Some (0, idx) }
   }"

definition gosub_jump :: "u32 \<Rightarrow> u32 \<Rightarrow> byte list \<Rightarrow> nat \<Rightarrow> interp \<Rightarrow> command" where
  "gosub_jump iret idx stack cnt st = do {
     n \<leftarrow> nest_more (st_gosub st);
     let st1 = st\<lparr>st_gosub := n\<rparr>;
     run_bind (put_var st1 (nest_name ''RETURN'' n) (program_idx st1) 0 VT_SC) (\<lambda>st2.
     run_bind (gosub_params iret stack cnt (set_program_token_idx st2 idx)) (\<lambda>(iret1, rest, st3).
     return_code (if 0 < rest then 1 else iret1)
       (if st_syntax st3 then st3\<lparr>st_idx := st_idx st1\<rparr> else st3)))
   }"

definition cmd_gosub :: "world \<Rightarrow> interp \<Rightarrow> command" where
  "cmd_gosub w st = run_bind (next_token st) (\<lambda>(t, st1). do {
     (r, idx) \<leftarrow> gosub_label st1 (fst t);
     run_bind (gosub_args w r [] 0 st1) (\<lambda>(iret, stack, cnt, st2). gosub_jump iret idx stack cnt st2)
   })"

definition cmd_return :: "interp \<Rightarrow> command" where
  "cmd_return st =
     (if st_syntax st then return_code 0 st
      else if st_gosub st < 1 then return_code 0 st
      else do {
        (iret, valu) \<leftarrow> get_var st (nest_name ''RETURN'' (st_gosub st)) VT_SC;
        if iret \<noteq> 0 then return_code iret st
        else do {
          x \<leftarrow> sscanf_d valu 0;
          return_code 0 ((set_program_token_idx st x)\<lparr>st_gosub := st_gosub st - 1\<rparr>)
        }
      })"

definition gosub_reset :: "interp \<Rightarrow> interp" where
  "gosub_reset st = st\<lparr>st_gosub := 0\<rparr>"

end
