(* ===== verification/Execute.thy ===== *)
theory Execute
  imports Commands
begin

unbundle bit_operations_syntax

section \<open>Running a program (execute.c, resume.c, timers.c, sleep.c, pragma.c)\<close>

text \<open>
  The commands that start and stop timers, the loop \<open>execute\<close> over the commands of a program and
  what it does with their return codes. The loop may run for ever: it is a function on options, \<open>None\<close>
  being also the value of a run that never ends.
\<close>

subsection \<open>Timers, SLEEP and PRAGMA\<close>

text \<open>The value behind an option and an equals sign.\<close>

definition option_value :: "interp \<Rightarrow> (string option \<times> interp) option" where
  "option_value st = do {
     ((t, ty), st1) \<leftarrow> get_program_token st;
     if ty = TT_ASSIGN then do {
       ((v, tv), st2) \<leftarrow> get_program_token st1;
       Some (Some (cstr v), st2)
     }
     else Some (None, put_program_token st1)
   }"

text \<open>\<open>ta_handler\<close> is an array that is not initialised; what it holds after a copy of 31 characters
  has no NUL.\<close>

record timer_args =
  ta_idx :: u32
  ta_seconds :: u32
  ta_program :: u32
  ta_handler :: "string option"
  ta_msg :: string

definition set_timer_idx :: "timer_args \<Rightarrow> string \<Rightarrow> timer_args option option" where
  "set_timer_idx a v = do {
     i \<leftarrow> atoi v;
     Some (if 0 \<le> sint i \<and> sint i \<le> 9 then Some (a\<lparr>ta_idx := i\<rparr>) else None)
   }"

definition set_handler :: "interp \<Rightarrow> timer_args \<Rightarrow> string \<Rightarrow> timer_args option option" where
  "set_handler st a v = do {
     let a1 = a\<lparr>ta_handler := (if length v < 31 then Some v else None)\<rparr>;
     (r, valu) \<leftarrow> get_var st v VT_LABEL;
     if r \<noteq> 0 then Some (Some a1)
     else do { num \<leftarrow> sscanf_u valu 0; Some (Some (a1\<lparr>ta_program := num\<rparr>)) }
   }"

text \<open>An option; the inner \<open>None\<close> is an error.\<close>

definition timer_option :: "interp \<Rightarrow> string \<Rightarrow> timer_args \<Rightarrow> string \<Rightarrow> timer_args option option" where
  "timer_option st name a v =
     (if name = ''timer'' then set_timer_idx a v
      else if name = ''seconds'' then do { s \<leftarrow> atoi v; Some (Some (a\<lparr>ta_seconds := s\<rparr>)) }
      else if name = ''handler'' then set_handler st a v
      else Some (if 128 \<le> length v then None else Some (a\<lparr>ta_msg := v\<rparr>)))"

lemma option_value_progress:
  "option_value st = Some (v, st1) \<Longrightarrow> st_idx st1 \<ge> st_idx st \<and> st_prog st1 = st_prog st"
  by (auto simp: option_value_def put_program_token_def get_program_token_def get_program_token_no_eval_def Let_def
      split: if_splits bind_splits)

text \<open>A token that is no option is passed over.\<close>

function timer_options :: "timer_args \<Rightarrow> interp \<Rightarrow> (u32 \<times> timer_args \<times> interp) option" where
  "timer_options a st =
     (case get_program_token st of
        None \<Rightarrow> None
      | Some ((t, ty), st1) \<Rightarrow>
          if ty = TT_END_OF_LINE \<or> ty = TT_NULL_TOKEN then Some (0, a, st1)
          else if cstr t \<notin> {''timer'', ''seconds'', ''handler'', ''msg''} then timer_options a st1
          else (case option_value st1 of
                  None \<Rightarrow> None
                | Some (None, st2) \<Rightarrow> Some (1, a, st2)
                | Some (Some v, st2) \<Rightarrow>
                    (case timer_option st2 (cstr t) a v of
                       None \<Rightarrow> None
                     | Some None \<Rightarrow> Some (1, a, st2)
                     | Some (Some a1) \<Rightarrow> timer_options a1 st2)))"
  by pat_completeness auto
termination
  by (relation "measure (\<lambda>(_, st). length (st_prog st) - st_idx st)")
    (auto dest!: get_progress option_value_progress)

declare timer_options.simps [simp del]

definition timer_comment :: "u32 \<Rightarrow> string \<Rightarrow> string \<Rightarrow> string" where
  "timer_comment idx ln handler =
     ''Timer <'' @ print_d idx @ ''> started at line <'' @ ln @ ''> has timed-out, jumping to label <'' @ handler @ ''>''"

definition run_timer :: "world \<Rightarrow> interp \<Rightarrow> int \<Rightarrow> int \<Rightarrow> u32 \<Rightarrow> string \<Rightarrow> string \<Rightarrow> interp run" where
  "run_timer w st idx seconds prog msg comment =
     (case start_timer (w_now w st) (st_timers st) idx seconds prog msg comment of
        Exit \<Rightarrow> Exit
      | Done (ts, i, tmo) \<Rightarrow> Done (st\<lparr>st_timers := ts\<rparr>))"

definition cmd_start_timer :: "world \<Rightarrow> interp \<Rightarrow> command" where
  "cmd_start_timer w st = do {
     (iret, a, st1) \<leftarrow> timer_options \<lparr>ta_idx = 0, ta_seconds = 0, ta_program = 0, ta_handler = None, ta_msg = []\<rparr> st;
     if iret \<noteq> 0 then return_code iret st1
     else do {
       handler \<leftarrow> ta_handler a;
       run_bind (Some (run_timer w st1 (sint (ta_idx a)) (sint (ta_seconds a)) (ta_program a) (ta_msg a)
           (timer_comment (ta_idx a) (st_line st1) handler))) (return_code 0)
     }
   }"

function stop_options :: "u32 \<Rightarrow> interp \<Rightarrow> (u32 \<times> u32 \<times> interp) option" where
  "stop_options idx st =
     (case get_program_token st of
        None \<Rightarrow> None
      | Some ((t, ty), st1) \<Rightarrow>
          if ty = TT_END_OF_LINE \<or> ty = TT_NULL_TOKEN then Some (0, idx, st1)
          else if cstr t \<noteq> ''timer'' then stop_options idx st1
          else (case option_value st1 of
                  None \<Rightarrow> None
                | Some (None, st2) \<Rightarrow> Some (1, idx, st2)
                | Some (Some v, st2) \<Rightarrow>
                    (case atoi v of
                       None \<Rightarrow> None
                     | Some i \<Rightarrow> if 0 \<le> sint i \<and> sint i < int MAX_TIMERS then stop_options i st2
                                 else Some (1, idx, st2))))"
  by pat_completeness auto
termination
  by (relation "measure (\<lambda>(_, st). length (st_prog st) - st_idx st)")
    (auto dest!: get_progress option_value_progress)

declare stop_options.simps [simp del]

definition cmd_stop_timer :: "interp \<Rightarrow> command" where
  "cmd_stop_timer st = do {
     (iret, idx, st1) \<leftarrow> stop_options 0 st;
     if iret \<noteq> 0 then return_code iret st1
     else do {
       ts \<leftarrow> stop_timer (st_timers st1) (unat idx);
       return_code 0 (st1\<lparr>st_timers := ts\<rparr>)
     }
   }"

definition pragma_names :: "string list" where
  "pragma_names = [''LOG_CPU_USAGE'', ''SHOW_NON_PRINTING_CHARS_IN_BRACES'', ''NO_BLOCK_ON_SLEEP'',
     ''NO_SOURCE_CODE_LINE_NUMBERS'']"

definition is_pragma :: "interp \<Rightarrow> nat \<Rightarrow> bool" where
  "is_pragma st code = st_pragma st ! code"

definition pragma_index :: "string \<Rightarrow> nat option" where
  "pragma_index s = List.find (\<lambda>i. cstr s = pragma_names ! i) [0..<4]"

lemma pragma_index_Nil: "pragma_index [] = None"
  by code_simp

lemma null_text: "get_program_token st = Some ((t, TT_NULL_TOKEN), st1) \<Longrightarrow> t = []"
  by (auto simp: get_program_token_def get_program_token_no_eval_def decode_program_token_def text_kinds_def Let_def
      split: if_splits bind_splits list.splits)

lemma pragma_progress:
  assumes "get_program_token st = Some ((t, ty), st1)" "pragma_index t = Some i"
  shows "st_idx st < st_idx st1 \<and> st_idx st < length (st_prog st) \<and> st_prog st1 = st_prog st"
proof -
  have "ty \<noteq> TT_NULL_TOKEN"
  proof
    assume "ty = TT_NULL_TOKEN"
    then have "t = []" using assms(1) null_text by simp
    then show False using assms(2) pragma_index_Nil by simp
  qed
  then show ?thesis using get_progress [OF assms(1)] by simp
qed

function cmd_pragma :: "interp \<Rightarrow> (u32 \<times> interp) option" where
  "cmd_pragma st =
     (case get_program_token st of
        None \<Rightarrow> None
      | Some ((t, ty), st1) \<Rightarrow>
          if ty = TT_END_OF_LINE then Some (0, st1)
          else (case pragma_index t of
                  None \<Rightarrow> Some (1, st1)
                | Some i \<Rightarrow> cmd_pragma (st1\<lparr>st_pragma := (st_pragma st1)[i := True]\<rparr>)))"
  by pat_completeness auto
termination
  by (relation "measure (\<lambda>st. length (st_prog st) - st_idx st)") (auto dest!: pragma_progress)

declare cmd_pragma.simps [simp del]

text \<open>\<open>SLEEP\<close> waits, or starts a timer and leaves \<open>execute\<close>; the code, the flag and the state.\<close>

definition sleep_for :: "world \<Rightarrow> string \<Rightarrow> interp \<Rightarrow> (u32 \<times> bool \<times> interp) run option" where
  "sleep_for w tk st =
     (if scan_num tk = None then Some (Done (1, False, st))
      else do {
        x \<leftarrow> sscanf_u tk 0;
        if is_pragma st 2 then
          run_bind (Some (run_timer w st (- 1) (uint x) (of_nat (st_idx st)) ''Resuming'' ''Sleep is over''))
            (\<lambda>st1. Some (Done (0, True, st1)))
        else Some (Done (0, False, st))
      })"

definition cmd_sleep :: "world \<Rightarrow> interp \<Rightarrow> (u32 \<times> bool \<times> interp) run option" where
  "cmd_sleep w st = run_bind (expression (w_host w) st) (\<lambda>(iret, tk, st1).
     if st_syntax st1 then Some (Done (iret, False, st1))
     else if iret \<noteq> 0 then Some (Done (iret, False, st1))
     else sleep_for w tk st1)"

subsection \<open>Errors\<close>

text \<open>Where to go on after an error: the code, the index (not initialised if the equals sign is
  missing) and the state.\<close>

definition label_idx :: "interp \<Rightarrow> string \<Rightarrow> (u32 \<times> u32) option" where
  "label_idx st name = do {
     (r, valu) \<leftarrow> get_var st name VT_LABEL;
     if r \<noteq> 0 then Some (r, 0) else do { num \<leftarrow> sscanf_d valu 0; Some (0, num) }
   }"

definition error_label :: "interp \<Rightarrow> (u32 \<times> u32 option \<times> interp) option" where
  "error_label st = do {
     ((t, ty), st1) \<leftarrow> get_program_token st;
     if ty = TT_ASSIGN then do {
       ((v, tv), st2) \<leftarrow> get_program_token st1;
       (r, num) \<leftarrow> label_idx st2 (cstr v);
       Some (if r \<noteq> 0 then (1, None, st2) else (0, Some num, st2))
     }
     else Some (0, None, st1)
   }"

definition get_error_token :: "interp \<Rightarrow> (u32 \<times> u32 option \<times> interp) option" where
  "get_error_token st = do {
     ((t, ty), st1) \<leftarrow> get_program_token st;
     if ty = TT_ERROR then error_label st1
     else if ty = TT_NO_ERROR then Some (0, Some (of_nat (st_idx st1)), st1)
     else do {
       let st2 = put_program_token st1;
       (r, num) \<leftarrow> label_idx st2 ''default_error'';
       Some (0, Some (if r \<noteq> 0 then - 1 else num), st2)
     }
   }"

definition reset_all :: "interp \<Rightarrow> interp" where
  "reset_all st = for_reset (while_reset (gosub_reset st))"

subsection \<open>The loop\<close>

text \<open>With \<open>g_trace\<close> the tokens of the line are printed; the index is put back.\<close>

function trace_line :: "token \<Rightarrow> interp \<Rightarrow> interp run option" where
  "trace_line t st =
     (if snd t = TT_END_OF_LINE \<or> snd t = TT_NULL_TOKEN then Some (Done st)
      else if fst t = [] \<and> show_type (snd t) = Exit then Some Exit
      else (case get_program_token_no_eval st of
              None \<Rightarrow> None
            | Some (t1, st1) \<Rightarrow>
                if snd t1 = TT_NULL_TOKEN then Some (Done st1) else trace_line t1 st1))"
  by pat_completeness auto
termination
  by (relation "measure (\<lambda>(_, st). length (st_prog st) - st_idx st)")
    (auto dest!: get_no_eval_progress)

declare trace_line.simps [simp del]

definition line_token :: "token \<Rightarrow> interp \<Rightarrow> interp run option" where
  "line_token t st = do {
     st1 \<leftarrow> set_line_number st (fst t);
     if st_trace st1 = 0 then Some (Done st1)
     else run_bind (trace_line t st1) (\<lambda>st2. Some (Done (st2\<lparr>st_idx := st_idx st1\<rparr>)))
   }"

text \<open>The syntax check passes over the rest of the line; behind the last line this never ends.\<close>

partial_function (option) to_line_end :: "token_types \<Rightarrow> interp \<Rightarrow> interp option" where
  "to_line_end ty st =
     (if ty = TT_END_OF_LINE then Some st
      else Option.bind (get_program_token st) (\<lambda>(t, st1). to_line_end (snd t) st1))"

declare to_line_end.simps [code]

text \<open>A command: code, flag to wait and state.\<close>

type_synonym outcome = "(u32 \<times> bool \<times> interp) run option"

definition no_wait :: "command \<Rightarrow> outcome" where
  "no_wait c = run_bind c (\<lambda>(iret, st). Some (Done (iret, False, st)))"

definition block_kinds :: "token_types set" where
  "block_kinds = {TT_IF, TT_ELSE, TT_ELSE_IF, TT_WHILE, TT_END_WHILE, TT_FOR, TT_NEXT, TT_BREAK_LOOP, TT_CONTINUE}"

definition block_command :: "world \<Rightarrow> token_types \<Rightarrow> interp \<Rightarrow> command" where
  "block_command w ty st =
     (if ty = TT_IF then cmd_if w st
      else if ty = TT_ELSE then cmd_else st
      else if ty = TT_ELSE_IF then cmd_else_if st
      else if ty = TT_WHILE then cmd_while w st
      else if ty = TT_END_WHILE then cmd_end_while st
      else if ty = TT_FOR then cmd_for w st
      else if ty = TT_NEXT then cmd_next st
      else if ty = TT_BREAK_LOOP then do { st1 \<leftarrow> cmd_break_loop st; return_code 0 st1 }
      else cmd_continue st)"

definition assign_kinds :: "token_types set" where
  "assign_kinds = {TT_LET, TT_GLET, TT_DEFINE, TT_DEFINE_ARRAY, TT_DEFINE_XREF, TT_LOCAL_VAR, TT_DELETE}"

definition assign_command :: "world \<Rightarrow> token_types \<Rightarrow> interp \<Rightarrow> command" where
  "assign_command w ty st =
     (if ty = TT_LET then cmd_let w st
      else if ty = TT_GLET then cmd_glet w st
      else if ty = TT_DEFINE then cmd_define w st
      else if ty = TT_DEFINE_ARRAY then cmd_define_array w st
      else if ty = TT_DEFINE_XREF then cmd_define_xref w st
      else if ty = TT_LOCAL_VAR then cmd_local_var w st
      else cmd_delete st)"

definition plain_kinds :: "token_types set" where
  "plain_kinds = {TT_GOTO, TT_GOSUB, TT_RETURN, TT_PRINT, TT_SET_PROGRAM, TT_PRAGMA, TT_START_TIMER, TT_STOP_TIMER}"

definition plain_command :: "world \<Rightarrow> token_types \<Rightarrow> interp \<Rightarrow> command" where
  "plain_command w ty st =
     (if ty = TT_GOTO then cmd_goto w st
      else if ty = TT_GOSUB then cmd_gosub w st
      else if ty = TT_RETURN then cmd_return st
      else if ty = TT_PRINT then cmd_print w st
      else if ty = TT_SET_PROGRAM then cmd_set_program st
      else if ty = TT_PRAGMA then map_option Done (cmd_pragma st)
      else if ty = TT_START_TIMER then cmd_start_timer w st
      else cmd_stop_timer st)"

definition other_command :: "world \<Rightarrow> token_types \<Rightarrow> interp \<Rightarrow> command" where
  "other_command w ty st =
     (if is_function ty then
        run_bind (expression (w_host w) (put_program_token st)) (\<lambda>(iret, tk, st1). return_code iret st1)
      else run_bind (next_token (put_program_token st)) (\<lambda>(t, st1). return_code 1 st1))"

definition command_of :: "world \<Rightarrow> token_types \<Rightarrow> interp \<Rightarrow> outcome" where
  "command_of w ty st =
     (if ty \<in> block_kinds then no_wait (block_command w ty st)
      else if ty \<in> assign_kinds then no_wait (assign_command w ty st)
      else if ty \<in> plain_kinds then no_wait (plain_command w ty st)
      else if ty \<in> {TT_OPEN, TT_CLOSE, TT_SEND, TT_SEND_REPLY} then w_device w ty st
      else if ty = TT_SLEEP then cmd_sleep w st
      else no_wait (other_command w ty st))"

text \<open>What follows a code other than 0. The result is the code \<open>execute\<close> leaves the loop with, or \<open>None\<close> to go
  on.\<close>

definition on_error :: "interp \<Rightarrow> (u32 option \<times> interp) option" where
  "on_error st =
     (if st_syntax st then Some (None, st)
      else do {
        (iret, idx, st1) \<leftarrow> get_error_token st;
        if iret \<noteq> 0 then Some (Some iret, reset_all st1)
        else do {
          i \<leftarrow> idx;
          Some (if sint i < 0 then (Some 0, reset_all st1) else (None, set_program_token_idx st1 i))
        }
      })"

definition after_command ::
    "(interp \<Rightarrow> command) \<Rightarrow> u32 \<times> bool \<times> interp \<Rightarrow> command" where
  "after_command rec r =
     (case r of (iret, wait_flag, st) \<Rightarrow>
        if iret \<noteq> 0 then
          Option.bind (on_error st) (\<lambda>(stop, st1).
            case stop of
              Some code \<Rightarrow> return_code code st1
            | None \<Rightarrow> if wait_flag \<and> \<not> st_syntax st then return_code 0 st1 else rec st1)
        else if wait_flag then return_code 0 st else rec st)"

text \<open>The tokens that are no commands, and those that end the section.\<close>

definition section_end :: "token_types set" where
  "section_end = {TT_AFTER, TT_BEGIN, TT_END, TT_BREAK, TT_LABEL}"

definition execute_token :: "world \<Rightarrow> (interp \<Rightarrow> command) \<Rightarrow> token \<Rightarrow> interp \<Rightarrow> command" where
  "execute_token w rec t st =
     (if snd t = TT_NULL_TOKEN then return_code 0 st
      else if snd t = TT_LINE_NUMBER then run_bind (line_token t st) rec
      else if snd t = TT_END_OF_LINE then rec st
      else if snd t \<in> section_end then
        (if st_syntax st then Option.bind (to_line_end (snd t) st) rec else return_code 0 st)
      else if snd t \<in> {TT_END_IF, TT_NO_ERROR, TT_THEN} then rec st
      else if snd t = TT_ERROR then
        run_bind (next_token st) (\<lambda>(t1, st1). run_bind (next_token st1) (\<lambda>(t2, st2). rec st2))
      else if snd t = TT_EXIT then Some Exit
      else run_bind (command_of w (snd t) st) (after_command rec))"

definition execute_body :: "world \<Rightarrow> (interp \<Rightarrow> command) \<Rightarrow> interp \<Rightarrow> command" where
  "execute_body w rec st = run_bind (next_token st) (\<lambda>(t, st1). execute_token w rec t st1)"

lemma after_command_mono [partial_function_mono]:
  assumes "\<And>st. mono_option (\<lambda>f. R f st)"
  shows "mono_option (\<lambda>f. after_command (R f) r)"
proof -
  have c: "mono_option (\<lambda>f. case stop of Some code \<Rightarrow> A code | None \<Rightarrow> B f)"
    if "mono_option B" for stop :: "u32 option" and A and B :: "('a \<Rightarrow> 'b option) \<Rightarrow> command"
    using that by (cases stop) (auto intro: option.const_mono)
  show ?thesis
    unfolding after_command_def
    by (intro prod_mono if_mono bind_mono c option.const_mono assms)
qed

lemma execute_body_mono [partial_function_mono]:
  assumes "\<And>st. mono_option (\<lambda>f. R f st)"
  shows "mono_option (\<lambda>f. execute_body w (R f) st)"
  unfolding execute_body_def execute_token_def
  by (intro prod_mono run_bind_mono if_mono bind_mono after_command_mono option.const_mono assms)

partial_function (option) execute :: "world \<Rightarrow> interp \<Rightarrow> command" where
  "execute w st = execute_body w (\<lambda>st. execute w st) st"

declare execute.simps [code]

subsection \<open>Going on at a label (resume.c)\<close>

text \<open>The first token behind the label is passed over.\<close>

definition resume_via_program_idx :: "world \<Rightarrow> u32 \<Rightarrow> interp \<Rightarrow> command" where
  "resume_via_program_idx w idx st =
     run_bind (next_token (set_program_token_idx st idx)) (\<lambda>(t, st1). execute w st1)"

definition resume_via_program_label :: "world \<Rightarrow> string \<Rightarrow> interp \<Rightarrow> command" where
  "resume_via_program_label w label st =
     (if label = [] then Some Exit
      else do {
        (r, valu) \<leftarrow> get_var st label VT_LABEL;
        if r \<noteq> 0 then return_code 1 st
        else do { idx \<leftarrow> sscanf_u valu 0; resume_via_program_idx w idx st }
      })"

end
