(* ===== verification/Expression_Value.thy ===== *)
theory Expression_Value
  imports Expression
begin

unbundle bit_operations_syntax

section \<open>The value of an expression\<close>

text \<open>
  The syntax trees of expressions, the tokens a tree has in the program and in the queue, and its
  value. The lemmas follow the two loops of expression.c: \<open>read_all\<close> says that the reading functions
  put the queue of the tree behind what is queued, \<open>solve_all\<close> that working off this queue leaves the
  value of the tree in its place; both are by induction on the tree. The properties are
  in the last section.
\<close>

subsection \<open>The syntax tree and its value\<close>

text \<open>An expression is a term, or a term, an operator and an expression; a term is a value, an
  expression in parentheses or a call, with at most one sign. \<open>Atom s ty v\<close> is the token \<open>s\<close> of kind
  \<open>ty\<close>, \<open>v\<close> what the interpreter gets when it reads it.\<close>

datatype sign = No_Sign | Minus | Plus | Complement

datatype ex = Last sign prim | Op sign prim token_types ex
  and prim = Atom string token_types string | Group ex | Call token_types "ex list"

definition value_kinds :: "token_types set" where
  "value_kinds = {TT_VARIABLE, TT_IDENTIFIER, TT_STRING, TT_CONSTANT, TT_NUMBER}"

definition sign_kinds :: "token_types set" where
  "sign_kinds = {TT_UNARY_MINUS, TT_UNARY_PLUS, TT_UNARY_ONES_COMPLEMENT}"

definition binary_kinds :: "token_types set" where
  "binary_kinds = {TT_PLUS, TT_MINUS, TT_MULT, TT_DIVIDE, TT_PERIOD, TT_COLON, TT_LOGICAL_AND, TT_LOGICAL_OR,
     TT_BITWISE_AND, TT_BITWISE_OR, TT_BITWISE_XOR, TT_GREATER_THAN, TT_LESS_THAN, TT_EQUAL, TT_NOT_EQUAL,
     TT_LESS_THAN_EQUAL, TT_GREATER_THAN_EQUAL, TT_STR_EQUAL, TT_STR_NOT_EQUAL}"

fun sign_tokens :: "sign \<Rightarrow> token list" where
  "sign_tokens No_Sign = []"
| "sign_tokens Minus = [([], TT_MINUS)]"
| "sign_tokens Plus = [([], TT_PLUS)]"
| "sign_tokens Complement = [([], TT_UNARY_ONES_COMPLEMENT)]"

fun sign_queue :: "sign \<Rightarrow> token list" where
  "sign_queue No_Sign = []"
| "sign_queue Minus = [([], TT_UNARY_MINUS)]"
| "sign_queue Plus = [([], TT_UNARY_PLUS)]"
| "sign_queue Complement = [([], TT_UNARY_ONES_COMPLEMENT)]"

text \<open>The tokens of a list of arguments, with commas between them.\<close>

fun commas :: "token list list \<Rightarrow> token list" where
  "commas [] = []"
| "commas [ts] = ts"
| "commas (ts # tss) = ts @ ([], TT_COMMA) # commas tss"

text \<open>The tokens in the program, and those in the queue.\<close>

fun ex_tokens :: "ex \<Rightarrow> token list" and prim_tokens :: "prim \<Rightarrow> token list" where
  "ex_tokens (Last s p) = sign_tokens s @ prim_tokens p"
| "ex_tokens (Op s p ty e) = sign_tokens s @ prim_tokens p @ ([], ty) # ex_tokens e"
| "prim_tokens (Atom s ty v) = [(s, ty)]"
| "prim_tokens (Group e) = ([], TT_OPEN_PAREN) # ex_tokens e @ [([], TT_CLOSE_PAREN)]"
| "prim_tokens (Call f es) = ([], f) # ([], TT_OPEN_PAREN) # commas (map ex_tokens es) @ [([], TT_CLOSE_PAREN)]"

fun ex_queue :: "ex \<Rightarrow> token list" and prim_queue :: "prim \<Rightarrow> token list" where
  "ex_queue (Last s p) = sign_queue s @ prim_queue p"
| "ex_queue (Op s p ty e) = sign_queue s @ prim_queue p @ ([], ty) # ex_queue e"
| "prim_queue (Atom s ty v) = [(v, ty)]"
| "prim_queue (Group e) = ([], TT_OPEN_PAREN) # ex_queue e @ [([], TT_CLOSE_PAREN)]"
| "prim_queue (Call f es) = ([], f) # commas (map ex_queue es) @ [([], TT_FUNCTION)]"

fun ex_ok :: "scope \<Rightarrow> sc_var list \<Rightarrow> ex \<Rightarrow> bool" and prim_ok :: "scope \<Rightarrow> sc_var list \<Rightarrow> prim \<Rightarrow> bool" where
  "ex_ok sc vars (Last s p) = prim_ok sc vars p"
| "ex_ok sc vars (Op s p ty e) = (prim_ok sc vars p \<and> ty \<in> binary_kinds \<and> ex_ok sc vars e)"
| "prim_ok sc vars (Atom s ty v) =
     (ty \<in> value_kinds \<and> (if ty = TT_VARIABLE then evaluate_token sc vars s = Some v else v = s))"
| "prim_ok sc vars (Group e) = ex_ok sc vars e"
| "prim_ok sc vars (Call f es) = (is_function f \<and> length es \<le> 3 \<and> list_all (ex_ok sc vars) es)"

text \<open>The value: the right side of an operator first, then its left side. A function gets its
  arguments the last one first.\<close>

definition sign_value :: "bool \<Rightarrow> sign \<Rightarrow> string \<Rightarrow> string option" where
  "sign_value syntax s v =
     (case s of
        Minus \<Rightarrow> do { (r, w) \<leftarrow> add_sub_mult_div syntax TT_MULT v ''-1''; require (r = 0); Some w }
      | Complement \<Rightarrow> do { (r, w) \<leftarrow> ones_complement v; require (r = 0); Some w }
      | _ \<Rightarrow> Some v)"

definition args_of :: "string list \<Rightarrow> fun_args" where
  "args_of vs =
     (case rev vs of
        [] \<Rightarrow> no_args
      | [a] \<Rightarrow> \<lparr>fa_count = 0, fa_arg0 = Some a, fa_arg1 = None, fa_arg2 = None\<rparr>
      | [a, b] \<Rightarrow> \<lparr>fa_count = 1, fa_arg0 = Some a, fa_arg1 = Some b, fa_arg2 = None\<rparr>
      | a # b # c # _ \<Rightarrow> \<lparr>fa_count = 2, fa_arg0 = Some a, fa_arg1 = Some b, fa_arg2 = Some c\<rparr>)"

definition call_value :: "host \<Rightarrow> token_types \<Rightarrow> string list \<Rightarrow> interp \<Rightarrow> (string \<times> interp) option" where
  "call_value host f vs st =
     (case call_function host f (args_of vs) [] st of
        Some (Done (iret, v, Some ty, st1)) \<Rightarrow> do { require (iret = 0 \<and> ty \<in> value_kinds); Some (v, st1) }
      | _ \<Rightarrow> None)"

fun all_values :: "(interp \<Rightarrow> (string \<times> interp) option) list \<Rightarrow> interp \<Rightarrow> (string list \<times> interp) option" where
  "all_values [] st = Some ([], st)"
| "all_values (f # fs) st = do {
     (vs, st1) \<leftarrow> all_values fs st;
     (v, st2) \<leftarrow> f st1;
     Some (v # vs, st2)
   }"

fun ex_value :: "host \<Rightarrow> ex \<Rightarrow> interp \<Rightarrow> (string \<times> interp) option"
  and prim_value :: "host \<Rightarrow> prim \<Rightarrow> interp \<Rightarrow> (string \<times> interp) option" where
  "ex_value h (Last s p) st = do {
     (v, st1) \<leftarrow> prim_value h p st;
     w \<leftarrow> sign_value (st_syntax st1) s v;
     Some (w, st1)
   }"
| "ex_value h (Op s p ty e) st = do {
     (r, st1) \<leftarrow> ex_value h e st;
     (v, st2) \<leftarrow> prim_value h p st1;
     l \<leftarrow> sign_value (st_syntax st2) s v;
     (iret, w) \<leftarrow> apply_operator (st_syntax st2) ty r l [];
     require (iret = 0);
     Some (w, st2)
   }"
| "prim_value h (Atom s ty v) st = Some (v, st)"
| "prim_value h (Group e) st = ex_value h e st"
| "prim_value h (Call f es) st = do {
     (vs, st1) \<leftarrow> all_values (map (ex_value h) es) st;
     call_value h f vs st1
   }"

subsection \<open>Lemmas: reading\<close>

lemmas kinds = value_kinds_def sign_kinds_def binary_kinds_def is_operator_def is_function_def

text \<open>All of the reading up to the index \<open>m\<close> is done under one label.\<close>

definition in_scope :: "interp \<Rightarrow> nat \<Rightarrow> scope \<Rightarrow> bool" where
  "in_scope st m sc \<longleftrightarrow> st_name st = sc_program sc \<and>
     (\<forall>i. st_idx st < i \<and> i \<le> m \<longrightarrow> label_get (st_labels st) (of_nat i) = sc_label sc)"

abbreviation at_idx :: "interp \<Rightarrow> nat \<Rightarrow> nat \<Rightarrow> interp" where
  "at_idx st i sv \<equiv> st\<lparr>st_idx := i, st_saved := sv\<rparr>"

abbreviation past :: "interp \<Rightarrow> token list \<Rightarrow> nat \<Rightarrow> interp" where
  "past st ts sv \<equiv> at_idx st (st_idx st + length (tokens_bytes ts)) sv"

lemma reads_saved: "reads (st\<lparr>st_saved := sv\<rparr>) ts = reads st ts"
  by (simp add: reads_def)

lemma reads_past: "reads st (ts @ rest) \<Longrightarrow> reads (past st ts sv) rest"
proof -
  assume "reads st (ts @ rest)"
  then have "reads (advances st ts) rest" by (rule reads_append)
  then show ?thesis by (simp add: reads_def)
qed

lemma in_scope_past: "in_scope st m sc \<Longrightarrow> in_scope (past st ts sv) m sc"
  by (simp add: in_scope_def)

lemma in_scope_mono: "in_scope st m sc \<Longrightarrow> n \<le> m \<Longrightarrow> in_scope st n sc"
  by (simp add: in_scope_def)

lemma advance_past: "advance st t = past st [t] (st_idx st)"
  by (simp add: advance_def)

lemma next_plain:
  "reads st (t # ts) \<Longrightarrow> snd t \<noteq> TT_VARIABLE \<Longrightarrow>
   next_token st = Some (Done (t, past st [t] (st_idx st))) \<and> reads (past st [t] (st_idx st)) ts"
  using get_plain [of st t ts] reads_Cons(2) [of st t ts] by (simp add: next_token_def advance_past)

lemma next_null: "reads st [] \<Longrightarrow> next_token st = Some (Done (([], TT_NULL_TOKEN), st\<lparr>st_saved := st_idx st\<rparr>))"
  using get_null [of st] by (simp add: next_token_def)

lemma next_atom:
  assumes "reads st ((s, ty) # ts)" "prim_ok sc (st_vars st) (Atom s ty v)"
    "in_scope st (st_idx st + length (store_token (s, ty))) sc"
  shows "next_token st = Some (Done ((v, ty), past st [(s, ty)] (st_idx st)))"
proof -
  let ?s1 = "advance st (s, ty)"
  have "0 < length (store_token (s, ty))" by (rule store_token_pos)
  then have "label_get (st_labels st) (of_nat (st_idx st + length (store_token (s, ty)))) = sc_label sc"
    using assms(3) unfolding in_scope_def by (metis add_0_right le_refl nat_add_left_cancel_less)
  then have "scope_of ?s1 = sc"
    using assms(3) by (cases sc) (simp add: in_scope_def scope_of_def del: of_nat_add)
  then show ?thesis
    using assms(2) reads_Cons(1) [OF assms(1)]
    by (auto simp: next_token_def get_program_token_def advance_past split: if_splits)
qed

lemma q_push: "length q < 500 \<Longrightarrow> q_token t q = Some (Done (t # q))"
  by (simp add: q_token_def MAX_Q_def)

lemma expr_step:
  "expr_any Expr q st = and_then (expr_any Term q st) (\<lambda>q1 tk1 st1. expr_any More_Terms q1 st1)"
  "expr_any More_Terms q st = more_terms_body expr_any q st"
  "expr_any Term q st = term_body expr_any q st"
  "expr_any Func q st = func_body expr_any q st"
  "expr_any More_Args q st = more_args_body expr_any q st"
  by (subst expr_any.simps, simp)+

lemma and_then_Done [simp]:
  "and_then (Some (Done (0, q, tk, st))) f = f q tk st"
  "r \<noteq> 0 \<Longrightarrow> and_then (Some (Done (r, q, tk, st))) f = Some (Done (r, q, tk, st))"
  by (simp_all add: and_then_def)

definition ends :: "token list \<Rightarrow> bool" where
  "ends rest \<longleftrightarrow> rest = [] \<or> \<not> is_operator (snd (hd rest)) \<and> snd (hd rest) \<noteq> TT_VARIABLE"

lemma next_end:
  assumes "reads st rest" "ends rest"
  shows "\<exists>t st1. next_token st = Some (Done (t, st1)) \<and> \<not> is_operator (snd t) \<and>
    put_program_token st1 = st\<lparr>st_saved := st_idx st\<rparr>"
proof (cases rest)
  case Nil
  then show ?thesis using next_null assms by (simp add: is_operator_def put_program_token_def)
next
  case (Cons t ts)
  then show ?thesis using next_plain [of st t ts] assms by (simp add: ends_def put_program_token_def)
qed

text \<open>A term without a sign, and an expression up to a token that is no operator.\<close>

definition reads_prim :: "scope \<Rightarrow> sc_var list \<Rightarrow> prim \<Rightarrow> bool" where
  "reads_prim sc vars p \<longleftrightarrow> (\<forall>q st rest. reads st (prim_tokens p @ rest) \<longrightarrow> st_vars st = vars \<longrightarrow>
     in_scope st (st_idx st + length (tokens_bytes (prim_tokens p))) sc \<longrightarrow>
     length q + length (prim_queue p) \<le> 500 \<longrightarrow>
     (\<exists>tk sv. expr_any Term q st = Some (Done (0, rev (prim_queue p) @ q, tk, past st (prim_tokens p) sv))))"

definition reads_ex :: "scope \<Rightarrow> sc_var list \<Rightarrow> ex \<Rightarrow> bool" where
  "reads_ex sc vars e \<longleftrightarrow> (\<forall>q st rest. reads st (ex_tokens e @ rest) \<longrightarrow> ends rest \<longrightarrow> st_vars st = vars \<longrightarrow>
     in_scope st (st_idx st + length (tokens_bytes (ex_tokens e))) sc \<longrightarrow>
     length q + length (ex_queue e) \<le> 500 \<longrightarrow>
     (\<exists>tk. expr_any Expr q st = Some (Done (0, rev (ex_queue e) @ q, tk,
        past st (ex_tokens e) (st_idx st + length (tokens_bytes (ex_tokens e)))))))"

lemma reads_exD:
  assumes "reads_ex sc vars e" "reads st (ex_tokens e @ rest)" "ends rest" "st_vars st = vars"
    "in_scope st m sc" "st_idx st + length (tokens_bytes (ex_tokens e)) \<le> m"
    "length q + length (ex_queue e) \<le> 500"
  obtains tk where "expr_any Expr q st = Some (Done (0, rev (ex_queue e) @ q, tk,
        past st (ex_tokens e) (st_idx st + length (tokens_bytes (ex_tokens e)))))"
  using assms in_scope_mono [OF assms(5,6)] unfolding reads_ex_def by blast

lemma reads_primD:
  assumes "reads_prim sc vars p" "reads st (prim_tokens p @ rest)" "st_vars st = vars"
    "in_scope st m sc" "st_idx st + length (tokens_bytes (prim_tokens p)) \<le> m"
    "length q + length (prim_queue p) \<le> 500"
  obtains tk sv where "expr_any Term q st = Some (Done (0, rev (prim_queue p) @ q, tk, past st (prim_tokens p) sv))"
  using assms in_scope_mono [OF assms(4,5)] unfolding reads_prim_def by blast

lemma past_past: "past (past st a x) b y = past st (a @ b) y"
  by (simp add: add.assoc)

lemma read_atom: "prim_ok sc vars (Atom s ty v) \<Longrightarrow> reads_prim sc vars (Atom s ty v)"
  unfolding reads_prim_def
proof (intro allI impI)
  fix q :: queue and st :: interp and rest
  assume ok: "prim_ok sc vars (Atom s ty v)" and r: "reads st (prim_tokens (Atom s ty v) @ rest)"
    and vars: "st_vars st = vars" and sc: "in_scope st (st_idx st + length (tokens_bytes (prim_tokens (Atom s ty v)))) sc"
    and len: "length q + length (prim_queue (Atom s ty v)) \<le> 500"
  have "next_token st = Some (Done ((v, ty), past st [(s, ty)] (st_idx st)))"
    using next_atom [of st s ty rest sc v] ok r vars sc by simp
  moreover have "ty \<in> {TT_VARIABLE, TT_IDENTIFIER, TT_STRING, TT_CONSTANT, TT_NUMBER}" "\<not> is_function ty"
    using ok by (auto simp: kinds)
  ultimately have "expr_any Term q st =
      Some (Done (0, rev (prim_queue (Atom s ty v)) @ q, v, past st (prim_tokens (Atom s ty v)) (st_idx st)))"
    using len by (simp add: expr_step(3) term_body_def queue_end_def q_push go_on_def)
  then show "\<exists>tk sv. expr_any Term q st =
      Some (Done (0, rev (prim_queue (Atom s ty v)) @ q, tk, past st (prim_tokens (Atom s ty v)) sv))"
    by blast
qed

lemma read_group:
  assumes "reads_ex sc vars e"
  shows "reads_prim sc vars (Group e)"
  unfolding reads_prim_def
proof (intro allI impI)
  fix q :: queue and st :: interp and rest
  let ?n = "st_idx st + length (tokens_bytes (prim_tokens (Group e)))"
  let ?o = "([], TT_OPEN_PAREN) :: token" and ?c = "([], TT_CLOSE_PAREN) :: token"
  assume r: "reads st (prim_tokens (Group e) @ rest)" and vars: "st_vars st = vars" and sc: "in_scope st ?n sc"
    and len: "length q + length (prim_queue (Group e)) \<le> 500"
  let ?s1 = "past st [?o] (st_idx st)"
  have n1: "next_token st = Some (Done (?o, ?s1))" "reads ?s1 (ex_tokens e @ ?c # rest)"
    using next_plain [of st ?o "ex_tokens e @ ?c # rest"] r by simp_all
  let ?m = "st_idx ?s1 + length (tokens_bytes (ex_tokens e))"
  let ?s2 = "past ?s1 (ex_tokens e) ?m"
  obtain tk where e: "expr_any Expr (?o # q) ?s1 = Some (Done (0, rev (ex_queue e) @ ?o # q, tk, ?s2))"
  proof (rule reads_exD [OF assms n1(2) _ _ in_scope_past [OF sc], of "?o # q"])
    show "ends (?c # rest)" by (simp add: ends_def is_operator_def)
  qed (use vars len in simp_all)
  have "reads ?s2 (?c # rest)" by (rule reads_past [OF n1(2)])
  then have n2: "next_token ?s2 = Some (Done (?c, past ?s2 [?c] (st_idx ?s2)))"
    using next_plain [of ?s2 ?c rest] by (simp del: select_convs update_convs)
  have "expr_any Term q st = Some (Done (0, rev (prim_queue (Group e)) @ q, fst ?c, past ?s2 [?c] (st_idx ?s2)))"
    using n1(1) e n2 len
    by (simp add: expr_step(3) term_body_def queue_then_def q_push kinds queue_end_def go_on_def add.assoc)
  then show "\<exists>tk sv. expr_any Term q st = Some (Done (0, rev (prim_queue (Group e)) @ q, tk, past st (prim_tokens (Group e)) sv))"
    by (auto simp: add.assoc)
qed

text \<open>The arguments after the first, up to the closing parenthesis.\<close>

definition comma_tail :: "token list list \<Rightarrow> token list" where
  "comma_tail tss = concat (map ((#) ([], TT_COMMA)) tss)"

lemma comma_tail_simps [simp]:
  "comma_tail [] = []" "comma_tail (ts # tss) = ([], TT_COMMA) # ts @ comma_tail tss"
  by (simp_all add: comma_tail_def)

lemma commas_Cons: "commas (ts # tss) = ts @ comma_tail tss"
  by (induction tss arbitrary: ts) simp_all

lemma ends_args: "ends (comma_tail tss @ ([], TT_CLOSE_PAREN) # rest)"
  by (cases tss) (simp_all add: ends_def is_operator_def)

lemma read_more_args:
  assumes "\<And>e. e \<in> set es \<Longrightarrow> reads_ex sc vars e"
    and "reads st (comma_tail (map ex_tokens es) @ ([], TT_CLOSE_PAREN) # rest)" "st_vars st = vars"
    and "in_scope st m sc" "st_idx st + length (tokens_bytes (comma_tail (map ex_tokens es))) \<le> m"
    and "length q + length (comma_tail (map ex_queue es)) + 1 \<le> 500"
  shows "\<exists>tk sv. expr_any More_Args q st = Some (Done (0, ([], TT_FUNCTION) # rev (comma_tail (map ex_queue es)) @ q, tk,
    past st (comma_tail (map ex_tokens es) @ [([], TT_CLOSE_PAREN)]) sv))"
  using assms
proof (induction es arbitrary: q st)
  case Nil
  then show ?case
    using next_plain [of st "([], TT_CLOSE_PAREN)" rest]
    by (auto simp: expr_step(5) more_args_body_def queue_end_def q_push go_on_def)
next
  case (Cons e es)
  let ?o = "([], TT_COMMA) :: token" and ?r = "comma_tail (map ex_tokens es) @ ([], TT_CLOSE_PAREN) # rest"
  let ?s1 = "past st [?o] (st_idx st)"
  have n1: "next_token st = Some (Done (?o, ?s1))" "reads ?s1 (ex_tokens e @ ?r)"
    using next_plain [of st ?o "ex_tokens e @ ?r"] Cons.prems(2) by simp_all
  let ?m = "st_idx ?s1 + length (tokens_bytes (ex_tokens e))"
  let ?s2 = "past ?s1 (ex_tokens e) ?m"
  obtain tk where e: "expr_any Expr (?o # q) ?s1 = Some (Done (0, rev (ex_queue e) @ ?o # q, tk, ?s2))"
  proof (rule reads_exD [OF _ n1(2) ends_args _ in_scope_past [OF Cons.prems(4)], of vars "?o # q"])
    show "reads_ex sc vars e" by (rule Cons.prems(1)) simp
  qed (use Cons.prems in simp_all)
  have "\<exists>tk sv. expr_any More_Args (rev (ex_queue e) @ ?o # q) ?s2 =
      Some (Done (0, ([], TT_FUNCTION) # rev (comma_tail (map ex_queue es)) @ rev (ex_queue e) @ ?o # q, tk,
        past ?s2 (comma_tail (map ex_tokens es) @ [([], TT_CLOSE_PAREN)]) sv))"
  proof (rule Cons.IH)
    show "reads ?s2 ?r" by (rule reads_past [OF n1(2)])
    show "in_scope ?s2 m sc" by (intro in_scope_past Cons.prems(4))
  qed (use Cons.prems in simp_all)
  then show ?case
    using n1(1) e Cons.prems(6)
    by (auto simp: expr_step(5) more_args_body_def queue_then_def q_push add.assoc)
qed

lemma next_first:
  assumes "ex_ok sc vars e" "reads st (ex_tokens e @ rest)" "st_vars st = vars" "in_scope st m sc"
    "st_idx st + length (tokens_bytes (ex_tokens e)) \<le> m"
  shows "\<exists>t st1. next_token st = Some (Done (t, st1)) \<and> snd t \<noteq> TT_CLOSE_PAREN \<and>
    put_program_token st1 = st\<lparr>st_saved := st_idx st\<rparr>"
proof -
  have sg: ?thesis if "reads st (([], ty) # ts)" "ty \<noteq> TT_VARIABLE" "ty \<noteq> TT_CLOSE_PAREN" for ty ts
    using next_plain [OF that(1)] that by (simp add: put_program_token_def)
  have pr: ?thesis if p: "prim_ok sc vars p" "reads st (prim_tokens p @ ts)"
    "in_scope st (st_idx st + length (tokens_bytes (prim_tokens p))) sc" for p ts
  proof (cases p)
    case (Atom s ty v)
    then have "next_token st = Some (Done ((v, ty), past st [(s, ty)] (st_idx st)))"
      using next_atom [of st s ty ts sc v] p assms(3) by simp
    moreover have "ty \<noteq> TT_CLOSE_PAREN" using p(1) Atom by (auto simp: kinds)
    ultimately show ?thesis by (simp add: put_program_token_def)
  next
    case (Group e)
    then show ?thesis using p sg [of TT_OPEN_PAREN "ex_tokens e @ ([], TT_CLOSE_PAREN) # ts"] by simp
  next
    case (Call f es)
    moreover have "f \<noteq> TT_VARIABLE" "f \<noteq> TT_CLOSE_PAREN" using p(1) Call by (auto simp: kinds)
    ultimately show ?thesis
      using p sg [of f "([], TT_OPEN_PAREN) # commas (map ex_tokens es) @ ([], TT_CLOSE_PAREN) # ts"] by simp
  qed
  have tm: ?thesis if t: "prim_ok sc vars p" "reads st (sign_tokens s @ prim_tokens p @ ts)"
    "length (tokens_bytes (sign_tokens s)) + length (tokens_bytes (prim_tokens p)) \<le> length (tokens_bytes (ex_tokens e))" for s p ts
  proof (cases s)
    case No_Sign
    show ?thesis
    proof (rule pr [OF t(1)])
      show "in_scope st (st_idx st + length (tokens_bytes (prim_tokens p))) sc"
        using assms(4,5) t(3) by (intro in_scope_mono [OF assms(4)]) simp
    qed (use t No_Sign in simp)
  qed (use t sg in auto)
  show ?thesis
  proof (cases e)
    case (Last s p)
    then show ?thesis using tm [of p s rest] assms by simp
  next
    case (Op s p ty e1)
    then show ?thesis using tm [of p s "([], ty) # ex_tokens e1 @ rest"] assms by simp
  qed
qed

lemma read_call:
  assumes "prim_ok sc vars (Call f es)" "\<And>e. e \<in> set es \<Longrightarrow> reads_ex sc vars e"
  shows "reads_prim sc vars (Call f es)"
  unfolding reads_prim_def
proof (intro allI impI)
  fix q :: queue and st :: interp and rest
  let ?n = "st_idx st + length (tokens_bytes (prim_tokens (Call f es)))"
  let ?f = "([], f) :: token" and ?o = "([], TT_OPEN_PAREN) :: token" and ?c = "([], TT_CLOSE_PAREN) :: token"
  let ?a = "commas (map ex_tokens es) @ ?c # rest"
  assume r: "reads st (prim_tokens (Call f es) @ rest)" and vars: "st_vars st = vars" and sc: "in_scope st ?n sc"
    and len: "length q + length (prim_queue (Call f es)) \<le> 500"
  have f: "f \<noteq> TT_VARIABLE" "is_function f" using assms(1) by (auto simp: kinds)
  let ?s1 = "past st [?f] (st_idx st)"
  have n1: "next_token st = Some (Done (?f, ?s1))" "reads ?s1 (?o # ?a)"
    using next_plain [of st ?f "?o # ?a"] r f by simp_all
  let ?s2 = "past ?s1 [?o] (st_idx ?s1)"
  have n2: "next_token ?s1 = Some (Done (?o, ?s2))" "reads ?s2 ?a"
    using next_plain [of ?s1 ?o ?a] n1(2) by simp_all
  have trm: "expr_any Term q st = expr_any Func (?f # q) ?s1"
    using n1(1) f(2) len by (simp add: expr_step(3) term_body_def queue_then_def q_push)
  show "\<exists>tk sv. expr_any Term q st = Some (Done (0, rev (prim_queue (Call f es)) @ q, tk, past st (prim_tokens (Call f es)) sv))"
  proof (cases es)
    case Nil
    then have "next_token ?s2 = Some (Done (?c, past ?s2 [?c] (st_idx ?s2)))"
      using next_plain [of ?s2 ?c rest] n2(2) by simp
    then show ?thesis
      using trm n2(1) len Nil by (auto simp: expr_step(4) func_body_def queue_end_def q_push go_on_def add.assoc)
  next
    case (Cons e es1)
    let ?r = "comma_tail (map ex_tokens es1) @ ?c # rest"
    have r2: "reads ?s2 (ex_tokens e @ ?r)" using n2(2) Cons by (simp add: commas_Cons)
    have "\<exists>t st1. next_token ?s2 = Some (Done (t, st1)) \<and> snd t \<noteq> TT_CLOSE_PAREN \<and>
        put_program_token st1 = ?s2\<lparr>st_saved := st_idx ?s2\<rparr>"
    proof (rule next_first [OF _ r2, of sc vars ?n])
      show "in_scope ?s2 ?n sc" by (intro in_scope_past sc)
    qed (use assms(1) vars Cons in \<open>simp_all add: commas_Cons\<close>)
    then obtain t st1 where t: "next_token ?s2 = Some (Done (t, st1))" "snd t \<noteq> TT_CLOSE_PAREN"
      "put_program_token st1 = ?s2\<lparr>st_saved := st_idx ?s2\<rparr>"
      by blast
    let ?s3 = "?s2\<lparr>st_saved := st_idx ?s2\<rparr>"
    have r3: "reads ?s3 (ex_tokens e @ ?r)" using r2 by (simp add: reads_saved)
    have sc3: "in_scope ?s3 ?n sc" using sc by (simp add: in_scope_def)
    let ?m = "st_idx ?s3 + length (tokens_bytes (ex_tokens e))"
    let ?s4 = "past ?s3 (ex_tokens e) ?m"
    obtain tk where e: "expr_any Expr (?f # q) ?s3 = Some (Done (0, rev (ex_queue e) @ ?f # q, tk, ?s4))"
    proof (rule reads_exD [OF _ r3 ends_args _ sc3, of vars "?f # q"])
      show "reads_ex sc vars e" using assms(2) Cons by simp
    qed (use vars len Cons in \<open>simp_all add: commas_Cons\<close>)
    have "\<exists>tk sv. expr_any More_Args (rev (ex_queue e) @ ?f # q) ?s4 =
        Some (Done (0, ([], TT_FUNCTION) # rev (comma_tail (map ex_queue es1)) @ rev (ex_queue e) @ ?f # q, tk,
          past ?s4 (comma_tail (map ex_tokens es1) @ [?c]) sv))"
    proof (rule read_more_args)
      show "reads ?s4 ?r" by (rule reads_past [OF r3])
      show "in_scope ?s4 ?n sc" by (intro in_scope_past sc3)
      show "\<And>e. e \<in> set es1 \<Longrightarrow> reads_ex sc vars e" using assms(2) Cons by simp
    qed (use vars len Cons in \<open>simp_all add: commas_Cons\<close>)
    then show ?thesis
      using trm n2(1) t e len Cons by (auto simp: expr_step(4) func_body_def commas_Cons add.assoc)
  qed
qed

lemma read_signed:
  assumes "reads_prim sc vars p" "reads st (sign_tokens s @ prim_tokens p @ rest)" "st_vars st = vars"
    "in_scope st m sc" "st_idx st + length (tokens_bytes (sign_tokens s @ prim_tokens p)) \<le> m"
    "length q + length (sign_queue s @ prim_queue p) \<le> 500"
  shows "\<exists>tk sv. expr_any Term q st = Some (Done (0, rev (sign_queue s @ prim_queue p) @ q, tk,
    past st (sign_tokens s @ prim_tokens p) sv))"
proof -
  have signed: ?thesis if sg: "sign_tokens s = [([], ty)]" "sign_queue s = [([], uty)]" "ty \<noteq> TT_VARIABLE"
    and step: "\<And>st1. next_token st = Some (Done (([], ty), st1)) \<Longrightarrow>
      expr_any Term q st = after_sign expr_any ([], uty) q st1" for ty uty
  proof -
    let ?s1 = "past st [([], ty)] (st_idx st)"
    have n1: "next_token st = Some (Done (([], ty), ?s1))" "reads ?s1 (prim_tokens p @ rest)"
      using next_plain [of st "([], ty)" "prim_tokens p @ rest"] assms(2) sg by simp_all
    obtain tk sv where p: "expr_any Term (([], uty) # q) ?s1 =
        Some (Done (0, rev (prim_queue p) @ ([], uty) # q, tk, past ?s1 (prim_tokens p) sv))"
    proof (rule reads_primD [OF assms(1) n1(2) _ in_scope_past [OF assms(4)], of "([], uty) # q"])
    qed (use assms sg in simp_all)
    show ?thesis
      using step [OF n1(1)] p assms(6) sg
      by (auto simp: after_sign_def queue_then_def q_push go_on_def add.assoc)
  qed
  show ?thesis
  proof (cases s)
    case No_Sign
    then show ?thesis
      using reads_primD [OF assms(1) _ assms(3,4), of rest q] assms(2,5,6) by simp blast
  next
    case Minus
    then show ?thesis
      by (intro signed [of TT_MINUS TT_UNARY_MINUS]) (simp_all add: expr_step(3) term_body_def kinds)
  next
    case Plus
    then show ?thesis
      by (intro signed [of TT_PLUS TT_UNARY_PLUS]) (simp_all add: expr_step(3) term_body_def kinds)
  next
    case Complement
    then show ?thesis
      by (intro signed [of TT_UNARY_ONES_COMPLEMENT TT_UNARY_ONES_COMPLEMENT])
        (simp_all add: expr_step(3) term_body_def kinds)
  qed
qed

lemma read_last:
  assumes "reads_prim sc vars p"
  shows "reads_ex sc vars (Last s p)"
  unfolding reads_ex_def
proof (intro allI impI)
  fix q :: queue and st :: interp and rest
  let ?n = "st_idx st + length (tokens_bytes (ex_tokens (Last s p)))"
  assume r: "reads st (ex_tokens (Last s p) @ rest)" and e: "ends rest" and vars: "st_vars st = vars"
    and sc: "in_scope st ?n sc" and len: "length q + length (ex_queue (Last s p)) \<le> 500"
  have r': "reads st (sign_tokens s @ prim_tokens p @ rest)" using r by simp
  obtain tk sv where t: "expr_any Term q st = Some (Done (0, rev (sign_queue s @ prim_queue p) @ q, tk,
      past st (sign_tokens s @ prim_tokens p) sv))"
    using read_signed [OF assms r' vars sc, of q] len by auto
  let ?s1 = "past st (sign_tokens s @ prim_tokens p) sv"
  have "reads ?s1 rest" using r by (intro reads_past) simp
  then obtain t st1 where "next_token ?s1 = Some (Done (t, st1))" "\<not> is_operator (snd t)"
    "put_program_token st1 = ?s1\<lparr>st_saved := st_idx ?s1\<rparr>"
    using next_end e by blast
  then show "\<exists>tk. expr_any Expr q st = Some (Done (0, rev (ex_queue (Last s p)) @ q, tk,
      past st (ex_tokens (Last s p)) ?n))"
    using t by (simp add: expr_step(1,2) more_terms_body_def go_on_def)
qed

lemma more_terms_op:
  assumes "next_token st = Some (Done (t, st1))" "is_operator (snd t)" "length q < 500"
  shows "expr_any More_Terms q st = expr_any Expr (t # q) st1"
  by (subst expr_step(2), subst expr_step(1)) (simp add: assms more_terms_body_def queue_then_def q_push)

lemma read_op:
  assumes "reads_prim sc vars p" "reads_ex sc vars e" "ty \<in> binary_kinds"
  shows "reads_ex sc vars (Op s p ty e)"
  unfolding reads_ex_def
proof (intro allI impI)
  fix q :: queue and st :: interp and rest
  let ?n = "st_idx st + length (tokens_bytes (ex_tokens (Op s p ty e)))"
  let ?t = "([], ty) :: token"
  assume r: "reads st (ex_tokens (Op s p ty e) @ rest)" and e: "ends rest" and vars: "st_vars st = vars"
    and sc: "in_scope st ?n sc" and len: "length q + length (ex_queue (Op s p ty e)) \<le> 500"
  have ty: "ty \<noteq> TT_VARIABLE" "is_operator ty" using assms(3) by (auto simp: kinds)
  have r': "reads st (sign_tokens s @ prim_tokens p @ ?t # ex_tokens e @ rest)" using r by simp
  obtain tk sv where t: "expr_any Term q st = Some (Done (0, rev (sign_queue s @ prim_queue p) @ q, tk,
      past st (sign_tokens s @ prim_tokens p) sv))"
    using read_signed [OF assms(1) r' vars sc, of q] len by (auto simp: add.assoc)
  let ?s1 = "past st (sign_tokens s @ prim_tokens p) sv" and ?q1 = "rev (sign_queue s @ prim_queue p) @ q"
  have "reads ?s1 (?t # ex_tokens e @ rest)" using r by (intro reads_past) simp
  then have n: "next_token ?s1 = Some (Done (?t, past ?s1 [?t] (st_idx ?s1)))" "reads (past ?s1 [?t] (st_idx ?s1)) (ex_tokens e @ rest)"
    using next_plain [of ?s1 ?t] ty by simp_all
  let ?s2 = "past ?s1 [?t] (st_idx ?s1)"
  let ?m = "st_idx ?s2 + length (tokens_bytes (ex_tokens e))"
  obtain tk2 where x: "expr_any Expr (?t # ?q1) ?s2 = Some (Done (0, rev (ex_queue e) @ ?t # ?q1, tk2, past ?s2 (ex_tokens e) ?m))"
  proof (rule reads_exD [OF assms(2) n(2) e _ in_scope_past [OF in_scope_past [OF sc]], of "?t # ?q1"])
  qed (use vars len in simp_all)
  have "expr_any Expr q st = expr_any More_Terms ?q1 ?s1" using t by (simp add: expr_step(1))
  also have "\<dots> = expr_any Expr (?t # ?q1) ?s2"
    using ty len by (intro more_terms_op n(1)) simp_all
  finally show "\<exists>tk. expr_any Expr q st = Some (Done (0, rev (ex_queue (Op s p ty e)) @ q, tk,
      past st (ex_tokens (Op s p ty e)) ?n))"
    using x by (simp add: add.assoc)
qed

lemma read_all: "ex_ok sc vars e \<Longrightarrow> reads_ex sc vars e"
  and read_all_prim: "prim_ok sc vars p \<Longrightarrow> reads_prim sc vars p"
proof (induction e and p)
  case (Last s p)
  then show ?case by (simp add: read_last)
next
  case (Op s p ty e)
  then show ?case by (simp add: read_op)
next
  case (Atom s ty v)
  then show ?case by (rule read_atom)
next
  case (Group e)
  then show ?case by (simp add: read_group)
next
  case (Call f es)
  then show ?case by (intro read_call) (auto simp: list_all_iff)
qed

subsection \<open>Lemmas: results are C texts\<close>

lemma no_nul_sub: "no_nul s \<Longrightarrow> set t \<subseteq> set s \<Longrightarrow> no_nul t"
  by (auto simp: no_nul_def list_all_iff)

lemma with_point_no_nul [simp]: "no_nul i \<Longrightarrow> no_nul s \<Longrightarrow> no_nul (with_point i s)"
proof -
  assume a: "no_nul i" "no_nul s"
  have "set (strip_zeros s) \<subseteq> set s" by (auto simp: strip_zeros_def dest: set_dropWhileD)
  then have "no_nul (strip_zeros s)" by (rule no_nul_sub [OF a(2)])
  then show ?thesis using a by (simp add: with_point_def Let_def)
qed

lemma fmt_ratio_no_nul [simp]: "no_nul (fmt_ratio N D)"
proof -
  have t: "no_nul (take n (my_utoa q))" "no_nul (drop n (my_utoa q))" for n q
    by (rule no_nul_sub [OF my_utoa_no_nul], rule set_take_subset) (rule no_nul_sub [OF my_utoa_no_nul], rule set_drop_subset)
  have "no_nul (replicate n CHR ''0'')" for n by (simp add: no_nul_replicate)
  then show ?thesis using t by (simp add: fmt_ratio_def exp_text_def Let_def split: prod.split)
qed

lemma fmt_G_no_nul [simp]: "no_nul (fmt_G_float v)"
  by (simp add: fmt_G_float_def fmt_G_def split: prod.split)

lemma int_arith_no_nul: "int_arith ty i1 i2 = Some (r, w) \<Longrightarrow> no_nul w"
  by (auto simp: int_arith_def print_int_def print_d_no_nul split: if_splits bind_splits)

lemma arith_no_nul: "add_sub_mult_div syntax ty a b = Some (r, w) \<Longrightarrow> no_nul w"
  by (auto simp: add_sub_mult_div_def float_arith_def dest: int_arith_no_nul split: if_splits bind_splits)

subsection \<open>Lemmas: working off the queue\<close>

lemma solve_step:
  "solve_any h Solve q tk st = solve_body (solve_any h) q tk st"
  "solve_any h (Second_Value a op) q tk st = second_body (solve_any h) a op q tk st"
  "solve_any h (Fun_Args fa) q tk st = args_body h (solve_any h) fa q tk st"
  by (subst solve_any.simps, simp)+

lemma dq_Cons [simp]: "dq_token (t # q) = (t, q)"
  by (simp add: dq_token_def)

text \<open>What is left to do when a value is at the end of the queue.\<close>

definition value_step :: "host \<Rightarrow> token \<Rightarrow> queue \<Rightarrow> string \<Rightarrow> interp \<Rightarrow> solve_result run option" where
  "value_step h t q token st = run_bind (operator_step (st_syntax st) (t # q) token) (\<lambda>r.
     case r of
       Go q5 tk5 \<Rightarrow> solve_any h Solve q5 tk5 st
     | Stop iret5 q5 tk5 \<Rightarrow> Some (Done (iret5, q5, tk5, st))
     | Second arg1 op1 q5 \<Rightarrow> solve_any h (Second_Value arg1 op1) q5 token st)"

lemma value_kindsD:
  "k \<in> value_kinds \<Longrightarrow> k \<noteq> TT_CLOSE_PAREN \<and> k \<noteq> TT_FUNCTION \<and> k \<noteq> TT_NULL_TOKEN \<and> k \<noteq> TT_COMMA \<and> \<not> is_function k"
  by (auto simp: kinds)

lemma solve_value: "snd t \<in> value_kinds \<Longrightarrow> solve_any h Solve (t # q) tk st = value_step h t q tk st"
  by (subst solve_step(1), drule value_kindsD) (simp add: solve_body_def value_step_def go_on_def)

lemma solve_close:
  assumes "solve_any h Solve q tk st = Some (Done (0, t # q1, tk1, st1))" "snd t \<in> value_kinds"
  shows "solve_any h Solve (([], TT_CLOSE_PAREN) # q) tk st = solve_any h Solve (t # q1) tk1 st1"
  unfolding solve_value [OF assms(2)]
  by (subst solve_step(1)) (simp add: assms solve_body_def value_step_def)

lemma solve_call:
  assumes "solve_any h (Fun_Args no_args) q tk st = Some (Done (0, t # q1, tk1, st1))" "snd t \<in> value_kinds"
  shows "solve_any h Solve (([], TT_FUNCTION) # q) tk st = solve_any h Solve (t # q1) tk1 st1"
  unfolding solve_value [OF assms(2)]
  by (subst solve_step(1)) (simp add: assms solve_body_def value_step_def)

text \<open>A value before an opening parenthesis, a comma or a function ends the loop.\<close>

lemma solve_stop:
  assumes "k \<in> value_kinds" "length q \<le> 498"
  shows "solve_any h Solve ((v, k) # ([], TT_OPEN_PAREN) # q) tk st = Some (Done (0, (v, k) # q, tk, st))"
    "op = TT_COMMA \<or> is_function op \<Longrightarrow>
     solve_any h Solve ((v, k) # (n, op) # q) tk st = Some (Done (0, (v, k) # (n, op) # q, tk, st))"
proof -
  have "\<not> is_function TT_OPEN_PAREN" by (simp add: kinds)
  then show "solve_any h Solve ((v, k) # ([], TT_OPEN_PAREN) # q) tk st = Some (Done (0, (v, k) # q, tk, st))"
    using assms by (simp add: solve_value value_step_def operator_step_def after_operator_def q_push)
  assume "op = TT_COMMA \<or> is_function op"
  moreover from this have "op \<noteq> TT_NULL_TOKEN" "op \<noteq> TT_OPEN_PAREN" by (auto simp: kinds)
  ultimately show "solve_any h Solve ((v, k) # (n, op) # q) tk st = Some (Done (0, (v, k) # (n, op) # q, tk, st))"
    using assms by (simp add: solve_value value_step_def operator_step_def after_operator_def q_push)
qed

lemma solve_end:
  assumes "k \<in> value_kinds" "q = [] \<or> q = [([], TT_NULL_TOKEN)]"
  shows "solve_any h Solve ((v, k) # q) tk st = Some (Done (0, [], v, st))"
proof -
  have "solve_any h Solve [] tk st = Some (Done (0, [], tk, st))" for tk
    by (simp add: solve_step(1) solve_body_def go_on_def)
  then show ?thesis
    using assms by (auto simp: solve_value value_step_def operator_step_def after_operator_def dq_token_def)
qed

lemma sign_no_function:
  "\<not> is_function TT_UNARY_MINUS" "\<not> is_function TT_UNARY_PLUS" "\<not> is_function TT_UNARY_ONES_COMPLEMENT"
  by (simp_all add: is_function_def)

lemma solve_sign:
  assumes "sign_value (st_syntax st) s v = Some w" "k \<in> value_kinds" "length q < 500"
  shows "\<exists>tk1. solve_any h Solve ((v, k) # rev (sign_queue s) @ q) tk st = solve_any h Solve ((w, k) # q) tk1 st"
proof (cases s)
  case No_Sign
  then show ?thesis using assms(1) by (auto simp: sign_value_def)
next
  case Plus
  then have "solve_any h Solve ((v, k) # rev (sign_queue s) @ q) tk st = solve_any h Solve ((w, k) # q) tk st"
    using assms by (subst solve_value) (simp_all add: sign_value_def value_step_def operator_step_def after_operator_def push_go_def q_push sign_no_function)
  then show ?thesis by blast
next
  case Minus
  then have "solve_any h Solve ((v, k) # rev (sign_queue s) @ q) tk st = solve_any h Solve ((w, k) # q) w st"
    using assms by (subst solve_value) (auto simp: sign_value_def value_step_def operator_step_def after_operator_def push_go_def q_push sign_no_function split: bind_splits)
  then show ?thesis by blast
next
  case Complement
  then have "solve_any h Solve ((v, k) # rev (sign_queue s) @ q) tk st = solve_any h Solve ((w, k) # q) tk st"
    using assms by (subst solve_value) (auto simp: sign_value_def value_step_def operator_step_def after_operator_def push_go_def q_push sign_no_function split: bind_splits)
  then show ?thesis by blast
qed

lemma binary_kindsD:
  "op \<in> binary_kinds \<Longrightarrow> op \<noteq> TT_NULL_TOKEN \<and> op \<noteq> TT_OPEN_PAREN \<and> op \<noteq> TT_COMMA \<and> \<not> is_function op \<and>
     op \<noteq> TT_UNARY_MINUS \<and> op \<noteq> TT_UNARY_PLUS \<and> op \<noteq> TT_UNARY_ONES_COMPLEMENT"
  by (auto simp: kinds)

lemma solve_binary:
  assumes "op \<in> binary_kinds" "k \<in> value_kinds"
  shows "solve_any h Solve ((v, k) # (n, op) # q) tk st = solve_any h (Second_Value (v, k) op) q tk st"
proof -
  show ?thesis
    using assms binary_kindsD [OF assms(1)]
    by (simp add: solve_value value_step_def operator_step_def after_operator_def)
qed

text \<open>The rest of a round once the second value is there.\<close>

definition with_second :: "host \<Rightarrow> token \<Rightarrow> token_types \<Rightarrow> token \<Rightarrow> queue \<Rightarrow> string \<Rightarrow> interp \<Rightarrow> solve_result run option" where
  "with_second h a op t q token st =
     and_then (binary_step a op t q token st) (\<lambda>q1 tk1 st1. solve_any h Solve q1 tk1 st1)"

lemma second_value:
  "k \<in> value_kinds \<Longrightarrow> solve_any h (Second_Value a op) ((v, k) # q) tk st = with_second h a op (v, k) q tk st"
  by (drule value_kindsD) (simp add: solve_step(2) second_body_def with_second_def go_on_def)

lemma second_close:
  "solve_any h Solve q tk st = Some (Done (0, t # q1, tk1, st1)) \<Longrightarrow>
   solve_any h (Second_Value a op) (([], TT_CLOSE_PAREN) # q) tk st = with_second h a op t q1 tk1 st1"
  by (simp add: solve_step(2) second_body_def with_second_def go_on_def)

lemma second_call:
  "solve_any h (Fun_Args no_args) q tk st = Some (Done (0, (v, k) # q1, tk1, st1)) \<Longrightarrow> k \<in> value_kinds \<Longrightarrow>
   solve_any h (Second_Value a op) (([], TT_FUNCTION) # q) tk st = with_second h a op (v, k) q1 tk1 st1"
  by (drule value_kindsD) (simp add: solve_step(2) second_body_def with_second_def go_on_def)

text \<open>No sign stands at the end of what is left of the queue; an empty queue can come back with a
  null token.\<close>

definition no_sign :: "queue \<Rightarrow> bool" where
  "no_sign q \<longleftrightarrow> (q \<noteq> [] \<longrightarrow> snd (hd q) \<notin> sign_kinds)"

definition same_queue :: "queue \<Rightarrow> queue \<Rightarrow> bool" where
  "same_queue q1 q \<longleftrightarrow> q1 = q \<or> q = [] \<and> q1 = [([], TT_NULL_TOKEN)]"

lemma same_queue_Cons [simp]: "same_queue q1 (t # q) \<longleftrightarrow> q1 = t # q"
  by (simp add: same_queue_def)

lemma same_queue_refl [simp]: "same_queue q q"
  by (simp add: same_queue_def)

lemma operator_token: "op \<in> binary_kinds \<Longrightarrow> apply_operator syntax op a b token = apply_operator syntax op a b []"
  by (auto simp: apply_operator_def binary_kinds_def)

lemma sign_of_second_value:
  assumes "sign_value syntax s v = Some l" "s \<noteq> No_Sign"
  shows "\<exists>op2 tk1. sign_queue s = [([], op2)] \<and> sign_of_second syntax op2 v tk = Some (0, l, True, tk1)"
proof (cases s)
  case Minus
  then obtain r where a: "add_sub_mult_div syntax TT_MULT v ''-1'' = Some (r, l)" "r = 0"
    using assms(1) by (auto simp: sign_value_def split: bind_splits)
  moreover have "no_nul l" by (rule arith_no_nul [OF a(1)])
  ultimately show ?thesis using Minus by (simp add: sign_of_second_def)
next
  case Complement
  then show ?thesis using assms(1) by (auto simp: sign_value_def sign_of_second_def split: bind_splits)
qed (use assms in \<open>simp_all add: sign_value_def sign_of_second_def\<close>)

lemma signed_second:
  assumes "sign_value (st_syntax st) s v = Some l" "s = No_Sign \<longrightarrow> no_sign q" "op \<in> binary_kinds"
    "apply_operator (st_syntax st) op r l [] = Some (0, w)" "length q < 499"
  shows "\<exists>q1. same_queue q1 q \<and>
    with_second h (r, k) op (v, k2) (rev (sign_queue s) @ q) tk st = solve_any h Solve ((w, k) # q1) w st"
proof -
  have w: "apply_operator (st_syntax st) op r l t = Some (0, w)" for t
    using operator_token [OF assms(3)] assms(4) by metis
  show ?thesis
proof (cases "s = No_Sign")
  case True
  have v: "v = l" using assms(1) True by (simp add: sign_value_def)
  show ?thesis
  proof (cases q)
    case Nil
    then show ?thesis
      using True v by (intro exI [of _ "[([], TT_NULL_TOKEN)]"])
        (simp add: with_second_def binary_step_def dq_token_def sign_of_second_def same_queue_def q_push w)
  next
    case (Cons t q0)
    then have "snd t \<notin> sign_kinds" using assms(2) True by (simp add: no_sign_def)
    then show ?thesis
      using Cons True v assms(5)
      by (simp add: with_second_def binary_step_def sign_of_second_def sign_kinds_def q_push w)
  qed
next
  case False
  obtain op2 tk2 where "sign_queue s = [([], op2)]" "sign_of_second (st_syntax st) op2 v tk = Some (0, l, True, tk2)"
    using sign_of_second_value [OF assms(1) False] by blast
  then have "with_second h (r, k) op (v, k2) (rev (sign_queue s) @ q) tk st = solve_any h Solve ((w, k) # q) w st"
    using assms(5) by (simp add: with_second_def binary_step_def q_push w)
  then show ?thesis by (intro exI [of _ q]) simp
qed
qed

text \<open>The value of an expression, of a value without a sign in the first place and in the second.\<close>

definition solves :: "host \<Rightarrow> ex \<Rightarrow> bool" where
  "solves h e \<longleftrightarrow> (\<forall>q tk st v st1. ex_value h e st = Some (v, st1) \<longrightarrow> length (ex_queue e) + length q \<le> 500 \<longrightarrow>
     no_sign q \<longrightarrow> (\<exists>k tk1 q1. k \<in> value_kinds \<and> same_queue q1 q \<and>
       solve_any h Solve (rev (ex_queue e) @ q) tk st = solve_any h Solve ((v, k) # q1) tk1 st1))"

definition solves_prim :: "host \<Rightarrow> prim \<Rightarrow> bool" where
  "solves_prim h p \<longleftrightarrow> (\<forall>q tk st v st1. prim_value h p st = Some (v, st1) \<longrightarrow> length (prim_queue p) + length q \<le> 500 \<longrightarrow>
     (\<exists>k tk1. k \<in> value_kinds \<and>
       solve_any h Solve (rev (prim_queue p) @ q) tk st = solve_any h Solve ((v, k) # q) tk1 st1) \<and>
     (\<forall>a op. \<exists>k tk1. k \<in> value_kinds \<and>
       solve_any h (Second_Value a op) (rev (prim_queue p) @ q) tk st = with_second h a op (v, k) q tk1 st1))"

lemma solvesD:
  assumes "solves h e" "ex_value h e st = Some (v, st1)" "length (ex_queue e) + length q \<le> 500" "no_sign q"
  obtains k tk1 q1 where "k \<in> value_kinds" "same_queue q1 q"
    "solve_any h Solve (rev (ex_queue e) @ q) tk st = solve_any h Solve ((v, k) # q1) tk1 st1"
  using assms unfolding solves_def by blast

lemma prim_queue_pos: "0 < length (prim_queue p)"
  by (cases p) simp_all

lemma ex_queue_pos: "0 < length (ex_queue e)"
  using prim_queue_pos by (cases e) auto

lemma solve_atom: "ty \<in> value_kinds \<Longrightarrow> solves_prim h (Atom s ty v)"
  unfolding solves_prim_def by (auto simp: second_value)

lemma solve_group:
  assumes "solves h e"
  shows "solves_prim h (Group e)"
  unfolding solves_prim_def
proof (intro allI impI)
  fix q :: queue and tk :: string and st :: interp and v st1
  assume v: "prim_value h (Group e) st = Some (v, st1)" and len: "length (prim_queue (Group e)) + length q \<le> 500"
  let ?q = "([], TT_OPEN_PAREN) # q"
  obtain k tk1 q1 where k: "k \<in> value_kinds" "same_queue q1 ?q"
    "solve_any h Solve (rev (ex_queue e) @ ?q) tk st = solve_any h Solve ((v, k) # q1) tk1 st1"
  proof (rule solvesD [OF assms, of st v st1 ?q tk])
    show "no_sign ?q" by (simp add: no_sign_def sign_kinds_def)
  qed (use v len in simp_all)
  have "length q \<le> 498" using len by simp
  then have s: "solve_any h Solve (rev (ex_queue e) @ ?q) tk st = Some (Done (0, (v, k) # q, tk1, st1))"
    using k solve_stop(1) [OF k(1)] by simp
  show "(\<exists>k tk1. k \<in> value_kinds \<and>
       solve_any h Solve (rev (prim_queue (Group e)) @ q) tk st = solve_any h Solve ((v, k) # q) tk1 st1) \<and>
     (\<forall>a op. \<exists>k tk1. k \<in> value_kinds \<and>
       solve_any h (Second_Value a op) (rev (prim_queue (Group e)) @ q) tk st = with_second h a op (v, k) q tk1 st1)"
    using solve_close [OF s] second_close [OF s] k(1) by auto
qed

text \<open>One argument, and the arguments of a call.\<close>

lemma rev_ex_queue:
  "ex_ok sc vars e \<Longrightarrow> \<exists>t q. rev (ex_queue e) = t # q \<and> \<not> is_function (snd t) \<and> snd t \<noteq> TT_COMMA"
  and rev_prim_queue:
  "prim_ok sc vars p \<Longrightarrow> \<exists>t q. rev (prim_queue p) = t # q \<and> \<not> is_function (snd t) \<and> snd t \<noteq> TT_COMMA"
proof (induction e and p)
  case (Atom s ty v)
  then show ?case using value_kindsD [of ty] by simp
qed (auto simp: is_function_def)

lemma solve_arg:
  assumes "ex_ok sc vars e" "solves h e" "ex_value h e st = Some (v, st1)" "length (ex_queue e) + length q + 1 \<le> 500"
    "op = TT_COMMA \<or> is_function op" "set_arg fa v = Some fa1"
  shows "solve_any h (Fun_Args fa) (rev (ex_queue e) @ ([], op) # q) tk st = solve_any h (Fun_Args fa1) (([], op) # q) v st1"
proof -
  let ?o = "([], op) # q"
  obtain t q0 where t: "rev (ex_queue e) = t # q0" "\<not> is_function (snd t)" "snd t \<noteq> TT_COMMA"
    using rev_ex_queue [OF assms(1)] by blast
  have "length (rev (ex_queue e)) = Suc (length q0)" by (simp only: t(1) list.size)
  then have len: "length q0 + length q < 499" "length q < 499" using assms(4) by simp_all
  obtain k tk1 q1 where k: "k \<in> value_kinds" "same_queue q1 ?o"
    "solve_any h Solve (rev (ex_queue e) @ ?o) (fst t) st = solve_any h Solve ((v, k) # q1) tk1 st1"
  proof (rule solvesD [OF assms(2,3), of ?o "fst t"])
    show "no_sign ?o" using assms(5) by (auto simp: no_sign_def kinds)
  qed (use assms(4) in simp)
  have "solve_any h Solve (t # q0 @ ?o) (fst t) st = Some (Done (0, (v, k) # ?o, tk1, st1))"
    using k solve_stop(2) [OF k(1) _ assms(5)] len t(1) by simp
  then show ?thesis
    using t len assms(6) by (simp add: solve_step(3) [of h fa] args_body_def q_push)
qed

lemma solve_comma:
  "solve_any h (Fun_Args fa) (([], TT_COMMA) # q) tk st =
   solve_any h (Fun_Args (fa\<lparr>fa_count := fa_count fa + 1\<rparr>)) q [] st"
  by (subst solve_step(3)) (simp add: args_body_def is_function_def)

lemma solve_function:
  assumes "call_value h f vs st = Some (v, st1)" "is_function f" "length q < 500"
  shows "\<exists>k tk1. k \<in> value_kinds \<and>
    solve_any h (Fun_Args (args_of vs)) (([], f) # q) tk st = Some (Done (0, (v, k) # q, tk1, st1))"
proof -
  obtain k where "call_function h f (args_of vs) [] st = Some (Done (0, v, Some k, st1))" "k \<in> value_kinds"
    using assms(1) unfolding call_value_def by (auto split: option.splits run.splits prod.splits bind_splits)
  then show ?thesis
    using assms(2,3) by (simp add: solve_step(3) args_body_def function_result_def q_push)
qed

lemma solve_args:
  assumes "list_all (ex_ok sc vars) es" "\<And>e. e \<in> set es \<Longrightarrow> solves h e" "length es \<le> 3" "is_function f"
    "all_values (map (ex_value h) es) st = Some (vs, st1)"
    "length (commas (map ex_queue es)) + length q + 1 \<le> 500"
  shows "\<exists>tk1. solve_any h (Fun_Args no_args) (rev (commas (map ex_queue es)) @ ([], f) # q) tk st =
    solve_any h (Fun_Args (args_of vs)) (([], f) # q) tk1 st1"
proof -
  note arg = solve_arg [where q = q and op = f] solve_arg [where op = TT_COMMA]
  consider "es = []" | a where "es = [a]" | a b where "es = [a, b]" | a b c where "es = [a, b, c]"
    using assms(3) by (auto simp: le_Suc_eq numeral_3_eq_3 length_Suc_conv)
  then show ?thesis
  proof cases
    case 1
    then show ?thesis using assms(5) by (auto simp: args_of_def)
  next
    case (2 a)
    then obtain v where v: "ex_value h a st = Some (v, st1)" "vs = [v]"
      using assms(5) by (auto split: bind_splits)
    have "solve_any h (Fun_Args no_args) (rev (ex_queue a) @ ([], f) # q) tk st =
        solve_any h (Fun_Args (args_of vs)) (([], f) # q) v st1"
      using assms v 2 by (intro solve_arg [of sc vars]) (auto simp: set_arg_def args_of_def no_args_def)
    then show ?thesis using 2 by auto
  next
    case (3 a b)
    then obtain w v st2 where v: "ex_value h b st = Some (w, st2)" "ex_value h a st2 = Some (v, st1)" "vs = [v, w]"
      using assms(5) by (auto split: bind_splits)
    have "solve_any h (Fun_Args no_args) (rev (ex_queue b) @ ([], TT_COMMA) # rev (ex_queue a) @ ([], f) # q) tk st =
        solve_any h (Fun_Args (args_of [w])) (([], TT_COMMA) # rev (ex_queue a) @ ([], f) # q) w st2"
      using assms v 3 by (intro solve_arg [of sc vars]) (auto simp: set_arg_def args_of_def no_args_def)
    also have "\<dots> = solve_any h (Fun_Args ((args_of [w])\<lparr>fa_count := 1\<rparr>)) (rev (ex_queue a) @ ([], f) # q) [] st2"
      by (simp add: solve_comma args_of_def)
    also have "\<dots> = solve_any h (Fun_Args (args_of vs)) (([], f) # q) v st1"
      using assms v 3 by (intro solve_arg [of sc vars]) (auto simp: set_arg_def args_of_def)
    finally show ?thesis using 3 by auto
  next
    case (4 a b c)
    then obtain x w v st2 st3 where v: "ex_value h c st = Some (x, st2)" "ex_value h b st2 = Some (w, st3)"
      "ex_value h a st3 = Some (v, st1)" "vs = [v, w, x]"
      using assms(5) by (auto split: bind_splits)
    let ?qa = "rev (ex_queue a) @ ([], f) # q"
    let ?qb = "rev (ex_queue b) @ ([], TT_COMMA) # ?qa"
    have "solve_any h (Fun_Args no_args) (rev (ex_queue c) @ ([], TT_COMMA) # ?qb) tk st =
        solve_any h (Fun_Args (args_of [x])) (([], TT_COMMA) # ?qb) x st2"
      using assms v 4 by (intro solve_arg [of sc vars]) (auto simp: set_arg_def args_of_def no_args_def)
    also have "\<dots> = solve_any h (Fun_Args ((args_of [x])\<lparr>fa_count := 1\<rparr>)) ?qb [] st2"
      by (simp add: solve_comma args_of_def)
    also have "\<dots> = solve_any h (Fun_Args (args_of [w, x])) (([], TT_COMMA) # ?qa) w st3"
      using assms v 4 by (intro solve_arg [of sc vars]) (auto simp: set_arg_def args_of_def)
    also have "\<dots> = solve_any h (Fun_Args ((args_of [w, x])\<lparr>fa_count := 2\<rparr>)) ?qa [] st3"
      by (simp add: solve_comma args_of_def numeral_2_eq_2)
    also have "\<dots> = solve_any h (Fun_Args (args_of vs)) (([], f) # q) v st1"
      using assms v 4 by (intro solve_arg [of sc vars]) (auto simp: set_arg_def args_of_def)
    finally show ?thesis using 4 by auto
  qed
qed

lemma solve_call_prim:
  assumes "prim_ok sc vars (Call f es)" "\<And>e. e \<in> set es \<Longrightarrow> solves h e"
  shows "solves_prim h (Call f es)"
  unfolding solves_prim_def
proof (intro allI impI)
  fix q :: queue and tk :: string and st :: interp and v st1
  assume v: "prim_value h (Call f es) st = Some (v, st1)" and len: "length (prim_queue (Call f es)) + length q \<le> 500"
  let ?q = "rev (commas (map ex_queue es)) @ ([], f) # q"
  obtain vs st2 where vs: "all_values (map (ex_value h) es) st = Some (vs, st2)" "call_value h f vs st2 = Some (v, st1)"
    using v by (auto split: bind_splits)
  have "\<exists>tk1. solve_any h (Fun_Args no_args) ?q tk st = solve_any h (Fun_Args (args_of vs)) (([], f) # q) tk1 st2"
    using assms vs len by (intro solve_args [of sc vars]) simp_all
  then obtain k tk1 where k: "k \<in> value_kinds" "solve_any h (Fun_Args no_args) ?q tk st = Some (Done (0, (v, k) # q, tk1, st1))"
    using solve_function [OF vs(2), of q] assms(1) len by fastforce
  show "(\<exists>k tk1. k \<in> value_kinds \<and>
       solve_any h Solve (rev (prim_queue (Call f es)) @ q) tk st = solve_any h Solve ((v, k) # q) tk1 st1) \<and>
     (\<forall>a op. \<exists>k tk1. k \<in> value_kinds \<and>
       solve_any h (Second_Value a op) (rev (prim_queue (Call f es)) @ q) tk st = with_second h a op (v, k) q tk1 st1)"
    using solve_call [OF k(2)] second_call [OF k(2)] k(1) by auto
qed

lemma solves_primD:
  assumes "solves_prim h p" "prim_value h p st = Some (v, st1)" "length (prim_queue p) + length q \<le> 500"
  shows "\<exists>k tk1. k \<in> value_kinds \<and>
      solve_any h Solve (rev (prim_queue p) @ q) tk st = solve_any h Solve ((v, k) # q) tk1 st1"
    "\<exists>k tk1. k \<in> value_kinds \<and>
      solve_any h (Second_Value a op) (rev (prim_queue p) @ q) tk st = with_second h a op (v, k) q tk1 st1"
  using assms unfolding solves_prim_def by blast+

lemma solve_last:
  assumes "solves_prim h p"
  shows "solves h (Last s p)"
  unfolding solves_def
proof (intro allI impI)
  fix q :: queue and tk :: string and st :: interp and v st1
  assume v: "ex_value h (Last s p) st = Some (v, st1)" and len: "length (ex_queue (Last s p)) + length q \<le> 500"
  obtain u where u: "prim_value h p st = Some (u, st1)" "sign_value (st_syntax st1) s u = Some v"
    using v by (auto split: bind_splits)
  have l: "length (prim_queue p) + length (rev (sign_queue s) @ q) \<le> 500" using len by simp
  obtain k tk1 where k: "k \<in> value_kinds" "solve_any h Solve (rev (prim_queue p) @ rev (sign_queue s) @ q) tk st =
      solve_any h Solve ((u, k) # rev (sign_queue s) @ q) tk1 st1"
    using solves_primD(1) [OF assms u(1) l] by blast
  have "length q < 500" using len prim_queue_pos [of p] by (simp del: length_greater_0_conv)
  then obtain tk2 where "solve_any h Solve ((u, k) # rev (sign_queue s) @ q) tk1 st1 = solve_any h Solve ((v, k) # q) tk2 st1"
    using solve_sign [OF u(2) k(1)] by blast
  then show "\<exists>k tk1 q1. k \<in> value_kinds \<and> same_queue q1 q \<and>
       solve_any h Solve (rev (ex_queue (Last s p)) @ q) tk st = solve_any h Solve ((v, k) # q1) tk1 st1"
    using k by (intro exI [of _ k] exI [of _ tk2] exI [of _ q]) simp
qed

lemma solve_op:
  assumes "solves_prim h p" "solves h e" "ty \<in> binary_kinds"
  shows "solves h (Op s p ty e)"
  unfolding solves_def
proof (intro allI impI)
  fix q :: queue and tk :: string and st :: interp and v st1
  assume v: "ex_value h (Op s p ty e) st = Some (v, st1)" and len: "length (ex_queue (Op s p ty e)) + length q \<le> 500"
    and q: "no_sign q"
  obtain r st2 u l where u: "ex_value h e st = Some (r, st2)" "prim_value h p st2 = Some (u, st1)"
    "sign_value (st_syntax st1) s u = Some l" "apply_operator (st_syntax st1) ty r l [] = Some (0, v)"
    using v by (auto split: bind_splits)
  let ?q1 = "rev (sign_queue s) @ q"
  let ?q2 = "rev (prim_queue p) @ ?q1"
  obtain k tk1 where k: "k \<in> value_kinds"
    "solve_any h Solve (rev (ex_queue e) @ ([], ty) # ?q2) tk st = solve_any h Solve ((r, k) # ([], ty) # ?q2) tk1 st2"
  proof (rule solvesD [OF assms(2) u(1), of "([], ty) # ?q2" tk])
    show "no_sign (([], ty) # ?q2)" using assms(3) by (auto simp: no_sign_def kinds)
  qed (use len in simp_all)
  have l: "length (prim_queue p) + length ?q1 \<le> 500" using len by simp
  obtain k2 tk2 where k2: "solve_any h (Second_Value (r, k) ty) ?q2 tk1 st2 = with_second h (r, k) ty (u, k2) ?q1 tk2 st1"
    using solves_primD(2) [OF assms(1) u(2) l] by blast
  have "length q < 499" using len ex_queue_pos [of e] prim_queue_pos [of p] by (simp del: length_greater_0_conv)
  then obtain q3 where "same_queue q3 q" "with_second h (r, k) ty (u, k2) ?q1 tk2 st1 = solve_any h Solve ((v, k) # q3) v st1"
    using signed_second [OF u(3) _ assms(3) u(4)] q by blast
  then show "\<exists>k tk1 q1. k \<in> value_kinds \<and> same_queue q1 q \<and>
       solve_any h Solve (rev (ex_queue (Op s p ty e)) @ q) tk st = solve_any h Solve ((v, k) # q1) tk1 st1"
    using k k2 solve_binary [OF assms(3) k(1)] by (intro exI [of _ k] exI [of _ v] exI [of _ q3]) simp
qed

lemma solve_all: "ex_ok sc vars e \<Longrightarrow> solves h e"
  and solve_all_prim: "prim_ok sc vars p \<Longrightarrow> solves_prim h p"
proof (induction e and p)
  case (Last s p)
  then show ?case by (simp add: solve_last)
next
  case (Op s p ty e)
  then show ?case by (simp add: solve_op)
next
  case (Atom s ty v)
  then show ?case by (simp add: solve_atom)
next
  case (Group e)
  then show ?case by (simp add: solve_group)
next
  case (Call f es)
  then show ?case by (intro solve_call_prim) (auto simp: list_all_iff)
qed

text \<open>Reading and working off together.\<close>

lemma expression_value_any:
  assumes "reads st (ex_tokens e @ rest)" "ends rest" "ex_ok sc (st_vars st) e"
    "in_scope st (st_idx st + length (tokens_bytes (ex_tokens e))) sc" "length (ex_queue e) \<le> 500"
    "ex_value host e (past st (ex_tokens e) (st_idx st + length (tokens_bytes (ex_tokens e)))) = Some (v, st1)"
  shows "expression host st = Some (Done (0, v, st1))"
proof -
  let ?s = "past st (ex_tokens e) (st_idx st + length (tokens_bytes (ex_tokens e)))"
  obtain tk where r: "expr_any Expr [] st = Some (Done (0, rev (ex_queue e) @ [], tk, ?s))"
    using reads_exD [OF read_all [OF assms(3)] assms(1,2) refl assms(4), of "[]"] assms(5) by auto
  obtain k tk1 q1 where k: "k \<in> value_kinds" "same_queue q1 []"
    "solve_any host Solve (rev (ex_queue e) @ []) tk ?s = solve_any host Solve ((v, k) # q1) tk1 st1"
  proof (rule solvesD [OF solve_all [OF assms(3)] assms(6), of "[]" tk])
  qed (use assms(5) in \<open>simp_all add: no_sign_def\<close>)
  have "solve_any host Solve (rev (ex_queue e) @ []) tk ?s = Some (Done (0, [], v, st1))"
    using k solve_end [OF k(1)] by (simp add: same_queue_def)
  then show ?thesis using r by (simp add: expression_def)
qed

definition minus_chain :: "u32 \<Rightarrow> u32 \<Rightarrow> u32 \<Rightarrow> ex" where
  "minus_chain a b c = Op No_Sign (Atom (print_d a) TT_NUMBER (print_d a)) TT_MINUS
     (Op No_Sign (Atom (print_d b) TT_NUMBER (print_d b)) TT_MINUS
       (Last No_Sign (Atom (print_d c) TT_NUMBER (print_d c))))"

lemma isint_print_d [simp]: "isint (print_d w) = Some True"
  using sint_u32_bounds [of w] by (simp add: isint_def scan_print_d)

lemma minus_print_d:
  "- (2 ^ 31) \<le> sint a - sint b \<Longrightarrow> sint a - sint b < 2 ^ 31 \<Longrightarrow>
   add_sub_mult_div False TT_MINUS (print_d b) (print_d a) = Some (0, print_d (a - b))"
  by (simp add: add_sub_mult_div_def both_int_def int_arith_def print_int_def)

lemma sint_diff:
  "- (2 ^ 31) \<le> sint a - sint b \<Longrightarrow> sint a - sint b < 2 ^ 31 \<Longrightarrow> sint (a - b :: u32) = sint a - sint b"
  by (simp add: sint_word_ariths signed_take_bit_int_eq_self)

text \<open>\<^verbatim>\<open>2 * -(3 + strlen("abcd"))\<close>\<close>

definition example_ex :: ex where
  "example_ex = Op No_Sign (Atom ''2'' TT_NUMBER ''2'') TT_MULT (Last Minus (Group
     (Op No_Sign (Atom ''3'' TT_NUMBER ''3'') TT_PLUS (Last No_Sign (Call TT_STRLEN [Last No_Sign (Atom ''abcd'' TT_STRING ''abcd'')])))))"

lemma reads_fresh: "list_all token_ok ts \<Longrightarrow> reads (fresh_interp (tokens_bytes ts)) ts"
  by (simp add: reads_def fresh_interp_def)

lemma fresh_scope: "in_scope (fresh_interp p) m \<lparr>sc_program = [], sc_label = []\<rparr>"
  by (simp add: in_scope_def fresh_interp_def label_get_def)

section \<open>Properties\<close>

text \<open>C26. \<open>expression\<close> computes the value of the syntax tree: where the program holds the tokens of an
  expression of at most 500 tokens (any operators, signs, parentheses, values and calls with up to
  three arguments) before a token that is no operator, and the tree has a value, the
  call succeeds with this value and leaves the program behind the expression.\<close>

theorem expression_value:
  assumes "reads st (ex_tokens e @ rest)" "ends rest" "ex_ok sc (st_vars st) e"
    "in_scope st (st_idx st + length (tokens_bytes (ex_tokens e))) sc" "length (ex_queue e) \<le> 500"
    "ex_value host e (past st (ex_tokens e) (st_idx st + length (tokens_bytes (ex_tokens e)))) = Some (v, st1)"
  shows "expression host st = Some (Done (0, v, st1))"
  by (rule expression_value_any [OF assms])

theorem expression_value_witness:
  "\<exists>st1. expression (\<lambda>_ _ _ _. None) (fresh_interp (tokens_bytes (ex_tokens example_ex))) = Some (Done (0, ''-14'', st1))"
proof -
  let ?st = "fresh_interp (tokens_bytes (ex_tokens example_ex))" and ?h = "\<lambda>_ _ _ _. None :: fun_result run option"
  let ?n = "st_idx ?st + length (tokens_bytes (ex_tokens example_ex))"
  have "reads ?st (ex_tokens example_ex @ [])"
    by (simp add: reads_fresh, rule reads_fresh) (simp add: example_ex_def token_ok_def text_kinds_def of_char_def)
  moreover have "ends []" by (simp add: ends_def)
  moreover have "ex_ok \<lparr>sc_program = [], sc_label = []\<rparr> (st_vars ?st) example_ex"
    by (simp add: example_ex_def value_kinds_def binary_kinds_def is_function_def)
  moreover have "in_scope ?st ?n \<lparr>sc_program = [], sc_label = []\<rparr>" by (rule fresh_scope)
  moreover have "length (ex_queue example_ex) \<le> 500" by (simp add: example_ex_def)
  moreover have "map_option fst (ex_value ?h example_ex (past ?st (ex_tokens example_ex) ?n)) = Some ''-14''"
    by code_simp
  then obtain st1 where "ex_value ?h example_ex (past ?st (ex_tokens example_ex) ?n) = Some (''-14'', st1)" by auto
  ultimately have "expression ?h ?st = Some (Done (0, ''-14'', st1))" by (rule expression_value)
  then show ?thesis by blast
qed

text \<open>Operators of the same rank group to the right: for numbers \<open>a\<close>, \<open>b\<close> and \<open>c\<close> the expression
  \<open>a - b - c\<close> has the value \<open>a - (b - c)\<close>.\<close>

theorem minus_groups_right:
  assumes "reads st (ex_tokens (minus_chain a b c) @ rest)" "ends rest" "\<not> st_syntax st"
    "in_scope st (st_idx st + length (tokens_bytes (ex_tokens (minus_chain a b c)))) sc"
    "- (2 ^ 31) \<le> sint b - sint c" "sint b - sint c < 2 ^ 31"
    "- (2 ^ 31) \<le> sint a - (sint b - sint c)" "sint a - (sint b - sint c) < 2 ^ 31"
  shows "\<exists>st1. expression host st = Some (Done (0, print_d (a - (b - c)), st1))"
proof -
  note bc = sint_diff [OF assms(5,6)]
  have "ex_value host (minus_chain a b c) st1 = Some (print_d (a - (b - c)), st1)" if "\<not> st_syntax st1" for st1
    using that minus_print_d [OF assms(5,6)] minus_print_d [of a "b - c"] assms(7,8) bc
    by (simp add: minus_chain_def sign_value_def apply_operator_def)
  moreover have "ex_ok sc (st_vars st) (minus_chain a b c)"
    by (simp add: minus_chain_def value_kinds_def binary_kinds_def)
  moreover have "length (ex_queue (minus_chain a b c)) \<le> 500" by (simp add: minus_chain_def)
  ultimately show ?thesis using expression_value_any [OF assms(1,2) _ assms(4)] assms(3) by fastforce
qed

theorem minus_groups_right_witness:
  "\<exists>st1. expression (\<lambda>_ _ _ _. None) (fresh_interp (tokens_bytes (ex_tokens (minus_chain 8 4 2)))) =
     Some (Done (0, ''6'', st1))"
proof -
  let ?ts = "ex_tokens (minus_chain 8 4 2)" and ?h = "\<lambda>_ _ _ _. None :: fun_result run option"
  have p: "print_d 8 = ''8''" "print_d 4 = ''4''" "print_d 2 = ''2''" "print_d (8 - (4 - 2)) = ''6''" by code_simp+
  have "list_all token_ok ?ts"
    by (simp add: minus_chain_def p token_ok_def text_kinds_def of_char_def)
  then have "reads (fresh_interp (tokens_bytes ?ts)) (?ts @ [])" by (simp add: reads_fresh)
  then have "\<exists>st1. expression ?h (fresh_interp (tokens_bytes ?ts)) = Some (Done (0, print_d (8 - (4 - 2)), st1))"
    by (rule minus_groups_right [where rest = "[]" and sc = "\<lparr>sc_program = [], sc_label = []\<rparr>"]) (simp_all add: ends_def fresh_scope, simp_all add: fresh_interp_def)
  then show ?thesis by (simp only: p)
qed

text \<open>The error of a term with a sign is lost: after a minus sign, any token that starts no term
  is consumed, and where a token that is no operator follows, the expression succeeds with the empty text.\<close>

theorem sign_hides_error:
  assumes "reads st (([], TT_MINUS) # ([], k) # rest)" "ends rest" "\<not> is_function k"
    "k \<notin> {TT_VARIABLE, TT_IDENTIFIER, TT_STRING, TT_CONSTANT, TT_NUMBER, TT_MINUS, TT_PLUS,
       TT_UNARY_ONES_COMPLEMENT, TT_OPEN_PAREN}"
  shows "\<exists>st1. expression host st = Some (Done (0, [], st1))"
proof -
  let ?s1 = "past st [([], TT_MINUS)] (st_idx st)"
  let ?s2 = "past ?s1 [([], k)] (st_idx ?s1)"
  have n1: "next_token st = Some (Done (([], TT_MINUS), ?s1))" "reads ?s1 (([], k) # rest)"
    using next_plain [of st "([], TT_MINUS)"] assms(1) by simp_all
  have n2: "next_token ?s1 = Some (Done (([], k), ?s2))" "reads ?s2 rest"
    using next_plain [OF n1(2)] assms(4) by simp_all
  have k: "k \<noteq> TT_VARIABLE" "k \<noteq> TT_IDENTIFIER" "k \<noteq> TT_STRING" "k \<noteq> TT_CONSTANT" "k \<noteq> TT_NUMBER" "k \<noteq> TT_MINUS"
    "k \<noteq> TT_PLUS" "k \<noteq> TT_UNARY_ONES_COMPLEMENT" "k \<noteq> TT_OPEN_PAREN"
    using assms(4) by simp_all
  let ?q = "[([], TT_UNARY_MINUS)]"
  have inner: "expr_any Term ?q ?s1 = Some (Done (1, ?q, [], ?s2))"
    unfolding expr_step(3) term_body_def n2(1) using assms(3) k by (simp del: interp.update_convs)
  have t: "expr_any Term [] st = Some (Done (0, ?q, [], ?s2))"
    using n1(1) inner by (simp add: expr_step(3) [of "[]"] term_body_def after_sign_def queue_then_def q_push go_on_def kinds)
  obtain t st1 where "next_token ?s2 = Some (Done (t, st1))" "\<not> is_operator (snd t)"
    using next_end [OF n2(2) assms(2)] by blast
  then have "expr_any Expr [] st = Some (Done (0, ?q, fst t, put_program_token st1))"
    using t by (simp add: expr_step(1,2) more_terms_body_def go_on_def)
  moreover have "solve_any host Solve ?q tk s = Some (Done (0, [], [], s))" for tk s
  proof -
    have "solve_any host Solve [] [] s = Some (Done (0, [], [], s))"
      by (simp add: solve_step(1) solve_body_def go_on_def)
    then show ?thesis
      by (subst solve_step(1)) (simp add: solve_body_def go_on_def operator_step_def after_operator_def dq_token_def)
  qed
  ultimately show ?thesis by (simp add: expression_def)
qed

theorem sign_hides_error_witness:
  "\<exists>st1. expression (\<lambda>_ _ _ _. None) (fresh_interp (tokens_bytes [([], TT_MINUS), ([], TT_CLOSE_PAREN)])) =
     Some (Done (0, [], st1))"
proof (rule sign_hides_error [of _ TT_CLOSE_PAREN "[]"])
  show "reads (fresh_interp (tokens_bytes [([], TT_MINUS), ([], TT_CLOSE_PAREN)])) [([], TT_MINUS), ([], TT_CLOSE_PAREN)]"
    by (rule reads_fresh) (simp add: token_ok_def text_kinds_def)
qed (simp_all add: ends_def is_function_def)

text \<open>\<open>ABS\<close> takes no absolute value: a number is read as unsigned and printed, so the function
  is the identity on the numbers that are not negative and adds \<open>2 ^ 32\<close> to the others.\<close>

theorem abs_of_negative:
  assumes "\<not> st_syntax st"
  shows "call_function host TT_ABS (args_of [print_d w]) token st =
    Some (Done (0, my_utoa (nat (sint w mod 2 ^ 32)), Some TT_NUMBER, st))"
proof -
  have "unat w = nat (sint w mod 2 ^ 32)"
    by (simp add: unat_eq_nat_uint uint_sint take_bit_eq_mod)
  then show ?thesis
    using assms by (simp add: call_function_def tmp_var_functions_def text_functions_def number_functions_def
      fun_number_def args_of_def result_as_def print_u_def)
qed

theorem abs_of_negative_witness:
  "call_function (\<lambda>_ _ _ _. None) TT_ABS (args_of [print_d (- 5)]) [] (fresh_interp []) =
    Some (Done (0, my_utoa 4294967291, Some TT_NUMBER, fresh_interp []))"
proof -
  have "nat (sint (- 5 :: u32) mod 2 ^ 32) = 4294967291" by simp
  then show ?thesis
    using abs_of_negative [of "fresh_interp []" "\<lambda>_ _ _ _. None" "- 5" "[]"] by (simp add: fresh_interp_def)
qed

end
