(* ===== verification/Control_Flow.thy ===== *)
theory Control_Flow
  imports Execute Expression_Value
begin

unbundle bit_operations_syntax

section \<open>What the commands do\<close>

text \<open>
  Lemmas about the variables the interpreter keeps for itself, about skipping blocks of tokens and
  about the queue of arguments, and the properties of the commands: \<open>IF\<close>, \<open>WHILE\<close>, \<open>GOSUB\<close> and \<open>RETURN\<close>,
  \<open>BREAK_LOOP\<close>, labels, and errors. The tokens of the program are described by \<open>reads\<close>, the tokens
  from the index of the interpreter on, and \<open>past\<close>, the state behind them.
\<close>

subsection \<open>Internal variables\<close>

text \<open>The variables \<open>WHILE.n\<close>, \<open>RETURN.n\<close> and so on belong to the program, not to a label.\<close>

definition internal_name :: "interp \<Rightarrow> string \<Rightarrow> string" where
  "internal_name st n = ''#('' @ st_name st @ '')'' @ n"

definition internal_store :: "interp \<Rightarrow> string \<Rightarrow> bool" where
  "internal_store st n \<longleftrightarrow> store_ok (st_vars st) \<and>
     (\<forall>l. var_map (st_vars st) (''#('' @ st_name st @ ''.'' @ l @ '')'' @ n) = None)"

definition internal_ok :: "interp \<Rightarrow> string \<Rightarrow> bool" where
  "internal_ok st n \<longleftrightarrow> internal_store st n \<and>
     (case var_map (st_vars st) (internal_name st n) of None \<Rightarrow> True | Some e \<Rightarrow> v_type e = VT_SC)"

lemmas internal_defs = internal_ok_def internal_store_def internal_name_def

text \<open>Names short enough for the 128 characters a prefix is printed into.\<close>

definition names_short :: "interp \<Rightarrow> bool" where
  "names_short st \<longleftrightarrow> (\<forall>i. length (st_name st) + length (label_get (st_labels st) i) < 124)"

lemma names_shortD: "names_short st \<Longrightarrow> length (st_name st) + length (label_get (st_labels st) i) < 124"
  by (simp add: names_short_def)

lemma internal_names:
  assumes "names_short st" "ty = VT_SC \<or> ty = VT_LABEL"
  shows "program_var ty (st_name st) n = Some (internal_name st n)"
    "label_var ty (scope_of st) n = Some (''#('' @ st_name st @ ''.'' @ sc_label (scope_of st) @ '')'' @ n)"
  using names_shortD [OF assms(1), of "of_nat (st_idx st)"] assms(2)
  by (auto simp: full_names var_prefix_def internal_name_def scope_of_def)

lemma internal_place:
  assumes "internal_store st n" "names_short st" "ty = VT_SC \<or> ty = VT_LABEL"
  shows "find_place (scope_of st) (st_vars st) n ty = Some (add_or_update (st_vars st) (internal_name st n))"
proof -
  have ok: "store_ok (st_vars st)" using assms(1) by (simp add: internal_store_def)
  have "find_var (st_vars st) (''#('' @ st_name st @ ''.'' @ l @ '')'' @ n) = None" for l
    using assms(1) by (simp add: internal_store_def find_None)
  moreover have "st_vars st = [] \<Longrightarrow> add_or_update (st_vars st) full = ADD_IT full" for full
    using find_None [OF ok] by (simp add: add_or_update_def var_map_def)
  ultimately show ?thesis
    using assms(3) internal_names [OF assms(2,3)]
    by (auto simp: find_place_def scope_of_def)
qed

text \<open>\<open>holds st n val\<close>: the internal variable \<open>n\<close> has the value \<open>val\<close>.\<close>

definition holds :: "interp \<Rightarrow> string \<Rightarrow> string \<Rightarrow> bool" where
  "holds st n val \<longleftrightarrow> internal_store st n \<and>
     (\<exists>e. var_map (st_vars st) (internal_name st n) = Some e \<and> v_type e \<in> {VT_SC, VT_LABEL} \<and> var_value e = Some val)"

lemma holds_get:
  assumes "holds st n val" "names_short st" "ty = VT_SC \<or> ty = VT_LABEL"
  shows "get_var st n ty = Some (0, val)"
proof -
  obtain e where e: "var_map (st_vars st) (internal_name st n) = Some e" "v_type e \<in> {VT_SC, VT_LABEL}" "var_value e = Some val"
    using assms(1) by (auto simp: holds_def)
  have i: "internal_store st n" using assms(1) by (simp add: holds_def)
  then have ok: "store_ok (st_vars st)" by (simp add: internal_store_def)
  have "seek (st_vars st) (''#('' @ st_name st @ ''.'' @ l @ '')'' @ n) = None" for l
    using i by (simp add: internal_store_def seek_def)
  then have "find_entry (scope_of st) (st_vars st) n ty = Some (Some (internal_name st n, e))"
    using internal_names [OF assms(2,3), of n] e(1)
    by (auto simp: find_entry_eq [OF ok] scope_of_def seek_def)
  then show ?thesis unfolding get_var_def using get_entry [OF ok] e(2,3) assms(3) by auto
qed

lemma internal_put:
  assumes "internal_ok st n" "names_short st" "no_nul val" "length val < 2 ^ 32" "ty = VT_SC \<or> ty = VT_LABEL"
  obtains vars1 where "put_var st n val 0 ty = Some (Done (st\<lparr>st_vars := vars1\<rparr>))"
    "holds (st\<lparr>st_vars := vars1\<rparr>) n val" "store_ok vars1"
    "\<And>full. full \<noteq> internal_name st n \<Longrightarrow> var_map vars1 full = var_map (st_vars st) full"
proof -
  let ?v = "st_vars st" and ?c = "add_or_update (st_vars st) (internal_name st n)"
  have i: "internal_store st n" and ok: "store_ok ?v" using assms(1) by (simp_all add: internal_ok_def internal_store_def)
  have f: "found_ok ?v ?c \<and> place_name ?v ?c = internal_name st n"
    by (rule add_or_update_ok [OF ok]) (simp add: internal_name_def)
  have sc: "v_type (?v ! i) = VT_SC" if "find_var ?v (internal_name st n) = Some i" for i
    using find_Some [OF ok that] assms(1) by (simp add: internal_ok_def)
  have "writable ?v ?c"
    using sc by (cases "find_var ?v (internal_name st n)") (simp_all add: writable_def add_or_update_def)
  then obtain vars1 e where w: "(case ?c of
       ADD_IT full \<Rightarrow> Some (Done (insert_var (new_var full val ty) ?v))
     | UPDATE_IT i \<Rightarrow> update_var ?v i val ty) = Some (Done vars1)" "store_ok vars1"
    "var_map vars1 = (var_map ?v)(internal_name st n \<mapsto> e)" "var_value e = Some val"
    "v_type e = (case ?c of ADD_IT full \<Rightarrow> ty | UPDATE_IT i \<Rightarrow> v_type (?v ! i))"
    using write_ok [OF ok _ _ _ assms(4)] f assms(5) by fastforce
  have t: "v_type e \<in> {VT_SC, VT_LABEL}"
    using w(5) sc assms(5) by (cases "find_var ?v (internal_name st n)") (auto simp: add_or_update_def)
  have "put_var st n val 0 ty = Some (Done (st\<lparr>st_vars := vars1\<rparr>))"
    using w(1) internal_place [OF i assms(2,5)] assms(3)
    by (simp add: put_var_def variable_put_def)
  moreover have "holds (st\<lparr>st_vars := vars1\<rparr>) n val"
  proof -
    have "internal_name st n \<noteq> ''#('' @ st_name st @ ''.'' @ l @ '')'' @ n" for l
      by (simp add: internal_name_def)
    then show ?thesis
      using i w(2-4) t by (auto simp: holds_def internal_store_def internal_name_def)
  qed
  ultimately show thesis using that w(2,3) by simp
qed

subsection \<open>Skipping\<close>

text \<open>\<open>block_ok open close stops n ts\<close>: the tokens \<open>ts\<close> close \<open>n\<close> open blocks and hold no end of the block around
  them.\<close>

fun block_ok :: "token_types \<Rightarrow> token_types \<Rightarrow> token_types set \<Rightarrow> nat \<Rightarrow> token list \<Rightarrow> bool" where
  "block_ok open close stops n [] = (n = 0)"
| "block_ok open close stops n (t # ts) =
     (snd t \<noteq> TT_NULL_TOKEN \<and>
      (if snd t = open then block_ok open close stops (Suc n) ts
       else if snd t \<in> stops then n \<noteq> 0 \<and> block_ok open close stops n ts
       else if snd t = close then n \<noteq> 0 \<and> block_ok open close stops (n - 1) ts
       else block_ok open close stops n ts))"

lemma get_raw:
  assumes "reads st (t # ts)"
  shows "get_program_token_no_eval st = Some (t, past st [t] (st_idx st))"
    "reads (past st [t] (st_idx st)) ts"
  using reads_Cons(1) [OF assms] reads_Cons(2) [OF assms] by (simp_all add: advance_past)

lemma skip_block_ok:
  assumes "reads st (body @ (s, k) # rest)" "block_ok open close stops n body"
    "k \<in> stops \<or> k = close" "k \<noteq> open" "k \<noteq> TT_NULL_TOKEN"
  shows "\<exists>sv. skip_block open close stops n st = Some (k, past st (body @ [(s, k)]) sv)"
  using assms(1,2)
proof (induction body arbitrary: n st)
  case Nil
  have "get_program_token_no_eval st = Some ((s, k), past st [(s, k)] (st_idx st))"
    using get_raw [of st "(s, k)" rest] Nil.prems(1) by simp
  then have "skip_block open close stops n st = Some (k, past st [(s, k)] (st_idx st))"
    using assms(3-5) Nil.prems(2) by (subst skip_block.simps) auto
  then show ?case by auto
next
  case (Cons t body)
  let ?s = "past st [t] (st_idx st)"
  have g: "get_program_token_no_eval st = Some (t, ?s)" "reads ?s (body @ (s, k) # rest)"
    using get_raw [of st t "body @ (s, k) # rest"] Cons.prems(1) by simp_all
  obtain m where m: "skip_block open close stops n st = skip_block open close stops m ?s"
    "block_ok open close stops m body"
  proof (rule that)
    let ?m = "if snd t = open then Suc n else if snd t \<in> stops then n else if snd t = close then n - 1 else n"
    show "skip_block open close stops n st = skip_block open close stops ?m ?s"
      using g(1) Cons.prems(2) by (subst skip_block.simps) (cases t, auto split: if_splits)
    show "block_ok open close stops ?m body" using Cons.prems(2) by (auto split: if_splits)
  qed
  obtain sv where "skip_block open close stops m ?s = Some (k, past ?s (body @ [(s, k)]) sv)"
    using Cons.IH [OF g(2) m(2)] by blast
  then show ?case using m(1) by (auto simp: add.assoc)
qed

text \<open>The end of the innermost loop around.\<close>

fun loop_ok :: "nat \<Rightarrow> nat \<Rightarrow> token list \<Rightarrow> bool" where
  "loop_ok fors whiles [] = (fors = 0 \<and> whiles = 0)"
| "loop_ok fors whiles (t # ts) =
     (snd t \<notin> {TT_NULL_TOKEN, TT_AFTER, TT_BEGIN, TT_END, TT_LABEL} \<and>
      (if snd t = TT_FOR then loop_ok (Suc fors) whiles ts
       else if snd t = TT_WHILE then loop_ok fors (Suc whiles) ts
       else if snd t = TT_NEXT then fors \<noteq> 0 \<and> loop_ok (fors - 1) whiles ts
       else if snd t = TT_END_WHILE then whiles \<noteq> 0 \<and> loop_ok fors (whiles - 1) ts
       else loop_ok fors whiles ts))"

lemma loop_end_ok:
  assumes "reads st (body @ (s, k) # rest)" "loop_ok f w body" "k = TT_NEXT \<or> k = TT_END_WHILE"
  shows "\<exists>sv. loop_end f w st = Some (k, past st (body @ [(s, k)]) sv)"
  using assms(1,2)
proof (induction body arbitrary: f w st)
  case Nil
  have "get_program_token_no_eval st = Some ((s, k), past st [(s, k)] (st_idx st))"
    using get_raw [of st "(s, k)" rest] Nil.prems(1) by simp
  then have "loop_end f w st = Some (k, past st [(s, k)] (st_idx st))"
    using assms(3) Nil.prems(2) by (subst loop_end.simps) auto
  then show ?case by auto
next
  case (Cons t body)
  let ?s = "past st [t] (st_idx st)"
  have g: "get_program_token_no_eval st = Some (t, ?s)" "reads ?s (body @ (s, k) # rest)"
    using get_raw [of st t "body @ (s, k) # rest"] Cons.prems(1) by simp_all
  obtain f1 w1 where m: "loop_end f w st = loop_end f1 w1 ?s" "loop_ok f1 w1 body"
  proof (rule that)
    let ?f = "if snd t = TT_FOR then Suc f else if snd t = TT_NEXT then f - 1 else f"
    let ?w = "if snd t = TT_WHILE then Suc w else if snd t = TT_END_WHILE then w - 1 else w"
    show "loop_end f w st = loop_end ?f ?w ?s"
      using g(1) Cons.prems(2) by (subst loop_end.simps) (cases t, auto split: if_splits)
    show "loop_ok ?f ?w body" using Cons.prems(2) by (auto split: if_splits)
  qed
  obtain sv where "loop_end f1 w1 ?s = Some (k, past ?s (body @ [(s, k)]) sv)"
    using Cons.IH [OF g(2) m(2)] by blast
  then show ?case using m(1) by (auto simp: add.assoc)
qed

text \<open>The arguments of a call: what is queued is what is assigned.\<close>

fun bind_params :: "(string \<times> string) list \<Rightarrow> interp \<Rightarrow> interp run option" where
  "bind_params [] st = Some (Done st)"
| "bind_params ((n, v) # ps) st =
     run_bind (put_var (advance st (n, TT_IDENTIFIER)) n v (of_nat (length v)) VT_USER_LOCAL) (bind_params ps)"

definition arg_bytes :: "token \<Rightarrow> byte list" where
  "arg_bytes t = [snd t] @ le_bytes 4 (length (fst t)) @ bytes_of (fst t)"

definition argument :: "token \<Rightarrow> bool" where
  "argument t \<longleftrightarrow> snd t \<notin> {TT_END_OF_LINE, TT_COMMA, TT_IDENTIFIER, TT_VARIABLE} \<and> length (fst t) < 2 ^ 32"

lemma gosub_args_queue:
  assumes "reads st (args @ ([], TT_END_OF_LINE) # rest)" "list_all argument args" "w_enum w = 1"
  shows "\<exists>sv. gosub_args w r stack cnt st = Some (Done (r, stack @ concat (map arg_bytes args), cnt + length args,
    past st (args @ [([], TT_END_OF_LINE)]) sv))"
  using assms(1,2)
proof (induction args arbitrary: st stack cnt)
  case Nil
  have "next_token st = Some (Done (([], TT_END_OF_LINE), past st [([], TT_END_OF_LINE)] (st_idx st)))"
    using next_plain [of st "([], TT_END_OF_LINE)" rest] Nil.prems(1) by simp
  then have "gosub_args w r stack cnt st = Some (Done (r, stack, cnt, past st [([], TT_END_OF_LINE)] (st_idx st)))"
    by (subst gosub_args.simps) (simp add: gosub_body_def)
  then show ?case by auto
next
  case (Cons t args)
  let ?s = "past st [t] (st_idx st)"
  have t: "argument t" using Cons.prems(2) by simp
  then have g: "next_token st = Some (Done (t, ?s))" "reads ?s (args @ ([], TT_END_OF_LINE) # rest)"
    using next_plain [of st t "args @ ([], TT_END_OF_LINE) # rest"] Cons.prems(1) by (simp_all add: argument_def)
  obtain sv where "gosub_args w r (stack @ arg_bytes t) (Suc cnt) ?s =
      Some (Done (r, (stack @ arg_bytes t) @ concat (map arg_bytes args), Suc cnt + length args,
        past ?s (args @ [([], TT_END_OF_LINE)]) sv))"
    using Cons.IH [OF g(2), of "stack @ arg_bytes t" "Suc cnt"] Cons.prems(2) by auto
  moreover have "gosub_args w r stack cnt st = gosub_args w r (stack @ arg_bytes t) (Suc cnt) ?s"
    using g(1) t assms(3) by (subst gosub_args.simps) (simp add: gosub_body_def argument_def queue_arg_def arg_bytes_def)
  ultimately show ?case by (auto simp: add.assoc)
qed

lemma take_arg_bytes:
  assumes "argument t" "no_nul name"
  shows "take_arg name (arg_bytes t @ stack) st =
    run_bind (put_var st name (fst t) (of_nat (length (fst t))) VT_USER_LOCAL) (\<lambda>st1. Some (Done (stack, st1)))"
proof -
  have "le_val (le_bytes 4 (length (fst t))) = length (fst t)"
    using assms(1) by (intro le_val_le_bytes) (simp add: argument_def)
  moreover have "length (le_bytes 4 (length (fst t))) = 4" "length (bytes_of (fst t)) = length (fst t)"
    by (simp_all add: bytes_of_def)
  moreover have "drop (5 + n) (a # xs @ ys @ stack) = stack" if "length xs = 4" "length ys = n" for n a xs ys
  proof -
    have "5 + n = Suc (4 + n)" by simp
    then show ?thesis using that by (simp only: drop_Suc_Cons) simp
  qed
  ultimately show ?thesis
    using assms by (simp add: take_arg_def arg_bytes_def argument_def Let_def)
qed

lemma put_var_reads:
  assumes "put_var st n v len ty = Some (Done st1)"
  shows "reads st1 ts = reads st ts" "st_idx st1 = st_idx st"
  using assms by (auto simp: put_var_def run_bind_def reads_def split: option.splits run.splits)

lemma gosub_params_bind:
  assumes "reads st (map (\<lambda>n. (n, TT_IDENTIFIER)) names @ ([], TT_END_OF_LINE) # rest)"
    "list_all argument args" "list_all no_nul names" "length names = length args"
  shows "gosub_params r (concat (map arg_bytes args)) (length args) st =
    run_bind (bind_params (zip names (map fst args)) st)
      (\<lambda>st1. Some (Done (r, 0, advance st1 ([], TT_END_OF_LINE))))"
  using assms
proof (induction names arbitrary: args st)
  case Nil
  then have "get_program_token st = Some (([], TT_END_OF_LINE), advance st ([], TT_END_OF_LINE))"
    using get_plain [of st "([], TT_END_OF_LINE)" rest] by simp
  then show ?case using Nil by (subst gosub_params.simps) simp
next
  case (Cons n names)
  obtain t ts where args: "args = t # ts" using Cons.prems(4) by (cases args) auto
  let ?i = "(n, TT_IDENTIFIER) :: token"
  let ?s = "advance st ?i"
  let ?r = "map (\<lambda>n. (n, TT_IDENTIFIER)) names @ ([], TT_END_OF_LINE) # rest"
  have g: "get_program_token st = Some (?i, ?s)" "reads ?s ?r"
    using get_plain [of st ?i ?r] reads_Cons(2) [of st ?i ?r] Cons.prems(1) by simp_all
  let ?p = "put_var ?s n (fst t) (of_nat (length (fst t))) VT_USER_LOCAL"
  have t: "take_arg n (arg_bytes t @ concat (map arg_bytes ts)) ?s =
      run_bind ?p (\<lambda>st1. Some (Done (concat (map arg_bytes ts), st1)))"
    using take_arg_bytes Cons.prems(2,3) args by simp
  show ?case
  proof (cases ?p)
    case None
    then show ?thesis using g(1) t args by (subst gosub_params.simps) simp
  next
    case (Some x)
    show ?thesis
    proof (cases x)
      case Exit
      then show ?thesis using g(1) t args Some by (subst gosub_params.simps) simp
    next
      case (Done st1)
      have "reads st1 ?r" using g(2) put_var_reads(1) [OF Some [unfolded Done]] by simp
      then have "gosub_params r (concat (map arg_bytes ts)) (length ts) st1 =
          run_bind (bind_params (zip names (map fst ts)) st1) (\<lambda>st1. Some (Done (r, 0, advance st1 ([], TT_END_OF_LINE))))"
        using Cons.IH [of st1 ts] Cons.prems args by simp
      then show ?thesis using g(1) t args Some Done by (subst gosub_params.simps) simp
    qed
  qed
qed

text \<open>Running on after a command.\<close>

lemma execute_step: "next_token st = Some (Done (t, st1)) \<Longrightarrow> execute w st = execute_token w (execute w) t st1"
  by (subst execute.simps) (simp add: execute_body_def)

lemma print_d_length: "length (print_d w) < 2 ^ 32"
proof -
  have "length (my_utoa n) \<le> 10" if "n < 2 ^ 32" for n
    using my_utoa_length_le [of n 9] that by simp
  then have "length (my_utoa (nat (sint w))) \<le> 10" "length (my_utoa (nat (- sint w))) \<le> 10"
    using sint_u32_bounds [of w] by simp_all
  then show ?thesis by (simp add: print_d_def)
qed

lemma put_var_syntax: "put_var st n v len ty = Some (Done st1) \<Longrightarrow> st_syntax st1 = st_syntax st"
  by (auto simp: put_var_def run_bind_def split: option.splits run.splits)

lemma bind_params_syntax: "bind_params ps st = Some (Done st1) \<Longrightarrow> st_syntax st1 = st_syntax st"
proof (induction ps arbitrary: st)
  case (Cons p ps)
  then show ?case
    by (cases p) (auto simp: advance_def run_bind_def split: option.splits run.splits dest!: put_var_syntax)
qed simp

lemma program_idx_gosub [simp]: "program_idx (st\<lparr>st_gosub := n\<rparr>) = program_idx st"
  by (simp add: program_idx_def)

lemma gosub_jump_eq:
  assumes "st_gosub st < 2 ^ 31 - 1"
  shows "gosub_jump iret idx stack cnt st =
    run_bind (put_var (st\<lparr>st_gosub := st_gosub st + 1\<rparr>) (nest_name ''RETURN'' (st_gosub st + 1)) (program_idx st) 0 VT_SC) (\<lambda>st2.
    run_bind (gosub_params iret stack cnt (st2\<lparr>st_idx := unat idx\<rparr>)) (\<lambda>(iret1, rest, st3).
    return_code (if 0 < rest then 1 else iret1) (if st_syntax st3 then st3\<lparr>st_idx := st_idx st\<rparr> else st3)))"
  using assms by (simp add: gosub_jump_def nest_more_def Let_def set_program_token_idx_def cong: if_cong)

lemma unat_u32: "n < 2 ^ 32 \<Longrightarrow> unat (of_nat n :: u32) = n"
  by (simp add: unat_of_nat take_bit_nat_eq_self)

text \<open>The labels of a program without \<open>BEGIN\<close> and \<open>END\<close>, each with the index behind its name.\<close>

fun label_list :: "nat \<Rightarrow> token list \<Rightarrow> (string \<times> nat) list option" where
  "label_list i [] = Some []"
| "label_list i ((s, k) # ts) =
     (if k = TT_AFTER \<or> k = TT_LABEL then
        (case ts of
           (n, k2) # ts2 \<Rightarrow>
             (let j = i + length (tokens_bytes [(s, k), (n, k2)])
              in if k2 = TT_IDENTIFIER then map_option ((#) (n, j)) (label_list j ts2) else None)
         | [] \<Rightarrow> None)
      else if k \<in> {TT_BEGIN, TT_END, TT_NULL_TOKEN} \<or> k = TT_LINE_NUMBER \<and> 32 \<le> length s then None
      else label_list (i + length (store_token (s, k))) ts)"

definition label_free :: "interp \<Rightarrow> string \<Rightarrow> bool" where
  "label_free st n \<longleftrightarrow> internal_store st n \<and> var_map (st_vars st) (internal_name st n) = None"

lemma labels_put:
  assumes "label_free st n" "names_short st" "st_name st = []"
  obtains vars1 where "put_var st n (print_d i) 0 VT_LABEL = Some (Done (st\<lparr>st_vars := vars1\<rparr>))"
    "holds (st\<lparr>st_vars := vars1\<rparr>) n (print_d i)"
    "\<And>m. m \<noteq> n \<Longrightarrow> label_free st m \<Longrightarrow> label_free (st\<lparr>st_vars := vars1\<rparr>) m"
    "\<And>m v. m \<noteq> n \<Longrightarrow> holds st m v \<Longrightarrow> holds (st\<lparr>st_vars := vars1\<rparr>) m v"
proof -
  have "internal_ok st n" using assms(1) by (simp add: label_free_def internal_ok_def)
  then obtain vars1 where v: "put_var st n (print_d i) 0 VT_LABEL = Some (Done (st\<lparr>st_vars := vars1\<rparr>))"
    "holds (st\<lparr>st_vars := vars1\<rparr>) n (print_d i)" "store_ok vars1"
    "\<And>full. full \<noteq> internal_name st n \<Longrightarrow> var_map vars1 full = var_map (st_vars st) full"
    using internal_put [OF _ assms(2) print_d_no_nul print_d_length disjI2 [OF refl]] by blast
  have other: "''#('' @ st_name st @ ''.'' @ l @ '')'' @ m \<noteq> internal_name st n" for l m
    using assms(3) by (simp add: internal_name_def)
  have same: "m \<noteq> n \<Longrightarrow> internal_name st m \<noteq> internal_name st n" for m by (simp add: internal_name_def)
  have st: "internal_store st m \<Longrightarrow> internal_store (st\<lparr>st_vars := vars1\<rparr>) m" for m
    using v(3) v(4) [OF other] by (simp add: internal_store_def)
  have nm: "internal_name (st\<lparr>st_vars := vars1\<rparr>) m = internal_name st m" for m by (simp add: internal_name_def)
  show thesis
  proof (rule that [OF v(1,2)])
    show "label_free (st\<lparr>st_vars := vars1\<rparr>) m" if "m \<noteq> n" "label_free st m" for m
      using that st v(4) [OF same [OF that(1)]] by (simp add: label_free_def nm)
    show "holds (st\<lparr>st_vars := vars1\<rparr>) m v" if "m \<noteq> n" "holds st m v" for m v
      using that st v(4) [OF same [OF that(1)]] by (simp add: holds_def nm)
  qed
qed

lemma vars_only:
  "label_free (st\<lparr>st_idx := i, st_saved := j\<rparr>) n = label_free st n" "label_free (st\<lparr>st_line := s\<rparr>) n = label_free st n"
  "holds (st\<lparr>st_idx := i, st_saved := j\<rparr>) n v = holds st n v" "holds (st\<lparr>st_line := s\<rparr>) n v = holds st n v"
  "names_short (st\<lparr>st_idx := i, st_saved := j\<rparr>) = names_short st" "names_short (st\<lparr>st_line := s\<rparr>) = names_short st"
  "names_short (st\<lparr>st_vars := vs\<rparr>) = names_short st" "reads (st\<lparr>st_vars := vs\<rparr>) ts = reads st ts" "reads (st\<lparr>st_line := s\<rparr>) ts = reads st ts"
  by (simp_all add: label_free_def holds_def internal_defs names_short_def reads_def)

lemma labels_loop_labels:
  assumes "reads st ts" "label_list (st_idx st) ts = Some ls" "distinct (map fst ls)" "names_short st" "st_name st = []"
    "\<forall>(n, i) \<in> set ls. label_free st n"
  shows "\<exists>st1. labels_loop st = Some (Done (0, st1)) \<and> st_name st1 = [] \<and> st_labels st1 = st_labels st \<and>
    (\<forall>(n, i) \<in> set ls. holds st1 n (print_d (of_nat i))) \<and>
    (\<forall>m v. m \<notin> fst ` set ls \<longrightarrow> holds st m v \<longrightarrow> holds st1 m v)"
  using assms
proof (induction "length ts" arbitrary: ts st ls rule: less_induct)
  case less
  show ?case
  proof (cases ts)
    case Nil
    have "get_program_token_no_eval st = Some (([], TT_NULL_TOKEN), st\<lparr>st_saved := st_idx st\<rparr>)"
      using less.prems(1) Nil by (simp add: get_program_token_no_eval_def reads_def)
    then have "labels_loop st = Some (Done (0, st\<lparr>st_saved := st_idx st\<rparr>))" by (subst labels_loop.simps) simp
    moreover have "holds (st\<lparr>st_saved := st_idx st\<rparr>) m v = holds st m v" for m v by (simp add: holds_def internal_defs)
    ultimately show ?thesis using less.prems Nil by simp
  next
    case (Cons t ts1)
    obtain s k where t: "t = (s, k)" by (cases t)
    let ?s = "past st [t] (st_idx st)"
    have g: "get_program_token_no_eval st = Some ((s, k), ?s)" "reads ?s ts1"
      using get_raw [of st t ts1] less.prems(1) Cons t by simp_all
    have inv: "names_short ?s" "st_name ?s = []" using less.prems(4,5) by (simp_all add: vars_only)
    show ?thesis
    proof (cases "k = TT_AFTER \<or> k = TT_LABEL")
      case False
      then have ll: "label_list (st_idx ?s) ts1 = Some ls" and k: "k \<notin> {TT_BEGIN, TT_END, TT_NULL_TOKEN}"
        and line: "k = TT_LINE_NUMBER \<longrightarrow> length s < 32"
        using less.prems(2) Cons t by (auto split: if_splits)
      obtain st2 where st2: "labels_loop st = labels_loop st2" "reads st2 ts1" "label_list (st_idx st2) ts1 = Some ls"
        "names_short st2" "st_name st2 = []" "st_labels st2 = st_labels st"
        "\<And>n. label_free st2 n = label_free st n" "\<And>n v. holds st2 n v = holds st n v"
      proof (cases "k = TT_LINE_NUMBER")
        case True
        have "length (cstr s) < 32" using line True by (simp add: cstr_def) (meson length_takeWhile_le le_less_trans)
        then show thesis
          using g True inv ll
          by (intro that [of "?s\<lparr>st_line := cstr s\<rparr>"])
            (subst labels_loop.simps, simp_all add: set_line_number_def vars_only)
      next
        case False
        then show thesis
          using g k \<open>\<not> (k = TT_AFTER \<or> k = TT_LABEL)\<close> inv ll
          by (intro that [of ?s]) (subst labels_loop.simps, simp_all add: vars_only)
      qed
      have "length ts1 < length ts" using Cons by simp
      from less.hyps [OF this st2(2,3) less.prems(3) st2(4,5)] less.prems(6) st2 show ?thesis by simp
    next
      case True
      then obtain n ts2 lr where n: "ts1 = (n, TT_IDENTIFIER) # ts2"
        "label_list (st_idx st + length (tokens_bytes [(s, k), (n, TT_IDENTIFIER)])) ts2 = Some lr"
        "ls = (n, st_idx st + length (tokens_bytes [(s, k), (n, TT_IDENTIFIER)])) # lr"
        using less.prems(2) Cons t by (auto split: list.splits if_splits simp: Let_def)
      let ?i = "(n, TT_IDENTIFIER) :: token"
      let ?s2 = "past ?s [?i] (st_idx ?s)"
      have g2: "get_program_token ?s = Some (?i, ?s2)" "reads ?s2 ts2" and nn: "no_nul n"
        using get_plain [of ?s ?i ts2] reads_Cons(2) [of ?s ?i ts2] g(2) n(1)
        by (simp_all add: advance_past reads_def token_ok_def text_kinds_def)
      have inv2: "label_free ?s2 n" "names_short ?s2" "st_name ?s2 = []"
        using less.prems(4-6) n(3) by (simp_all add: vars_only)
      obtain vars1 where v: "put_var ?s2 n (print_d (of_nat (st_idx ?s2))) 0 VT_LABEL = Some (Done (?s2\<lparr>st_vars := vars1\<rparr>))"
        "holds (?s2\<lparr>st_vars := vars1\<rparr>) n (print_d (of_nat (st_idx ?s2)))"
        "\<And>m. m \<noteq> n \<Longrightarrow> label_free ?s2 m \<Longrightarrow> label_free (?s2\<lparr>st_vars := vars1\<rparr>) m"
        "\<And>m v. m \<noteq> n \<Longrightarrow> holds ?s2 m v \<Longrightarrow> holds (?s2\<lparr>st_vars := vars1\<rparr>) m v"
        using labels_put [OF inv2] by metis
      let ?s3 = "?s2\<lparr>st_vars := vars1\<rparr>"
      have l: "labels_loop st = labels_loop ?s3"
        using g(1) g2(1) v(1) True nn by (subst labels_loop.simps) auto
      have idx: "st_idx ?s3 = st_idx st + length (tokens_bytes [(s, k), ?i])" using t by simp
      have "length ts2 < length ts" using Cons n(1) by simp
      moreover have "reads ?s3 ts2" "names_short ?s3" "st_name ?s3 = []" using g2(2) inv2 by (simp_all add: vars_only)
      moreover have "label_list (st_idx ?s3) ts2 = Some lr" using n(2) t by (simp add: add.assoc)
      moreover have "distinct (map fst lr)" "n \<notin> fst ` set lr" using less.prems(3) n(3) by simp_all
      moreover have "\<forall>(m, i) \<in> set lr. label_free ?s3 m"
      proof (clarify)
        fix m i assume m: "(m, i) \<in> set lr"
        then have "m \<noteq> n" using \<open>n \<notin> fst ` set lr\<close> by force
        moreover have "label_free ?s2 m" using m less.prems(6) n(3) by (force simp: vars_only)
        ultimately show "label_free ?s3 m" by (rule v(3))
      qed
      ultimately obtain st1 where st1: "labels_loop ?s3 = Some (Done (0, st1))" "st_name st1 = []" "st_labels st1 = st_labels ?s3"
        "\<forall>(n, i) \<in> set lr. holds st1 n (print_d (of_nat i))"
        "\<forall>m v. m \<notin> fst ` set lr \<longrightarrow> holds ?s3 m v \<longrightarrow> holds st1 m v"
        using less.hyps by blast
      have "holds st1 n (print_d (of_nat (st_idx st + length (tokens_bytes [(s, k), ?i]))))"
      proof -
        have "st_idx ?s2 = st_idx st + length (tokens_bytes [(s, k), ?i])" using t by simp
        then have "print_d (of_nat (st_idx ?s2)) = print_d (of_nat (st_idx st + length (tokens_bytes [(s, k), ?i])))"
          by (simp only:)
        moreover have "holds st1 n (print_d (of_nat (st_idx ?s2)))"
          using st1(5) v(2) \<open>n \<notin> fst ` set lr\<close> by blast
        ultimately show ?thesis by metis
      qed
      moreover have "holds st1 m v" if "m \<notin> fst ` set ls" "holds st m v" for m v
        using that st1(5) v(4) n(3) by (auto simp: vars_only)
      ultimately show ?thesis using l st1 n(3) by auto
    qed
  qed
qed

lemma label_list_names:
  assumes "label_list i ts = Some ls" "list_all token_ok ts" "(n, j) \<in> set ls"
  shows "no_nul n"
  using assms
proof (induction i ts arbitrary: ls rule: label_list.induct)
  case (2 i s k ts)
  show ?case
  proof (cases "k = TT_AFTER \<or> k = TT_LABEL")
    case True
    then obtain m ts2 lr where m: "ts = (m, TT_IDENTIFIER) # ts2" "ls = (m, i + length (tokens_bytes [(s, k), (m, TT_IDENTIFIER)])) # lr"
      "label_list (i + length (tokens_bytes [(s, k), (m, TT_IDENTIFIER)])) ts2 = Some lr"
      using "2.prems"(1) by (auto split: list.splits if_splits simp: Let_def)
    then show ?thesis
      using "2.IH"(1) [OF True m(1) refl refl refl m(3)] "2.prems"(2,3) by (auto simp: token_ok_def text_kinds_def)
  next
    case False
    then show ?thesis using 2 by (auto split: if_splits)
  qed
qed simp

subsection \<open>Examples\<close>

definition example_world :: "nat \<Rightarrow> world" where
  "example_world n = \<lparr>w_host = (\<lambda>_ _ _ _. None), w_device = (\<lambda>_ _. None), w_now = (\<lambda>_. 0), w_enum = n\<rparr>"

definition example_run :: "token list \<Rightarrow> interp" where
  "example_run ts = fresh_interp (tokens_bytes ts)"

lemma example_reads: "list_all token_ok ts \<Longrightarrow> reads (example_run ts) ts"
  by (simp add: example_run_def reads_fresh)

lemma example_names [simp]: "names_short (example_run ts)" "st_syntax (example_run ts) = False" "st_idx (example_run ts) = 0"
  "st_saved (example_run ts) = 0" "st_while (example_run ts) = 0" "st_gosub (example_run ts) = 0" "st_for (example_run ts) = 0"
  by (simp_all add: names_short_def example_run_def fresh_interp_def label_get_def)

lemma example_internal: "internal_ok (example_run ts) n" "label_free (example_run ts) n"
  by (simp_all add: internal_defs label_free_def example_run_def fresh_interp_def store_ok_def vars_ok_def var_map_def ascending_by_def)

lemma example_number:
  assumes "list_all token_ok ((s, TT_NUMBER) # rest)" "ends rest"
  shows "expression h (example_run ((s, TT_NUMBER) # rest)) =
    Some (Done (0, s, past (example_run ((s, TT_NUMBER) # rest)) [(s, TT_NUMBER)] (length (store_token (s, TT_NUMBER)))))"
proof -
  let ?e = "Last No_Sign (Atom s TT_NUMBER s)"
  let ?st = "example_run ((s, TT_NUMBER) # rest)"
  have "expression h ?st = Some (Done (0, s, past ?st (ex_tokens ?e) (st_idx ?st + length (tokens_bytes (ex_tokens ?e)))))"
  proof (rule expression_value_any [OF _ assms(2)])
    show "reads ?st (ex_tokens ?e @ rest)" using example_reads [OF assms(1)] by simp
    show "in_scope ?st (st_idx ?st + length (tokens_bytes (ex_tokens ?e))) \<lparr>sc_program = [], sc_label = []\<rparr>"
      unfolding example_run_def by (rule fresh_scope)
  qed (simp_all add: value_kinds_def sign_value_def)
  then show ?thesis by simp
qed

definition example_label :: "token list \<Rightarrow> nat \<Rightarrow> interp" where
  "example_label ts i = (example_run ts)\<lparr>st_vars := [new_var ''#()sub'' (print_d (of_nat i)) VT_LABEL]\<rparr>"

lemma example_label_simps [simp]: "names_short (example_label ts i)" "st_syntax (example_label ts i) = False"
  "st_idx (example_label ts i) = 0" "st_gosub (example_label ts i) = 0" "reads (example_label ts i) us = reads (example_run ts) us"
  "st_prog (example_label ts i) = tokens_bytes ts"
  by (simp_all add: names_short_def example_label_def example_run_def fresh_interp_def label_get_def reads_def)

lemma example_label_holds:
  "internal_ok (example_label ts i) (nest_name ''RETURN'' n)" "holds (example_label ts i) ''sub'' (print_d (of_nat i))"
proof -
  have "length (print_d (of_nat i)) < 2 ^ 32" by (rule print_d_length)
  then have ok: "store_ok [new_var ''#()sub'' (print_d (of_nat i)) VT_LABEL]"
    by (simp add: store_ok_def vars_ok_single new_var_def var_value_def)
  then show "internal_ok (example_label ts i) (nest_name ''RETURN'' n)"
    by (simp add: internal_defs example_label_def example_run_def fresh_interp_def var_map_def new_var_def nest_name_def)
  have "length (print_d (of_nat i)) < 2 ^ 32" by (rule print_d_length)
  then show "holds (example_label ts i) ''sub'' (print_d (of_nat i))"
    using ok by (simp add: holds_def internal_defs example_label_def example_run_def fresh_interp_def var_map_def)
      (simp add: new_var_def var_value_def)
qed

lemma example_gosub_label: "gosub_label (past (example_label ts i) us j) ''sub'' = Some (0, of_nat i)"
proof -
  have "holds (past (example_label ts i) us j) ''sub'' (print_d (of_nat i))"
    using example_label_holds(2) by (simp add: vars_only)
  moreover have "names_short (past (example_label ts i) us j)" by (simp add: vars_only)
  ultimately have "get_var (past (example_label ts i) us j) ''sub'' VT_LABEL = Some (0, print_d (of_nat i))"
    using holds_get by blast
  then show ?thesis by (simp add: gosub_label_def)
qed

lemma find_var_Nil: "find_var ([] :: sc_var list) n = None"
  using find_None [of "[]" n] by (simp add: store_ok_def vars_ok_def ascending_by_def var_map_def)

section \<open>Properties\<close>

text \<open>C33. An \<open>IF\<close> whose condition is 0 goes on behind its own \<open>ELSE\<close> or \<open>END_IF\<close>, whatever blocks
  are nested in the part that is skipped; at its own \<open>ELSE_IF\<close> the next condition decides, and the code that this
  one returns is replaced by 0.\<close>

theorem if_selects_branch:
  assumes "expression (w_host w) st = Some (Done (0, tk, st1))" "\<not> st_syntax st1" "atoi tk = Some 0"
    "reads st1 (body @ ([], k) # rest)" "k \<in> {TT_ELSE, TT_ELSE_IF, TT_END_IF}"
    "block_ok TT_IF TT_END_IF {TT_ELSE, TT_ELSE_IF} 0 body"
  shows "\<exists>sv. cmd_if w st =
    (let st2 = past st1 (body @ [([], k)]) sv
     in if k = TT_ELSE_IF then run_bind (cmd_if w st2) (\<lambda>(_, st3). return_code 0 st3) else return_code 0 st2)"
proof -
  obtain sv where s: "skip_block TT_IF TT_END_IF {TT_ELSE, TT_ELSE_IF} 0 st1 = Some (k, past st1 (body @ [([], k)]) sv)"
    using skip_block_ok [OF assms(4,6)] assms(5) by auto
  have "k \<noteq> TT_NULL_TOKEN" using assms(5) by auto
  then show ?thesis
    using assms(1-3) s by (intro exI [of _ sv]) (subst cmd_if.simps, simp add: if_body_def Let_def)
qed

theorem if_selects_branch_witness:
  "\<exists>st1. cmd_if (example_world 1) (example_run [(''0'', TT_NUMBER), ([], TT_IF), ([], TT_ELSE), ([], TT_END_IF), ([], TT_ELSE)]) =
     return_code 0 st1 \<and> st_idx st1 = 7"
proof -
  let ?r = "[([], TT_IF), ([], TT_ELSE), ([], TT_END_IF), ([], TT_ELSE)] :: token list"
  let ?st = "example_run ((''0'', TT_NUMBER) # ?r)"
  have ok: "list_all token_ok ((''0'', TT_NUMBER) # ?r)" by (simp add: token_ok_def text_kinds_def of_char_def)
  have e: "expression (w_host (example_world 1)) ?st =
      Some (Done (0, ''0'', past ?st [(''0'', TT_NUMBER)] (length (store_token (''0'', TT_NUMBER)))))"
    by (rule example_number [OF ok]) (simp add: ends_def is_operator_def)
  have "\<exists>sv. cmd_if (example_world 1) ?st =
    (let st2 = past (past ?st [(''0'', TT_NUMBER)] (length (store_token (''0'', TT_NUMBER)))) ([([], TT_IF), ([], TT_ELSE), ([], TT_END_IF)] @ [([], TT_ELSE)]) sv
     in if TT_ELSE = TT_ELSE_IF then run_bind (cmd_if (example_world 1) st2) (\<lambda>(_, st3). return_code 0 st3) else return_code 0 st2)"
  proof (rule if_selects_branch [OF e])
    show "atoi ''0'' = Some 0" by code_simp
    have "reads ?st ([(''0'', TT_NUMBER)] @ ?r)" using example_reads [OF ok] by simp
    then have "reads (past ?st [(''0'', TT_NUMBER)] (length (store_token (''0'', TT_NUMBER)))) ?r" by (rule reads_past)
    then show "reads (past ?st [(''0'', TT_NUMBER)] (length (store_token (''0'', TT_NUMBER))))
        ([([], TT_IF), ([], TT_ELSE), ([], TT_END_IF)] @ ([], TT_ELSE) # [])" by simp
  qed simp_all
  then show ?thesis by (auto simp: Let_def store_token_def text_kinds_def bytes_of_def)
qed

text \<open>C34. A \<open>WHILE\<close> whose condition holds and the \<open>END_WHILE\<close> that belongs to it: the condition is evaluated, and
  from any later state that still holds the variable of the loop at the same depth \<open>END_WHILE\<close> goes back to the
  \<open>WHILE\<close> itself, with the depth that was there before.\<close>

theorem while_goes_back:
  assumes "reads (put_program_token st) (([], TT_WHILE) # rest)" "st_saved st < 2 ^ 31" "0 \<le> st_while st" "st_while st < 2 ^ 31 - 1"
    "internal_ok st (nest_name ''WHILE'' (st_while st + 1))" "names_short st"
  shows "\<exists>vars1. let st1 = st\<lparr>st_while := st_while st + 1, st_vars := vars1, st_idx := st_saved st + 1\<rparr> in
    holds st1 (nest_name ''WHILE'' (st_while st + 1)) (print_d (of_nat (st_saved st))) \<and>
    cmd_while w st = while_test w st1 \<and>
    (\<forall>st2. \<not> st_syntax st2 \<and> st_while st2 = st_while st + 1 \<and> names_short st2 \<and>
       holds st2 (nest_name ''WHILE'' (st_while st + 1)) (print_d (of_nat (st_saved st))) \<longrightarrow>
       cmd_end_while st2 = return_code 0 (st2\<lparr>st_idx := st_saved st, st_while := st_while st\<rparr>))"
proof -
  let ?n = "st_while st + 1"
  let ?name = "nest_name ''WHILE'' ?n" and ?val = "print_d (of_nat (st_saved st))"
  let ?s = "put_program_token (st\<lparr>st_while := ?n\<rparr>)"
  have same: "internal_ok ?s ?name" "names_short ?s" "program_idx ?s = ?val"
    using assms(5,6) by (simp_all add: internal_defs names_short_def put_program_token_def program_idx_def)
  obtain vars1 where v: "put_var ?s ?name ?val 0 VT_SC = Some (Done (?s\<lparr>st_vars := vars1\<rparr>))"
    "holds (?s\<lparr>st_vars := vars1\<rparr>) ?name ?val"
    using internal_put [OF same(1,2) print_d_no_nul print_d_length disjI1 [OF refl]] by blast
  let ?s1 = "?s\<lparr>st_vars := vars1\<rparr>"
  have "reads ?s1 (([], TT_WHILE) # rest)"
    using assms(1) by (simp add: reads_def put_program_token_def)
  then have "next_token ?s1 = Some (Done (([], TT_WHILE), past ?s1 [([], TT_WHILE)] (st_idx ?s1)))"
    using next_plain by simp
  then have "cmd_while w st = while_test w (st\<lparr>st_while := ?n, st_vars := vars1, st_idx := st_saved st + 1\<rparr>)"
    using v(1) same(3) assms(4)
    by (simp add: cmd_while_def nest_more_def put_program_token_def store_token_def text_kinds_def tokens_bytes_def)
  moreover have "holds (st\<lparr>st_while := ?n, st_vars := vars1, st_idx := st_saved st + 1\<rparr>) ?name ?val"
    using v(2) by (simp add: holds_def internal_defs put_program_token_def)
  moreover have "cmd_end_while st2 = return_code 0 (st2\<lparr>st_idx := st_saved st, st_while := st_while st\<rparr>)"
    if "\<not> st_syntax st2" "st_while st2 = ?n" "names_short st2" "holds st2 ?name ?val" for st2
    using that holds_get [OF that(4,3) disjI1 [OF refl]] assms(2,3)
    by (simp add: cmd_end_while_def set_program_token_idx_def unat_u32)
  ultimately show ?thesis by (intro exI [of _ vars1]) (simp add: Let_def)
qed

theorem while_goes_back_witness:
  "\<exists>st1. cmd_while (example_world 1) ((example_run [([], TT_WHILE), (''1'', TT_NUMBER)])\<lparr>st_idx := 1\<rparr>) =
     while_test (example_world 1) st1 \<and> holds st1 (nest_name ''WHILE'' 1) (print_d 0) \<and>
     cmd_end_while st1 = return_code 0 (st1\<lparr>st_idx := 0, st_while := 0\<rparr>)"
proof -
  let ?ts = "[([], TT_WHILE), (''1'', TT_NUMBER)] :: token list"
  let ?st = "(example_run ?ts)\<lparr>st_idx := 1\<rparr>"
  have s: "st_saved ?st = 0" "st_while ?st = 0" "st_syntax ?st = False"
    by (simp_all add: example_run_def fresh_interp_def)
  have "reads (put_program_token ?st) (([], TT_WHILE) # [(''1'', TT_NUMBER)])"
    using example_reads [of ?ts] by (simp add: reads_def put_program_token_def s(1) token_ok_def text_kinds_def of_char_def)
  moreover have "internal_ok ?st (nest_name ''WHILE'' (st_while ?st + 1))"
    using example_internal(1) by (simp add: internal_defs)
  moreover have "names_short ?st" using example_names(1) by (simp add: names_short_def)
  ultimately obtain vars1 where v: "holds (?st\<lparr>st_while := 1, st_vars := vars1, st_idx := 1\<rparr>) (nest_name ''WHILE'' 1) (print_d 0)"
    "cmd_while (example_world 1) ?st = while_test (example_world 1) (?st\<lparr>st_while := 1, st_vars := vars1, st_idx := 1\<rparr>)"
    "\<forall>st2. \<not> st_syntax st2 \<and> st_while st2 = 1 \<and> names_short st2 \<and> holds st2 (nest_name ''WHILE'' 1) (print_d 0) \<longrightarrow>
       cmd_end_while st2 = return_code 0 (st2\<lparr>st_idx := 0, st_while := 0\<rparr>)"
    using while_goes_back [of ?st "[(''1'', TT_NUMBER)]" "example_world 1"] by (auto simp: s Let_def)
  let ?s1 = "?st\<lparr>st_while := 1, st_vars := vars1, st_idx := 1\<rparr>"
  have "names_short ?s1" using example_names(1) by (simp add: names_short_def)
  then have "cmd_end_while ?s1 = return_code 0 (?s1\<lparr>st_idx := 0, st_while := 0\<rparr>)" using v(1,3) s(3) by simp
  then show ?thesis using v(1,2) by blast
qed



text \<open>C31. \<open>RETURN\<close> goes back behind the line of the \<open>GOSUB\<close>: a call without arguments jumps to the label and is
  one level deeper, and from any later state that still holds the variable of this level \<open>RETURN\<close> goes to the
  first token behind the call, with the level that was there before.\<close>

theorem gosub_return:
  assumes "reads st ((l, TT_IDENTIFIER) # ([], TT_END_OF_LINE) # rest)"
    "gosub_label (past st [(l, TT_IDENTIFIER)] (st_idx st)) l = Some (0, idx)"
    "reads (st\<lparr>st_idx := unat idx\<rparr>) (([], TT_END_OF_LINE) # body)"
    "\<not> st_syntax st" "0 \<le> st_gosub st" "st_gosub st < 2 ^ 31 - 1"
    "internal_ok st (nest_name ''RETURN'' (st_gosub st + 1))" "names_short st" "st_idx st + length l + 3 < 2 ^ 31"
  shows "\<exists>st1. cmd_gosub w st = return_code 0 st1 \<and> st_idx st1 = unat idx + 1 \<and> st_gosub st1 = st_gosub st + 1 \<and>
    holds st1 (nest_name ''RETURN'' (st_gosub st + 1)) (print_d (of_nat (st_idx st + length l + 3))) \<and>
    (\<forall>st2. \<not> st_syntax st2 \<and> st_gosub st2 = st_gosub st + 1 \<and> names_short st2 \<and>
       holds st2 (nest_name ''RETURN'' (st_gosub st + 1)) (print_d (of_nat (st_idx st + length l + 3))) \<longrightarrow>
       cmd_return st2 = return_code 0 (st2\<lparr>st_idx := st_idx st + length l + 3, st_gosub := st_gosub st\<rparr>))"
proof -
  let ?l = "(l, TT_IDENTIFIER) :: token" and ?e = "([], TT_END_OF_LINE) :: token"
  let ?n = "nest_name ''RETURN'' (st_gosub st + 1)" and ?i = "st_idx st + length l + 3"
  let ?s = "past st [?l] (st_idx st)"
  have n: "next_token st = Some (Done (?l, ?s))" "reads ?s (?e # rest)"
    using next_plain [of st ?l "?e # rest"] assms(1) by simp_all
  let ?s1 = "past ?s [?e] (st_idx ?s)"
  have "next_token ?s = Some (Done (?e, ?s1))" using next_plain [OF n(2)] by simp
  then have a: "gosub_args w 0 [] 0 ?s = Some (Done (0, [], 0, ?s1))"
    by (subst gosub_args.simps) (simp add: gosub_body_def)
  let ?s2 = "?s1\<lparr>st_gosub := st_gosub st + 1\<rparr>"
  have idx: "st_idx ?s1 = ?i" by (simp add: store_token_def text_kinds_def bytes_of_def)
  have s2: "internal_ok ?s2 ?n" "names_short ?s2"
    using assms(7,8) by (simp_all add: internal_defs names_short_def)
  obtain vars1 where v: "put_var ?s2 ?n (print_d (of_nat ?i)) 0 VT_SC = Some (Done (?s2\<lparr>st_vars := vars1\<rparr>))"
    "holds (?s2\<lparr>st_vars := vars1\<rparr>) ?n (print_d (of_nat ?i))"
    using internal_put [OF s2 print_d_no_nul print_d_length disjI1 [OF refl]] by blast
  let ?s3 = "?s2\<lparr>st_vars := vars1, st_idx := unat idx\<rparr>"
  have "reads ?s3 (?e # body)" using assms(3) by (simp add: reads_def)
  then have p: "gosub_params 0 [] 0 ?s3 = Some (Done (0, 0, advance ?s3 ?e))"
    using get_plain [of ?s3 ?e body] by (subst gosub_params.simps) simp
  have "cmd_gosub w st = gosub_jump 0 idx [] 0 ?s1" using n(1) a assms(2) by (simp add: cmd_gosub_def)
  also have "\<dots> = return_code 0 (advance ?s3 ?e)"
  proof -
    have "st_gosub ?s1 < 2 ^ 31 - 1" "st_gosub ?s1 = st_gosub st" using assms(6) by simp_all
    moreover have "program_idx ?s1 = print_d (of_nat ?i)" unfolding program_idx_def idx ..
    ultimately show ?thesis
      using v(1) p assms(4) by (simp add: gosub_jump_eq advance_def)
  qed
  finally have g: "cmd_gosub w st = return_code 0 (advance ?s3 ?e)" .
  have "holds (advance ?s3 ?e) ?n (print_d (of_nat ?i))"
    using v(2) by (simp add: holds_def internal_defs advance_def)
  moreover have "cmd_return st2 = return_code 0 (st2\<lparr>st_idx := ?i, st_gosub := st_gosub st\<rparr>)"
    if "\<not> st_syntax st2" "st_gosub st2 = st_gosub st + 1" "names_short st2" "holds st2 ?n (print_d (of_nat ?i))" for st2
    using that holds_get [OF that(4,3) disjI1 [OF refl]] assms(5) unat_u32 [of ?i] assms(9)
    by (simp add: cmd_return_def set_program_token_idx_def)
  ultimately show ?thesis
    using g by (intro exI [of _ "advance ?s3 ?e"]) (simp add: advance_def store_token_def text_kinds_def)
qed

theorem gosub_return_witness:
  "\<exists>st1. cmd_gosub (example_world 4)
      (example_label [(''sub'', TT_IDENTIFIER), ([], TT_END_OF_LINE), ([], TT_END_OF_LINE)] 6) = return_code 0 st1 \<and>
    st_idx st1 = 7 \<and> st_gosub st1 = 1"
proof -
  let ?ts = "[(''sub'', TT_IDENTIFIER), ([], TT_END_OF_LINE), ([], TT_END_OF_LINE)] :: token list"
  let ?st = "example_label ?ts 6"
  have ok: "list_all token_ok ?ts" by (simp add: token_ok_def text_kinds_def of_char_def)
  have r: "reads ?st ((''sub'', TT_IDENTIFIER) # ([], TT_END_OF_LINE) # [([], TT_END_OF_LINE)])"
    using example_reads [OF ok] by simp
  have l: "gosub_label (past ?st [(''sub'', TT_IDENTIFIER)] (st_idx ?st)) ''sub'' = Some (0, 6)"
    using example_gosub_label [where ts = ?ts and i = 6 and us = "[(''sub'', TT_IDENTIFIER)]" and j = 0] by simp
  have b: "reads (?st\<lparr>st_idx := unat (6 :: u32)\<rparr>) (([], TT_END_OF_LINE) # [])"
    using ok by (simp add: reads_def) (simp add: tokens_bytes_def store_token_def text_kinds_def bytes_of_def)
  have i: "internal_ok ?st (nest_name ''RETURN'' (st_gosub ?st + 1))" by (rule example_label_holds)
  show ?thesis using gosub_return [OF r l b _ _ _ i, of "example_world 4"] by auto
qed

text \<open>\<open>GOSUB\<close> with an argument is undefined where an \<open>enum\<close> has more than one byte: the kind of the argument
  is copied with the size of the \<open>enum\<close> from a variable of one byte.\<close>

theorem gosub_argument_undefined:
  assumes "reads st ((l, TT_IDENTIFIER) # a # rest)" "argument a" "w_enum w \<noteq> 1"
  shows "cmd_gosub w st = None"
proof -
  let ?l = "(l, TT_IDENTIFIER) :: token"
  let ?s = "past st [?l] (st_idx st)"
  have n: "next_token st = Some (Done (?l, ?s))" "reads ?s (a # rest)"
    using next_plain [of st ?l "a # rest"] assms(1) by simp_all
  have "next_token ?s = Some (Done (a, past ?s [a] (st_idx ?s)))"
    using next_plain [OF n(2)] assms(2) by (simp add: argument_def)
  then have "gosub_args w r [] 0 ?s = None" for r
    using assms(2,3) by (subst gosub_args.simps) (simp add: gosub_body_def queue_arg_def argument_def)
  then show ?thesis using n(1) by (simp add: cmd_gosub_def split: bind_splits)
qed

theorem gosub_argument_undefined_witness:
  "cmd_gosub (example_world 4) (example_run [(''sub'', TT_IDENTIFIER), (''5'', TT_NUMBER), ([], TT_END_OF_LINE)]) = None"
proof (rule gosub_argument_undefined)
  show "reads (example_run [(''sub'', TT_IDENTIFIER), (''5'', TT_NUMBER), ([], TT_END_OF_LINE)])
      ((''sub'', TT_IDENTIFIER) # (''5'', TT_NUMBER) # [([], TT_END_OF_LINE)])"
    by (rule example_reads) (simp add: token_ok_def text_kinds_def of_char_def)
qed (simp_all add: argument_def example_world_def)

text \<open>\<open>BREAK_LOOP\<close> leaves the innermost loop, loops inside the rest of its body left out. It goes one level up if
  the loop is a \<open>WHILE\<close>, but not if it is a \<open>FOR\<close>: the count of the \<open>FOR\<close> loops stays, and the
  \<open>NEXT\<close> of the loop around then uses the end, the step and the start of the loop that was left.\<close>

theorem break_loop_levels:
  assumes "reads st (body @ ([], k) # (n, TT_IDENTIFIER) # rest)" "loop_ok 0 0 body" "k = TT_NEXT \<or> k = TT_END_WHILE"
    "\<not> st_syntax st"
  shows "\<exists>sv. cmd_break_loop st = Some
    (if k = TT_NEXT then past st (body @ [([], k), (n, TT_IDENTIFIER)]) sv
     else (past st (body @ [([], k)]) sv)\<lparr>st_while := st_while st - 1\<rparr>)"
proof -
  obtain sv where l: "loop_end 0 0 st = Some (k, past st (body @ [([], k)]) sv)"
    using loop_end_ok [OF assms(1-3)] by blast
  let ?s = "past st (body @ [([], k)]) sv" and ?n = "(n, TT_IDENTIFIER) :: token"
  have "reads ?s (?n # rest)" using assms(1) by (intro reads_past) simp
  then have "get_program_token_no_eval ?s = Some (?n, past ?s [?n] (st_idx ?s))" by (rule get_raw)
  then show ?thesis
    using l assms(3,4) by (auto simp: cmd_break_loop_def add.assoc)
qed

theorem break_loop_levels_witness:
  "\<exists>st1. cmd_break_loop (example_run [([], TT_FOR), ([], TT_NEXT), ([], TT_NEXT), (''j'', TT_IDENTIFIER)]) = Some st1 \<and>
     st_idx st1 = 6 \<and> st_for st1 = 0"
proof -
  let ?ts = "[([], TT_FOR), ([], TT_NEXT), ([], TT_NEXT), (''j'', TT_IDENTIFIER)] :: token list"
  have "reads (example_run ?ts) ?ts" by (rule example_reads) (simp add: token_ok_def text_kinds_def of_char_def)
  then have r: "reads (example_run ?ts) ([([], TT_FOR), ([], TT_NEXT)] @ ([], TT_NEXT) # (''j'', TT_IDENTIFIER) # [])" by simp
  have "\<exists>sv. cmd_break_loop (example_run ?ts) = Some
    (if TT_NEXT = TT_NEXT then past (example_run ?ts) ([([], TT_FOR), ([], TT_NEXT)] @ [([], TT_NEXT), (''j'', TT_IDENTIFIER)]) sv
     else (past (example_run ?ts) ([([], TT_FOR), ([], TT_NEXT)] @ [([], TT_NEXT)]) sv)\<lparr>st_while := st_while (example_run ?ts) - 1\<rparr>)"
    by (rule break_loop_levels [OF r]) simp_all
  then show ?thesis
    by (auto simp: store_token_def text_kinds_def bytes_of_def)
qed

text \<open>An error that no handler is defined for ends the program with success: a command that
  returns a code other than 0, with no \<open>ERROR\<close> and no \<open>NO_ERROR\<close> behind it and no label \<open>default_error\<close>, makes
  \<open>execute\<close> return 0, with all loops and subroutines forgotten.\<close>

theorem error_ends_with_success:
  assumes "next_token st = Some (Done ((s, k), st1))" "k \<in> assign_kinds \<or> k \<in> block_kinds \<or> k \<in> plain_kinds"
    "command_of w k st1 = Some (Done (iret, wait_flag, st2))" "iret \<noteq> 0" "\<not> st_syntax st2"
    "next_token st2 = Some (Done ((s3, k3), st3))" "k3 \<noteq> TT_ERROR" "k3 \<noteq> TT_NO_ERROR"
    "get_var (put_program_token st3) ''default_error'' VT_LABEL = Some (1, v)"
  shows "execute w st = return_code 0 (reset_all (put_program_token st3))"
proof -
  have "get_program_token st2 = Some ((s3, k3), st3)" using assms(6) by (simp add: next_token_def)
  then have "on_error st2 = Some (Some 0, reset_all (put_program_token st3))"
    using assms(5,7-9) by (simp add: on_error_def get_error_token_def label_idx_def)
  then have a: "after_command (execute w) (iret, wait_flag, st2) = return_code 0 (reset_all (put_program_token st3))"
    using assms(4) by (simp add: after_command_def)
  have "k \<notin> section_end \<union> {TT_NULL_TOKEN, TT_LINE_NUMBER, TT_END_OF_LINE, TT_END_IF, TT_NO_ERROR, TT_THEN, TT_ERROR, TT_EXIT}"
    using assms(2) by (auto simp: assign_kinds_def block_kinds_def plain_kinds_def section_end_def)
  then have "execute_token w (execute w) (s, k) st1 = run_bind (command_of w k st1) (after_command (execute w))"
    by (simp add: execute_token_def)
  then show ?thesis using execute_step [OF assms(1)] assms(3) a by simp
qed

theorem error_ends_with_success_witness:
  "\<exists>st1. execute (example_world 1) (example_run [([], TT_LET), (''x'', TT_IDENTIFIER), ([], TT_END_OF_LINE)]) = return_code 0 st1"
proof -
  let ?ts = "[([], TT_LET), (''x'', TT_IDENTIFIER), ([], TT_END_OF_LINE)] :: token list"
  let ?st = "example_run ?ts"
  have "reads ?st ?ts" by (rule example_reads) (simp add: token_ok_def text_kinds_def of_char_def)
  then have n1: "next_token ?st = Some (Done (([], TT_LET), past ?st [([], TT_LET)] (st_idx ?st)))"
    "reads (past ?st [([], TT_LET)] (st_idx ?st)) [(''x'', TT_IDENTIFIER), ([], TT_END_OF_LINE)]"
    using next_plain [of ?st "([], TT_LET)"] by simp_all
  let ?s1 = "past ?st [([], TT_LET)] (st_idx ?st)"
  let ?s2 = "past ?s1 [(''x'', TT_IDENTIFIER)] (st_idx ?s1)"
  let ?s3 = "past ?s2 [([], TT_END_OF_LINE)] (st_idx ?s2)"
  have n2: "next_token ?s1 = Some (Done ((''x'', TT_IDENTIFIER), ?s2))" "reads ?s2 [([], TT_END_OF_LINE)]"
    using next_plain [OF n1(2)] by simp_all
  have n3: "next_token ?s2 = Some (Done (([], TT_END_OF_LINE), ?s3))" "reads ?s3 []"
    using next_plain [OF n2(2)] by simp_all
  have n4: "next_token ?s3 = Some (Done (([], TT_NULL_TOKEN), ?s3\<lparr>st_saved := st_idx ?s3\<rparr>))"
    by (rule next_null [OF n3(2)])
  have c: "command_of (example_world 1) TT_LET ?s1 = Some (Done (1, False, ?s3))"
    using n2(1) n3(1)
    by (simp add: command_of_def block_kinds_def assign_kinds_def no_wait_def assign_command_def cmd_let_def let_var_def return_code_def)
  have g: "get_var (put_program_token (?s3\<lparr>st_saved := st_idx ?s3\<rparr>)) ''default_error'' VT_LABEL = Some (1, [])"
    by (simp add: get_var_def variable_get_def find_entry_def scope_of_def example_run_def fresh_interp_def put_program_token_def
        label_get_def full_names program_var_def prefixed_def var_prefix_def find_var_Nil DEFAULT_PROGRAM_def)
  have "execute (example_world 1) ?st = return_code 0 (reset_all (put_program_token (?s3\<lparr>st_saved := st_idx ?s3\<rparr>)))"
    by (rule error_ends_with_success [OF n1(1) _ c _ _ n4 _ _ g]) (simp_all add: assign_kinds_def)
  then show ?thesis by blast
qed

text \<open>C32. The variable of a label holds the index behind the label: \<open>make_labels\<close> succeeds on every program of one
  section whose labels have different names, and \<open>GOTO\<close> then finds for each label the place of its first token.\<close>

theorem make_labels_index:
  assumes "st_prog st = tokens_bytes ts" "list_all token_ok ts" "label_list 0 ts = Some ls" "distinct (map fst ls)"
    "names_short (st\<lparr>st_name := []\<rparr>)" "list_all (\<lambda>(n, i). label_free (st\<lparr>st_name := []\<rparr>) n) ls"
  shows "\<exists>st1. make_labels st = Some (Done (0, st1)) \<and>
    list_all (\<lambda>(n, i). gosub_label st1 n = Some (0, of_nat i)) ls"
proof -
  let ?s = "st\<lparr>st_name := DEFAULT_PROGRAM, st_idx := 0\<rparr>"
  have same: "names_short ?s = names_short (st\<lparr>st_name := []\<rparr>)" "label_free ?s n = label_free (st\<lparr>st_name := []\<rparr>) n" for n
    by (simp_all add: names_short_def label_free_def internal_defs DEFAULT_PROGRAM_def)
  have "reads ?s ts" using assms(1,2) by (simp add: reads_def)
  moreover have "\<forall>(n, i) \<in> set ls. label_free ?s n" using assms(6) same by (auto simp: list_all_iff)
  ultimately obtain st1 where st1: "labels_loop ?s = Some (Done (0, st1))" "st_name st1 = []" "st_labels st1 = st_labels st"
    "\<forall>(n, i) \<in> set ls. holds st1 n (print_d (of_nat i))"
    using labels_loop_labels [of ?s ts ls] assms(3-5) same by (auto simp: DEFAULT_PROGRAM_def)
  have "names_short st1" using assms(5) st1(2,3) by (simp add: names_short_def)
  then have "gosub_label st1 n = Some (0, of_nat i)" if "(n, i) \<in> set ls" "no_nul n" for n i
    using st1(4) that holds_get [of st1 n _ VT_LABEL] by (fastforce simp: gosub_label_def)
  moreover have "no_nul n" if "(n, i) \<in> set ls" for n i
    using label_list_names [OF assms(3,2) that] .
  ultimately have "list_all (\<lambda>(n, i). gosub_label st1 n = Some (0, of_nat i)) ls" by (auto simp: list_all_iff)
  moreover have "st1\<lparr>st_name := DEFAULT_PROGRAM\<rparr> = st1" using st1(2) by (simp add: DEFAULT_PROGRAM_def)
  ultimately show ?thesis using st1(1) by (intro exI [of _ st1]) (simp add: make_labels_def)
qed

theorem make_labels_index_witness:
  "\<exists>st1. make_labels (example_run [([], TT_LABEL), (''a'', TT_IDENTIFIER), ([], TT_END_OF_LINE), ([], TT_AFTER), (''b'', TT_IDENTIFIER)]) =
     Some (Done (0, st1)) \<and> gosub_label st1 ''a'' = Some (0, 4) \<and> gosub_label st1 ''b'' = Some (0, 9)"
proof -
  let ?ts = "[([], TT_LABEL), (''a'', TT_IDENTIFIER), ([], TT_END_OF_LINE), ([], TT_AFTER), (''b'', TT_IDENTIFIER)] :: token list"
  have n: "(example_run ?ts)\<lparr>st_name := []\<rparr> = example_run ?ts" by (simp add: example_run_def fresh_interp_def)
  have ls: "label_list 0 ?ts = Some [(''a'', 4), (''b'', 9)]"
    by (simp add: Let_def store_token_def text_kinds_def bytes_of_def)
  have "\<exists>st1. make_labels (example_run ?ts) = Some (Done (0, st1)) \<and>
      list_all (\<lambda>(n, i). gosub_label st1 n = Some (0, of_nat i)) [(''a'', 4), (''b'', 9)]"
  proof (rule make_labels_index [OF _ _ ls])
    show "st_prog (example_run ?ts) = tokens_bytes ?ts" by (simp add: example_run_def fresh_interp_def)
    show "list_all token_ok ?ts" by (simp add: token_ok_def text_kinds_def of_char_def)
  qed (simp_all add: n example_internal)
  then show ?thesis by simp
qed

end
