(* ===== verification/Link.thy ===== *)
theory Link
  imports Prelude
begin

section \<open>Connections and protocol timers (io.c, proto_timers.c)\<close>

text \<open>
  What happens on a connection is a list of events: a byte arrives, a read returns while
  more is still to come (\<open>Gap\<close>, where one \<open>read\<close> ends and the next begins), a read fails,
  a protocol timer runs out. At the end of the list the peer has closed the connection and
  a read returns no byte. \<open>lk_room\<close> is the number of bytes that can be written before
  \<open>write\<close> fails.

  A protocol timer jumps, through its \<open>jmp_buf\<close>, to the place that was last marked with
  \<open>sigsetjmp\<close>; the values of \<open>jmp\<close> are the program's \<open>jmp_buf\<close>s, \<open>lk_timers\<close> says which
  one a running timer holds. (The program marks the place inside a function of its own,
  \<open>do_the_setsigjump\<close>, that returns before the jump; C leaves that undefined. The model
  follows the jump as it is meant: the call returns a second time, not zero.) A jump to
  another place than the one that was marked for the pending read is not followed: it is
  passed to the caller as \<open>Jump\<close>.
\<close>

datatype event = Data byte | Gap | Fail | Fire nat

datatype jmp = RecvI_T1 | RecvI_T2 | Recv_T4 | Completion_T1 | SendI_T2 | Hsms_T8 | Connect_T6
  | Standard_T0 | Xml_T0

record link =
  lk_in :: "event list"
  lk_out :: "byte list"
  lk_room :: nat
  lk_up :: bool
  lk_timers :: "nat \<Rightarrow> jmp option"

definition MAX_PROTO_TIMERS :: nat where
  "MAX_PROTO_TIMERS = 9"

subsection \<open>proto_timers.c\<close>

text \<open>A timer that runs is not started again, and keeps its old \<open>jmp_buf\<close>.\<close>

definition start_proto_timer :: "nat \<Rightarrow> jmp \<Rightarrow> link \<Rightarrow> u32 \<times> link" where
  "start_proto_timer idx env k =
     (if idx \<ge> MAX_PROTO_TIMERS then (1, k)
      else if lk_timers k idx \<noteq> None then (1, k)
      else (0, k\<lparr>lk_timers := (lk_timers k)(idx \<mapsto> env)\<rparr>))"

definition stop_proto_timer :: "nat \<Rightarrow> link \<Rightarrow> u32 \<times> link" where
  "stop_proto_timer idx k =
     (if idx \<ge> MAX_PROTO_TIMERS then (1, k)
      else (0, k\<lparr>lk_timers := (lk_timers k)(idx := None)\<rparr>))"

definition init_proto_timers :: "link \<Rightarrow> link" where
  "init_proto_timers k = k\<lparr>lk_timers := (\<lambda>i. if i < MAX_PROTO_TIMERS then None else lk_timers k i)\<rparr>"

abbreviation start_t :: "nat \<Rightarrow> jmp \<Rightarrow> link \<Rightarrow> link" where
  "start_t idx env k \<equiv> snd (start_proto_timer idx env k)"

abbreviation stop_t :: "nat \<Rightarrow> link \<Rightarrow> link" where
  "stop_t idx k \<equiv> snd (stop_proto_timer idx k)"

subsection \<open>io.c\<close>

text \<open>The result of a blocking read.\<close>

datatype 'a rd = Got 'a | Failed | Jumped jmp

text \<open>\<open>wait_in\<close> waits for data: the events up to the first byte.\<close>

fun wait_in :: "event list \<Rightarrow> (nat \<Rightarrow> jmp option) \<Rightarrow> unit rd \<times> event list \<times> (nat \<Rightarrow> jmp option)" where
  "wait_in [] tm = (Failed, [], tm)"
| "wait_in (Data b # es) tm = (Got (), Data b # es, tm)"
| "wait_in (Gap # es) tm = wait_in es tm"
| "wait_in (Fail # es) tm = (Failed, es, tm)"
| "wait_in (Fire n # es) tm =
     (case tm n of
        None \<Rightarrow> wait_in es tm
      | Some j \<Rightarrow> (Jumped j, es, tm(n := None)))"

text \<open>The bytes one \<open>read\<close> of \<open>n\<close> bytes delivers.\<close>

fun take_data :: "nat \<Rightarrow> event list \<Rightarrow> byte list \<times> event list" where
  "take_data (Suc n) (Data b # es) = (let (bs, r) = take_data n es in (b # bs, r))"
| "take_data n es = ([], es)"

definition read_link :: "nat \<Rightarrow> link \<Rightarrow> byte list rd \<times> link" where
  "read_link n k =
     (case wait_in (lk_in k) (lk_timers k) of
        (Failed, es, tm) \<Rightarrow> (Failed, k\<lparr>lk_in := es, lk_timers := tm, lk_up := False\<rparr>)
      | (Jumped j, es, tm) \<Rightarrow> (Jumped j, k\<lparr>lk_in := es, lk_timers := tm\<rparr>)
      | (Got _, es, tm) \<Rightarrow>
          (case take_data n es of (bs, r) \<Rightarrow> (Got bs, k\<lparr>lk_in := r, lk_timers := tm\<rparr>)))"

text \<open>A failure and the end of the input disconnect the client.\<close>

definition my_readc :: "link \<Rightarrow> byte rd \<times> link" where
  "my_readc k =
     (case read_link 1 k of
        (Got bs, k1) \<Rightarrow> (Got (hd bs), k1)
      | (Failed, k1) \<Rightarrow> (Failed, k1)
      | (Jumped j, k1) \<Rightarrow> (Jumped j, k1))"

definition my_readx :: "nat \<Rightarrow> link \<Rightarrow> byte list rd \<times> link" where
  "my_readx len k = read_link len k"

text \<open>\<open>write\<close> may take fewer bytes than it was given; the program looks at \<open>-1\<close> only.\<close>

definition my_write :: "byte list \<Rightarrow> link \<Rightarrow> u32 \<times> link" where
  "my_write bs k =
     (if lk_room k = 0 \<and> bs \<noteq> [] then (1, k)
      else let d = take (lk_room k) bs
           in (0, k\<lparr>lk_out := lk_out k @ d, lk_room := lk_room k - length d\<rparr>))"

definition my_writec :: "byte \<Rightarrow> link \<Rightarrow> u32 \<times> link" where
  "my_writec b k =
     (if lk_room k = 0 then (1, k)
      else (0, k\<lparr>lk_out := lk_out k @ [b], lk_room := lk_room k - 1\<rparr>))"

subsection \<open>Lemmas: reading and writing\<close>

lemma wait_in_length:
  "wait_in es tm = (r, es1, tm1) \<Longrightarrow> length es1 \<le> length es \<and>
     (r = Got () \<longrightarrow> (\<exists>b es2. es1 = Data b # es2)) \<and> (\<forall>j. r = Jumped j \<longrightarrow> length es1 < length es)"
  by (induction es tm arbitrary: r es1 tm1 rule: wait_in.induct) (fastforce split: option.splits)+

lemma my_readc_Got:
  "my_readc k = (Got b, k1) \<Longrightarrow> length (lk_in k1) < length (lk_in k)"
  by (auto simp: my_readc_def read_link_def split: prod.splits rd.splits dest!: wait_in_length)

lemma my_readc_Data [link_simps]:
  "lk_in k = Data b # es \<Longrightarrow> my_readc k = (Got b, k\<lparr>lk_in := es\<rparr>)"
  by (simp add: my_readc_def read_link_def)

lemma my_readc_empty [link_simps]:
  "lk_in k = [] \<Longrightarrow> my_readc k = (Failed, k\<lparr>lk_in := [], lk_up := False\<rparr>)"
  by (simp add: my_readc_def read_link_def)

lemma my_writec_ok [link_simps]:
  "0 < lk_room k \<Longrightarrow> my_writec b k = (0, k\<lparr>lk_out := lk_out k @ [b], lk_room := lk_room k - 1\<rparr>)"
  by (simp add: my_writec_def)

lemma my_writec_in [simp]:
  "lk_in (snd (my_writec b k)) = lk_in k" "lk_timers (snd (my_writec b k)) = lk_timers k"
  by (simp_all add: my_writec_def)

lemma timer_in [simp]:
  "lk_in (start_t i e k) = lk_in k" "lk_in (stop_t i k) = lk_in k"
  "lk_out (start_t i e k) = lk_out k" "lk_out (stop_t i k) = lk_out k"
  "lk_room (start_t i e k) = lk_room k" "lk_room (stop_t i k) = lk_room k"
  "lk_up (start_t i e k) = lk_up k" "lk_up (stop_t i k) = lk_up k"
  by (simp_all add: start_proto_timer_def stop_proto_timer_def)

lemma timer_stop [simp]:
  "i < 9 \<Longrightarrow> lk_timers (stop_t i k) = (lk_timers k)(i := None)"
  by (simp add: stop_proto_timer_def MAX_PROTO_TIMERS_def)

lemma timer_start [simp]:
  "i < 9 \<Longrightarrow> lk_timers k i = None \<Longrightarrow> lk_timers (start_t i e k) = (lk_timers k)(i \<mapsto> e)"
  by (simp add: start_proto_timer_def MAX_PROTO_TIMERS_def)

end
