(* ===== verification/Secs_I.thy ===== *)
theory Secs_I
  imports Link Timers
begin

section \<open>SECS-I blocks (recv_secs.c, send_secs.c)\<close>

text \<open>
  The block protocol: ENQ and EOT claim the line, a length byte, the block and a checksum of
  two bytes follow, ACK or NAK answers. \<open>send_secsI\<close> and \<open>recv_secsI\<close> are the two sides of it,
  \<open>completion\<close> drops what is left on the line after an error. A function returns the code of
  the source, or the jump of a timer that belongs to a caller (\<open>Jump\<close>).
\<close>

definition ENQ :: byte where "ENQ = 0x05"
definition EOT :: byte where "EOT = 0x04"
definition ACK :: byte where "ACK = 0x06"
definition NAK :: byte where "NAK = 0x15"

lemmas secs_chars = ENQ_def EOT_def ACK_def NAK_def

datatype 'a ret = Ret 'a | Jump jmp

subsection \<open>Sending a block\<close>

text \<open>Waiting for EOT. With \<open>rbit\<close> an ENQ is ignored, without it is a contention. The codes
  3, 2 and 1 are an error, a contention and a failed block.\<close>

function wait_eot :: "bool \<Rightarrow> link \<Rightarrow> u32 option ret \<times> link" where
  "wait_eot rbit k =
     (case my_readc k of
        (Failed, k1) \<Rightarrow> (Ret (Some 3), stop_t 2 k1)
      | (Jumped j, k1) \<Rightarrow> (if j = SendI_T2 then (Ret (Some 1), k1) else (Jump j, k1))
      | (Got c, k1) \<Rightarrow>
          if c = EOT then (Ret None, stop_t 2 k1)
          else if c = ENQ then
            (if rbit then wait_eot rbit k1 else (Ret (Some 2), stop_t 2 k1))
          else wait_eot rbit k1)"
  by pat_completeness auto
termination
  by (relation "measure (\<lambda>(rbit, k). length (lk_in k))") (auto dest: my_readc_Got [OF sym])

declare wait_eot.simps [simp del]

text \<open>Writing bytes one by one; the code 3 is a failed write.\<close>

fun write_each :: "byte list \<Rightarrow> link \<Rightarrow> u32 \<times> link" where
  "write_each [] k = (0, k)"
| "write_each (b # bs) k =
     (case my_writec b k of (r, k1) \<Rightarrow> if r \<noteq> 0 then (3, k1) else write_each bs k1)"

definition wait_ack :: "link \<Rightarrow> u32 ret \<times> link" where
  "wait_ack k =
     (case my_readc (start_t 2 SendI_T2 k) of
        (Failed, k1) \<Rightarrow> (Ret 3, stop_t 2 k1)
      | (Jumped j, k1) \<Rightarrow> (if j = SendI_T2 then (Ret 1, k1) else (Jump j, k1))
      | (Got c, k1) \<Rightarrow>
          (if c = ACK then (Ret 0, stop_t 2 k1) else (Ret 1, stop_t 2 k1)))"

definition send_block_data :: "byte list \<Rightarrow> link \<Rightarrow> u32 \<times> link" where
  "send_block_data block k =
     (case secs_calc_checksum block of
        (c0, c1) \<Rightarrow> write_each (of_nat (length block) # block @ [c0, c1]) k)"

definition send_secsI :: "bool \<Rightarrow> byte list \<Rightarrow> link \<Rightarrow> u32 ret \<times> link" where
  "send_secsI rbit block k =
     (case my_writec ENQ k of (r, k1) \<Rightarrow>
        if r \<noteq> 0 then (Ret 3, k1)
        else (case wait_eot rbit (start_t 2 SendI_T2 k1) of
                (Jump j, k2) \<Rightarrow> (Jump j, k2)
              | (Ret (Some e), k2) \<Rightarrow> (Ret e, k2)
              | (Ret None, k2) \<Rightarrow>
                  (case send_block_data block k2 of (r2, k3) \<Rightarrow>
                     if r2 \<noteq> 0 then (Ret r2, k3) else wait_ack k3)))"

subsection \<open>Receiving a block\<close>

text \<open>\<open>completion\<close> reads until the line is silent for T1.\<close>

function completion :: "link \<Rightarrow> unit ret \<times> link" where
  "completion k =
     (case my_readc (start_t 1 Completion_T1 k) of
        (Failed, k1) \<Rightarrow> (Ret (), stop_t 1 k1)
      | (Jumped j, k1) \<Rightarrow> (if j = Completion_T1 then (Ret (), k1) else (Jump j, k1))
      | (Got c, k1) \<Rightarrow> completion (stop_t 1 k1))"
  by pat_completeness auto
termination
  by (relation "measure (\<lambda>k. length (lk_in k))") (auto dest: my_readc_Got [OF sym])

declare completion.simps [simp del]

text \<open>The answer to a bad block: 2, or 1 if it cannot be written.\<close>

definition send_nak :: "link \<Rightarrow> u32 ret \<times> link" where
  "send_nak k = (case my_writec NAK k of (r, k1) \<Rightarrow> (Ret (if r \<noteq> 0 then 1 else 2), k1))"

definition complete_nak :: "link \<Rightarrow> u32 ret \<times> link" where
  "complete_nak k =
     (case completion k of
        (Jump j, k1) \<Rightarrow> (Jump j, k1)
      | (Ret _, k1) \<Rightarrow> send_nak k1)"

text \<open>A step of \<open>recv_secsI\<close> yields a value or ends the function.\<close>

type_synonym 'a step = "('a + u32 ret) \<times> link"

text \<open>The length byte; an ENQ that is sent again is skipped.\<close>

function recv_size :: "link \<Rightarrow> byte step" where
  "recv_size k =
     (case my_readc (start_t 2 RecvI_T2 k) of
        (Failed, k1) \<Rightarrow> (Inr (Ret 1), stop_t 2 k1)
      | (Jumped j, k1) \<Rightarrow>
          (if j = RecvI_T2 then (case send_nak k1 of (r, k2) \<Rightarrow> (Inr r, k2)) else (Inr (Jump j), k1))
      | (Got c, k1) \<Rightarrow> if c = ENQ then recv_size (stop_t 2 k1) else (Inl c, stop_t 2 k1))"
  by pat_completeness auto
termination
  by (relation "measure (\<lambda>k. length (lk_in k))") (auto dest: my_readc_Got [OF sym])

declare recv_size.simps [simp del]

text \<open>\<open>n\<close> bytes under T1; \<open>bad\<close> is what a T1 timeout does.\<close>

fun recv_bytes :: "(link \<Rightarrow> u32 ret \<times> link) \<Rightarrow> nat \<Rightarrow> byte list \<Rightarrow> link \<Rightarrow> byte list step" where
  "recv_bytes bad 0 acc k = (Inl acc, k)"
| "recv_bytes bad (Suc n) acc k =
     (case my_readc (start_t 1 RecvI_T1 k) of
        (Failed, k1) \<Rightarrow> (Inr (Ret 1), stop_t 1 k1)
      | (Jumped j, k1) \<Rightarrow>
          (if j = RecvI_T1 then (case bad k1 of (r, k2) \<Rightarrow> (Inr r, k2)) else (Inr (Jump j), k1))
      | (Got c, k1) \<Rightarrow> recv_bytes bad n (acc @ [c]) (stop_t 1 k1))"

definition recv_enq :: "bool \<Rightarrow> link \<Rightarrow> unit step" where
  "recv_enq flag k =
     (if flag then (Inl (), k)
      else (case my_readc k of
              (Failed, k1) \<Rightarrow> (Inr (Ret 1), k1)
            | (Jumped j, k1) \<Rightarrow> (Inr (Jump j), k1)
            | (Got c, k1) \<Rightarrow> if c = ENQ then (Inl (), k1) else (Inr (Ret 2), k1)))"

text \<open>The block, its checksum and the answer.\<close>

definition recv_block :: "byte \<Rightarrow> link \<Rightarrow> byte list step" where
  "recv_block sz k =
     (if unat sz < 10 \<or> unat sz > 254 then (case complete_nak k of (r, k1) \<Rightarrow> (Inr r, k1))
      else (case recv_bytes send_nak (unat sz) [] k of
              (Inr e, k1) \<Rightarrow> (Inr e, k1)
            | (Inl block, k1) \<Rightarrow>
                (case recv_bytes complete_nak 2 [] k1 of
                   (Inr e, k2) \<Rightarrow> (Inr e, k2)
                 | (Inl cs, k2) \<Rightarrow>
                     if (cs ! 0, cs ! 1) = secs_calc_checksum block then
                       (case my_writec ACK k2 of (r, k3) \<Rightarrow>
                          if r \<noteq> 0 then (Inr (Ret 1), k3) else (Inl block, k3))
                     else (case complete_nak k2 of (r, k3) \<Rightarrow> (Inr r, k3)))))"

text \<open>\<open>Inl\<close> is the return code 0 with the block; \<open>block_size\<close> is its length.\<close>

definition recv_secsI :: "bool \<Rightarrow> link \<Rightarrow> byte list step" where
  "recv_secsI flag k =
     (case recv_enq flag k of
        (Inr e, k1) \<Rightarrow> (Inr e, k1)
      | (Inl _, k1) \<Rightarrow>
          (case my_writec EOT k1 of (r, k2) \<Rightarrow>
             if r \<noteq> 0 then (Inr (Ret 1), k2)
             else (case recv_size k2 of
                     (Inr e, k3) \<Rightarrow> (Inr e, k3)
                   | (Inl sz, k3) \<Rightarrow> recv_block sz k3)))"


subsection \<open>Lemmas: a quiet line\<close>

text \<open>\<open>quiet k\<close>: the timers of a block are not running. \<open>frame\<close> is what a block looks like on
  the line.\<close>

definition quiet :: "link \<Rightarrow> bool" where
  "quiet k \<longleftrightarrow> lk_timers k 1 = None \<and> lk_timers k 2 = None"

definition frame :: "byte list \<Rightarrow> byte list" where
  "frame block = (case secs_calc_checksum block of
     (c0, c1) \<Rightarrow> of_nat (length block) # block @ [c0, c1])"

definition block_ok :: "byte list \<Rightarrow> bool" where
  "block_ok block \<longleftrightarrow> 10 \<le> length block \<and> length block \<le> 254"

lemma timers_idem [simp]: "lk_timers k i = None \<Longrightarrow> (lk_timers k)(i := None) = lk_timers k"
  by auto

lemma start_stop [simp]:
  "lk_timers k i = None \<Longrightarrow> stop_t i ((start_t i e k)\<lparr>lk_in := es\<rparr>) = k\<lparr>lk_in := es\<rparr>"
  by (simp add: start_proto_timer_def stop_proto_timer_def)

lemma start_read_stop:
  assumes "lk_in k = Data b # es" "lk_timers k i = None" "i < 9"
  shows "my_readc (start_t i e k) = (Got b, (start_t i e k)\<lparr>lk_in := es\<rparr>)"
    "stop_t i ((start_t i e k)\<lparr>lk_in := es\<rparr>) = k\<lparr>lk_in := es\<rparr>"
  using assms
  by (simp_all add: link_simps start_proto_timer_def stop_proto_timer_def MAX_PROTO_TIMERS_def)

lemma write_each_ok:
  "length bs \<le> lk_room k \<Longrightarrow>
   write_each bs k = (0, k\<lparr>lk_out := lk_out k @ bs, lk_room := lk_room k - length bs\<rparr>)"
proof (induction bs arbitrary: k)
  case (Cons b bs)
  have "my_writec b k = (0, k\<lparr>lk_out := lk_out k @ [b], lk_room := lk_room k - 1\<rparr>)"
    using Cons.prems by (intro my_writec_ok) auto
  then show ?case using Cons by simp
qed simp

lemma send_block_data_frame: "send_block_data block k = write_each (frame block) k"
  unfolding send_block_data_def frame_def by (cases "secs_calc_checksum block") simp

lemma recv_bytes_data:
  assumes "lk_in k = map Data bs @ es" "lk_timers k 1 = None"
  shows "recv_bytes bad (length bs) acc k = (Inl (acc @ bs), k\<lparr>lk_in := es\<rparr>)"
  using assms
proof (induction bs arbitrary: acc k)
  case (Cons b bs)
  then have "lk_in k = Data b # map Data bs @ es" by simp
  note r = start_read_stop [OF this Cons.prems(2), of RecvI_T1]
  show ?case using Cons.IH [of "k\<lparr>lk_in := map Data bs @ es\<rparr>" "acc @ [b]"] Cons.prems(2) r
    by simp
qed simp

lemma recv_size_data:
  assumes "lk_in k = Data c # es" "lk_timers k 2 = None" "c \<noteq> ENQ"
  shows "recv_size k = (Inl c, k\<lparr>lk_in := es\<rparr>)"
  using start_read_stop [OF assms(1,2), of RecvI_T2] assms(3) by (subst recv_size.simps) simp

lemma length_frame [simp]: "length (frame block) = length block + 3"
  by (simp add: frame_def split: prod.splits)

lemma size_byte_block:
  "block_ok block \<Longrightarrow> unat (of_nat (length block) :: byte) = length block"
  "block_ok block \<Longrightarrow> (of_nat (length block) :: byte) \<noteq> ENQ"
proof -
  assume ok: "block_ok block"
  then show u: "unat (of_nat (length block) :: byte) = length block"
    by (auto simp: block_ok_def unat_of_nat)
  show "(of_nat (length block) :: byte) \<noteq> ENQ"
  proof
    assume "(of_nat (length block) :: byte) = ENQ"
    then have "length block = unat ENQ" using u by simp
    then show False using ok by (simp add: block_ok_def ENQ_def)
  qed
qed

lemma recv_block_ok:
  assumes "lk_in k = map Data (block @ [c0, c1]) @ es" "secs_calc_checksum block = (c0, c1)"
    "block_ok block" "lk_timers k 1 = None" "0 < lk_room k"
  shows "recv_block (of_nat (length block)) k =
    (Inl block, k\<lparr>lk_in := es, lk_out := lk_out k @ [ACK], lk_room := lk_room k - 1\<rparr>)"
proof -
  let ?k1 = "k\<lparr>lk_in := map Data [c0, c1] @ es\<rparr>"
  have "recv_bytes send_nak (length block) [] k = (Inl block, ?k1)"
    using recv_bytes_data [of k block "map Data [c0, c1] @ es" send_nak "[]"] assms(1,4) by simp
  moreover have "recv_bytes complete_nak 2 [] ?k1 = (Inl [c0, c1], k\<lparr>lk_in := es\<rparr>)"
    using recv_bytes_data [of ?k1 "[c0, c1]" es complete_nak "[]"] assms(4)
    by (simp add: numeral_2_eq_2)
  ultimately show ?thesis
    using assms size_byte_block(1) [OF assms(3)]
    by (simp add: recv_block_def block_ok_def link_simps)
qed

lemma recv_secsI_ok:
  assumes "lk_in k = map Data ((if flag then [] else [ENQ]) @ frame block) @ es" "quiet k"
    "block_ok block" "2 \<le> lk_room k"
  shows "recv_secsI flag k =
    (Inl block, k\<lparr>lk_in := es, lk_out := lk_out k @ [EOT, ACK], lk_room := lk_room k - 2\<rparr>)"
proof -
  obtain c0 c1 where c: "secs_calc_checksum block = (c0, c1)" by force
  let ?k1 = "k\<lparr>lk_in := map Data (frame block) @ es\<rparr>"
  let ?k2 = "?k1\<lparr>lk_out := lk_out k @ [EOT], lk_room := lk_room k - 1\<rparr>"
  have "recv_enq flag k = (Inl (), ?k1)"
    using assms(1) by (cases flag) (simp_all add: recv_enq_def link_simps)
  moreover have "my_writec EOT ?k1 = (0, ?k2)" using assms(4) by (simp add: my_writec_def)
  moreover have "recv_size ?k2 =
      (Inl (of_nat (length block)), ?k2\<lparr>lk_in := map Data (block @ [c0, c1]) @ es\<rparr>)"
    using assms(2) size_byte_block(2) [OF assms(3)] c
    by (intro recv_size_data) (simp_all add: frame_def quiet_def)
  moreover have "recv_block (of_nat (length block)) (?k2\<lparr>lk_in := map Data (block @ [c0, c1]) @ es\<rparr>) =
      (Inl block, ?k2\<lparr>lk_in := es, lk_out := lk_out k @ [EOT, ACK], lk_room := lk_room k - 2\<rparr>)"
    using assms(2-4) c by (subst recv_block_ok) (auto simp: quiet_def numeral_2_eq_2)
  ultimately show ?thesis by (simp add: recv_secsI_def)
qed

text \<open>The sender, when the other side answers EOT and ACK.\<close>

lemma send_secsI_ok:
  assumes "lk_in k = Data EOT # Data ACK # es" "quiet k" "length block + 4 \<le> lk_room k"
  shows "send_secsI rbit block k =
    (Ret 0, k\<lparr>lk_in := es, lk_out := lk_out k @ ENQ # frame block,
              lk_room := lk_room k - (length block + 4)\<rparr>)"
proof -
  let ?k1 = "k\<lparr>lk_out := lk_out k @ [ENQ], lk_room := lk_room k - 1\<rparr>"
  let ?k2 = "?k1\<lparr>lk_in := Data ACK # es\<rparr>"
  let ?k3 = "?k2\<lparr>lk_out := lk_out k @ ENQ # frame block, lk_room := lk_room k - (length block + 4)\<rparr>"
  have "my_writec ENQ k = (0, ?k1)" using assms(3) by (simp add: my_writec_def)
  moreover have "wait_eot rbit (start_t 2 SendI_T2 ?k1) = (Ret None, ?k2)"
    using start_read_stop [of ?k1 EOT "Data ACK # es" 2 SendI_T2] assms(1,2)
    by (subst wait_eot.simps) (simp add: quiet_def)
  moreover have "send_block_data block ?k2 = (0, ?k3)"
    using assms(3) by (simp add: send_block_data_frame write_each_ok)
  moreover have "wait_ack ?k3 = (Ret 0, ?k3\<lparr>lk_in := es\<rparr>)"
    using start_read_stop [of ?k3 ACK es 2 SendI_T2] assms(2) by (simp add: wait_ack_def quiet_def)
  ultimately show ?thesis by (simp add: send_secsI_def)
qed

text \<open>A block whose checksum does not fit is answered with NAK once the line is silent.\<close>

lemma completion_silent:
  assumes "lk_in k = map Data bs @ Fire 1 # es" "lk_timers k 1 = None"
  shows "completion k = (Ret (), k\<lparr>lk_in := es\<rparr>)"
  using assms
proof (induction bs arbitrary: k)
  case Nil
  then have "my_readc (start_t 1 Completion_T1 k) = (Jumped Completion_T1,
      (start_t 1 Completion_T1 k)\<lparr>lk_in := es, lk_timers := lk_timers k\<rparr>)"
    by (simp add: my_readc_def read_link_def)
  then show ?case
    by (subst completion.simps) (simp add: start_proto_timer_def MAX_PROTO_TIMERS_def)
next
  case (Cons b bs)
  then have "lk_in k = Data b # map Data bs @ Fire 1 # es" by simp
  note r = start_read_stop [OF this Cons.prems(2), of Completion_T1]
  show ?case
    using Cons.IH [of "k\<lparr>lk_in := map Data bs @ Fire 1 # es\<rparr>"] Cons.prems(2) r
    by (subst completion.simps) simp
qed

lemma recv_block_bad:
  assumes "lk_in k = map Data (block @ [c0, c1]) @ Fire 1 # es" "secs_calc_checksum block \<noteq> (c0, c1)"
    "block_ok block" "lk_timers k 1 = None" "0 < lk_room k"
  shows "recv_block (of_nat (length block)) k =
    (Inr (Ret 2), k\<lparr>lk_in := es, lk_out := lk_out k @ [NAK], lk_room := lk_room k - 1\<rparr>)"
proof -
  let ?k1 = "k\<lparr>lk_in := map Data [c0, c1] @ Fire 1 # es\<rparr>"
  let ?k2 = "k\<lparr>lk_in := Fire 1 # es\<rparr>"
  have "recv_bytes send_nak (length block) [] k = (Inl block, ?k1)"
    using recv_bytes_data [of k block "map Data [c0, c1] @ Fire 1 # es" send_nak "[]"] assms(1,4)
    by simp
  moreover have "recv_bytes complete_nak 2 [] ?k1 = (Inl [c0, c1], ?k2)"
    using recv_bytes_data [of ?k1 "[c0, c1]" "Fire 1 # es" complete_nak "[]"] assms(4)
    by (simp add: numeral_2_eq_2)
  moreover have "complete_nak ?k2 =
      (Ret 2, k\<lparr>lk_in := es, lk_out := lk_out k @ [NAK], lk_room := lk_room k - 1\<rparr>)"
    using completion_silent [of ?k2 "[]" es] assms(4,5)
    by (simp add: complete_nak_def send_nak_def my_writec_def)
  ultimately show ?thesis
    using assms size_byte_block(1) [OF assms(3)]
    by (auto simp: recv_block_def block_ok_def)
qed

lemma recv_secsI_bad:
  assumes "lk_in k = map Data (ENQ # of_nat (length block) # block @ [c0, c1]) @ Fire 1 # es"
    "secs_calc_checksum block \<noteq> (c0, c1)" "quiet k" "block_ok block" "2 \<le> lk_room k"
  shows "recv_secsI False k =
    (Inr (Ret 2), k\<lparr>lk_in := es, lk_out := lk_out k @ [EOT, NAK], lk_room := lk_room k - 2\<rparr>)"
proof -
  let ?k1 = "k\<lparr>lk_in := map Data (of_nat (length block) # block @ [c0, c1]) @ Fire 1 # es\<rparr>"
  let ?k2 = "?k1\<lparr>lk_out := lk_out k @ [EOT], lk_room := lk_room k - 1\<rparr>"
  have "recv_enq False k = (Inl (), ?k1)"
    using assms(1) by (simp add: recv_enq_def link_simps)
  moreover have "my_writec EOT ?k1 = (0, ?k2)" using assms(5) by (simp add: my_writec_def)
  moreover have "recv_size ?k2 =
      (Inl (of_nat (length block)), ?k2\<lparr>lk_in := map Data (block @ [c0, c1]) @ Fire 1 # es\<rparr>)"
    using assms(3) size_byte_block(2) [OF assms(4)]
    by (intro recv_size_data) (simp_all add: quiet_def)
  moreover have "recv_block (of_nat (length block))
        (?k2\<lparr>lk_in := map Data (block @ [c0, c1]) @ Fire 1 # es\<rparr>) =
      (Inr (Ret 2), ?k2\<lparr>lk_in := es, lk_out := lk_out k @ [EOT, NAK], lk_room := lk_room k - 2\<rparr>)"
    using assms(2-5) by (subst recv_block_bad) (auto simp: quiet_def numeral_2_eq_2)
  ultimately show ?thesis by (simp add: recv_secsI_def)
qed


section \<open>Properties\<close>

text \<open>C6. A block crosses the line: what \<open>send_secsI\<close> writes for a block of 10 to 254 bytes,
  its handshake answered with EOT and ACK, is exactly what makes \<open>recv_secsI\<close> on the other side
  return this block, answering with the very EOT and ACK the sender waits for.\<close>

theorem secsI_block_roundtrip:
  assumes "block_ok block" "quiet ks" "quiet kr" "lk_in ks = map Data [EOT, ACK]" "lk_out ks = []"
    "lk_out kr = []" "length block + 4 \<le> lk_room ks" "2 \<le> lk_room kr"
  shows "\<exists>ks1 kr1. send_secsI rbit block ks = (Ret 0, ks1) \<and>
    recv_secsI False (kr\<lparr>lk_in := map Data (lk_out ks1)\<rparr>) = (Inl block, kr1) \<and>
    map Data (lk_out kr1) = lk_in ks \<and> lk_in ks1 = [] \<and> lk_in kr1 = [] \<and> quiet ks1 \<and> quiet kr1"
proof -
  let ?kr = "kr\<lparr>lk_in := map Data (ENQ # frame block)\<rparr>"
  have s: "send_secsI rbit block ks = (Ret 0, ks\<lparr>lk_in := [], lk_out := lk_out ks @ ENQ # frame block,
      lk_room := lk_room ks - (length block + 4)\<rparr>)"
    using assms(2,4,7) by (intro send_secsI_ok) simp_all
  have "recv_secsI False ?kr =
      (Inl block, ?kr\<lparr>lk_in := [], lk_out := lk_out ?kr @ [EOT, ACK], lk_room := lk_room ?kr - 2\<rparr>)"
    using assms(1,3,8) by (intro recv_secsI_ok) (simp_all add: quiet_def)
  then show ?thesis using s assms by (auto simp: quiet_def)
qed

theorem secsI_block_roundtrip_witness:
  "\<exists>ks1 kr1. send_secsI True (replicate 10 0)
      \<lparr>lk_in = map Data [EOT, ACK], lk_out = [], lk_room = 20, lk_up = True, lk_timers = (\<lambda>_. None)\<rparr> = (Ret 0, ks1) \<and>
    recv_secsI False \<lparr>lk_in = map Data (lk_out ks1), lk_out = [], lk_room = 20, lk_up = True,
      lk_timers = (\<lambda>_. None)\<rparr> = (Inl (replicate 10 0), kr1)"
proof -
  let ?ks = "\<lparr>lk_in = map Data [EOT, ACK], lk_out = [], lk_room = 20, lk_up = True, lk_timers = (\<lambda>_. None)\<rparr>"
  let ?kr = "\<lparr>lk_in = [], lk_out = [], lk_room = 20, lk_up = True, lk_timers = (\<lambda>_. None)\<rparr>"
  have "\<exists>ks1 kr1. send_secsI True (replicate 10 0) ?ks = (Ret 0, ks1) \<and>
    recv_secsI False (?kr\<lparr>lk_in := map Data (lk_out ks1)\<rparr>) = (Inl (replicate 10 0), kr1) \<and>
    map Data (lk_out kr1) = lk_in ?ks \<and> lk_in ks1 = [] \<and> lk_in kr1 = [] \<and> quiet ks1 \<and> quiet kr1"
    by (rule secsI_block_roundtrip) (simp_all add: block_ok_def quiet_def)
  then show ?thesis by auto
qed



end
