(* ===== verification/Secs_Item.thy ===== *)
theory Secs_Item
  imports Utility
begin

section \<open>SECS-II items: headers and the tree a message stands for\<close>

text \<open>
  The body of a message is a sequence of items. An item starts with a byte that holds the
  format in its upper six bits and the number of length bytes in the lower two; the length
  follows, most significant byte first. Here are the two routines that write and read an
  item header (\<open>set_size_bytes\<close> and \<open>STORE_DATA\<close> of secs_encode_sml.c, the first lines of
  the loops of the decoders), the tree of items a body stands for and its encoding.
\<close>

unbundle bit_operations_syntax

subsection \<open>Formats (secs.h)\<close>

definition LIST :: byte where "LIST = 0x00"
definition ASCII :: byte where "ASCII = 0x40"
definition BINARY :: byte where "BINARY = 0x20"
definition BOOLEAN :: byte where "BOOLEAN = 0x24"
definition UNSIGNED_1 :: byte where "UNSIGNED_1 = 0xA4"
definition UNSIGNED_2 :: byte where "UNSIGNED_2 = 0xA8"
definition UNSIGNED_4 :: byte where "UNSIGNED_4 = 0xB0"
definition UNSIGNED_8 :: byte where "UNSIGNED_8 = 0xA0"
definition SIGNED_1 :: byte where "SIGNED_1 = 0x64"
definition SIGNED_2 :: byte where "SIGNED_2 = 0x68"
definition SIGNED_4 :: byte where "SIGNED_4 = 0x70"
definition SIGNED_8 :: byte where "SIGNED_8 = 0x60"
definition FLOAT_4 :: byte where "FLOAT_4 = 0x90"
definition FLOAT_8 :: byte where "FLOAT_8 = 0x80"

lemmas secs_formats =
  LIST_def ASCII_def BINARY_def BOOLEAN_def UNSIGNED_1_def UNSIGNED_2_def UNSIGNED_4_def
  UNSIGNED_8_def SIGNED_1_def SIGNED_2_def SIGNED_4_def SIGNED_8_def FLOAT_4_def FLOAT_8_def

definition data_formats :: "byte list" where
  "data_formats = [ASCII, BINARY, BOOLEAN, UNSIGNED_1, UNSIGNED_2, UNSIGNED_4, UNSIGNED_8,
     SIGNED_1, SIGNED_2, SIGNED_4, SIGNED_8, FLOAT_4, FLOAT_8]"

subsection \<open>Writing a header\<close>

text \<open>The three bytes of \<open>data\<close> and how many of them count.\<close>

definition set_size_bytes :: "u32 \<Rightarrow> byte list \<times> byte" where
  "set_size_bytes item_length =
     (if item_length \<le> 0xFF then ([ucast item_length, 0, 0], 1)
      else if item_length \<le> 0xFFFF
      then ([ucast (drop_bit 8 item_length AND 0xFF), ucast (item_length AND 0xFF), 0], 2)
      else ([ucast (drop_bit 16 item_length AND 0xFF), ucast (drop_bit 8 item_length AND 0xFF),
             ucast (item_length AND 0xFF)], 3))"

text \<open>\<^verbatim>\<open>STORE_DATA\<close>: \<open>num_bytes\<close> is the length the header states, \<open>d\<close> what the data buffer
  holds; both are appended to the message.\<close>

definition store_data :: "byte \<Rightarrow> u32 \<Rightarrow> byte list \<Rightarrow> byte list \<Rightarrow> byte list" where
  "store_data ty num_bytes d buffer =
     (let (bs, n) = set_size_bytes num_bytes
      in buffer @ take (unat n + 1) ((ty + n) # bs) @ d)"

subsection \<open>Reading a header\<close>

text \<open>Anything but one or two length bytes counts as three, zero too.\<close>

definition read_size :: "byte \<Rightarrow> byte list \<Rightarrow> u32 \<Rightarrow> (u32 \<times> byte list \<times> u32) option" where
  "read_size num_length_bytes p len =
     (if num_length_bytes = 1 then
        (case p of a # p1 \<Rightarrow> Some (ucast a, p1, len - 1) | _ \<Rightarrow> None)
      else if num_length_bytes = 2 then
        (case p of a # b # p1 \<Rightarrow> Some (push_bit 8 (ucast a) OR ucast b, p1, len - 2) | _ \<Rightarrow> None)
      else
        (case p of
           a # b # c # p1 \<Rightarrow>
             Some (push_bit 16 (ucast a) OR push_bit 8 (ucast b) OR ucast c, p1, len - 3)
         | _ \<Rightarrow> None))"

definition read_header :: "byte list \<Rightarrow> u32 \<Rightarrow> (byte \<times> u32 \<times> byte list \<times> u32) option" where
  "read_header p len =
     (case p of
        [] \<Rightarrow> None
      | b # p1 \<Rightarrow> do {
          (size, p2, len2) \<leftarrow> read_size (b AND 0x03) p1 (len - 1);
          Some (b AND 0xFC, size, p2, len2)
        })"

lemma read_header_shorter:
  "read_header p len = Some (ty, sz, p1, len1) \<Longrightarrow> length p1 < length p"
  by (auto simp: read_header_def read_size_def split: list.splits if_splits)

subsection \<open>The tree of items\<close>

datatype item = SList "item list" | SData byte "byte list"

definition item_header :: "byte \<Rightarrow> nat \<Rightarrow> byte list" where
  "item_header ty n = store_data ty (of_nat n) [] []"

fun enc_item :: "item \<Rightarrow> byte list" where
  "enc_item (SList its) = item_header LIST (length its) @ concat (map enc_item its)"
| "enc_item (SData ty d) = item_header ty (length d) @ d"

text \<open>A length has three bytes at most; \<open>data_ok\<close> is what a reader asks of the data.\<close>

fun item_fits :: "(byte \<Rightarrow> byte list \<Rightarrow> bool) \<Rightarrow> item \<Rightarrow> bool" where
  "item_fits data_ok (SList its) = (length its < 2 ^ 24 \<and> list_all (item_fits data_ok) its)"
| "item_fits data_ok (SData ty d) =
     (ty \<in> set data_formats \<and> length d < 2 ^ 24 \<and> data_ok ty d)"

fun depth :: "item \<Rightarrow> nat" where
  "depth (SList its) = Suc (foldr (\<lambda>t m. max (depth t) m) its 0)"
| "depth (SData ty d) = 0"

lemma depth_mem: "t \<in> set its \<Longrightarrow> depth t < depth (SList its)"
  by (induction its) auto

subsection \<open>Lemmas: a header is read back\<close>

lemma format_header:
  assumes "ty \<in> set (LIST # data_formats)" "n \<in> {1, 2, 3}"
  shows "(ty + n) AND 0x03 = n" "(ty + n) AND 0xFC = ty"
  using assms by (auto simp: data_formats_def secs_formats)

text \<open>The bytes of a length as natural numbers.\<close>

lemma unat_ucast_byte: "unat (ucast (w :: u32) :: byte) = unat w mod 256"
  by (simp add: unsigned_ucast_eq take_bit_eq_mod)

lemma unat_ucast_u32 [simp]: "unat (ucast (b :: byte) :: u32) = unat b"
proof -
  have "unat b < 2 ^ 32" using unat_byte_less [of b] by (rule less_trans) simp
  then show ?thesis by (simp add: unsigned_ucast_eq take_bit_nat_eq_self)
qed

lemma unat_low_byte: "unat (w AND 0xFF :: u32) = unat w mod 256"
proof -
  have "(0xFF :: u32) = mask 8" by (simp add: mask_eq_exp_minus_1)
  then have "w AND 0xFF = take_bit 8 w" by (simp add: take_bit_eq_mask)
  then show ?thesis by (simp add: take_bit_eq_mod unat_mod_distrib)
qed

lemma unat_drop_bit_u32: "unat (drop_bit n (w :: u32)) = unat w div 2 ^ n"
  unfolding unat_drop_bit_eq by (rule drop_bit_eq_div)

lemma size_byte:
  "unat (ucast (drop_bit n w AND 0xFF :: u32) :: byte) = unat w div 2 ^ n mod 256"
  "unat (ucast (w AND 0xFF :: u32) :: byte) = unat w mod 256"
  by (simp_all only: unat_ucast_byte unat_low_byte unat_drop_bit_u32 mod_mod_trivial)

lemma or_byte:
  fixes w :: u32 and b :: byte
  assumes "unat w * 256 + 256 \<le> 4294967296"
  shows "push_bit 8 w OR ucast b = push_bit 8 w + ucast b"
    "unat (push_bit 8 w OR ucast b) = unat w * 256 + unat b"
proof -
  have "push_bit 8 w + ucast b = push_bit 8 w OR ucast b"
    by (rule disjunctive_add) (auto simp: bit_simps dest: bit_imp_le_length)
  then show e: "push_bit 8 w OR ucast b = push_bit 8 w + ucast b" ..
  have "unat (push_bit 8 w) = unat w * 256"
    using assms by (simp add: push_bit_eq_mult unat_word_ariths mult.commute)
  moreover have less: "unat w * 256 + unat b < 4294967296"
    using assms unat_byte_less [of b] by linarith
  ultimately show "unat (push_bit 8 w OR ucast b) = unat w * 256 + unat b"
    using less by (simp add: e unat_add_u32)
qed

lemma push_or_2:
  fixes a b :: byte
  shows "unat (push_bit 8 (ucast a) OR ucast b :: u32) = unat a * 256 + unat b"
proof -
  have "unat (ucast a :: u32) * 256 + 256 \<le> 4294967296"
    unfolding unat_ucast_u32 using unat_byte_less [of a] by linarith
  then show ?thesis using or_byte(2) [of "ucast a" b] by simp
qed

lemma two_bytes_room: "a < 256 \<Longrightarrow> b < 256 \<Longrightarrow> (a * 256 + b) * 256 + 256 \<le> (4294967296 :: nat)"
  by simp

lemma push_or_3:
  fixes a b c :: byte
  shows "unat (push_bit 16 (ucast a) OR push_bit 8 (ucast b) OR ucast c :: u32) =
    unat a * 65536 + unat b * 256 + unat c"
proof -
  let ?ab = "push_bit 8 (ucast a) OR ucast b :: u32"
  have ab: "unat ?ab = unat a * 256 + unat b"
    by (rule push_or_2)
  have "push_bit 16 (ucast a) OR push_bit 8 (ucast b) OR ucast c = push_bit 8 ?ab OR (ucast c :: u32)"
    by (simp add: push_bit_or or.assoc)
  moreover have "unat ?ab * 256 + 256 \<le> 4294967296"
    unfolding ab using unat_byte_less [of a] unat_byte_less [of b] by (rule two_bytes_room)
  ultimately show ?thesis using or_byte(2) [of ?ab c] ab by simp
qed

lemma three_bytes: "n div 65536 * 65536 + n div 256 mod 256 * 256 + n mod 256 = (n :: nat)"
proof -
  have "n div 65536 = n div 256 div 256" by (simp add: div_mult2_eq [symmetric])
  then have "n div 65536 * 256 + n div 256 mod 256 = n div 256" by simp
  then have "(n div 65536 * 256 + n div 256 mod 256) * 256 + n mod 256 = n" by simp
  then show ?thesis by (simp add: algebra_simps)
qed

lemma of_nat_size_24: "n < 2 ^ 24 \<Longrightarrow> unat (of_nat n :: u32) = n"
  by (intro unat_of_nat_u32) simp

lemma length_set_size_bytes: "length (fst (set_size_bytes w)) = 3"
  by (simp add: set_size_bytes_def)

lemma item_header_cases:
  assumes "n < 2 ^ 24"
  obtains (one) "n < 256" "item_header ty n = [ty + 1, of_nat n]"
    | (two) "256 \<le> n" "n < 65536" "item_header ty n = [ty + 2,
        ucast (drop_bit 8 (of_nat n :: u32) AND 0xFF), ucast ((of_nat n :: u32) AND 0xFF)]"
    | (three) "65536 \<le> n" "item_header ty n = [ty + 3,
        ucast (drop_bit 16 (of_nat n :: u32) AND 0xFF),
        ucast (drop_bit 8 (of_nat n :: u32) AND 0xFF), ucast ((of_nat n :: u32) AND 0xFF)]"
proof -
  have u: "unat (of_nat n :: u32) = n" using assms by (rule of_nat_size_24)
  consider "n < 256" | "256 \<le> n" "n < 65536" | "65536 \<le> n" by linarith
  then show ?thesis
  proof cases
    case 1
    then have "(of_nat n :: u32) \<le> 0xFF" using u by (simp add: word_le_nat_alt)
    moreover have "(ucast (of_nat n :: u32) :: byte) = of_nat n"
      using 1 u by (simp add: word_eq_iff_unsigned [where ?'a = nat] unat_ucast_byte unat_of_nat)
    ultimately show ?thesis using 1 one
      by (simp add: item_header_def store_data_def set_size_bytes_def)
  next
    case 2
    then have "\<not> (of_nat n :: u32) \<le> 0xFF" "(of_nat n :: u32) \<le> 0xFFFF"
      using u by (simp_all add: word_le_nat_alt)
    then show ?thesis using 2 two
      by (simp add: item_header_def store_data_def set_size_bytes_def)
  next
    case 3
    then have "\<not> (of_nat n :: u32) \<le> 0xFF" "\<not> (of_nat n :: u32) \<le> 0xFFFF"
      using u by (simp_all add: word_le_nat_alt)
    then show ?thesis using 3 three
      by (simp add: item_header_def store_data_def set_size_bytes_def)
  qed
qed

lemma length_item_header:
  "n < 2 ^ 24 \<Longrightarrow> 2 \<le> length (item_header ty n) \<and> length (item_header ty n) \<le> 4"
  by (rule item_header_cases [of n ty]) auto

lemma read_item_header:
  assumes "ty \<in> set (LIST # data_formats)" "n < 2 ^ 24"
  shows "read_header (item_header ty n @ p) len =
    Some (ty, of_nat n, p, len - of_nat (length (item_header ty n)))"
proof -
  have u: "unat (of_nat n :: u32) = n" using assms(2) by (rule of_nat_size_24)
  note f = format_header [OF assms(1)]
  show ?thesis
    using assms(2)
  proof (cases rule: item_header_cases [where ty = ty])
    case one
    have "(ucast (of_nat n :: byte) :: u32) = of_nat n"
      using one(1) u by (simp add: word_eq_iff_unsigned [where ?'a = nat] unat_of_nat)
    then show ?thesis unfolding one(2) using f [of 1] by (simp add: read_header_def read_size_def)
  next
    case two
    have "unat (ucast (drop_bit 8 (of_nat n :: u32) AND 0xFF) :: byte) * 256 +
        unat (ucast ((of_nat n :: u32) AND 0xFF) :: byte) = n"
      using two(2) by (simp only: size_byte(1), simp only: size_byte(2) u, simp)
    then have "push_bit 8 (ucast (ucast (drop_bit 8 (of_nat n :: u32) AND 0xFF) :: byte))
        OR ucast (ucast ((of_nat n :: u32) AND 0xFF) :: byte) = (of_nat n :: u32)"
      using u by (subst word_eq_iff_unsigned [where ?'a = nat]) (simp only: push_or_2)
    then show ?thesis unfolding two(3) using f [of 2] by (simp add: read_header_def read_size_def)
  next
    case three
    have "unat (ucast (drop_bit 16 (of_nat n :: u32) AND 0xFF) :: byte) * 65536 +
        unat (ucast (drop_bit 8 (of_nat n :: u32) AND 0xFF) :: byte) * 256 +
        unat (ucast ((of_nat n :: u32) AND 0xFF) :: byte) = n"
      using assms(2) three_bytes [of n] by (simp only: size_byte(1), simp only: size_byte(2) u, simp)
    then have "push_bit 16 (ucast (ucast (drop_bit 16 (of_nat n :: u32) AND 0xFF) :: byte))
        OR push_bit 8 (ucast (ucast (drop_bit 8 (of_nat n :: u32) AND 0xFF) :: byte))
        OR ucast (ucast ((of_nat n :: u32) AND 0xFF) :: byte) = (of_nat n :: u32)"
      using u by (subst word_eq_iff_unsigned [where ?'a = nat]) (simp only: push_or_3)
    then show ?thesis unfolding three(2) using f [of 3] by (simp add: read_header_def read_size_def)
  qed
qed

lemma item_header_pos: "n < 2 ^ 24 \<Longrightarrow> item_header ty n \<noteq> []"
  using length_item_header [of n ty] by auto

lemma enc_item_pos: "item_fits data_ok t \<Longrightarrow> enc_item t \<noteq> []"
  by (cases t) (auto simp: item_header_pos)

lemma LIST_not_data: "ty \<in> set data_formats \<Longrightarrow> ty \<noteq> LIST"
  by (auto simp: data_formats_def secs_formats)


section \<open>Properties\<close>

text \<open>The header \<open>STORE_DATA\<close> writes for an item of any format and of any length that has
  three bytes is read back by the reader: format, length, the position of the data and the
  number of bytes that are left; the header has two to four bytes.\<close>

theorem read_header_store_data:
  assumes "ty \<in> set (LIST # data_formats)" "length d < 2 ^ 24"
  shows "\<exists>hdr. store_data ty (of_nat (length d)) d buf = buf @ hdr @ d \<and>
    2 \<le> length hdr \<and> length hdr \<le> 4 \<and>
    read_header (hdr @ d @ rest) len = Some (ty, of_nat (length d), d @ rest, len - of_nat (length hdr))"
proof -
  let ?h = "item_header ty (length d)"
  have "store_data ty (of_nat (length d)) d buf = buf @ ?h @ d"
    by (simp add: item_header_def store_data_def split: prod.splits)
  then show ?thesis
    using read_item_header [OF assms, of "d @ rest" len] length_item_header [OF assms(2), of ty]
    by (intro exI [of _ ?h]) simp
qed

theorem read_header_store_data_witness:
  "\<exists>hdr. store_data ASCII 3 [0x41, 0x42, 0x43] [] = hdr @ [0x41, 0x42, 0x43] \<and>
    read_header (hdr @ [0x41, 0x42, 0x43]) 5 =
      Some (ASCII, 3, [0x41, 0x42, 0x43], 5 - of_nat (length hdr))"
  using read_header_store_data [of ASCII "[0x41, 0x42, 0x43]" "[]" "[]" 5] by (auto simp: data_formats_def)

end
