(* ===== verification/Secs_Walk.thy ===== *)
theory Secs_Walk
  imports Secs_Item
begin

section \<open>The loop of the decoders\<close>

text \<open>
  \<open>secs_decode\<close>, \<open>secs_decode_no_arrays\<close> and \<open>make_log\<close> walk the body of a message with the
  same loop: the arrays \<open>e\<close> and \<open>ie\<close> hold, for every level of nesting, how many elements
  of the open list are still to come and how many were met. They differ in what they do for
  an item, which is the argument \<open>h\<close> here. The locale \<open>walker\<close> states what the loop needs of
  it and proves, once, that the walk with its two arrays is the recursion over the tree of
  items.
\<close>

record walk =
  wk_l :: nat
  wk_e :: "nat \<Rightarrow> u32"
  wk_ie :: "nat \<Rightarrow> u32"
  wk_p :: "byte list"
  wk_len :: u32

text \<open>\<open>h_item\<close> computes what the output of an item needs from the counters \<open>ie[0..l]\<close> (the
  name and the padding), \<open>h_list\<close> and \<open>h_close\<close> write the two ends of a list, \<open>h_data\<close>
  handles the data that starts at the pointer and returns how many bytes it used; its inner
  \<open>None\<close> is the unknown format.\<close>

record ('c, 'o) handlers =
  h_item :: "u32 list \<Rightarrow> 'c option"
  h_list :: "'c \<Rightarrow> u32 \<Rightarrow> 'o \<Rightarrow> 'o option"
  h_data :: "'c \<Rightarrow> byte \<Rightarrow> u32 \<Rightarrow> byte list \<Rightarrow> 'o \<Rightarrow> ('o \<times> nat) option option"
  h_close :: "nat \<Rightarrow> 'o \<Rightarrow> 'o option"

definition walk_init :: "byte list \<Rightarrow> walk" where
  "walk_init body = \<lparr>wk_l = 0, wk_e = (\<lambda>i. 0), wk_ie = (\<lambda>i. 0), wk_p = body,
     wk_len = of_nat (length body)\<rparr>"

text \<open>The arrays have 100 entries.\<close>

definition walk_enter :: "walk \<Rightarrow> u32 \<Rightarrow> walk option" where
  "walk_enter w sz = do {
     require (wk_l w + 1 < 100);
     let l = wk_l w + 1;
     Some (w\<lparr>wk_l := (if sz \<noteq> 0 then l else l - 1),
             wk_e := (wk_e w)(wk_l w := wk_e w (wk_l w) - 1, l := sz),
             wk_ie := (wk_ie w)(l := 0)\<rparr>)
   }"

definition walk_data :: "('c, 'o) handlers \<Rightarrow> 'c \<Rightarrow> byte \<Rightarrow> u32 \<Rightarrow> walk \<Rightarrow> 'o \<Rightarrow> ('o + walk \<times> 'o) option" where
  "walk_data h c ty sz w out = do {
     let w1 = w\<lparr>wk_e := (wk_e w)(wk_l w := wk_e w (wk_l w) - 1)\<rparr>;
     r \<leftarrow> h_data h c ty sz (wk_p w1) out;
     case r of
       None \<Rightarrow> Some (Inl out)
     | Some (out1, k) \<Rightarrow> do {
         require (k \<le> length (wk_p w1));
         Some (Inr (w1\<lparr>wk_p := drop k (wk_p w1), wk_len := wk_len w1 - of_nat k\<rparr>, out1))
       }
   }"

text \<open>\<^verbatim>\<open>while (e[l] == 0) { l--; ... }\<close>\<close>

primrec close_loop :: "('c, 'o) handlers \<Rightarrow> (nat \<Rightarrow> u32) \<Rightarrow> nat \<Rightarrow> 'o \<Rightarrow> (nat \<times> 'o) option" where
  "close_loop h e 0 out = (if e 0 = 0 then None else Some (0, out))"
| "close_loop h e (Suc l) out =
     (if e (Suc l) = 0 then do { out1 \<leftarrow> h_close h l out; close_loop h e l out1 }
      else Some (Suc l, out))"

definition walk_close :: "('c, 'o) handlers \<Rightarrow> walk \<Rightarrow> 'o \<Rightarrow> (walk \<times> 'o) option" where
  "walk_close h w out = do {
     (l, out1) \<leftarrow> close_loop h (wk_e w) (wk_l w) out;
     Some (w\<lparr>wk_l := l\<rparr>, out1)
   }"

text \<open>One round of \<^verbatim>\<open>while (len)\<close>; \<open>Inl\<close> is the \<open>break\<close> of an unknown format.\<close>

definition walk_step :: "('c, 'o) handlers \<Rightarrow> walk \<Rightarrow> 'o \<Rightarrow> ('o + walk \<times> 'o) option" where
  "walk_step h w out = do {
     (ty, sz, p, len) \<leftarrow> read_header (wk_p w) (wk_len w);
     let w1 = w\<lparr>wk_p := p, wk_len := len, wk_ie := (wk_ie w)(wk_l w := wk_ie w (wk_l w) + 1)\<rparr>;
     c \<leftarrow> h_item h (map (wk_ie w1) [0..<wk_l w1 + 1]);
     r \<leftarrow> (if ty = LIST then do {
             out1 \<leftarrow> h_list h c sz out;
             w2 \<leftarrow> walk_enter w1 sz;
             Some (Inr (w2, out1))
           } else walk_data h c ty sz w1 out);
     case r of
       Inl out2 \<Rightarrow> Some (Inl out2)
     | Inr (w2, out2) \<Rightarrow> map_option Inr (walk_close h w2 out2)
   }"

lemma walk_data_shorter:
  "walk_data h c ty sz w out = Some (Inr (w1, out1)) \<Longrightarrow> length (wk_p w1) \<le> length (wk_p w)"
  by (auto simp: walk_data_def Let_def split: option.split_asm prod.split_asm)

lemma walk_enter_p: "walk_enter w sz = Some w1 \<Longrightarrow> wk_p w1 = wk_p w"
  by (auto simp: walk_enter_def Let_def)

lemma walk_close_p: "walk_close h w out = Some (w1, out1) \<Longrightarrow> wk_p w1 = wk_p w"
  by (auto simp: walk_close_def)

lemma case_step_Inr:
  "(case r of Inl a \<Rightarrow> Some (Inl a) | Inr (w, z) \<Rightarrow> map_option Inr (g w z)) = Some (Inr x) \<longleftrightarrow>
   (\<exists>w z. r = Inr (w, z) \<and> g w z = Some x)"
  by (auto split: sum.split)

lemma walk_step_shorter:
  "walk_step h w out = Some (Inr (w1, out1)) \<Longrightarrow> length (wk_p w1) < length (wk_p w)"
  unfolding walk_step_def Let_def
  by (auto simp: case_step_Inr split: if_split_asm
      dest!: read_header_shorter walk_close_p walk_enter_p walk_data_shorter)

function walk_loop :: "('c, 'o) handlers \<Rightarrow> walk \<Rightarrow> 'o \<Rightarrow> (u32 \<times> 'o) option" where
  "walk_loop h w out =
     (if wk_len w = 0 then Some (0, out)
      else case walk_step h w out of
             None \<Rightarrow> None
           | Some (Inl out1) \<Rightarrow> Some (1, out1)
           | Some (Inr (w1, out1)) \<Rightarrow> walk_loop h w1 out1)"
  by pat_completeness auto
termination
  by (relation "measure (\<lambda>(h, w, out). length (wk_p w))") (auto dest: walk_step_shorter)

declare walk_loop.simps [simp del]

definition walk_run :: "('c, 'o) handlers \<Rightarrow> byte list \<Rightarrow> 'o \<Rightarrow> (u32 \<times> 'o) option" where
  "walk_run h body out = walk_loop h (walk_init body) out"

subsection \<open>The recursion over the tree\<close>

text \<open>\<open>pre\<close> holds the positions of the enclosing items, \<open>i\<close> the position of this one; \<open>f\<close>
  is what the handler does for a whole piece of data.\<close>

type_synonym ('c, 'o) data_fun = "'c \<Rightarrow> byte \<Rightarrow> byte list \<Rightarrow> 'o \<Rightarrow> 'o option"

definition whole_data :: "('c, 'o) handlers \<Rightarrow> ('c, 'o) data_fun" where
  "whole_data h c ty d out =
     (case h_data h c ty (of_nat (length d)) d out of
        Some (Some (out1, k)) \<Rightarrow> Some out1
      | _ \<Rightarrow> None)"

fun tree_item :: "('c, 'o) handlers \<Rightarrow> ('c, 'o) data_fun \<Rightarrow> u32 list \<Rightarrow> u32 \<Rightarrow> item \<Rightarrow> 'o \<Rightarrow> 'o option"
  and tree_items ::
    "('c, 'o) handlers \<Rightarrow> ('c, 'o) data_fun \<Rightarrow> u32 list \<Rightarrow> u32 \<Rightarrow> item list \<Rightarrow> 'o \<Rightarrow> 'o option" where
  "tree_item h f pre i (SData ty d) out = do { c \<leftarrow> h_item h (pre @ [i]); f c ty d out }"
| "tree_item h f pre i (SList its) out = do {
     c \<leftarrow> h_item h (pre @ [i]);
     out1 \<leftarrow> h_list h c (of_nat (length its)) out;
     out2 \<leftarrow> tree_items h f (pre @ [i]) 1 its out1;
     if its = [] then Some out2 else h_close h (length pre) out2
   }"
| "tree_items h f pre i [] out = Some out"
| "tree_items h f pre i (t # ts) out = do {
     out1 \<leftarrow> tree_item h f pre i t out;
     tree_items h f pre (i + 1) ts out1
   }"

text \<open>The bytes of one element; a well-formed item holds whole elements.\<close>

definition width :: "byte \<Rightarrow> nat" where
  "width ty =
     (if ty \<in> {UNSIGNED_2, SIGNED_2} then 2
      else if ty \<in> {UNSIGNED_4, SIGNED_4, FLOAT_4} then 4
      else if ty \<in> {UNSIGNED_8, SIGNED_8, FLOAT_8} then 8
      else 1)"

definition whole :: "byte \<Rightarrow> byte list \<Rightarrow> bool" where
  "whole ty d \<longleftrightarrow> length d mod width ty = 0"

subsection \<open>The walk is the recursion\<close>

text \<open>\<open>walk_after\<close> is the loop from the end of an item on: the lists that are complete are
  closed and the walk goes on.\<close>

definition walk_after :: "('c, 'o) handlers \<Rightarrow> walk \<Rightarrow> 'o \<Rightarrow> (u32 \<times> 'o) option" where
  "walk_after h w out = do { (w1, out1) \<leftarrow> walk_close h w out; walk_loop h w1 out1 }"

text \<open>\<open>walk_agree l w w1\<close>: after an item at level \<open>l\<close> the counters below that level are
  unchanged and those of the level have moved by one.\<close>

definition walk_agree :: "nat \<Rightarrow> walk \<Rightarrow> walk \<Rightarrow> bool" where
  "walk_agree l w w1 \<longleftrightarrow> wk_l w1 = l \<and>
     (\<forall>j < l. wk_e w1 j = wk_e w j \<and> wk_ie w1 j = wk_ie w j) \<and>
     wk_e w1 l = wk_e w l - 1 \<and> wk_ie w1 l = wk_ie w l + 1"

definition walk_at :: "walk \<Rightarrow> byte list \<Rightarrow> bool" where
  "walk_at w p \<longleftrightarrow> wk_p w = p \<and> wk_len w = of_nat (length p)"

lemma walk_close_open: "wk_e w (wk_l w) \<noteq> 0 \<Longrightarrow> walk_after h w out = walk_loop h w out"
  by (cases w; cases "wk_l w") (simp_all add: walk_after_def walk_close_def)

lemma walk_close_full:
  "wk_l w = Suc l \<Longrightarrow> wk_e w (Suc l) = 0 \<Longrightarrow>
   walk_after h w out = (h_close h l out \<bind> walk_after h (w\<lparr>wk_l := l\<rparr>))"
  by (cases "h_close h l out") (simp_all add: walk_after_def walk_close_def)

lemma walk_loop_step:
  "wk_len w \<noteq> 0 \<Longrightarrow> walk_loop h w out =
     (case walk_step h w out of
        None \<Rightarrow> None
      | Some (Inl out1) \<Rightarrow> Some (1, out1)
      | Some (Inr (w1, out1)) \<Rightarrow> walk_loop h w1 out1)"
  by (simp add: walk_loop.simps)


lemma walk_round:
  assumes "wk_len w \<noteq> 0" "read_header (wk_p w) (wk_len w) = Some (ty, sz, q, len)"
  shows "walk_loop h w out =
    (h_item h (map (wk_ie w) [0..<wk_l w] @ [wk_ie w (wk_l w) + 1]) \<bind> (\<lambda>c.
     let w1 = w\<lparr>wk_p := q, wk_len := len, wk_ie := (wk_ie w)(wk_l w := wk_ie w (wk_l w) + 1)\<rparr>
     in if ty = LIST
        then h_list h c sz out \<bind> (\<lambda>out1. walk_enter w1 sz \<bind> (\<lambda>w2. walk_after h w2 out1))
        else (case walk_data h c ty sz w1 out of
                None \<Rightarrow> None
              | Some (Inl out1) \<Rightarrow> Some (1, out1)
              | Some (Inr (w2, out1)) \<Rightarrow> walk_after h w2 out1)))"
  unfolding walk_loop_step [OF assms(1)] walk_step_def assms(2)
  by (cases "h_item h (map (wk_ie w) [0..<wk_l w] @ [wk_ie w (wk_l w) + 1])")
    (auto simp: Let_def walk_after_def split: bind_split option.split sum.split)

text \<open>\<open>runs h f w w1 t\<close>: from \<open>w\<close> on, the loop is the recursion on \<open>t\<close> and then the
  loop from \<open>w1\<close> on; \<open>runs_list\<close> is the same of a sequence of items.\<close>

definition runs :: "('c, 'o) handlers \<Rightarrow> ('c, 'o) data_fun \<Rightarrow> walk \<Rightarrow> walk \<Rightarrow> item \<Rightarrow> bool" where
  "runs h f w w1 t \<longleftrightarrow> walk_agree (wk_l w) w w1 \<and>
     (\<forall>out. walk_loop h w out =
        (tree_item h f (map (wk_ie w) [0..<wk_l w]) (wk_ie w (wk_l w) + 1) t out \<bind> walk_after h w1))"

definition runs_list ::
    "('c, 'o) handlers \<Rightarrow> ('c, 'o) data_fun \<Rightarrow> walk \<Rightarrow> walk \<Rightarrow> item list \<Rightarrow> bool" where
  "runs_list h f w w1 its \<longleftrightarrow> wk_l w1 = wk_l w \<and>
     (\<forall>j < wk_l w. wk_e w1 j = wk_e w j \<and> wk_ie w1 j = wk_ie w j) \<and>
     wk_e w1 (wk_l w) = wk_e w (wk_l w) - of_nat (length its) \<and>
     (\<forall>out. walk_loop h w out =
        (tree_items h f (map (wk_ie w) [0..<wk_l w]) (wk_ie w (wk_l w) + 1) its out
          \<bind> walk_after h w1))"

lemma of_nat_u32_inj:
  "a < 4294967296 \<Longrightarrow> b < 4294967296 \<Longrightarrow> (of_nat a :: u32) = of_nat b \<longleftrightarrow> a = b"
  by (metis unat_of_nat_u32)

lemma walk_at_len:
  "walk_at w p \<Longrightarrow> p \<noteq> [] \<Longrightarrow> length p < 2 ^ 32 \<Longrightarrow> wk_len w \<noteq> 0"
  by (simp add: walk_at_def of_nat_u32_eq_0_iff)

lemma runs_list_single:
  "runs h f w w1 t \<Longrightarrow> runs_list h f w w1 [t]"
  by (auto simp: runs_def runs_list_def walk_agree_def)

lemma runs_list_cons:
  assumes "runs h f w w1 t" "runs_list h f w1 w2 ts" "wk_e w (wk_l w) - 1 \<noteq> 0"
  shows "runs_list h f w w2 (t # ts)"
proof -
  have l: "wk_l w1 = wk_l w" "\<forall>j < wk_l w. wk_e w1 j = wk_e w j \<and> wk_ie w1 j = wk_ie w j"
    "wk_e w1 (wk_l w) = wk_e w (wk_l w) - 1" "wk_ie w1 (wk_l w) = wk_ie w (wk_l w) + 1"
    using assms(1) by (simp_all add: runs_def walk_agree_def)
  have pre: "map (wk_ie w1) [0..<wk_l w] = map (wk_ie w) [0..<wk_l w]" using l(2) by simp
  have "walk_after h w1 out = walk_loop h w1 out" for out
    using assms(3) l by (intro walk_close_open) simp
  moreover have "walk_loop h w1 out =
      (tree_items h f (map (wk_ie w) [0..<wk_l w]) (wk_ie w (wk_l w) + 1 + 1) ts out
        \<bind> walk_after h w2)" for out
    using assms(2) l(1,4) pre by (simp add: runs_list_def)
  moreover have "walk_loop h w out =
      (tree_item h f (map (wk_ie w) [0..<wk_l w]) (wk_ie w (wk_l w) + 1) t out
        \<bind> walk_after h w1)" for out
    using assms(1) by (simp add: runs_def)
  ultimately have "walk_loop h w out =
      (tree_items h f (map (wk_ie w) [0..<wk_l w]) (wk_ie w (wk_l w) + 1) (t # ts) out
        \<bind> walk_after h w2)" for out
    by (cases "tree_item h f (map (wk_ie w) [0..<wk_l w]) (wk_ie w (wk_l w) + 1) t out") simp_all
  then show ?thesis
    using assms(2) l by (simp add: runs_list_def)
qed

lemma runs_forest:
  assumes "\<And>t w p. t \<in> set its \<Longrightarrow> walk_at w (enc_item t @ p) \<Longrightarrow> wk_l w = l \<Longrightarrow>
      length (enc_item t @ p) < 2 ^ 32 \<Longrightarrow> \<exists>w1. runs h f w w1 t \<and> walk_at w1 p"
    and "its \<noteq> []" "walk_at w (concat (map enc_item its) @ rest)" "wk_l w = l"
    and "length (concat (map enc_item its) @ rest) < 2 ^ 32"
    and "\<And>k. 0 < k \<Longrightarrow> k < length its \<Longrightarrow> wk_e w l \<noteq> of_nat k"
  shows "\<exists>w1. runs_list h f w w1 its \<and> walk_at w1 rest"
  using assms
proof (induction its arbitrary: w)
  case (Cons t ts)
  let ?p = "concat (map enc_item ts) @ rest"
  obtain w1 where w1: "runs h f w w1 t" "walk_at w1 ?p"
    using Cons.prems(1) [of t w ?p] Cons.prems(3-5) by auto
  show ?case
  proof (cases "ts = []")
    case True
    then show ?thesis using w1(2) runs_list_single [OF w1(1)] by auto
  next
    case False
    have l1: "wk_l w1 = l" "wk_e w1 l = wk_e w l - 1"
      using w1(1) Cons.prems(4) by (auto simp: runs_def walk_agree_def)
    have ne: "wk_e w1 l \<noteq> of_nat k" if "0 < k" "k < length ts" for k
      using Cons.prems(6) [of "Suc k"] that l1(2) by (auto simp: algebra_simps)
    obtain w2 where w2: "runs_list h f w1 w2 ts" "walk_at w2 rest"
      using Cons.IH [of w1] Cons.prems(1,5) False w1(2) l1(1) ne by auto
    have "wk_e w (wk_l w) - 1 \<noteq> 0"
      using Cons.prems(6) [of 1] Cons.prems(4) False by (cases ts) auto
    then show ?thesis using runs_list_cons [OF w1(1) w2(1)] w2(2) by blast
  qed
qed simp

subsection \<open>The contract of a decoder\<close>

locale walker =
  fixes h :: "('c, 'o) handlers"
    and f :: "('c, 'o) data_fun"
    and data_ok :: "byte \<Rightarrow> byte list \<Rightarrow> bool"
  assumes data_law: "ty \<in> set data_formats \<Longrightarrow> data_ok ty d \<Longrightarrow> length d < 2 ^ 24 \<Longrightarrow>
    h_data h c ty (of_nat (length d)) (d @ rest) out =
      map_option (\<lambda>out1. Some (out1, length d)) (f c ty d out)"
begin

lemma runs_data:
  assumes "item_fits data_ok (SData ty d)" "walk_at w (enc_item (SData ty d) @ p)"
    "length (enc_item (SData ty d) @ p) < 2 ^ 32"
  shows "\<exists>w1. runs h f w w1 (SData ty d) \<and> walk_at w1 p"
proof -
  have ok: "ty \<in> set data_formats" "length d < 2 ^ 24" "data_ok ty d" using assms(1) by auto
  define hdr where "hdr = item_header ty (length d)"
  have wp: "wk_p w = hdr @ d @ p" "wk_len w = of_nat (length (hdr @ d @ p))"
    using assms(2) by (simp_all add: walk_at_def hdr_def)
  have rh: "read_header (wk_p w) (wk_len w) =
      Some (ty, of_nat (length d), d @ p, of_nat (length (d @ p)))"
    unfolding wp hdr_def using ok by (subst read_item_header) simp_all
  define w1 where "w1 = w\<lparr>wk_ie := (wk_ie w)(wk_l w := wk_ie w (wk_l w) + 1),
    wk_e := (wk_e w)(wk_l w := wk_e w (wk_l w) - 1), wk_p := p, wk_len := of_nat (length p)\<rparr>"
  have at: "walk_at w1 p" by (simp add: w1_def walk_at_def)
  have ag: "walk_agree (wk_l w) w w1" by (simp add: w1_def walk_agree_def)
  have "wk_len w \<noteq> 0"
    using walk_at_len [OF assms(2) _ assms(3)] item_header_pos [OF ok(2)] by simp
  then have "walk_loop h w out =
      (tree_item h f (map (wk_ie w) [0..<wk_l w]) (wk_ie w (wk_l w) + 1) (SData ty d) out
        \<bind> walk_after h w1)" for out
    unfolding walk_round [OF \<open>wk_len w \<noteq> 0\<close> rh]
    using LIST_not_data [OF ok(1)] data_law [OF ok(1,3,2)]
    by (auto simp: Let_def walk_data_def w1_def split: option.split bind_split)
  then show ?thesis using at ag by (auto simp: runs_def)
qed

lemma runs_empty_list:
  assumes "walk_at w (enc_item (SList []) @ p)" "length (enc_item (SList []) @ p) < 2 ^ 32"
    "wk_l w + 1 < 100"
  shows "\<exists>w1. runs h f w w1 (SList []) \<and> walk_at w1 p"
proof -
  define hdr where "hdr = item_header LIST 0"
  have wp: "wk_p w = hdr @ p" "wk_len w = of_nat (length (hdr @ p))"
    using assms(1) by (simp_all add: walk_at_def hdr_def)
  have rh: "read_header (wk_p w) (wk_len w) = Some (LIST, 0, p, of_nat (length p))"
    unfolding wp hdr_def by (subst read_item_header) simp_all
  define w1 where "w1 = w\<lparr>wk_p := p, wk_len := of_nat (length p),
    wk_e := (wk_e w)(wk_l w := wk_e w (wk_l w) - 1, wk_l w + 1 := 0),
    wk_ie := (wk_ie w)(wk_l w := wk_ie w (wk_l w) + 1, wk_l w + 1 := 0)\<rparr>"
  have at: "walk_at w1 p" by (simp add: w1_def walk_at_def)
  have ag: "walk_agree (wk_l w) w w1" by (simp add: w1_def walk_agree_def)
  have "wk_len w \<noteq> 0"
    using walk_at_len [OF assms(1) _ assms(2)] item_header_pos [of 0 LIST] by simp
  then have "walk_loop h w out =
      (tree_item h f (map (wk_ie w) [0..<wk_l w]) (wk_ie w (wk_l w) + 1) (SList []) out
        \<bind> walk_after h w1)" for out
    unfolding walk_round [OF \<open>wk_len w \<noteq> 0\<close> rh]
    using assms(3) by (auto simp: Let_def walk_enter_def w1_def split: bind_split)
  then show ?thesis using at ag by (auto simp: runs_def)
qed

lemma runs_item:
  "item_fits data_ok t \<Longrightarrow> walk_at w (enc_item t @ p) \<Longrightarrow> length (enc_item t @ p) < 2 ^ 32 \<Longrightarrow>
   wk_l w + depth t < 100 \<Longrightarrow> \<exists>w1. runs h f w w1 t \<and> walk_at w1 p"
proof (induction t arbitrary: w p)
  case (SData ty d)
  then show ?case using runs_data by blast
next
  case (SList its)
  show ?case
  proof (cases "its = []")
    case True
    then show ?thesis using SList.prems runs_empty_list by auto
  next
    case False
    define hdr where "hdr = item_header LIST (length its)"
    let ?q = "concat (map enc_item its) @ p"
    let ?n = "of_nat (length its) :: u32"
    have n: "length its < 2 ^ 24" using SList.prems(1) by simp
    have wp: "wk_p w = hdr @ ?q" "wk_len w = of_nat (length (hdr @ ?q))"
      using SList.prems(2) by (simp_all add: walk_at_def hdr_def)
    have rh: "read_header (wk_p w) (wk_len w) = Some (LIST, ?n, ?q, of_nat (length ?q))"
      unfolding wp hdr_def using n by (subst read_item_header) simp_all
    have n0: "?n \<noteq> 0" using False n by (simp add: of_nat_u32_eq_0_iff)
    define w2 where "w2 = w\<lparr>wk_p := ?q, wk_len := of_nat (length ?q), wk_l := wk_l w + 1,
      wk_ie := (wk_ie w)(wk_l w := wk_ie w (wk_l w) + 1, wk_l w + 1 := 0),
      wk_e := (wk_e w)(wk_l w := wk_e w (wk_l w) - 1, wk_l w + 1 := ?n)\<rparr>"
    have w2: "walk_at w2 ?q" "wk_l w2 = wk_l w + 1" "wk_e w2 (wk_l w + 1) = ?n"
      "wk_e w2 (wk_l w) = wk_e w (wk_l w) - 1" "wk_ie w2 (wk_l w) = wk_ie w (wk_l w) + 1"
      "wk_ie w2 (wk_l w + 1) = 0"
      "\<forall>j < wk_l w. wk_e w2 j = wk_e w j \<and> wk_ie w2 j = wk_ie w j"
      by (simp_all add: w2_def walk_at_def)
    have "\<exists>w3. runs_list h f w2 w3 its \<and> walk_at w3 p"
    proof (rule runs_forest [OF _ False w2(1,2)])
      fix t u q
      assume t: "t \<in> set its" "walk_at u (enc_item t @ q)" "wk_l u = wk_l w + 1"
        "length (enc_item t @ q) < 2 ^ 32"
      then show "\<exists>w1. runs h f u w1 t \<and> walk_at w1 q"
        using SList.IH [OF t(1) _ t(2,4)] SList.prems(1,4) depth_mem [OF t(1)]
        by (auto simp: list_all_iff)
    next
      show "length ?q < 2 ^ 32" using SList.prems(3) by simp
    next
      fix k assume "0 < k" "k < length its"
      then show "wk_e w2 (wk_l w + 1) \<noteq> of_nat k"
        using n w2(3) by (simp add: of_nat_u32_inj)
    qed
    then obtain w3 where w3: "runs_list h f w2 w3 its" "walk_at w3 p" by blast
    define w4 where "w4 = w3\<lparr>wk_l := wk_l w\<rparr>"
    have ag: "walk_agree (wk_l w) w w4" "wk_l w3 = Suc (wk_l w)" "wk_e w3 (Suc (wk_l w)) = 0"
      using w3(1) w2 by (auto simp: w4_def walk_agree_def runs_list_def)
    have at: "walk_at w4 p" using w3(2) by (simp add: w4_def walk_at_def)
    have aft: "walk_after h w3 out = (h_close h (wk_l w) out \<bind> walk_after h w4)" for out
      unfolding w4_def using ag(2,3) by (rule walk_close_full)
    let ?pre = "map (wk_ie w) [0..<wk_l w] @ [wk_ie w (wk_l w) + 1]"
    have pre: "map (wk_ie w2) [0..<wk_l w2] = ?pre" using w2(2,5,7) by simp
    have loop2: "walk_loop h w2 out = (tree_items h f ?pre 1 its out \<bind> walk_after h w3)" for out
    proof -
      have "wk_ie w2 (wk_l w2) + 1 = 1" using w2(2,6) by simp
      then show ?thesis using w3(1) pre by (simp only: runs_list_def)
    qed
    have "wk_len w \<noteq> 0"
      using walk_at_len [OF SList.prems(2) _ SList.prems(3)] item_header_pos [OF n] by simp
    moreover have "walk_enter (w\<lparr>wk_p := ?q, wk_len := of_nat (length ?q),
        wk_ie := (wk_ie w)(wk_l w := wk_ie w (wk_l w) + 1)\<rparr>) ?n = Some w2"
      using SList.prems(4) n0 by (simp add: walk_enter_def w2_def)
    moreover have "walk_after h w2 out = walk_loop h w2 out" for out
      using n0 w2(2,3) by (intro walk_close_open) simp
    ultimately have "walk_loop h w out =
        (tree_item h f (map (wk_ie w) [0..<wk_l w]) (wk_ie w (wk_l w) + 1) (SList its) out
          \<bind> walk_after h w4)" for out
      using False by (auto simp: walk_round [OF _ rh] loop2 aft split: bind_split)
    then show ?thesis using at ag(1) by (auto simp: runs_def)
  qed
qed

text \<open>A whole body: the walk consumes it, returns 0 and has written what the recursion
  writes.\<close>

lemma walk_run_items:
  assumes "list_all (item_fits data_ok) its" "\<forall>t \<in> set its. depth t < 100"
    "length (concat (map enc_item its)) < 2 ^ 32"
  shows "walk_run h (concat (map enc_item its)) out =
    map_option (Pair 0) (tree_items h f [] 1 its out)"
proof (cases "its = []")
  case True
  then show ?thesis by (simp add: walk_run_def walk_init_def walk_loop.simps)
next
  case False
  let ?body = "concat (map enc_item its)"
  let ?w = "walk_init ?body"
  have ne: "length its \<le> length ?body"
  proof -
    have "\<forall>t \<in> set its. 1 \<le> length (enc_item t)"
      using assms(1) enc_item_pos by (fastforce simp: list_all_iff Suc_le_eq)
    then show ?thesis by (induction its) auto
  qed
  have "\<exists>w1. runs_list h f ?w w1 its \<and> walk_at w1 []"
  proof (rule runs_forest [OF _ False])
    show "walk_at ?w (?body @ [])" "wk_l ?w = 0" by (simp_all add: walk_init_def walk_at_def)
    show "length (?body @ []) < 2 ^ 32" using assms(3) by simp
    show "wk_e ?w 0 \<noteq> of_nat k" if "0 < k" "k < length its" for k
    proof -
      have "(of_nat k :: u32) \<noteq> 0" using that ne assms(3) by (subst of_nat_u32_eq_0_iff) simp_all
      then show ?thesis by (simp add: walk_init_def)
    qed
    show "\<exists>w1. runs h f u w1 t \<and> walk_at w1 q"
      if "t \<in> set its" "walk_at u (enc_item t @ q)" "wk_l u = 0" "length (enc_item t @ q) < 2 ^ 32"
      for t u q
      using that assms(1,2) by (intro runs_item) (auto simp: list_all_iff)
  qed
  then obtain w1 where w1: "runs_list h f ?w w1 its" "walk_at w1 []" by blast
  have e: "wk_e w1 0 \<noteq> 0" "wk_l w1 = 0"
    using w1(1) False ne assms(3)
    by (auto simp: runs_list_def walk_init_def of_nat_u32_eq_0_iff)
  have "walk_after h w1 o1 = Some (0, o1)" for o1
    using e w1(2) walk_close_open [of w1 h o1] by (simp add: walk_loop.simps walk_at_def)
  then show ?thesis
    using w1(1)
    by (auto simp: runs_list_def walk_run_def walk_init_def map_conv_bind_option comp_def
        split: bind_split)
qed

end

end
