(* ===== verification/Secs_Decode.thy ===== *)
theory Secs_Decode
  imports Secs_Walk Float_Text Tmp_Variables
begin

section \<open>Decoding a message into variables and a log\<close>

text \<open>
  \<open>secs_decode\<close> (secs_decode_sml.c) and \<open>secs_decode_no_arrays\<close> write the SML text of a
  message to the log and set one temporary variable for every element, named after the
  position of the item: \<open>prefix.1.2\<close>, for an array \<open>prefix.1.2[1]\<close> and so on. \<open>make_log\<close>
  (secs_encode_sml.c) writes the log only. All three are the walk of \<open>Secs_Walk\<close> with the
  handlers defined here; a handler returns how many bytes it used.

  The names are built in arrays of 256 characters, the padding in arrays of 256 (the
  decoders) and 100 (\<open>make_log\<close>); what does not fit is undefined.
\<close>

subsection \<open>Elements as text\<close>

text \<open>The text for the log and the text for the variable.\<close>

definition fmt_unsigned :: "byte list \<Rightarrow> (string \<times> string) option" where
  "fmt_unsigned bs = do { r \<leftarrow> swap bs; let s = my_utoa (le_val r); Some (s, s) }"

definition fmt_signed :: "byte list \<Rightarrow> (string \<times> string) option" where
  "fmt_signed bs = do {
     r \<leftarrow> swap bs;
     s \<leftarrow> my_itoa (signed_of (length bs) (le_val r));
     Some (s, s)
   }"

definition fmt_float :: "byte list \<Rightarrow> (string \<times> string) option" where
  "fmt_float bs = do { r \<leftarrow> swap bs; let s = fmt_G_float (le_val r); Some (s, s) }"

definition fmt_double :: "byte list \<Rightarrow> (string \<times> string) option" where
  "fmt_double bs = do { r \<leftarrow> swap bs; let s = fmt_G_double (le_val r); Some (s, s) }"

text \<open>One byte elements are read without \<open>swap\<close>.\<close>

definition fmt_u1 :: "byte list \<Rightarrow> (string \<times> string) option" where
  "fmt_u1 bs = (let s = my_utoa (unat (hd bs)) in Some (s, s))"

definition fmt_i1 :: "byte list \<Rightarrow> (string \<times> string) option" where
  "fmt_i1 bs = do { s \<leftarrow> my_itoa (signed_of 1 (unat (hd bs))); Some (s, s) }"

definition fmt_boolean :: "byte list \<Rightarrow> (string \<times> string) option" where
  "fmt_boolean bs = Some (if hd bs = 0 then (''FALSE'', ''0'') else (''TRUE'', ''1''))"

definition fmt_binary :: "byte list \<Rightarrow> (string \<times> string) option" where
  "fmt_binary bs = do {
     s \<leftarrow> my_itoa (int (unat (hd bs)));
     Some (my_btoh_fmt1 (hd bs), s)
   }"

definition NL :: string where
  "NL = [CHR 0x0A]"

definition QUOTE :: string where
  "QUOTE = [CHR 0x22]"

subsection \<open>Names and padding\<close>

fun dotted :: "u32 list \<Rightarrow> string option" where
  "dotted [] = Some []"
| "dotted (i # is) = do {
     s \<leftarrow> my_itoa (int (unat i));
     r \<leftarrow> dotted is;
     Some (''.'' @ s @ r)
   }"

definition base_name :: "string \<Rightarrow> u32 list \<Rightarrow> string option" where
  "base_name prefix ies = do {
     s \<leftarrow> dotted ies;
     require (length (prefix @ s) < 256);
     Some (prefix @ s)
   }"

text \<open>\<open>n\<close> is \<open>l + 1\<close>. The name overwrites the blanks; a longer one would overwrite the NUL.\<close>

definition name_pad :: "string \<Rightarrow> nat \<Rightarrow> string option" where
  "name_pad base n = do {
     require (n * 3 + 30 < 256);
     require (length base \<le> n * 3 + 30);
     Some (base @ replicate (n * 3 + 30 - length base) (CHR '' ''))
   }"

definition blank_pad :: "nat \<Rightarrow> nat \<Rightarrow> string option" where
  "blank_pad room n = do {
     require (n * 3 + 30 < room);
     Some (replicate (n * 3 + 30) (CHR '' ''))
   }"

definition elem_name :: "string \<Rightarrow> bool \<Rightarrow> nat \<Rightarrow> string option" where
  "elem_name base is_array i =
     (if is_array then do {
        s \<leftarrow> my_itoa_fmt1 (int i + 1);
        require (length (base @ s) < 256);
        Some (base @ s)
      } else Some base)"

subsection \<open>secs_decode\<close>

text \<open>The state of the output: the log and the table of temporary variables. An item leaves
  \<open>array\<close>, \<open>array_size\<close> and the number of bytes it used.\<close>

type_synonym dec_out = "string \<times> tmp_table"
type_synonym dec_data = "bool \<times> nat \<times> nat \<times> dec_out"

definition put_log :: "dec_out \<Rightarrow> string \<Rightarrow> dec_out" where
  "put_log out s = (fst out @ s, snd out)"

definition add_var :: "dec_out \<Rightarrow> string \<Rightarrow> string \<Rightarrow> dec_out option" where
  "add_var out name val = do {
     t \<leftarrow> tmp_variable_add (snd out) name val (-1);
     Some (fst out, t)
   }"

fun dec_elems ::
    "(byte list \<Rightarrow> (string \<times> string) option) \<Rightarrow> nat \<Rightarrow> bool \<Rightarrow> string \<Rightarrow> nat \<Rightarrow> nat \<Rightarrow> byte list \<Rightarrow>
     dec_out \<Rightarrow> dec_out option" where
  "dec_elems fmt w is_array base i 0 p out = Some out"
| "dec_elems fmt w is_array base i (Suc n) p out = do {
     name \<leftarrow> elem_name base is_array i;
     require (w \<le> length p);
     (ltxt, vtxt) \<leftarrow> fmt (take w p);
     out1 \<leftarrow> add_var (put_log out ('' '' @ ltxt)) name vtxt;
     dec_elems fmt w is_array base (i + 1) n (drop w p) out1
   }"

text \<open>The branches for numbers: the tag, the variable of an empty item, the elements.\<close>

definition dec_numbers ::
    "string \<Rightarrow> (byte list \<Rightarrow> (string \<times> string) option) \<Rightarrow> nat \<Rightarrow> bool \<Rightarrow> bool \<Rightarrow> string \<Rightarrow> string \<Rightarrow>
     nat \<Rightarrow> byte list \<Rightarrow> dec_out \<Rightarrow> dec_data option" where
  "dec_numbers tag fmt w empty_var is_array pad base sz p out = do {
     let out1 = put_log out (pad @ tag);
     out2 \<leftarrow> (if empty_var then add_var out1 base [] else Some out1);
     out3 \<leftarrow> dec_elems fmt w is_array base 0 (sz div w) p out2;
     Some (is_array, sz div w, w * (sz div w), put_log out3 (''>'' @ NL))
   }"

definition dec_ascii :: "string \<Rightarrow> string \<Rightarrow> nat \<Rightarrow> byte list \<Rightarrow> dec_out \<Rightarrow> dec_data option" where
  "dec_ascii pad base sz p out = do {
     require (sz \<le> length p);
     let d = text_of (take sz p);
     let out1 = put_log out (pad @ ''<A '' @ QUOTE @ d @ QUOTE @ ''>'' @ NL);
     t \<leftarrow> tmp_variable_add (snd out1) base d (int sz);
     Some (False, 0, sz, (fst out1, t))
   }"

definition dec_boolean :: "string \<Rightarrow> string \<Rightarrow> nat \<Rightarrow> byte list \<Rightarrow> dec_out \<Rightarrow> dec_data option" where
  "dec_boolean pad base sz p out =
     dec_numbers ''<BOOLEAN'' fmt_boolean 1 (sz = 0) (sz > 1) pad base sz p out"

definition dec_binary :: "string \<Rightarrow> string \<Rightarrow> nat \<Rightarrow> byte list \<Rightarrow> dec_out \<Rightarrow> dec_data option" where
  "dec_binary pad base sz p out = do {
     let out1 = put_log out (pad @ ''<BINARY'');
     out2 \<leftarrow> (if sz = 0 then add_var out1 base [] else Some out1);
     out3 \<leftarrow> dec_elems fmt_binary 1 (sz > 1) base 0 sz p out2;
     out4 \<leftarrow> (if sz > 1 then do {
                require (length (base @ ''[]'') < 256);
                add_var out3 (base @ ''[]'') (concat (map my_btoh (take sz p)))
              } else Some out3);
     Some (sz > 1, sz, sz, put_log out4 (''>'' @ NL))
   }"

definition dec_u1 :: "string \<Rightarrow> string \<Rightarrow> nat \<Rightarrow> byte list \<Rightarrow> dec_out \<Rightarrow> dec_data option" where
  "dec_u1 pad base sz p out =
     dec_numbers ''<U1'' fmt_u1 1 (sz = 0) (sz \<noteq> 0) pad base sz p out"

definition dec_u2 :: "string \<Rightarrow> string \<Rightarrow> nat \<Rightarrow> byte list \<Rightarrow> dec_out \<Rightarrow> dec_data option" where
  "dec_u2 pad base sz p out =
     dec_numbers ''<U2'' fmt_unsigned 2 (sz = 0) (sz > 2) pad base sz p out"

definition dec_u4 :: "string \<Rightarrow> string \<Rightarrow> nat \<Rightarrow> byte list \<Rightarrow> dec_out \<Rightarrow> dec_data option" where
  "dec_u4 pad base sz p out =
     dec_numbers ''<U4'' fmt_unsigned 4 (sz = 0) (sz > 4) pad base sz p out"

definition dec_u8 :: "string \<Rightarrow> string \<Rightarrow> nat \<Rightarrow> byte list \<Rightarrow> dec_out \<Rightarrow> dec_data option" where
  "dec_u8 pad base sz p out =
     dec_numbers ''<U8'' fmt_unsigned 8 (sz = 0) (sz > 8) pad base sz p out"

definition dec_i1 :: "string \<Rightarrow> string \<Rightarrow> nat \<Rightarrow> byte list \<Rightarrow> dec_out \<Rightarrow> dec_data option" where
  "dec_i1 pad base sz p out =
     dec_numbers ''<I1'' fmt_i1 1 (sz = 0) (sz > 1) pad base sz p out"

definition dec_i2 :: "string \<Rightarrow> string \<Rightarrow> nat \<Rightarrow> byte list \<Rightarrow> dec_out \<Rightarrow> dec_data option" where
  "dec_i2 pad base sz p out =
     dec_numbers ''<I2'' fmt_signed 2 (sz = 0) (sz > 2) pad base sz p out"

definition dec_i4 :: "string \<Rightarrow> string \<Rightarrow> nat \<Rightarrow> byte list \<Rightarrow> dec_out \<Rightarrow> dec_data option" where
  "dec_i4 pad base sz p out =
     dec_numbers ''<I4'' fmt_signed 4 (sz = 0) (sz > 4) pad base sz p out"

definition dec_i8 :: "string \<Rightarrow> string \<Rightarrow> nat \<Rightarrow> byte list \<Rightarrow> dec_out \<Rightarrow> dec_data option" where
  "dec_i8 pad base sz p out =
     dec_numbers ''<I8'' fmt_signed 8 (sz = 0) (sz > 8) pad base sz p out"

text \<open>An empty item of floating point numbers sets no variable.\<close>

definition dec_f4 :: "string \<Rightarrow> string \<Rightarrow> nat \<Rightarrow> byte list \<Rightarrow> dec_out \<Rightarrow> dec_data option" where
  "dec_f4 pad base sz p out =
     dec_numbers ''<F4'' fmt_float 4 False (\<not> sz \<le> 4) pad base sz p out"

definition dec_f8 :: "string \<Rightarrow> string \<Rightarrow> nat \<Rightarrow> byte list \<Rightarrow> dec_out \<Rightarrow> dec_data option" where
  "dec_f8 pad base sz p out =
     dec_numbers ''<F8'' fmt_double 8 False (\<not> sz \<le> 8) pad base sz p out"

text \<open>The chain of formats; the outer \<open>None\<close> is the unknown one.\<close>

definition dec_format ::
    "byte \<Rightarrow> string \<Rightarrow> string \<Rightarrow> nat \<Rightarrow> byte list \<Rightarrow> dec_out \<Rightarrow> dec_data option option" where
  "dec_format ty pad base sz p out =
     (if ty = ASCII then Some (dec_ascii pad base sz p out)
      else if ty = BOOLEAN then Some (dec_boolean pad base sz p out)
      else if ty = BINARY then Some (dec_binary pad base sz p out)
      else if ty = UNSIGNED_1 then Some (dec_u1 pad base sz p out)
      else if ty = UNSIGNED_2 then Some (dec_u2 pad base sz p out)
      else if ty = UNSIGNED_4 then Some (dec_u4 pad base sz p out)
      else if ty = UNSIGNED_8 then Some (dec_u8 pad base sz p out)
      else if ty = SIGNED_1 then Some (dec_i1 pad base sz p out)
      else if ty = SIGNED_2 then Some (dec_i2 pad base sz p out)
      else if ty = SIGNED_4 then Some (dec_i4 pad base sz p out)
      else if ty = SIGNED_8 then Some (dec_i8 pad base sz p out)
      else if ty = FLOAT_4 then Some (dec_f4 pad base sz p out)
      else if ty = FLOAT_8 then Some (dec_f8 pad base sz p out)
      else None)"

definition dec_array :: "string \<Rightarrow> dec_data \<Rightarrow> (dec_out \<times> nat) option" where
  "dec_array base r = (case r of (is_array, n, k, out) \<Rightarrow>
     if is_array then do {
       out1 \<leftarrow> add_var out base ''ARRAY'';
       require (length (base @ ''[0]'') < 256);
       s \<leftarrow> my_itoa (int n);
       out2 \<leftarrow> add_var out1 (base @ ''[0]'') s;
       Some (out2, k)
     } else Some (out, k))"

definition dec_item :: "string \<Rightarrow> u32 list \<Rightarrow> (string \<times> string) option" where
  "dec_item prefix ies = do {
     base \<leftarrow> base_name prefix ies;
     pad \<leftarrow> name_pad base (length ies);
     Some (pad, base)
   }"

definition dec_list :: "string \<times> string \<Rightarrow> u32 \<Rightarrow> dec_out \<Rightarrow> dec_out option" where
  "dec_list c sz out = (case c of (pad, base) \<Rightarrow> do {
     s \<leftarrow> my_itoa (int (unat sz));
     out1 \<leftarrow> add_var (put_log out (pad @ ''<L '' @ s)) base s;
     Some (put_log out1 (if sz \<noteq> 0 then NL else ''>'' @ NL))
   })"

definition dec_data_item ::
    "string \<times> string \<Rightarrow> byte \<Rightarrow> u32 \<Rightarrow> byte list \<Rightarrow> dec_out \<Rightarrow> (dec_out \<times> nat) option option" where
  "dec_data_item c ty sz p out = (case c of (pad, base) \<Rightarrow>
     (case dec_format ty pad base (unat sz) p out of
        None \<Rightarrow> Some None
      | Some r \<Rightarrow> do { r1 \<leftarrow> r; r2 \<leftarrow> dec_array base r1; Some (Some r2) }))"

definition dec_close :: "nat \<Rightarrow> dec_out \<Rightarrow> dec_out option" where
  "dec_close l out = do { pad \<leftarrow> blank_pad 256 (l + 1); Some (put_log out (pad @ ''>'' @ NL)) }"

definition decode_handlers :: "string \<Rightarrow> (string \<times> string, dec_out) handlers" where
  "decode_handlers prefix = \<lparr>h_item = dec_item prefix, h_list = dec_list, h_data = dec_data_item,
     h_close = dec_close\<rparr>"

definition secs_decode :: "string \<Rightarrow> byte list \<Rightarrow> dec_out \<Rightarrow> (u32 \<times> dec_out) option" where
  "secs_decode prefix body out = walk_run (decode_handlers prefix) body out"


subsection \<open>The decoder is the recursion over the items\<close>

lemma dec_elems_append:
  "w * n \<le> length d \<Longrightarrow>
   dec_elems fmt w is_array base i n (d @ rest) out = dec_elems fmt w is_array base i n d out"
proof (induction fmt w is_array base i n d out rule: dec_elems.induct)
  case (2 fmt w is_array base i n p out)
  then show ?case
    by (cases "elem_name base is_array i"; cases "fmt (take w p)") (auto split: bind_split)
qed simp

lemma dec_numbers_append:
  "sz \<le> length d \<Longrightarrow>
   dec_numbers tag fmt w ev is_array pad base sz (d @ rest) out =
   dec_numbers tag fmt w ev is_array pad base sz d out"
proof -
  assume "sz \<le> length d"
  moreover have "w * (sz div w) \<le> sz" by simp
  ultimately have "w * (sz div w) \<le> length d" by linarith
  then show ?thesis unfolding dec_numbers_def Let_def by (simp only: dec_elems_append)
qed

lemmas dec_number_formats =
  dec_boolean_def dec_u1_def dec_u2_def dec_u4_def dec_u8_def dec_i1_def dec_i2_def dec_i4_def
  dec_i8_def dec_f4_def dec_f8_def

lemma dec_format_append:
  assumes "sz \<le> length d"
  shows "dec_format ty pad base sz (d @ rest) out = dec_format ty pad base sz d out"
proof -
  have "dec_ascii pad base sz (d @ rest) out = dec_ascii pad base sz d out"
    using assms by (simp add: dec_ascii_def)
  moreover have "dec_binary pad base sz (d @ rest) out = dec_binary pad base sz d out"
  proof -
    have "take sz (d @ rest) = take sz d" "1 * sz \<le> length d" using assms by simp_all
    then show ?thesis unfolding dec_binary_def by (simp only: dec_elems_append)
  qed
  ultimately show ?thesis
    unfolding dec_format_def dec_number_formats by (simp only: dec_numbers_append [OF assms])
qed

lemma dec_numbers_used:
  "dec_numbers tag fmt w ev is_array pad base sz p out = Some (a, n, k, out1) \<Longrightarrow> sz mod w = 0 \<Longrightarrow>
   k = sz"
  by (auto simp: dec_numbers_def Let_def)

lemma dec_format_known:
  assumes "ty \<in> set data_formats"
  shows "\<exists>r. dec_format ty pad base sz p out = Some r"
  using assms by (auto simp: dec_format_def data_formats_def)

lemma dec_format_used:
  assumes "dec_format ty pad base sz p out = Some (Some (a, n, k, out1))" "sz mod width ty = 0"
  shows "k = sz"
proof -
  consider "dec_ascii pad base sz p out = Some (a, n, k, out1)"
    | "dec_binary pad base sz p out = Some (a, n, k, out1)"
    | tag fmt ev ia where
        "dec_numbers tag fmt (width ty) ev ia pad base sz p out = Some (a, n, k, out1)"
    using assms(1) unfolding dec_format_def dec_number_formats
    by (auto simp: width_def secs_formats split: if_split_asm)
  then show ?thesis
    by cases (auto simp: dec_ascii_def dec_binary_def Let_def dest: dec_numbers_used [OF _ assms(2)])
qed

interpretation decoder: walker "decode_handlers prefix" "whole_data (decode_handlers prefix)" whole
  for prefix
proof unfold_locales
  fix ty d rest out and c :: "string \<times> string"
  assume a: "ty \<in> set data_formats" "whole ty d" "length (d :: byte list) < 2 ^ 24"
  obtain pad base where c: "c = (pad, base)" by force
  have u: "unat (of_nat (length d) :: u32) = length d" using a(3) by (rule of_nat_size_24)
  obtain r where r: "dec_format ty pad base (length d) d out = Some r"
    using dec_format_known [OF a(1)] by blast
  then have ra: "dec_format ty pad base (length d) (d @ rest) out = Some r"
    by (simp add: dec_format_append)
  have used: "k = length d" if "r = Some (b, n, k, out1)" for b n k out1
    using dec_format_used [of ty pad base "length d" d out b n k out1] r that a(2)
    by (simp add: whole_def)
  show "h_data (decode_handlers prefix) c ty (of_nat (length d)) (d @ rest) out =
      map_option (\<lambda>out1. Some (out1, length d)) (whole_data (decode_handlers prefix) c ty d out)"
  proof (cases r)
    case None
    then show ?thesis
      using r ra u c by (simp add: decode_handlers_def dec_data_item_def whole_data_def)
  next
    case (Some x)
    obtain b n k o1 where x: "x = (b, n, k, o1)" by (metis prod_cases4)
    have "k = length d" using used Some x by blast
    then show ?thesis
      using r ra u c Some x
      by (auto simp: decode_handlers_def dec_data_item_def whole_data_def dec_array_def
          split: bind_split)
  qed
qed


subsection \<open>A record of fields is decoded into its variables\<close>

text \<open>A message that is a list of texts and numbers, the shape of most SECS-II messages.\<close>

datatype field = FText string | FU4 nat | FI4 int

fun field_ok :: "field \<Rightarrow> bool" where
  "field_ok (FText s) = (length s < 2 ^ 24)"
| "field_ok (FU4 v) = (v < 2 ^ 32)"
| "field_ok (FI4 v) = (- (2 ^ 31) \<le> v \<and> v < 2 ^ 31)"

fun field_item :: "field \<Rightarrow> item" where
  "field_item (FText s) = SData ASCII (bytes_of s)"
| "field_item (FU4 v) = SData UNSIGNED_4 (rev (le_bytes 4 v))"
| "field_item (FI4 v) = SData SIGNED_4 (rev (le_bytes 4 (nat (v mod 2 ^ 32))))"

fun field_text :: "field \<Rightarrow> string" where
  "field_text (FText s) = s"
| "field_text (FU4 v) = my_utoa v"
| "field_text (FI4 v) = (if v < 0 then ''-'' @ my_utoa (nat (- v)) else my_utoa (nat v))"

lemma field_item_fits: "field_ok fd \<Longrightarrow> item_fits whole (field_item fd)"
  by (cases fd) (auto simp: data_formats_def whole_def width_def bytes_of_def secs_formats)

lemma depth_field_item [simp]: "depth (field_item fd) = 0"
  by (cases fd) auto

lemma signed_of_mod: "- (2 ^ 31) \<le> v \<Longrightarrow> v < 2 ^ 31 \<Longrightarrow> signed_of 4 (nat (v mod 2 ^ 32)) = v"
proof -
  assume v: "- (2 ^ 31) \<le> v" "v < 2 ^ 31"
  show ?thesis
  proof (cases "0 \<le> v")
    case True
    then show ?thesis using v by (simp add: signed_of_def nat_less_iff)
  next
    case False
    then have "v mod 2 ^ 32 = v + 2 ^ 32"
      using v by (intro mod_pos_pos_trivial [of "v + 2 ^ 32" "2 ^ 32", simplified mod_add_self2]) auto
    then show ?thesis using v False by (simp add: signed_of_def nat_less_iff)
  qed
qed

lemma fmt_unsigned_field: "v < 2 ^ 32 \<Longrightarrow> fmt_unsigned (rev (le_bytes 4 v)) = Some (my_utoa v, my_utoa v)"
  by (simp add: fmt_unsigned_def swap_rev le_val_le_bytes Let_def)

lemma fmt_signed_field:
  assumes "field_ok (FI4 v)"
  shows "fmt_signed (rev (le_bytes 4 (nat (v mod 2 ^ 32)))) =
    Some (field_text (FI4 v), field_text (FI4 v))"
proof -
  define r where "r = nat (v mod 2 ^ 32)"
  have "r < 256 ^ 4" by (simp add: r_def nat_less_iff)
  moreover have "signed_of 4 r = v"
    unfolding r_def by (rule signed_of_mod) (use assms in auto)
  moreover have "my_itoa v = Some (field_text (FI4 v))"
    using assms by (simp add: my_itoa_def my_utoa_def)
  ultimately show ?thesis
    unfolding r_def [symmetric]
    by (simp add: fmt_signed_def swap_rev le_val_le_bytes Let_def del: field_text.simps)
qed

definition tmp_roomy :: "tmp_table \<Rightarrow> nat \<Rightarrow> bool" where
  "tmp_roomy t n \<longleftrightarrow> tmp_grown t \<and> length (tt_vars t) + n + 2000 < 2 ^ 32"

lemma add_var_ok:
  assumes "tmp_roomy (snd out) (Suc n)" "no_nul val"
  shows "\<exists>t. add_var out name val = Some (fst out, t) \<and> tmp_roomy t n \<and>
    tt_vars t = tt_vars (snd out) @ [added_var name val]"
  using tmp_add_string_ok [of "snd out" val name] assms by (auto simp: add_var_def tmp_roomy_def)

lemma dec_numbers_single:
  assumes "fmt d = Some (s, s)" "0 < length d" "no_nul s" "tmp_roomy (snd out) (Suc n)"
  shows "\<exists>log t. dec_numbers tag fmt (length d) False False pad base (length d) d out =
      Some (False, 1, length d, (log, t)) \<and> tmp_roomy t n \<and>
    tt_vars t = tt_vars (snd out) @ [added_var base s]"
proof -
  obtain t where "add_var (put_log (put_log out (pad @ tag)) ('' '' @ s)) base s =
      Some (fst (put_log (put_log out (pad @ tag)) ('' '' @ s)), t)" "tmp_roomy t n"
    "tt_vars t = tt_vars (snd out) @ [added_var base s]"
    using add_var_ok [of "put_log (put_log out (pad @ tag)) ('' '' @ s)" n s base] assms(3,4)
    by (auto simp: put_log_def)
  then show ?thesis
    using assms(1,2) by (simp add: dec_numbers_def elem_name_def put_log_def Let_def)
qed

lemma dec_field_data:
  assumes "field_ok fd" "field_item fd = SData ty d" "tmp_roomy (snd out) (Suc n)"
  shows "\<exists>log t. whole_data (decode_handlers prefix) (pad, base) ty d out = Some (log, t) \<and>
    tmp_roomy t n \<and> tt_vars t = tt_vars (snd out) @ [added_var base (field_text fd)]"
proof (cases fd)
  case (FText s)
  have d: "ty = ASCII" "d = bytes_of s" "length d = length s" using assms(2) FText
    by (auto simp: bytes_of_def)
  have u: "unat (of_nat (length s) :: u32) = length s"
    using assms(1) FText by (intro unat_of_nat_u32) simp
  obtain t where "tmp_variable_add (snd out) base s (int (length s)) = Some t" "tmp_grown t"
    "tt_vars t = tt_vars (snd out) @ [added_var base s]"
    using tmp_add_ok [of "snd out" "int (length s)" s s base] assms(3) by (auto simp: tmp_roomy_def)
  then show ?thesis
    using d FText assms(3)
    by (simp add: whole_data_def decode_handlers_def dec_data_item_def dec_format_def dec_ascii_def
        dec_array_def u put_log_def tmp_roomy_def Let_def)
next
  case (FU4 v)
  have d: "ty = UNSIGNED_4" "d = rev (le_bytes 4 v)" "length d = 4" using assms(2) FU4 by auto
  have f: "fmt_unsigned d = Some (my_utoa v, my_utoa v)"
    using assms(1) FU4 d(2) fmt_unsigned_field by simp
  show ?thesis
    using dec_numbers_single [of fmt_unsigned d "my_utoa v" out n "''<U4''" pad base] f assms(3) d FU4
    by (auto simp: whole_data_def decode_handlers_def dec_data_item_def dec_format_def dec_u4_def
        dec_array_def secs_formats)
next
  case (FI4 v)
  have d: "ty = SIGNED_4" "d = rev (le_bytes 4 (nat (v mod 2 ^ 32)))" "length d = 4"
    using assms(2) FI4 by auto
  have f: "fmt_signed d = Some (field_text fd, field_text fd)"
    using assms(1) fmt_signed_field [of v] unfolding d(2) FI4 by blast
  have nn: "no_nul (field_text fd)" using FI4 by simp
  show ?thesis
    using dec_numbers_single [of fmt_signed d "field_text fd" out n "''<I4''" pad base] f nn assms(3) d(1,3)
    by (auto simp: whole_data_def decode_handlers_def dec_data_item_def dec_format_def dec_i4_def
        dec_array_def secs_formats)
qed

text \<open>The names: \<open>prefix.1.k\<close>, and the bounds that let them fit.\<close>

definition field_name :: "string \<Rightarrow> nat \<Rightarrow> string" where
  "field_name prefix k = prefix @ ''.1.'' @ my_utoa k"

lemma my_utoa_one: "my_utoa 1 = ''1''"
  by code_simp

lemma dec_item_field:
  assumes "length prefix \<le> 25" "k < 2 ^ 24"
  shows "\<exists>pad. dec_item prefix [1, of_nat k] = Some (pad, field_name prefix k)"
proof -
  have u: "unat (of_nat k :: u32) = k" using assms(2) by (intro unat_of_nat_u32) simp
  have l: "length (my_utoa k) \<le> Suc 7" using assms(2) by (intro my_utoa_length_le) simp
  show ?thesis
    using assms(1) u l my_utoa_one my_itoa_nat [of 1]
    by (simp add: dec_item_def base_name_def my_itoa_nat name_pad_def field_name_def)
qed

lemma dec_item_top:
  assumes "length prefix \<le> 25"
  shows "\<exists>pad. dec_item prefix [1] = Some (pad, prefix @ ''.1'')"
proof -
  show ?thesis
    using assms my_utoa_one my_itoa_nat [of 1] by (simp add: dec_item_def base_name_def name_pad_def)
qed

lemma tree_items_fields:
  assumes "length prefix \<le> 25" "list_all field_ok fds" "k + length fds \<le> 2 ^ 24"
    "tmp_roomy (snd out) (length fds + n)"
  shows "\<exists>log t. tree_items (decode_handlers prefix) (whole_data (decode_handlers prefix)) [1]
      (of_nat k) (map field_item fds) out = Some (log, t) \<and> tmp_roomy t n \<and>
    tt_vars t = tt_vars (snd out) @
      map (\<lambda>i. added_var (field_name prefix (k + i)) (field_text (fds ! i))) [0..<length fds]"
  using assms
proof (induction fds arbitrary: k out)
  case Nil
  then show ?case by (cases out) simp
next
  case (Cons fd fds)
  obtain ty d where it: "field_item fd = SData ty d" by (cases fd) auto
  obtain pad where pad: "dec_item prefix [1, of_nat k] = Some (pad, field_name prefix k)"
    using dec_item_field Cons.prems(1,3) by force
  obtain log t where t: "whole_data (decode_handlers prefix) (pad, field_name prefix k) ty d out =
      Some (log, t)" "tmp_roomy t (length fds + n)"
    "tt_vars t = tt_vars (snd out) @ [added_var (field_name prefix k) (field_text fd)]"
    using dec_field_data [OF _ it, of out "length fds + n" prefix pad "field_name prefix k"]
      Cons.prems(2,4) by auto
  obtain log2 t2 where "tree_items (decode_handlers prefix) (whole_data (decode_handlers prefix)) [1]
      (of_nat (Suc k)) (map field_item fds) (log, t) = Some (log2, t2)" "tmp_roomy t2 n"
    "tt_vars t2 = tt_vars t @
      map (\<lambda>i. added_var (field_name prefix (Suc k + i)) (field_text (fds ! i))) [0..<length fds]"
    using Cons.IH [of "Suc k" "(log, t)"] Cons.prems t(2) by auto
  moreover have "h_item (decode_handlers prefix) = dec_item prefix" by (simp add: decode_handlers_def)
  ultimately show ?case
    using it pad t(1,3)
    by (simp add: map_upt_Suc add.commute del: upt_Suc)
qed


section \<open>Properties\<close>

text \<open>C4. \<open>secs_decode\<close>, a loop with two arrays of counters and no recursion, computes what the
  recursion over the tree of items computes, for every body of well-formed items nested less than
  100 deep: every item is printed and stored under the name of its position, every list is
  closed once, and the loop ends with 0 at the end of the body.\<close>

theorem secs_decode_items:
  assumes "list_all (item_fits whole) its" "\<forall>t \<in> set its. depth t < 100"
    "length (concat (map enc_item its)) < 2 ^ 32"
  shows "secs_decode prefix (concat (map enc_item its)) out =
    map_option (Pair 0)
      (tree_items (decode_handlers prefix) (whole_data (decode_handlers prefix)) [] 1 its out)"
  using decoder.walk_run_items [OF assms] by (simp add: secs_decode_def)

theorem secs_decode_items_witness:
  "secs_decode ''S1F1'' (concat (map enc_item [SList [SData ASCII [0x41]]])) ([], tmp_init) =
    map_option (Pair 0) (tree_items (decode_handlers ''S1F1'') (whole_data (decode_handlers ''S1F1''))
      [] 1 [SList [SData ASCII [0x41]]] ([], tmp_init))"
  by (rule secs_decode_items)
    (simp_all add: data_formats_def whole_def width_def secs_formats item_header_def store_data_def
      set_size_bytes_def)

lemma dec_close_top: "\<exists>log2. dec_close 0 (log, t) = Some (log2, t)"
  by (simp add: dec_close_def blank_pad_def put_log_def)

lemma dec_list_ok:
  assumes "n < 2 ^ 32" "tmp_roomy t0 (Suc m)"
  shows "\<exists>log1 t. dec_list (pad, base) (of_nat n) (log, t0) = Some (log1, t) \<and>
    tmp_roomy t m \<and> tt_vars t = tt_vars t0 @ [added_var base (my_utoa n)]"
proof -
  obtain t where "add_var (put_log (log, t0) (pad @ ''<L '' @ my_utoa n)) base (my_utoa n) =
      Some (fst (put_log (log, t0) (pad @ ''<L '' @ my_utoa n)), t)" "tmp_roomy t m"
    "tt_vars t = tt_vars t0 @ [added_var base (my_utoa n)]"
    using add_var_ok [of "put_log (log, t0) (pad @ ''<L '' @ my_utoa n)" m "my_utoa n" base] assms(2)
    by (auto simp: put_log_def)
  then show ?thesis using assms(1) by (simp add: dec_list_def my_itoa_nat put_log_def)
qed

lemma field_text_length: "field_ok fd \<Longrightarrow> length (field_text fd) < 2 ^ 32"
proof (induction fd rule: field_ok.induct)
  case (2 v)
  then show ?case using my_utoa_length_le [of v 9] by simp
next
  case (3 v)
  then have "nat v < 10 ^ Suc 9" "nat (- v) < 10 ^ Suc 9" by auto
  then have "length (my_utoa (nat v)) \<le> Suc 9" "length (my_utoa (nat (- v))) \<le> Suc 9"
    using my_utoa_length_le by blast+
  then show ?case by auto
qed simp

lemma field_name_inj:
  "field_name prefix i = field_name prefix j \<Longrightarrow> i < 2 ^ 64 \<Longrightarrow> j < 2 ^ 64 \<Longrightarrow> i = j"
  using my_utoa_inj by (simp add: field_name_def)

lemma field_names_distinct:
  assumes "n < 2 ^ 24"
  shows "distinct ((prefix @ ''.1'') # map (\<lambda>i. field_name prefix (Suc i)) [0..<n])"
proof -
  have "inj_on (\<lambda>i. field_name prefix (Suc i)) {0..<n}"
  proof (rule inj_onI)
    fix i j assume "i \<in> {0..<n}" "j \<in> {0..<n}" "field_name prefix (Suc i) = field_name prefix (Suc j)"
    then have "Suc i = Suc j" using assms by (intro field_name_inj) auto
    then show "i = j" by simp
  qed
  then show ?thesis by (auto simp: distinct_map) (simp add: field_name_def)
qed

lemma var_value_added: "length val < 2 ^ 32 \<Longrightarrow> var_value (added_var name val) = Some val"
  by (simp add: var_value_def added_var_def)

lemma secs_decode_fields:
  assumes "length prefix \<le> 25" "list_all field_ok fds" "fds \<noteq> []" "length fds < 2 ^ 24"
    "length (enc_item (SList (map field_item fds))) < 2 ^ 32" "tmp_roomy t0 (length fds + Suc n)"
  shows "\<exists>log t. secs_decode prefix (enc_item (SList (map field_item fds))) (log0, t0) =
      Some (0, log, t) \<and> tmp_roomy t n \<and>
    tt_vars t = tt_vars t0 @ added_var (prefix @ ''.1'') (my_utoa (length fds)) #
      map (\<lambda>i. added_var (field_name prefix (Suc i)) (field_text (fds ! i))) [0..<length fds]"
proof -
  let ?h = "decode_handlers prefix" and ?its = "[SList (map field_item fds)]"
  let ?top = "added_var (prefix @ ''.1'') (my_utoa (length fds))"
  let ?e = "\<lambda>i. added_var (field_name prefix (Suc i)) (field_text (fds ! i))"
  have fits: "list_all (item_fits whole) ?its"
    using assms(2,4) field_item_fits by (auto simp: list_all_iff)
  have dep: "depth (SList (map field_item fds)) < 100"
  proof -
    have "foldr (\<lambda>t. max (depth t)) (map field_item fds) 0 = 0" by (induction fds) auto
    then show ?thesis by simp
  qed
  obtain pad where pad: "dec_item prefix [1] = Some (pad, prefix @ ''.1'')"
    using dec_item_top [OF assms(1)] by blast
  obtain log1 t1 where o1: "dec_list (pad, prefix @ ''.1'') (of_nat (length fds)) (log0, t0) =
      Some (log1, t1)" "tmp_roomy t1 (length fds + n)" "tt_vars t1 = tt_vars t0 @ [?top]"
    using dec_list_ok [of "length fds" t0 "length fds + n"] assms(4,6) by fastforce
  then obtain log t where t: "tree_items ?h (whole_data ?h) [1] (of_nat 1) (map field_item fds) (log1, t1) =
      Some (log, t)" "tmp_roomy t n" "tt_vars t = tt_vars t0 @ ?top # map ?e [0..<length fds]"
    using tree_items_fields [OF assms(1,2), of 1 "(log1, t1)" n] assms(4) by auto
  obtain log2 where cl: "dec_close 0 (log, t) = Some (log2, t)" using dec_close_top by blast
  have "secs_decode prefix (concat (map enc_item ?its)) (log0, t0) =
      map_option (Pair 0) (tree_items ?h (whole_data ?h) [] 1 ?its (log0, t0))"
    unfolding secs_decode_def using assms(5) dep fits by (intro decoder.walk_run_items) auto
  also have "tree_items ?h (whole_data ?h) [] 1 ?its (log0, t0) = Some (log2, t)"
    using pad o1(1) t(1) cl assms(3) by (simp add: decode_handlers_def)
  finally show ?thesis using t(2,3) by simp
qed

text \<open>Reading the variables of a table that has been appended to, after sorting it.\<close>

definition added_only :: "tmp_table \<Rightarrow> (string \<times> string) list \<Rightarrow> bool" where
  "added_only t kvs \<longleftrightarrow> tt_vars t = map (\<lambda>(k, v). added_var k v) kvs \<and> distinct (map fst kvs) \<and>
     (\<forall>v \<in> snd ` set kvs. length v < 2 ^ 32)"

lemma added_only_get:
  assumes "added_only t kvs" "tmp_grown t" "(k, v) \<in> set kvs"
  shows "tmp_variable_get (tmp_variable_sort t) k = Some (0, v)"
proof -
  have vars: "tt_vars t = map (\<lambda>(k, v). added_var k v) kvs" "distinct (map fst kvs)"
    "length v < 2 ^ 32"
    using assms(1,3) by (force simp: added_only_def)+
  have "map v_name (tt_vars t) = map fst kvs"
    unfolding vars(1) by (auto simp: added_var_def)
  then have "distinct (map v_name (tt_vars t))" using vars(2) by simp
  moreover have "\<forall>e \<in> set (tt_vars t). v_hash e = get_hash (v_name e)"
    unfolding vars(1) by (auto simp: added_var_def)
  moreover have "length (tt_vars t) \<le> tt_room t" using assms(2,3) vars(1)
    by (auto simp: tmp_grown_def)
  moreover have "added_var k v \<in> set (tt_vars t)" using assms(3) unfolding vars(1) by force
  ultimately have "tmp_variable_get (tmp_variable_sort t) (v_name (added_var k v)) =
      map_option (Pair 0) (var_value (added_var k v))" by (intro tmp_sort_get)
  then show ?thesis using var_value_added [OF vars(3), of k] by (simp add: added_var_def)
qed

definition field_vars :: "string \<Rightarrow> field list \<Rightarrow> (string \<times> string) list" where
  "field_vars prefix fds = (prefix @ ''.1'', my_utoa (length fds)) #
     map (\<lambda>i. (field_name prefix (Suc i), field_text (fds ! i))) [0..<length fds]"

lemma field_vars_ok:
  assumes "list_all field_ok fds" "length fds < 2 ^ 24"
  shows "distinct (map fst (field_vars prefix fds))"
    "\<forall>v \<in> snd ` set (field_vars prefix fds). length v < 2 ^ 32"
proof -
  show "distinct (map fst (field_vars prefix fds))"
    using field_names_distinct [OF assms(2), of prefix] by (simp add: field_vars_def comp_def)
  have "length (my_utoa (length fds)) < 2 ^ 32"
    using my_utoa_length_le [of "length fds" 9] assms(2) by simp
  then show "\<forall>v \<in> snd ` set (field_vars prefix fds). length v < 2 ^ 32"
    using assms(1) field_text_length by (auto simp: field_vars_def list_all_length)
qed

lemma secs_decode_fields_read:
  assumes "length prefix \<le> 25" "list_all field_ok fds" "fds \<noteq> []" "length fds < 2 ^ 24"
    "length (enc_item (SList (map field_item fds))) < 2 ^ 32"
  shows "\<exists>log t. secs_decode prefix (enc_item (SList (map field_item fds))) (log0, tmp_init) =
      Some (0, log, t) \<and>
    tmp_variable_get (tmp_variable_sort t) (prefix @ ''.1'') = Some (0, my_utoa (length fds)) \<and>
    (\<forall>i < length fds. tmp_variable_get (tmp_variable_sort t) (field_name prefix (Suc i)) =
       Some (0, field_text (fds ! i)))"
proof -
  have "tmp_roomy tmp_init (length fds + Suc 0)"
    using assms(4) by (simp add: tmp_roomy_def) (simp add: tmp_init_def)
  then obtain log t where t: "secs_decode prefix (enc_item (SList (map field_item fds))) (log0, tmp_init) =
      Some (0, log, t)" "tmp_roomy t 0"
    "tt_vars t = tt_vars tmp_init @ added_var (prefix @ ''.1'') (my_utoa (length fds)) #
      map (\<lambda>i. added_var (field_name prefix (Suc i)) (field_text (fds ! i))) [0..<length fds]"
    using secs_decode_fields [OF assms] by blast
  then have "added_only t (field_vars prefix fds)"
    using field_vars_ok [OF assms(2,4)]
    by (simp add: added_only_def field_vars_def) (simp add: tmp_init_def)
  then have "tmp_variable_get (tmp_variable_sort t) k = Some (0, v)"
    if "(k, v) \<in> set (field_vars prefix fds)" for k v
    using added_only_get that t(2) by (auto simp: tmp_roomy_def)
  then show ?thesis using t(1) by (auto simp: field_vars_def)
qed

text \<open>C3. A message whose body is one list of texts and numbers: after decoding and sorting, the
  program reads every field under \<open>prefix.1.k\<close> with the text of its value, for records of any
  length.\<close>

theorem secs_decode_record:
  assumes "length prefix \<le> 25" "list_all field_ok fds" "fds \<noteq> []" "length fds < 2 ^ 24"
    "length (enc_item (SList (map field_item fds))) < 2 ^ 32"
  shows "\<exists>log t. secs_decode prefix (enc_item (SList (map field_item fds))) (log0, tmp_init) =
      Some (0, log, t) \<and>
    tmp_variable_get (tmp_variable_sort t) (prefix @ ''.1'') = Some (0, my_utoa (length fds)) \<and>
    (\<forall>i < length fds. tmp_variable_get (tmp_variable_sort t) (field_name prefix (Suc i)) =
       Some (0, field_text (fds ! i)))"
  using secs_decode_fields_read [OF assms] .

theorem secs_decode_record_witness:
  "\<exists>log t. secs_decode ''S6F11'' (enc_item (SList (map field_item [FText ''LOT'', FI4 (-7)]))) ([], tmp_init) =
      Some (0, log, t) \<and>
    tmp_variable_get (tmp_variable_sort t) (field_name ''S6F11'' (Suc 1)) = Some (0, ''-7'')"
proof -
  let ?fds = "[FText ''LOT'', FI4 (-7)]"
  have txt7: "field_text (?fds ! 1) = ''-7''" "1 < length ?fds"
    by (simp_all add: my_utoa_def utoa_loop_unfold digit_chr_def char_of_def bit_0)
  have "length (enc_item (SList (map field_item ?fds))) < 2 ^ 32"
    by (simp add: item_header_def store_data_def set_size_bytes_def bytes_of_def)
  then obtain log t where
    "secs_decode ''S6F11'' (enc_item (SList (map field_item ?fds))) ([], tmp_init) = Some (0, log, t)"
    "\<forall>i < length ?fds. tmp_variable_get (tmp_variable_sort t) (field_name ''S6F11'' (Suc i)) =
       Some (0, field_text (?fds ! i))"
    using secs_decode_record [of "''S6F11''" ?fds "[]"] by (auto simp del: enc_item.simps field_item.simps)
  moreover from this(2) txt7(2)
  have "tmp_variable_get (tmp_variable_sort t) (field_name ''S6F11'' (Suc 1)) =
      Some (0, field_text (?fds ! 1))" by blast
  ultimately show ?thesis unfolding txt7(1) by blast
qed

end
