(* ===== verification/Secs_Log.thy ===== *)
theory Secs_Log
  imports Secs_Decode
begin

section \<open>The other two readers of a message\<close>

text \<open>
  \<open>secs_decode_no_arrays\<close> sets one variable for every item, the elements separated by
  blanks; \<open>make_log\<close> (secs_encode_sml.c) writes only the log of a message that is sent.
  Both have the loop of \<open>secs_decode\<close>. \<open>elem_texts\<close> is the loop over the elements of an
  item: the pairs of texts, for the log and for the variable.
\<close>

fun elem_texts ::
    "(byte list \<Rightarrow> (string \<times> string) option) \<Rightarrow> nat \<Rightarrow> nat \<Rightarrow> byte list \<Rightarrow>
     (string \<times> string) list option" where
  "elem_texts fmt w 0 p = Some []"
| "elem_texts fmt w (Suc n) p = do {
     require (w \<le> length p);
     x \<leftarrow> fmt (take w p);
     xs \<leftarrow> elem_texts fmt w n (drop w p);
     Some (x # xs)
   }"

definition log_texts :: "(string \<times> string) list \<Rightarrow> string" where
  "log_texts xs = concat (map (\<lambda>(l, v). '' '' @ l) xs)"

definition var_texts :: "(string \<times> string) list \<Rightarrow> string" where
  "var_texts xs = concat (map (\<lambda>(l, v). v @ '' '') xs)"

subsection \<open>secs_decode_no_arrays\<close>

definition na_boolean_fmt :: "byte list \<Rightarrow> (string \<times> string) option" where
  "na_boolean_fmt bs = Some (if hd bs = 0 then (''FALSE'', ''F'') else (''TRUE'', ''T''))"

definition na_binary_fmt :: "byte list \<Rightarrow> (string \<times> string) option" where
  "na_binary_fmt bs = Some (my_btoh_fmt1 (hd bs), my_btoh (hd bs))"

type_synonym na_data = "dec_out \<times> nat"

definition na_elements ::
    "string \<Rightarrow> (byte list \<Rightarrow> (string \<times> string) option) \<Rightarrow> nat \<Rightarrow> string \<Rightarrow> string \<Rightarrow> nat \<Rightarrow>
     byte list \<Rightarrow> dec_out \<Rightarrow> na_data option" where
  "na_elements tag fmt w pad name sz p out = do {
     xs \<leftarrow> elem_texts fmt w (sz div w) p;
     out1 \<leftarrow> add_var (put_log out (pad @ tag @ log_texts xs)) name (var_texts xs);
     Some (put_log out1 (''>'' @ NL), w * (sz div w))
   }"

definition na_ascii :: "string \<Rightarrow> string \<Rightarrow> nat \<Rightarrow> byte list \<Rightarrow> dec_out \<Rightarrow> na_data option" where
  "na_ascii pad name sz p out = do {
     require (sz \<le> length p);
     let d = text_of (take sz p);
     t \<leftarrow> tmp_variable_add (snd out) name d (int sz);
     Some ((fst out @ pad @ ''<A '' @ QUOTE @ d @ QUOTE @ ''>'' @ NL, t), sz)
   }"

definition na_boolean :: "string \<Rightarrow> string \<Rightarrow> nat \<Rightarrow> byte list \<Rightarrow> dec_out \<Rightarrow> na_data option" where
  "na_boolean pad name sz p out = na_elements ''<BOOLEAN'' na_boolean_fmt 1 pad name sz p out"

definition na_binary :: "string \<Rightarrow> string \<Rightarrow> nat \<Rightarrow> byte list \<Rightarrow> dec_out \<Rightarrow> na_data option" where
  "na_binary pad name sz p out = na_elements ''<BINARY'' na_binary_fmt 1 pad name sz p out"

definition na_u1 :: "string \<Rightarrow> string \<Rightarrow> nat \<Rightarrow> byte list \<Rightarrow> dec_out \<Rightarrow> na_data option" where
  "na_u1 pad name sz p out = na_elements ''<U1'' fmt_u1 1 pad name sz p out"

definition na_u2 :: "string \<Rightarrow> string \<Rightarrow> nat \<Rightarrow> byte list \<Rightarrow> dec_out \<Rightarrow> na_data option" where
  "na_u2 pad name sz p out = na_elements ''<U2'' fmt_unsigned 2 pad name sz p out"

definition na_u4 :: "string \<Rightarrow> string \<Rightarrow> nat \<Rightarrow> byte list \<Rightarrow> dec_out \<Rightarrow> na_data option" where
  "na_u4 pad name sz p out = na_elements ''<U4'' fmt_unsigned 4 pad name sz p out"

definition na_u8 :: "string \<Rightarrow> string \<Rightarrow> nat \<Rightarrow> byte list \<Rightarrow> dec_out \<Rightarrow> na_data option" where
  "na_u8 pad name sz p out = na_elements ''<U8'' fmt_unsigned 8 pad name sz p out"

definition na_i1 :: "string \<Rightarrow> string \<Rightarrow> nat \<Rightarrow> byte list \<Rightarrow> dec_out \<Rightarrow> na_data option" where
  "na_i1 pad name sz p out = na_elements ''<I1'' fmt_i1 1 pad name sz p out"

definition na_i2 :: "string \<Rightarrow> string \<Rightarrow> nat \<Rightarrow> byte list \<Rightarrow> dec_out \<Rightarrow> na_data option" where
  "na_i2 pad name sz p out = na_elements ''<I2'' fmt_signed 2 pad name sz p out"

definition na_i4 :: "string \<Rightarrow> string \<Rightarrow> nat \<Rightarrow> byte list \<Rightarrow> dec_out \<Rightarrow> na_data option" where
  "na_i4 pad name sz p out = na_elements ''<I4'' fmt_signed 4 pad name sz p out"

definition na_i8 :: "string \<Rightarrow> string \<Rightarrow> nat \<Rightarrow> byte list \<Rightarrow> dec_out \<Rightarrow> na_data option" where
  "na_i8 pad name sz p out = na_elements ''<I8'' fmt_signed 8 pad name sz p out"

definition na_f4 :: "string \<Rightarrow> string \<Rightarrow> nat \<Rightarrow> byte list \<Rightarrow> dec_out \<Rightarrow> na_data option" where
  "na_f4 pad name sz p out = na_elements ''<F4'' fmt_float 4 pad name sz p out"

definition na_f8 :: "string \<Rightarrow> string \<Rightarrow> nat \<Rightarrow> byte list \<Rightarrow> dec_out \<Rightarrow> na_data option" where
  "na_f8 pad name sz p out = na_elements ''<F8'' fmt_double 8 pad name sz p out"

definition na_format ::
    "byte \<Rightarrow> string \<Rightarrow> string \<Rightarrow> nat \<Rightarrow> byte list \<Rightarrow> dec_out \<Rightarrow> na_data option option" where
  "na_format ty pad name sz p out =
     (if ty = ASCII then Some (na_ascii pad name sz p out)
      else if ty = BOOLEAN then Some (na_boolean pad name sz p out)
      else if ty = BINARY then Some (na_binary pad name sz p out)
      else if ty = UNSIGNED_1 then Some (na_u1 pad name sz p out)
      else if ty = UNSIGNED_2 then Some (na_u2 pad name sz p out)
      else if ty = UNSIGNED_4 then Some (na_u4 pad name sz p out)
      else if ty = UNSIGNED_8 then Some (na_u8 pad name sz p out)
      else if ty = SIGNED_1 then Some (na_i1 pad name sz p out)
      else if ty = SIGNED_2 then Some (na_i2 pad name sz p out)
      else if ty = SIGNED_4 then Some (na_i4 pad name sz p out)
      else if ty = SIGNED_8 then Some (na_i8 pad name sz p out)
      else if ty = FLOAT_4 then Some (na_f4 pad name sz p out)
      else if ty = FLOAT_8 then Some (na_f8 pad name sz p out)
      else None)"

definition na_handlers :: "string \<Rightarrow> (string \<times> string, dec_out) handlers" where
  "na_handlers prefix = \<lparr>h_item = dec_item prefix, h_list = dec_list,
     h_data = (\<lambda>(pad, name) ty sz p out.
       case na_format ty pad name (unat sz) p out of
         None \<Rightarrow> Some None
       | Some r \<Rightarrow> map_option Some r),
     h_close = dec_close\<rparr>"

definition secs_decode_no_arrays :: "string \<Rightarrow> byte list \<Rightarrow> dec_out \<Rightarrow> (u32 \<times> dec_out) option" where
  "secs_decode_no_arrays prefix body out = walk_run (na_handlers prefix) body out"

subsection \<open>make_log\<close>

text \<open>Signed bytes go through \<^verbatim>\<open>my_itoa ((int64_t) *p)\<close> of an \<^verbatim>\<open>uint8_t\<close>: they are printed
  as unsigned numbers.\<close>

definition log_i1_fmt :: "byte list \<Rightarrow> (string \<times> string) option" where
  "log_i1_fmt bs = do { s \<leftarrow> my_itoa (int (unat (hd bs))); Some (s, s) }"

definition log_elements ::
    "string \<Rightarrow> (byte list \<Rightarrow> (string \<times> string) option) \<Rightarrow> nat \<Rightarrow> string \<Rightarrow> nat \<Rightarrow> byte list \<Rightarrow>
     string \<Rightarrow> (string \<times> nat) option" where
  "log_elements tag fmt w pad sz p log = do {
     xs \<leftarrow> elem_texts fmt w (sz div w) p;
     Some (log @ pad @ tag @ log_texts xs @ ''>'' @ NL, w * (sz div w))
   }"

definition log_ascii :: "string \<Rightarrow> nat \<Rightarrow> byte list \<Rightarrow> string \<Rightarrow> (string \<times> nat) option" where
  "log_ascii pad sz p log = do {
     require (sz \<le> length p);
     Some (log @ pad @ ''<A '' @ QUOTE @ text_of (take sz p) @ QUOTE @ ''>'' @ NL, sz)
   }"

definition log_boolean :: "string \<Rightarrow> nat \<Rightarrow> byte list \<Rightarrow> string \<Rightarrow> (string \<times> nat) option" where
  "log_boolean pad sz p log = log_elements ''<BOOLEAN'' fmt_boolean 1 pad sz p log"

definition log_binary :: "string \<Rightarrow> nat \<Rightarrow> byte list \<Rightarrow> string \<Rightarrow> (string \<times> nat) option" where
  "log_binary pad sz p log = log_elements ''<BINARY'' fmt_binary 1 pad sz p log"

definition log_u1 :: "string \<Rightarrow> nat \<Rightarrow> byte list \<Rightarrow> string \<Rightarrow> (string \<times> nat) option" where
  "log_u1 pad sz p log = log_elements ''<U1'' fmt_u1 1 pad sz p log"

definition log_u2 :: "string \<Rightarrow> nat \<Rightarrow> byte list \<Rightarrow> string \<Rightarrow> (string \<times> nat) option" where
  "log_u2 pad sz p log = log_elements ''<U2'' fmt_unsigned 2 pad sz p log"

definition log_u4 :: "string \<Rightarrow> nat \<Rightarrow> byte list \<Rightarrow> string \<Rightarrow> (string \<times> nat) option" where
  "log_u4 pad sz p log = log_elements ''<U4'' fmt_unsigned 4 pad sz p log"

definition log_u8 :: "string \<Rightarrow> nat \<Rightarrow> byte list \<Rightarrow> string \<Rightarrow> (string \<times> nat) option" where
  "log_u8 pad sz p log = log_elements ''<U8'' fmt_unsigned 8 pad sz p log"

definition log_i1 :: "string \<Rightarrow> nat \<Rightarrow> byte list \<Rightarrow> string \<Rightarrow> (string \<times> nat) option" where
  "log_i1 pad sz p log = log_elements ''<I1'' log_i1_fmt 1 pad sz p log"

definition log_i2 :: "string \<Rightarrow> nat \<Rightarrow> byte list \<Rightarrow> string \<Rightarrow> (string \<times> nat) option" where
  "log_i2 pad sz p log = log_elements ''<I2'' fmt_signed 2 pad sz p log"

definition log_i4 :: "string \<Rightarrow> nat \<Rightarrow> byte list \<Rightarrow> string \<Rightarrow> (string \<times> nat) option" where
  "log_i4 pad sz p log = log_elements ''<I4'' fmt_signed 4 pad sz p log"

definition log_i8 :: "string \<Rightarrow> nat \<Rightarrow> byte list \<Rightarrow> string \<Rightarrow> (string \<times> nat) option" where
  "log_i8 pad sz p log = log_elements ''<I8'' fmt_signed 8 pad sz p log"

definition log_f4 :: "string \<Rightarrow> nat \<Rightarrow> byte list \<Rightarrow> string \<Rightarrow> (string \<times> nat) option" where
  "log_f4 pad sz p log = log_elements ''<F4'' fmt_float 4 pad sz p log"

definition log_f8 :: "string \<Rightarrow> nat \<Rightarrow> byte list \<Rightarrow> string \<Rightarrow> (string \<times> nat) option" where
  "log_f8 pad sz p log = log_elements ''<F8'' fmt_double 8 pad sz p log"

definition log_format ::
    "byte \<Rightarrow> string \<Rightarrow> nat \<Rightarrow> byte list \<Rightarrow> string \<Rightarrow> (string \<times> nat) option option" where
  "log_format ty pad sz p log =
     (if ty = ASCII then Some (log_ascii pad sz p log)
      else if ty = BOOLEAN then Some (log_boolean pad sz p log)
      else if ty = BINARY then Some (log_binary pad sz p log)
      else if ty = UNSIGNED_1 then Some (log_u1 pad sz p log)
      else if ty = UNSIGNED_2 then Some (log_u2 pad sz p log)
      else if ty = UNSIGNED_4 then Some (log_u4 pad sz p log)
      else if ty = UNSIGNED_8 then Some (log_u8 pad sz p log)
      else if ty = SIGNED_1 then Some (log_i1 pad sz p log)
      else if ty = SIGNED_2 then Some (log_i2 pad sz p log)
      else if ty = SIGNED_4 then Some (log_i4 pad sz p log)
      else if ty = SIGNED_8 then Some (log_i8 pad sz p log)
      else if ty = FLOAT_4 then Some (log_f4 pad sz p log)
      else if ty = FLOAT_8 then Some (log_f8 pad sz p log)
      else None)"

definition log_list :: "string \<Rightarrow> u32 \<Rightarrow> string \<Rightarrow> string option" where
  "log_list pad sz log = Some (log @ pad @ ''<L'' @ (if sz \<noteq> 0 then NL else ''>'' @ NL))"

definition log_close :: "nat \<Rightarrow> string \<Rightarrow> string option" where
  "log_close l log = do { pad \<leftarrow> blank_pad 100 (l + 1); Some (log @ pad @ ''>'' @ NL) }"

definition log_handlers :: "(string, string) handlers" where
  "log_handlers = \<lparr>h_item = (\<lambda>ies. blank_pad 100 (length ies)), h_list = log_list,
     h_data = (\<lambda>pad ty sz p log.
       case log_format ty pad (unat sz) p log of
         None \<Rightarrow> Some None
       | Some r \<Rightarrow> map_option Some r),
     h_close = log_close\<rparr>"

definition make_log :: "byte list \<Rightarrow> string \<Rightarrow> (u32 \<times> string) option" where
  "make_log body log = walk_run log_handlers body log"

subsection \<open>Both are the recursion over the items\<close>

lemma elem_texts_append:
  "w * n \<le> length d \<Longrightarrow> elem_texts fmt w n (d @ rest) = elem_texts fmt w n d"
proof (induction fmt w n d rule: elem_texts.induct)
  case (2 fmt w n p)
  then show ?case by (cases "fmt (take w p)") (auto split: bind_split)
qed simp

lemma elem_texts_whole:
  "sz \<le> length d \<Longrightarrow> elem_texts fmt w (sz div w) (d @ rest) = elem_texts fmt w (sz div w) d"
proof -
  assume "sz \<le> length d"
  moreover have "w * (sz div w) \<le> sz" by simp
  ultimately have "w * (sz div w) \<le> length d" by linarith
  then show ?thesis by (rule elem_texts_append)
qed

lemmas na_formats =
  na_boolean_def na_binary_def na_u1_def na_u2_def na_u4_def na_u8_def na_i1_def na_i2_def
  na_i4_def na_i8_def na_f4_def na_f8_def

lemmas log_formats =
  log_boolean_def log_binary_def log_u1_def log_u2_def log_u4_def log_u8_def log_i1_def log_i2_def
  log_i4_def log_i8_def log_f4_def log_f8_def

lemma na_format_append:
  assumes "sz \<le> length d"
  shows "na_format ty pad name sz (d @ rest) out = na_format ty pad name sz d out"
proof -
  have "na_ascii pad name sz (d @ rest) out = na_ascii pad name sz d out"
    using assms by (simp add: na_ascii_def)
  then show ?thesis
    unfolding na_format_def na_formats na_elements_def by (simp only: elem_texts_whole [OF assms])
qed

lemma log_format_append:
  assumes "sz \<le> length d"
  shows "log_format ty pad sz (d @ rest) log = log_format ty pad sz d log"
proof -
  have "log_ascii pad sz (d @ rest) log = log_ascii pad sz d log"
    using assms by (simp add: log_ascii_def)
  then show ?thesis
    unfolding log_format_def log_formats log_elements_def by (simp only: elem_texts_whole [OF assms])
qed

lemma na_format_known:
  assumes "ty \<in> set data_formats" "sz mod width ty = 0"
  shows "\<exists>r. na_format ty pad name sz p out = Some r \<and> (\<forall>out1 k. r = Some (out1, k) \<longrightarrow> k = sz)"
  using assms
  by (auto simp: na_format_def na_formats data_formats_def secs_formats width_def na_elements_def
      na_ascii_def Let_def)

lemma log_format_known:
  assumes "ty \<in> set data_formats" "sz mod width ty = 0"
  shows "\<exists>r. log_format ty pad sz p log = Some r \<and> (\<forall>log1 k. r = Some (log1, k) \<longrightarrow> k = sz)"
  using assms
  by (auto simp: log_format_def log_formats data_formats_def secs_formats width_def
      log_elements_def log_ascii_def)

interpretation no_arrays: walker "na_handlers prefix" "whole_data (na_handlers prefix)" whole
  for prefix
proof unfold_locales
  fix ty d rest out and c :: "string \<times> string"
  assume a: "ty \<in> set data_formats" "whole ty d" "length (d :: byte list) < 2 ^ 24"
  obtain pad name where c: "c = (pad, name)" by force
  have u: "unat (of_nat (length d) :: u32) = length d" using a(3) by (rule of_nat_size_24)
  obtain r where r: "na_format ty pad name (length d) d out = Some r"
    "\<forall>out1 k. r = Some (out1, k) \<longrightarrow> k = length d"
    using na_format_known [OF a(1) a(2) [unfolded whole_def], of pad name d out] by blast
  then show "h_data (na_handlers prefix) c ty (of_nat (length d)) (d @ rest) out =
      map_option (\<lambda>out1. Some (out1, length d)) (whole_data (na_handlers prefix) c ty d out)"
    by (cases r) (auto simp: na_handlers_def whole_data_def c u na_format_append)
qed

interpretation logger: walker log_handlers "whole_data log_handlers" whole
proof unfold_locales
  fix ty d rest log and c :: string
  assume a: "ty \<in> set data_formats" "whole ty d" "length (d :: byte list) < 2 ^ 24"
  have u: "unat (of_nat (length d) :: u32) = length d" using a(3) by (rule of_nat_size_24)
  obtain r where r: "log_format ty c (length d) d log = Some r"
    "\<forall>out1 k. r = Some (out1, k) \<longrightarrow> k = length d"
    using log_format_known [OF a(1) a(2) [unfolded whole_def], of c d log] by blast
  then show "h_data log_handlers c ty (of_nat (length d)) (d @ rest) log =
      map_option (\<lambda>out1. Some (out1, length d)) (whole_data log_handlers c ty d log)"
    by (cases r) (auto simp: log_handlers_def whole_data_def u log_format_append)
qed


section \<open>Properties\<close>

text \<open>\<open>secs_decode_no_arrays\<close>, the decoder that stores an array as one text, is the
  recursion over the tree of items for every body of well-formed items nested less than 100
  deep.\<close>

theorem secs_decode_no_arrays_items:
  assumes "list_all (item_fits whole) its" "\<forall>t \<in> set its. depth t < 100"
    "length (concat (map enc_item its)) < 2 ^ 32"
  shows "secs_decode_no_arrays prefix (concat (map enc_item its)) out =
    map_option (Pair 0)
      (tree_items (na_handlers prefix) (whole_data (na_handlers prefix)) [] 1 its out)"
  using no_arrays.walk_run_items [OF assms] by (simp add: secs_decode_no_arrays_def)

theorem secs_decode_no_arrays_items_witness:
  "secs_decode_no_arrays ''S1F1'' (concat (map enc_item [SList [SData ASCII [0x41]]])) ([], tmp_init) =
    map_option (Pair 0) (tree_items (na_handlers ''S1F1'') (whole_data (na_handlers ''S1F1''))
      [] 1 [SList [SData ASCII [0x41]]] ([], tmp_init))"
  by (rule secs_decode_no_arrays_items)
    (simp_all add: data_formats_def whole_def width_def secs_formats item_header_def store_data_def
      set_size_bytes_def)

text \<open>\<open>make_log\<close> prints the message that is sent by the same walk: its text is what the recursion
  over the tree of items writes.\<close>

theorem make_log_items:
  assumes "list_all (item_fits whole) its" "\<forall>t \<in> set its. depth t < 100"
    "length (concat (map enc_item its)) < 2 ^ 32"
  shows "make_log (concat (map enc_item its)) log =
    map_option (Pair 0) (tree_items log_handlers (whole_data log_handlers) [] 1 its log)"
  using logger.walk_run_items [OF assms] by (simp add: make_log_def)

theorem make_log_items_witness:
  "make_log (concat (map enc_item [SList [SData ASCII [0x41]]])) [] =
    map_option (Pair 0) (tree_items log_handlers (whole_data log_handlers)
      [] 1 [SList [SData ASCII [0x41]]] [])"
  by (rule make_log_items)
    (simp_all add: data_formats_def whole_def width_def secs_formats item_header_def store_data_def
      set_size_bytes_def)

end
