(* ===== verification/Secs_Msg.thy ===== *)
theory Secs_Msg
  imports Secs_I Secs_Log
begin

section \<open>SECS messages over blocks (recv_secs.c, send_secs.c)\<close>

text \<open>
  A message is cut into blocks of at most 244 bytes, each with a header of ten bytes: the
  device, the stream and the function, the number of the block and a mark for the last one,
  the system bytes. \<open>recv_secs\<close> collects the blocks, stores the header fields and
  the decoded body as temporary variables, and says whether the message starts a program
  (primary) or which program waits for it (reply). What is received is the list of the bytes a
  binary buffer holds.
\<close>

record msg_state =
  ms_link :: link
  ms_tmp :: tmp_table
  ms_trans :: trans_state
  ms_secs :: secs_globals

subsection \<open>The message as variables\<close>

definition msg_prefix :: "byte list \<Rightarrow> string" where
  "msg_prefix header = ''S'' @ my_utoa (unat (header ! 2 AND 0x7F)) @ ''F'' @ my_utoa (unat (header ! 3))"

definition device_num :: "byte list \<Rightarrow> string" where
  "device_num header = my_utoa (unat (header ! 0 AND 0x7F) * 256 + unat (header ! 1))"

definition wait_text :: "byte list \<Rightarrow> string" where
  "wait_text header = (if header ! 2 AND 0x80 \<noteq> 0 then ''1'' else ''0'')"

definition store_header :: "byte list \<Rightarrow> tmp_table \<Rightarrow> tmp_table option" where
  "store_header header t = do {
     t1 \<leftarrow> tmp_variable_add t ''SXFY'' (msg_prefix header) (-1);
     t2 \<leftarrow> tmp_variable_add t1 (msg_prefix header @ ''.DEVICE_ID'') (device_num header) (-1);
     tmp_variable_add t2 (msg_prefix header @ ''.WAIT_BIT'') (wait_text header) (-1)
   }"

definition store_message :: "bool \<Rightarrow> byte list \<Rightarrow> byte list \<Rightarrow> tmp_table \<Rightarrow> (u32 \<times> dec_out) option" where
  "store_message arrays header body t = do {
     t1 \<leftarrow> store_header header t;
     let log = msg_prefix header @ '' DEVICE_ID='' @ device_num header @ '' WAIT_BIT='' @
                 wait_text header @ NL;
     if arrays then secs_decode (msg_prefix header) body (log, t1)
     else secs_decode_no_arrays (msg_prefix header) body (log, t1)
   }"

text \<open>The return code, the program index when it is set, whether the message is primary. The
  return code of the decoder survives for a primary message only.\<close>

definition route_message ::
    "int \<Rightarrow> byte list \<Rightarrow> u32 \<Rightarrow> u32 \<Rightarrow> msg_state \<Rightarrow> ((u32 \<times> u32 option \<times> bool) \<times> msg_state) option" where
  "route_message now header sysb iret st =
     (if unat (header ! 3) mod 2 \<noteq> 0
      then Some ((iret, None, True), st\<lparr>ms_secs := secs_set_system_bytes (ms_secs st) sysb\<rparr>)
      else do {
        (r, idx, ts) \<leftarrow> open_trans_table_del now (ms_trans st) sysb;
        Some ((if r \<noteq> 0 then 2 else r, idx, False), st\<lparr>ms_trans := ts\<rparr>)
      })"

definition take_message ::
    "bool \<Rightarrow> int \<Rightarrow> byte list \<Rightarrow> byte list \<Rightarrow> u32 \<Rightarrow> msg_state \<Rightarrow>
     ((u32 \<times> u32 option \<times> bool) \<times> msg_state) option" where
  "take_message arrays now header body sysb st = do {
     (r, log, t) \<leftarrow> store_message arrays header body (ms_tmp st);
     route_message now header sysb r (st\<lparr>ms_tmp := t\<rparr>)
   }"

subsection \<open>Receiving the blocks\<close>

text \<open>No step of the block protocol puts bytes back: the events that are left get fewer, and
  strictly fewer when a block has come.\<close>

lemma take_data_length: "take_data n es = (bs, r) \<Longrightarrow> length bs + length r = length es"
  by (induction n es arbitrary: bs r rule: take_data.induct) (auto split: prod.splits)

lemma my_readc_len: "my_readc k = (r, k1) \<Longrightarrow> length (lk_in k1) \<le> length (lk_in k)"
  by (auto simp: my_readc_def read_link_def split: prod.splits rd.splits
      dest!: wait_in_length take_data_length)

lemma my_writec_len: "my_writec b k = (r, k1) \<Longrightarrow> length (lk_in k1) \<le> length (lk_in k)"
  by (auto simp: my_writec_def split: if_splits)

lemma completion_len: "completion k = (r, k1) \<Longrightarrow> length (lk_in k1) \<le> length (lk_in k)"
proof (induction k arbitrary: r k1 rule: completion.induct)
  case (1 k)
  obtain x k2 where x: "my_readc (start_t 1 Completion_T1 k) = (x, k2)" by force
  then have l: "length (lk_in k2) \<le> length (lk_in k)" by (auto dest: my_readc_len)
  show ?case
  proof (cases x)
    case (Got c)
    then have "completion (stop_t 1 k2) = (r, k1)"
      using 1(2) x by (subst (asm) completion.simps) simp
    then show ?thesis using 1(1) [OF x [symmetric] Got] l by fastforce
  next
    case Failed
    then show ?thesis using 1(2) x l by (subst (asm) completion.simps) auto
  next
    case (Jumped j)
    then show ?thesis using 1(2) x l by (subst (asm) completion.simps) (auto split: if_splits)
  qed
qed

lemma send_nak_len: "send_nak k = (r, k1) \<Longrightarrow> length (lk_in k1) \<le> length (lk_in k)"
  by (auto simp: send_nak_def split: prod.splits dest: my_writec_len)

lemma complete_nak_len: "complete_nak k = (r, k1) \<Longrightarrow> length (lk_in k1) \<le> length (lk_in k)"
  by (auto simp: complete_nak_def split: prod.splits ret.splits
      dest!: completion_len send_nak_len)

lemma recv_size_len:
  "recv_size k = (r, k1) \<Longrightarrow> length (lk_in k1) \<le> length (lk_in k) \<and>
     (\<forall>c. r = Inl c \<longrightarrow> length (lk_in k1) < length (lk_in k))"
proof (induction k arbitrary: r k1 rule: recv_size.induct)
  case (1 k)
  obtain x k2 where x: "my_readc (start_t 2 RecvI_T2 k) = (x, k2)" by force
  then have l: "length (lk_in k2) \<le> length (lk_in k)" by (auto dest: my_readc_len)
  show ?case
  proof (cases x)
    case (Got c)
    then have less: "length (lk_in k2) < length (lk_in k)" using x by (auto dest: my_readc_Got)
    show ?thesis
    proof (cases "c = ENQ")
      case True
      then have "recv_size (stop_t 2 k2) = (r, k1)"
        using 1(2) x Got by (subst (asm) recv_size.simps) simp
      then show ?thesis using 1(1) [OF x [symmetric] Got True] less by fastforce
    next
      case False
      then show ?thesis using 1(2) x Got less by (subst (asm) recv_size.simps) auto
    qed
  next
    case Failed
    then show ?thesis using 1(2) x l by (subst (asm) recv_size.simps) auto
  next
    case (Jumped j)
    then show ?thesis using 1(2) x l
      by (subst (asm) recv_size.simps) (fastforce split: if_splits prod.splits dest: send_nak_len)
  qed
qed

lemma recv_bytes_len:
  assumes "\<And>k r k1. bad k = (r, k1) \<Longrightarrow> length (lk_in k1) \<le> length (lk_in k)"
  shows "recv_bytes bad n acc k = (r, k1) \<Longrightarrow> length (lk_in k1) \<le> length (lk_in k)"
proof (induction n arbitrary: acc k)
  case (Suc n)
  obtain x k2 where x: "my_readc (start_t 1 RecvI_T1 k) = (x, k2)" by force
  then have l: "length (lk_in k2) \<le> length (lk_in k)" by (auto dest: my_readc_len)
  show ?case
  proof (cases x)
    case (Got c)
    then show ?thesis using Suc.IH [of "acc @ [c]" "stop_t 1 k2"] Suc.prems x l by auto
  next
    case Failed
    then show ?thesis using Suc.prems x l by auto
  next
    case (Jumped j)
    then show ?thesis using Suc.prems x l
      by (fastforce split: if_splits prod.splits dest: assms)
  qed
qed simp

lemma recv_block_len:
  assumes "recv_block sz k = (r, k1)"
  shows "length (lk_in k1) \<le> length (lk_in k)"
proof (cases "unat sz < 10 \<or> unat sz > 254")
  case True
  then show ?thesis using assms by (auto simp: recv_block_def split: prod.splits dest: complete_nak_len)
next
  case False
  obtain x k2 where x: "recv_bytes send_nak (unat sz) [] k = (x, k2)" by force
  have l2: "length (lk_in k2) \<le> length (lk_in k)" using recv_bytes_len [of send_nak, OF send_nak_len x] by simp
  show ?thesis
  proof (cases x)
    case (Inl block)
    obtain y k3 where y: "recv_bytes complete_nak 2 [] k2 = (y, k3)" by force
    have l3: "length (lk_in k3) \<le> length (lk_in k2)"
      using recv_bytes_len [of complete_nak, OF complete_nak_len y] by simp
    show ?thesis
    proof (cases y)
      case (Inl cs)
      have "length (lk_in k1) \<le> length (lk_in k3)"
        using assms False x \<open>x = Inl block\<close> y Inl
        by (auto simp: recv_block_def split: if_splits prod.splits dest: complete_nak_len my_writec_len)
      then show ?thesis using l2 l3 by linarith
    qed (use assms False x Inl y l2 l3 in \<open>auto simp: recv_block_def\<close>)
  qed (use assms False x l2 in \<open>auto simp: recv_block_def\<close>)
qed

lemma recv_secsI_len:
  assumes "recv_secsI flag k = (r, k1)"
  shows "length (lk_in k1) \<le> length (lk_in k)"
    "r = Inl b \<Longrightarrow> length (lk_in k1) < length (lk_in k)"
proof -
  have e: "recv_enq flag k = (x, k2) \<Longrightarrow> length (lk_in k2) \<le> length (lk_in k)" for x k2
    by (auto simp: recv_enq_def split: if_splits prod.splits rd.splits dest: my_readc_len)
  show "length (lk_in k1) \<le> length (lk_in k)"
    using assms
    by (fastforce simp: recv_secsI_def split: if_splits prod.splits sum.splits
        dest: e my_writec_len recv_size_len recv_block_len)
  show "length (lk_in k1) < length (lk_in k)" if "r = Inl b"
    using assms that
    by (fastforce simp: recv_secsI_def split: if_splits prod.splits sum.splits
        dest: e my_writec_len recv_size_len recv_block_len)
qed

text \<open>\<open>hdr\<close> is the header of the first block, \<open>prev\<close> the header of the last block after the
  first. A T4 timeout ends the loop with 1.\<close>

abbreviation stop_t34 :: "link \<Rightarrow> link" where
  "stop_t34 k \<equiv> stop_t 4 (stop_t 3 k)"

definition add_block ::
    "byte list option \<Rightarrow> byte list \<Rightarrow> byte list \<Rightarrow> byte list \<Rightarrow>
     byte list \<times> byte list \<times> byte list" where
  "add_block hdr prev body block =
     (case hdr of
        None \<Rightarrow> (take 10 block, prev, body @ drop 10 block)
      | Some h \<Rightarrow>
          if take 10 block = prev then (h, prev, body)
          else (h, take 10 block, body @ drop 10 block))"

function recv_blocks ::
    "bool \<Rightarrow> byte list option \<Rightarrow> byte list \<Rightarrow> byte list \<Rightarrow> link \<Rightarrow>
     (u32 \<times> byte list option \<times> byte list) ret \<times> link" where
  "recv_blocks flag hdr prev body k =
     (case recv_secsI flag k of
        (Inr (Jump j), k1) \<Rightarrow>
          if j = Recv_T4 then (Ret (1, hdr, body), stop_t34 k1) else (Jump j, k1)
      | (Inr (Ret e), k1) \<Rightarrow> (Ret (e, hdr, body), stop_t34 k1)
      | (Inl block, k1) \<Rightarrow>
          (case add_block hdr prev body block of (h, prev1, body1) \<Rightarrow>
             let k2 = stop_t34 k1
             in if block ! 4 AND 0x80 \<noteq> 0 then (Ret (0, Some h, body1), stop_t34 k2)
                else recv_blocks False (Some h) prev1 body1 (start_t 4 Recv_T4 k2)))"
  by pat_completeness auto
termination
  by (relation "measure (\<lambda>(flag, hdr, last, body, k). length (lk_in k))")
    (auto dest: recv_secsI_len(2) [OF sym])

declare recv_blocks.simps [simp del]

text \<open>\<open>header[6] * 16777216\<close> is an \<open>int\<close> and overflows from \<open>128\<close> on.\<close>

definition header_system_bytes :: "byte list \<Rightarrow> u32 option" where
  "header_system_bytes header = do {
     require (unat (header ! 6) < 128);
     Some (of_nat (unat (header ! 6) * 16777216 + unat (header ! 7) * 65536 +
                   unat (header ! 8) * 256 + unat (header ! 9)))
   }"

definition recv_secs ::
    "bool \<Rightarrow> int \<Rightarrow> bool \<Rightarrow> msg_state \<Rightarrow> ((u32 \<times> u32 option \<times> bool option) ret \<times> msg_state) option" where
  "recv_secs arrays now flag st =
     (case recv_blocks flag None (replicate 10 0) [] (ms_link st) of
        (Jump j, k) \<Rightarrow> Some (Jump j, st\<lparr>ms_link := k\<rparr>)
      | (Ret (r, hdr, body), k) \<Rightarrow>
          let st1 = st\<lparr>ms_link := k\<rparr>
          in if r \<noteq> 0 then Some (Ret (r, None, None), st1)
             else do {
               header \<leftarrow> hdr;
               sysb \<leftarrow> header_system_bytes header;
               ((r1, idx, primary), st2) \<leftarrow> take_message arrays now header body sysb st1;
               Some (Ret (r1, idx, Some primary), st2)
             })"

lemma recv_blocks_len:
  "recv_blocks flag hdr prev body k = (r, k1) \<Longrightarrow> length (lk_in k1) \<le> length (lk_in k)"
proof (induction flag hdr prev body k arbitrary: r k1 rule: recv_blocks.induct)
  case (1 flag hdr prev body k)
  obtain x k2 where x: "recv_secsI flag k = (x, k2)" by force
  then have l: "length (lk_in k2) \<le> length (lk_in k)" by (rule recv_secsI_len(1))
  show ?case
  proof (cases x)
    case (Inl block)
    obtain h prev1 body1 where a: "add_block hdr prev body block = (h, prev1, body1)"
      by (metis prod_cases3)
    show ?thesis
    proof (cases "block ! 4 AND 0x80 = 0")
      case True
      then have "recv_blocks False (Some h) prev1 body1 (start_t 4 Recv_T4 (stop_t34 k2)) = (r, k1)"
        using 1(2) x Inl a by (subst (asm) recv_blocks.simps) simp
      then show ?thesis using 1(1) [OF x [symmetric] Inl a [symmetric] refl refl] True l by fastforce
    next
      case False
      then show ?thesis using 1(2) x Inl a l by (subst (asm) recv_blocks.simps) auto
    qed
  next
    case (Inr e)
    then show ?thesis using 1(2) x l
      by (cases e; subst (asm) recv_blocks.simps) (auto split: if_splits)
  qed
qed

lemma take_message_link:
  "take_message arrays now header body sysb st = Some (r, st1) \<Longrightarrow> ms_link st1 = ms_link st"
  by (auto simp: take_message_def route_message_def split: if_splits prod.splits)

lemma recv_secs_len:
  assumes "recv_secs arrays now flag st = Some (r, st1)"
  shows "length (lk_in (ms_link st1)) \<le> length (lk_in (ms_link st))"
proof -
  obtain x k where x: "recv_blocks flag None (replicate 10 0) [] (ms_link st) = (x, k)" by force
  then have l: "length (lk_in k) \<le> length (lk_in (ms_link st))" by (rule recv_blocks_len)
  have "ms_link st1 = k"
    using assms x
    by (cases x) (auto simp: recv_secs_def Let_def split: if_splits prod.splits dest!: take_message_link)
  then show ?thesis using l by simp
qed

subsection \<open>Sending the blocks\<close>

record secs_msg =
  sm_stream :: u32
  sm_function :: u32
  sm_device :: u32
  sm_wait :: u32
  sm_body :: "byte list"

text \<open>What the options of the connection and the program say; \<open>se_resume\<close> is the program that
  handles a message that came first, whatever it does.\<close>

record send_env =
  se_rbit :: bool
  se_retry :: nat
  se_arrays :: bool
  se_now :: int
  se_t3 :: u32
  se_program :: u32
  se_line :: string
  se_timeout_msg :: string
  se_resume :: "bool \<Rightarrow> u32 option \<Rightarrow> msg_state \<Rightarrow> msg_state"

definition block_header :: "bool \<Rightarrow> secs_msg \<Rightarrow> u32 \<Rightarrow> u32 \<Rightarrow> bool \<Rightarrow> byte list" where
  "block_header rbit msg sysb num final =
     [ucast (drop_bit 8 (sm_device msg) AND 255) OR (if rbit then 0x80 else 0),
      ucast (sm_device msg AND 255),
      ucast (sm_stream msg) OR (if sm_wait msg \<noteq> 0 then 0x80 else 0),
      ucast (sm_function msg),
      ucast (drop_bit 8 num AND 255) OR (if final then 0x80 else 0),
      ucast (num AND 255),
      ucast (drop_bit 24 sysb AND 0xFF), ucast (drop_bit 16 sysb AND 0xFF),
      ucast (drop_bit 8 sysb AND 0xFF), ucast (sysb AND 0xFF)]"

lemma wait_eot_len:
  "wait_eot rbit k = (r, k1) \<Longrightarrow> length (lk_in k1) \<le> length (lk_in k) \<and>
     (\<forall>e. r = Ret (Some e) \<longrightarrow> e = 2 \<longrightarrow> length (lk_in k1) < length (lk_in k))"
proof (induction rbit k arbitrary: r k1 rule: wait_eot.induct)
  case (1 rbit k)
  obtain x k2 where x: "my_readc k = (x, k2)" by force
  then have l: "length (lk_in k2) \<le> length (lk_in k)" by (auto dest: my_readc_len)
  show ?case
  proof (cases x)
    case (Got c)
    then have less: "length (lk_in k2) < length (lk_in k)" using x by (auto dest: my_readc_Got)
    consider "c = EOT" | "c \<noteq> EOT" "c = ENQ" "rbit" | "c \<noteq> EOT" "c = ENQ" "\<not> rbit" | "c \<noteq> EOT" "c \<noteq> ENQ"
      by blast
    then show ?thesis
    proof cases
      case 2
      then have "wait_eot rbit k2 = (r, k1)" using 1(3) x Got by (subst (asm) wait_eot.simps) simp
      then show ?thesis using 1(1) [OF x [symmetric] Got 2] less by fastforce
    next
      case 4
      then have "wait_eot rbit k2 = (r, k1)" using 1(3) x Got by (subst (asm) wait_eot.simps) simp
      then show ?thesis using 1(2) [OF x [symmetric] Got 4] less by fastforce
    qed (use 1(3) x Got less in \<open>subst (asm) wait_eot.simps, auto\<close>)+
  next
    case Failed
    then show ?thesis using 1(3) x l by (subst (asm) wait_eot.simps) auto
  next
    case (Jumped j)
    then show ?thesis using 1(3) x l by (subst (asm) wait_eot.simps) (auto split: if_splits)
  qed
qed

lemma write_each_in: "write_each bs k = (r, k1) \<Longrightarrow> lk_in k1 = lk_in k \<and> (r = 0 \<or> r = 3)"
proof (induction bs arbitrary: k)
  case (Cons b bs)
  obtain x k2 where x: "my_writec b k = (x, k2)" by force
  then have "lk_in k2 = lk_in k" using my_writec_in(1) [of b k] by simp
  then show ?case using Cons.IH [of k2] Cons.prems x by (auto split: if_splits)
qed simp

lemma wait_ack_len:
  "wait_ack k = (r, k1) \<Longrightarrow> length (lk_in k1) \<le> length (lk_in k) \<and> r \<noteq> Ret 2"
  by (auto simp: wait_ack_def split: prod.splits rd.splits if_splits dest: my_readc_len)

lemma send_secsI_len:
  assumes "send_secsI rbit block k = (r, k1)"
  shows "length (lk_in k1) \<le> length (lk_in k) \<and> (r = Ret 2 \<longrightarrow> length (lk_in k1) < length (lk_in k))"
proof -
  obtain x k2 where x: "my_writec ENQ k = (x, k2)" by force
  then have l2: "lk_in k2 = lk_in k" using my_writec_in(1) [of ENQ k] by simp
  obtain y k3 where y: "wait_eot rbit (start_t 2 SendI_T2 k2) = (y, k3)" by force
  obtain z k4 where z: "send_block_data block k3 = (z, k4)" by force
  then have l4: "lk_in k4 = lk_in k3 \<and> (z = 0 \<or> z = 3)"
    using write_each_in by (auto simp: send_block_data_frame)
  obtain u k5 where u: "wait_ack k4 = (u, k5)" by force
  show ?thesis
  proof (cases "x = 0")
    case True
    then show ?thesis
      using assms x y z u l2 l4 wait_eot_len [OF y] wait_ack_len [OF u]
      by (cases y rule: ret.exhaust) (auto simp: send_secsI_def split: option.splits if_splits)
  next
    case False
    then show ?thesis using assms x l2 by (auto simp: send_secsI_def)
  qed
qed

function send_retry ::
    "send_env \<Rightarrow> nat \<Rightarrow> byte list \<Rightarrow> msg_state \<Rightarrow> (u32 ret \<times> msg_state) option" where
  "send_retry env retry block st =
     (if retry = 0 then Some (Ret 0, st)
      else case send_secsI (se_rbit env) block (ms_link st) of
        (Jump j, k) \<Rightarrow> Some (Jump j, st\<lparr>ms_link := k\<rparr>)
      | (Ret e, k) \<Rightarrow>
          if e = 3 then Some (Ret 3, st\<lparr>ms_link := k\<rparr>)
          else if e = 2 then
            (case recv_secs (se_arrays env) (se_now env) True
                (st\<lparr>ms_link := k, ms_tmp := tmp_variable_delete_all (ms_tmp st)\<rparr>) of
               None \<Rightarrow> None
             | Some (Jump j, st1) \<Rightarrow> Some (Jump j, st1)
             | Some (Ret (r, idx, primary), st1) \<Rightarrow>
                 let st2 = (if r \<noteq> 0 then st1
                            else se_resume env (primary = Some True) idx
                                   (st1\<lparr>ms_tmp := tmp_variable_sort (ms_tmp st1)\<rparr>))
                 in if length (lk_in (ms_link st2)) \<le> length (lk_in (ms_link st1))
                    then send_retry env (se_retry env) block st2 else None)
          else if e \<noteq> 0 then
            (if retry - 1 \<noteq> 0 then send_retry env (retry - 1) block (st\<lparr>ms_link := k\<rparr>)
             else Some (Ret 1, st\<lparr>ms_link := k\<rparr>))
          else Some (Ret 0, st\<lparr>ms_link := k\<rparr>))"
  by pat_completeness auto
termination
  by (relation "measures [\<lambda>(env, retry, block, st). length (lk_in (ms_link st)),
        \<lambda>(env, retry, block, st). retry]")
    (auto simp: Let_def dest!: send_secsI_len [OF sym] recv_secs_len)

declare send_retry.simps [simp del]

text \<open>The loop over the blocks, for a message of any size.\<close>

function send_blocks ::
    "send_env \<Rightarrow> secs_msg \<Rightarrow> u32 \<Rightarrow> u32 \<Rightarrow> byte list \<Rightarrow> msg_state \<Rightarrow> (u32 ret \<times> msg_state) option" where
  "send_blocks env msg sysb num body st =
     (let final = (drop 244 body = []);
          block = block_header (se_rbit env) msg sysb num final @ take 244 body
      in case send_retry env (se_retry env) block st of
           None \<Rightarrow> None
         | Some (Jump j, st1) \<Rightarrow> Some (Jump j, st1)
         | Some (Ret e, st1) \<Rightarrow>
             if e \<noteq> 0 \<or> final then Some (Ret e, st1)
             else send_blocks env msg sysb (num + 1) (drop 244 body) st1)"
  by pat_completeness auto
termination
  by (relation "measure (\<lambda>(env, msg, sysb, num, body, st). length body)") auto

declare send_blocks.simps [simp del]

text \<open>The reply is waited for with a timer and an entry of the table of open transactions. The
  comment is printed into 128 characters; \<open>show_num\<close> is the format of the two numbers, \<^verbatim>\<open>%u\<close> here
  and \<^verbatim>\<open>%d\<close> for HSMS.\<close>

definition await_comment :: "(u32 \<Rightarrow> string) \<Rightarrow> send_env \<Rightarrow> secs_msg \<Rightarrow> string" where
  "await_comment show_num env msg =
     ''T3 timeout waiting for <S'' @ show_num (sm_stream msg) @ ''F'' @ show_num (sm_function msg) @ ''> reply at line <'' @ se_line env @ ''>''"

definition await_reply :: "(u32 \<Rightarrow> string) \<Rightarrow> send_env \<Rightarrow> secs_msg \<Rightarrow> u32 \<Rightarrow> msg_state \<Rightarrow> msg_state run option" where
  "await_reply show_num env msg sysb st = do {
     require (length (await_comment show_num env msg) < 128);
     Some (case start_timer (se_now env) (ts_timers (ms_trans st)) (-1) (int (unat (se_t3 env)))
                  (se_program env) (se_timeout_msg env) (await_comment show_num env msg) of
             Exit \<Rightarrow> Exit
           | Done (tms, i, tmo) \<Rightarrow>
               (case open_trans_table_add (se_now env) (ts_trans (ms_trans st)) (se_program env) sysb
                       (of_nat i) (se_t3 env) of
                  Exit \<Rightarrow> Exit
                | Done trs \<Rightarrow> Done (st\<lparr>ms_trans := \<lparr>ts_trans = trs, ts_timers = tms\<rparr>\<rparr>)))
   }"

text \<open>The return code and, if it is set, whether a reply is waited for.\<close>

definition finish_send ::
    "(u32 \<Rightarrow> string) \<Rightarrow> send_env \<Rightarrow> secs_msg \<Rightarrow> u32 \<Rightarrow> u32 \<Rightarrow> msg_state \<Rightarrow> ((u32 \<times> bool option) \<times> msg_state) run option" where
  "finish_send show_num env msg sysb e st =
     (if e \<noteq> 0 then Some (Done ((e, None), st))
      else if sm_wait msg \<noteq> 0
      then run_bind (await_reply show_num env msg sysb st) (\<lambda>st1. Some (Done ((e, Some True), st1)))
      else Some (Done ((e, Some False), st)))"

text \<open>\<open>enc\<close> is what \<open>secs_encode\<close> made of the program text: its return code and the message.
  After the encoding the source sets both \<open>iret\<close> and \<open>msg_size\<close> to 0, and \<open>block_num\<close> is not
  initialised when the encoding has failed.\<close>

definition send_secsII ::
    "send_env \<Rightarrow> u32 \<Rightarrow> u32 \<times> secs_msg \<Rightarrow> msg_state \<Rightarrow>
     ((u32 \<times> bool option) ret \<times> msg_state) run option" where
  "send_secsII env sysb enc st =
     (case enc of (e, msg) \<Rightarrow> do {
        require (e = 0);
        r \<leftarrow> send_blocks env msg sysb 1 [] st;
        (case r of
           (Jump j, st1) \<Rightarrow> Some (Done (Jump j, st1))
         | (Ret e1, st1) \<Rightarrow>
             run_bind (finish_send print_u env msg sysb e1 st1) (\<lambda>(w, st2). Some (Done (Ret w, st2))))
      })"

definition send_secs ::
    "send_env \<Rightarrow> u32 \<times> secs_msg \<Rightarrow> msg_state \<Rightarrow> ((u32 \<times> bool option) ret \<times> msg_state) run option" where
  "send_secs env enc st =
     (let (sysb, g) = secs_inc_system_bytes (ms_secs st)
      in send_secsII env sysb enc (st\<lparr>ms_secs := g\<rparr>))"

definition send_secs_reply ::
    "send_env \<Rightarrow> u32 \<times> secs_msg \<Rightarrow> msg_state \<Rightarrow> ((u32 \<times> bool option) ret \<times> msg_state) run option" where
  "send_secs_reply env enc st = send_secsII env (secs_get_system_bytes (ms_secs st)) enc st"

subsection \<open>Lemmas: a message in blocks\<close>

function msg_blocks :: "bool \<Rightarrow> secs_msg \<Rightarrow> u32 \<Rightarrow> u32 \<Rightarrow> byte list \<Rightarrow> byte list list" where
  "msg_blocks rbit msg sysb num body =
     (block_header rbit msg sysb num (drop 244 body = []) @ take 244 body) #
     (if drop 244 body = [] then [] else msg_blocks rbit msg sysb (num + 1) (drop 244 body))"
  by pat_completeness auto
termination
  by (relation "measure (\<lambda>(rbit, msg, sysb, num, body). length body)") auto

declare msg_blocks.simps [simp del]

lemma length_block_header [simp]: "length (block_header rbit msg sysb num final) = 10"
  by (simp add: block_header_def)

lemma msg_blocks_ok: "b \<in> set (msg_blocks rbit msg sysb num body) \<Longrightarrow> block_ok b"
proof (induction rbit msg sysb num body rule: msg_blocks.induct)
  case (1 rbit msg sysb num body)
  have "block_ok (block_header rbit msg sysb num f @ take 244 body)" for f
    by (simp add: block_ok_def)
  then show ?case using 1 by (subst (asm) (2) msg_blocks.simps) (auto split: if_splits)
qed

text \<open>Blocks that are all acknowledged.\<close>

definition acks :: "byte list list \<Rightarrow> event list" where
  "acks bs = concat (map (\<lambda>b. [Data EOT, Data ACK]) bs)"

definition frames :: "byte list list \<Rightarrow> byte list" where
  "frames bs = concat (map (\<lambda>b. ENQ # frame b) bs)"

lemma acks_simps [simp]:
  "acks [] = []" "acks (b # bs) = Data EOT # Data ACK # acks bs"
  by (simp_all add: acks_def)

lemma frames_simps [simp]:
  "frames [] = []" "frames (b # bs) = ENQ # frame b @ frames bs"
  by (simp_all add: frames_def)

lemma send_retry_ok:
  assumes "lk_in (ms_link st) = Data EOT # Data ACK # es" "quiet (ms_link st)"
    "length block + 4 \<le> lk_room (ms_link st)" "0 < retry"
  shows "send_retry env retry block st = Some (Ret 0, st\<lparr>ms_link := (ms_link st)\<lparr>lk_in := es,
    lk_out := lk_out (ms_link st) @ ENQ # frame block,
    lk_room := lk_room (ms_link st) - (length block + 4)\<rparr>\<rparr>)"
  using send_secsI_ok [OF assms(1-3), of "se_rbit env"] assms(4)
  by (subst send_retry.simps) simp

lemma quiet_link [simp]:
  "quiet (k\<lparr>lk_in := a, lk_out := b, lk_room := c\<rparr>) = quiet k"
  by (simp add: quiet_def)

lemma send_blocks_ok:
  assumes "lk_in (ms_link st) = acks (msg_blocks (se_rbit env) msg sysb num body) @ es"
    "quiet (ms_link st)" "length (frames (msg_blocks (se_rbit env) msg sysb num body)) \<le> lk_room (ms_link st)"
    "0 < se_retry env"
  shows "\<exists>st1. send_blocks env msg sysb num body st = Some (Ret 0, st1) \<and>
    st1 = st\<lparr>ms_link := (ms_link st)\<lparr>lk_in := es,
      lk_out := lk_out (ms_link st) @ frames (msg_blocks (se_rbit env) msg sysb num body),
      lk_room := lk_room (ms_link st) - length (frames (msg_blocks (se_rbit env) msg sysb num body))\<rparr>\<rparr>"
  using assms
proof (induction env msg sysb num body st rule: send_blocks.induct)
  case (1 env msg sysb num body st)
  let ?final = "drop 244 body = []" and ?k = "ms_link st"
  let ?block = "block_header (se_rbit env) msg sysb num ?final @ take 244 body"
  let ?rest = "if ?final then [] else msg_blocks (se_rbit env) msg sysb (num + 1) (drop 244 body)"
  have mb: "msg_blocks (se_rbit env) msg sysb num body = ?block # ?rest"
    by (subst msg_blocks.simps) simp
  let ?st = "st\<lparr>ms_link := ?k\<lparr>lk_in := acks ?rest @ es, lk_out := lk_out ?k @ ENQ # frame ?block,
    lk_room := lk_room ?k - (length ?block + 4)\<rparr>\<rparr>"
  have s: "send_retry env (se_retry env) ?block st = Some (Ret 0, ?st)"
    using 1(2-5) unfolding mb by (intro send_retry_ok) simp_all
  show ?case
  proof (cases ?final)
    case True
    then show ?thesis unfolding mb using s by (subst send_blocks.simps) simp
  next
    case False
    have "\<exists>st1. send_blocks env msg sysb (num + 1) (drop 244 body) ?st = Some (Ret 0, st1) \<and>
      st1 = ?st\<lparr>ms_link := (ms_link ?st)\<lparr>lk_in := es, lk_out := lk_out (ms_link ?st) @ frames ?rest,
      lk_room := lk_room (ms_link ?st) - length (frames ?rest)\<rparr>\<rparr>"
      using 1(1) [OF refl refl s refl refl] 1(3-5) False unfolding mb by simp
    then show ?thesis unfolding mb using s False
      by (subst send_blocks.simps) (simp add: add.commute)
  qed
qed
lemma mark_bit: "b AND 0x80 \<noteq> 0 \<longleftrightarrow> bit (b :: byte) 7"
  using and_exp_eq_0_iff_not_bit [of b 7] by simp

lemma header_final:
  assumes "num < 2 ^ 15"
  shows "(block_header rbit msg sysb num final @ d) ! 4 AND 0x80 \<noteq> 0 \<longleftrightarrow> final"
proof -
  have "\<not> bit num 15" using assms by (simp add: bit_iff_odd div_word_less)
  then show ?thesis
    by (simp add: mark_bit block_header_def bit_or_iff bit_and_iff bit_unsigned_iff bit_drop_bit_eq
        nth_append)
qed

lemma header_number: "(block_header rbit msg sysb num final) ! 5 = ucast (num AND 255)"
  by (simp add: block_header_def)

lemma number_differs: "(ucast (num AND 255) :: byte) \<noteq> ucast ((num + 1) AND 255)" for num :: u32
proof -
  have "bit (ucast w :: byte) 0 = bit w 0" for w :: u32 by (simp only: bit_unsigned_iff) simp
  then have "odd (ucast w :: byte) = odd w" for w :: u32 by (simp only: bit_0)
  then have "odd (ucast (num AND 255) :: byte) \<noteq> odd (ucast ((num + 1) AND 255) :: byte)"
    by (simp add: even_and_iff)
  then show ?thesis by metis
qed

lemma start_T4:
  "lk_timers k 4 = None \<Longrightarrow> start_t 4 Recv_T4 k = k\<lparr>lk_timers := (lk_timers k)(4 \<mapsto> Recv_T4)\<rparr>"
  by (simp add: start_proto_timer_def MAX_PROTO_TIMERS_def)

lemma stop_T34:
  "stop_t34 k = k\<lparr>lk_timers := (lk_timers k)(3 := None, 4 := None)\<rparr>"
  by (simp add: stop_proto_timer_def MAX_PROTO_TIMERS_def)

lemma block_parts [simp]:
  "take 10 (block_header rbit msg sysb num final @ d) = block_header rbit msg sysb num final"
  "drop 10 (block_header rbit msg sysb num final @ d) = d"
  by simp_all

text \<open>The receiver, from the middle of a message on: \<open>prev\<close> must not be mistaken for the next
  header.\<close>

definition fresh_prev :: "byte list option \<Rightarrow> byte list \<Rightarrow> u32 \<Rightarrow> bool" where
  "fresh_prev hdr prev num \<longleftrightarrow>
     prev ! 5 \<noteq> ucast ((if hdr = None then num + 1 else num) AND 255)"

lemma add_block_fresh:
  assumes "fresh_prev hdr prev num"
  shows "\<exists>prev1. add_block hdr prev acc (block_header rbit msg sysb num final @ d) =
      (case hdr of None \<Rightarrow> block_header rbit msg sysb num final | Some h \<Rightarrow> h, prev1, acc @ d) \<and>
    fresh_prev (Some h1) prev1 (num + 1)"
proof (cases hdr)
  case None
  then show ?thesis using assms by (simp add: add_block_def fresh_prev_def)
next
  case (Some h)
  then have "block_header rbit msg sysb num final \<noteq> prev"
    using assms header_number [of rbit msg sysb num final] by (auto simp: fresh_prev_def)
  then show ?thesis using Some number_differs [of num]
    by (simp add: add_block_def fresh_prev_def header_number)
qed

lemma recv_blocks_ok:
  assumes "lk_in k = map Data (frames (msg_blocks rbit msg sysb num body)) @ es"
    "lk_timers k = Map.empty \<or> lk_timers k = [4 \<mapsto> Recv_T4]"
    "2 * length (msg_blocks rbit msg sysb num body) \<le> lk_room k"
    "unat num + length (msg_blocks rbit msg sysb num body) \<le> 2 ^ 15" "fresh_prev hdr prev num"
  shows "recv_blocks False hdr prev acc k =
    (Ret (0, Some (case hdr of None \<Rightarrow> take 10 (hd (msg_blocks rbit msg sysb num body)) | Some h \<Rightarrow> h),
       acc @ body),
     k\<lparr>lk_in := es, lk_out := lk_out k @ concat (map (\<lambda>b. [EOT, ACK]) (msg_blocks rbit msg sysb num body)),
       lk_room := lk_room k - 2 * length (msg_blocks rbit msg sysb num body), lk_timers := Map.empty\<rparr>)"
  using assms
proof (induction rbit msg sysb num body arbitrary: hdr prev acc k rule: msg_blocks.induct)
  case (1 rbit msg sysb num body)
  let ?final = "drop 244 body = []"
  let ?h = "block_header rbit msg sysb num ?final"
  let ?block = "?h @ take 244 body"
  let ?rest = "if ?final then [] else msg_blocks rbit msg sysb (num + 1) (drop 244 body)"
  have mb: "msg_blocks rbit msg sysb num body = ?block # ?rest"
    by (subst msg_blocks.simps) simp
  have num: "num < 2 ^ 15" using 1(5) unfolding mb by (simp add: word_less_nat_alt)
  define h where "h = (case hdr of None \<Rightarrow> ?h | Some h \<Rightarrow> h)"
  obtain prev1 where a: "add_block hdr prev acc ?block = (h, prev1, acc @ take 244 body)"
    "fresh_prev (Some h) prev1 (num + 1)"
    using add_block_fresh [OF 1(6), of acc rbit msg sysb ?final "take 244 body" h] by (auto simp: h_def)
  let ?k1 = "k\<lparr>lk_in := map Data (frames ?rest) @ es, lk_out := lk_out k @ [EOT, ACK],
    lk_room := lk_room k - 2\<rparr>"
  have r: "recv_secsI False k = (Inl ?block, ?k1)"
    using 1(2,4) 1(3) unfolding mb by (intro recv_secsI_ok) (auto simp: quiet_def block_ok_def)
  have "(lk_timers k)(3 := None, 4 := None) = Map.empty" using 1(3) by auto
  then have t: "stop_t34 (k\<lparr>lk_in := i, lk_out := out, lk_room := m\<rparr>) =
      k\<lparr>lk_in := i, lk_out := out, lk_room := m, lk_timers := Map.empty\<rparr>" for i out m
    by (simp add: stop_T34)
  have s: "start_t 4 Recv_T4 (k\<lparr>lk_in := i, lk_out := out, lk_room := m, lk_timers := Map.empty\<rparr>) =
      k\<lparr>lk_in := i, lk_out := out, lk_room := m, lk_timers := [4 \<mapsto> Recv_T4]\<rparr>" for i out m
    by (simp add: start_T4)
  have e: "?block ! 4 AND 0x80 \<noteq> 0 \<longleftrightarrow> ?final" using num by (rule header_final)
  have hd: "(case hdr of None \<Rightarrow> take 10 (hd (?block # ?rest)) | Some h \<Rightarrow> h) = h"
    by (cases hdr) (simp_all add: h_def del: drop_eq_Nil)
  show ?case
  proof (cases ?final)
    case True
    then show ?thesis unfolding mb hd using r a t e
      by (subst recv_blocks.simps) (simp add: stop_T34)
  next
    case False
    let ?k2 = "?k1\<lparr>lk_timers := [4 \<mapsto> Recv_T4]\<rparr>"
    have "unat num < 32768" using num by (simp add: word_less_nat_alt)
    then have n: "unat (num + 1) = unat num + 1" using unat_add_of_nat_u32 [of num 1] by simp
    have "recv_blocks False (Some h) prev1 (acc @ take 244 body) ?k2 =
      (Ret (0, Some h, (acc @ take 244 body) @ drop 244 body),
       ?k2\<lparr>lk_in := es, lk_out := lk_out ?k2 @ concat (map (\<lambda>b. [EOT, ACK]) ?rest),
         lk_room := lk_room ?k2 - 2 * length ?rest, lk_timers := Map.empty\<rparr>)"
      using 1(1) [OF False, of ?k2 "Some h" prev1 "acc @ take 244 body"] 1(4,5) a(2) False n
      unfolding mb by simp
    then have "recv_blocks False hdr prev acc k =
      (Ret (0, Some h, (acc @ take 244 body) @ drop 244 body),
       ?k2\<lparr>lk_in := es, lk_out := lk_out ?k2 @ concat (map (\<lambda>b. [EOT, ACK]) ?rest),
         lk_room := lk_room ?k2 - 2 * length ?rest, lk_timers := Map.empty\<rparr>)"
      using r a(1) e False by (subst recv_blocks.simps) (simp add: Let_def s t)
    then show ?thesis unfolding mb hd by simp
  qed
qed

subsection \<open>Lemmas: the header of the message\<close>

lemma header_system_bytes_ok:
  assumes "unat sysb < 2 ^ 31"
  shows "header_system_bytes (block_header rbit msg sysb num final) = Some sysb"
proof -
  let ?n = "unat sysb"
  have b: "unat (ucast (drop_bit k sysb AND 0xFF) :: byte) = ?n div 2 ^ k mod 256"
    "unat (ucast (sysb AND 0xFF) :: byte) = ?n mod 256" for k
    by (rule size_byte)+
  have "?n div 16777216 < 128" using assms by (simp add: less_mult_imp_div_less)
  then have h: "?n div 2 ^ 24 mod 256 = ?n div 16777216" "?n div 16777216 < 128" by simp_all
  have "?n div 16777216 * 16777216 + ?n div 65536 mod 256 * 65536 + ?n div 256 mod 256 * 256 + ?n mod 256 = ?n"
  proof -
    have "?n div 65536 = ?n div 65536 div 256 * 256 + ?n div 65536 mod 256" by (rule div_mult_mod_eq [symmetric])
    then have "?n div 65536 * 65536 = ?n div 16777216 * 16777216 + ?n div 65536 mod 256 * 65536"
      by (simp add: div_mult2_eq [symmetric])
    then show ?thesis using three_bytes [of ?n] by linarith
  qed
  then show ?thesis using h
    by (simp add: header_system_bytes_def block_header_def b)
qed

lemma header_fields:
  assumes "unat (sm_stream msg) < 128" "unat (sm_function msg) < 256"
  shows "block_header rbit msg sysb num final ! 2 AND 0x7F = ucast (sm_stream msg)"
    "unat (ucast (sm_stream msg) :: byte) = unat (sm_stream msg)"
    "block_header rbit msg sysb num final ! 3 = ucast (sm_function msg)"
    "unat (ucast (sm_function msg) :: byte) = unat (sm_function msg)"
proof -
  show u: "unat (ucast (sm_stream msg) :: byte) = unat (sm_stream msg)"
    using assms(1) by (simp add: unat_ucast_byte)
  have "(ucast (sm_stream msg) :: byte) AND 0x7F = ucast (sm_stream msg)"
  proof -
    have "(ucast (sm_stream msg) :: byte) < 2 ^ 7" using u assms(1) by (simp add: word_less_nat_alt)
    then have "take_bit 7 (ucast (sm_stream msg) :: byte) = ucast (sm_stream msg)"
      by (simp add: take_bit_eq_self_iff_drop_bit_eq_0 drop_bit_eq_div div_word_less)
    then show ?thesis by (simp add: take_bit_eq_mask mask_eq_exp_minus_1)
  qed
  moreover have "(0x80 :: byte) AND 0x7F = 0" by simp
  ultimately show "block_header rbit msg sysb num final ! 2 AND 0x7F = ucast (sm_stream msg)"
    by (simp add: block_header_def bit.conj_disj_distrib2)
  show "block_header rbit msg sysb num final ! 3 = ucast (sm_function msg)"
    by (simp add: block_header_def)
  show "unat (ucast (sm_function msg) :: byte) = unat (sm_function msg)"
    using assms(2) by (simp add: unat_ucast_byte)
qed

text \<open>What the three header variables hold.\<close>

lemma add_string:
  assumes "tmp_roomy t (Suc n)" "no_nul v"
  shows "\<exists>t1. tmp_variable_add t name v (-1) = Some t1 \<and> tmp_roomy t1 n \<and>
    tt_vars t1 = tt_vars t @ [added_var name v]"
  using tmp_add_string_ok [of t v name] assms by (auto simp: tmp_roomy_def)

definition header_vars :: "byte list \<Rightarrow> (string \<times> string) list" where
  "header_vars header =
     [(''SXFY'', msg_prefix header), (msg_prefix header @ ''.DEVICE_ID'', device_num header),
      (msg_prefix header @ ''.WAIT_BIT'', wait_text header)]"

lemma store_header_ok:
  assumes "tmp_roomy t (n + 3)"
  shows "\<exists>t1. store_header header t = Some t1 \<and> tmp_roomy t1 n \<and>
    tt_vars t1 = tt_vars t @ map (\<lambda>(k, v). added_var k v) (header_vars header)"
proof -
  have nn: "no_nul (msg_prefix header)" "no_nul (device_num header)" "no_nul (wait_text header)"
    by (simp_all add: msg_prefix_def device_num_def wait_text_def)
  have "tmp_roomy t (Suc (n + 2))" using assms by (simp add: eval_nat_numeral)
  then obtain t1 where t1: "tmp_variable_add t ''SXFY'' (msg_prefix header) (-1) = Some t1"
    "tmp_roomy t1 (Suc (n + 1))" "tt_vars t1 = tt_vars t @ [added_var ''SXFY'' (msg_prefix header)]"
    using add_string [OF _ nn(1)] by fastforce
  obtain t2 where t2: "tmp_variable_add t1 (msg_prefix header @ ''.DEVICE_ID'') (device_num header) (-1) = Some t2"
    "tmp_roomy t2 (Suc n)" "tt_vars t2 = tt_vars t1 @ [added_var (msg_prefix header @ ''.DEVICE_ID'') (device_num header)]"
    using add_string [OF t1(2) nn(2)] by fastforce
  obtain t3 where "tmp_variable_add t2 (msg_prefix header @ ''.WAIT_BIT'') (wait_text header) (-1) = Some t3"
    "tmp_roomy t3 n" "tt_vars t3 = tt_vars t2 @ [added_var (msg_prefix header @ ''.WAIT_BIT'') (wait_text header)]"
    using add_string [OF t2(2) nn(3)] by fastforce
  then show ?thesis using t1(1,3) t2(1,3) by (simp add: store_header_def header_vars_def)
qed

lemma is_digit_utoa: "is_digit (hd (my_utoa n))" "my_utoa n \<noteq> []"
  using utoa_loop_hd_digit [of n "[]"] by (simp_all add: my_utoa_def)

lemma record_vars_ok:
  assumes "list_all field_ok fds" "length fds < 2 ^ 24"
  shows "distinct (map fst (header_vars header @ field_vars (msg_prefix header) fds))"
    "\<forall>v \<in> snd ` set (header_vars header @ field_vars (msg_prefix header) fds). length v < 2 ^ 32"
proof -
  have l: "length (my_utoa (unat b)) \<le> 3" for b :: byte
    using my_utoa_length_le [of "unat b" 2] unat_byte_less [of b] by simp
  have "unat (header ! 0 AND 0x7F) * 256 + unat (header ! 1) < 10 ^ Suc 5"
  proof -
    have "a * 256 + b < 10 ^ Suc 5" if "a < 256" "b < 256" for a b :: nat using that by simp
    then show ?thesis using unat_byte_less by blast
  qed
  then have d: "length (device_num header) \<le> 6" unfolding device_num_def
    using my_utoa_length_le [of "unat (header ! 0 AND 0x7F) * 256 + unat (header ! 1)" 5] by simp
  have p: "length (msg_prefix header) \<le> 8" unfolding msg_prefix_def
    using l [of "header ! 2 AND 0x7F"] l [of "header ! 3"] by simp
  have sx: "msg_prefix header @ r \<noteq> ''SXFY''" for r
    using is_digit_utoa [of "unat (header ! 2 AND 0x7F)"]
    by (cases "my_utoa (unat (header ! 2 AND 0x7F))") (auto simp: msg_prefix_def is_digit_def)
  show "distinct (map fst (header_vars header @ field_vars (msg_prefix header) fds))"
    using field_vars_ok(1) [OF assms, of "msg_prefix header"] sx
    by (auto simp: header_vars_def field_vars_def field_name_def) (metis append.assoc)+
  show "\<forall>v \<in> snd ` set (header_vars header @ field_vars (msg_prefix header) fds). length v < 2 ^ 32"
    using field_vars_ok(2) [OF assms, of "msg_prefix header"] p d
    by (auto simp: header_vars_def wait_text_def)
qed

lemma msg_prefix_length: "length (msg_prefix header) \<le> 25"
proof -
  have l: "length (my_utoa (unat b)) \<le> 3" for b :: byte
    using my_utoa_length_le [of "unat b" 2] unat_byte_less [of b] by simp
  show ?thesis unfolding msg_prefix_def
    using l [of "header ! 2 AND 0x7F"] l [of "header ! 3"] by simp
qed

subsection \<open>Lemmas: failures\<close>

lemma send_secsI_nak:
  assumes "lk_in k = Data EOT # Data NAK # es" "quiet k" "length block + 4 \<le> lk_room k"
  shows "send_secsI rbit block k =
    (Ret 1, k\<lparr>lk_in := es, lk_out := lk_out k @ ENQ # frame block,
              lk_room := lk_room k - (length block + 4)\<rparr>)"
proof -
  let ?k1 = "k\<lparr>lk_out := lk_out k @ [ENQ], lk_room := lk_room k - 1\<rparr>"
  let ?k2 = "?k1\<lparr>lk_in := Data NAK # es\<rparr>"
  let ?k3 = "?k2\<lparr>lk_out := lk_out k @ ENQ # frame block, lk_room := lk_room k - (length block + 4)\<rparr>"
  have "my_writec ENQ k = (0, ?k1)" using assms(3) by (simp add: my_writec_def)
  moreover have "wait_eot rbit (start_t 2 SendI_T2 ?k1) = (Ret None, ?k2)"
    using start_read_stop [of ?k1 EOT "Data NAK # es" 2 SendI_T2] assms(1,2)
    by (subst wait_eot.simps) (simp add: quiet_def)
  moreover have "send_block_data block ?k2 = (0, ?k3)"
    using assms(3) by (simp add: send_block_data_frame write_each_ok)
  moreover have "wait_ack ?k3 = (Ret 1, ?k3\<lparr>lk_in := es\<rparr>)"
    using start_read_stop [of ?k3 NAK es 2 SendI_T2] assms(2)
    by (simp add: wait_ack_def quiet_def secs_chars)
  ultimately show ?thesis by (simp add: send_secsI_def)
qed

definition naks :: "nat \<Rightarrow> event list" where
  "naks n = concat (replicate n [Data EOT, Data NAK])"

lemma send_retry_nak:
  assumes "lk_in (ms_link st) = naks (Suc n) @ es" "quiet (ms_link st)"
    "Suc n * (length block + 4) \<le> lk_room (ms_link st)"
  shows "send_retry env (Suc n) block st = Some (Ret 1, st\<lparr>ms_link := (ms_link st)\<lparr>lk_in := es,
    lk_out := lk_out (ms_link st) @ concat (replicate (Suc n) (ENQ # frame block)),
    lk_room := lk_room (ms_link st) - Suc n * (length block + 4)\<rparr>\<rparr>)"
  using assms
proof (induction n arbitrary: st)
  case (Suc n)
  let ?k = "ms_link st"
  let ?st = "st\<lparr>ms_link := ?k\<lparr>lk_in := naks (Suc n) @ es, lk_out := lk_out ?k @ ENQ # frame block,
    lk_room := lk_room ?k - (length block + 4)\<rparr>\<rparr>"
  have "send_secsI (se_rbit env) block ?k = (Ret 1, ms_link ?st)"
    using send_secsI_nak [of ?k "naks (Suc n) @ es" block "se_rbit env"] Suc.prems by (simp add: naks_def)
  moreover have "send_retry env (Suc n) block ?st = Some (Ret 1, ?st\<lparr>ms_link := (ms_link ?st)\<lparr>lk_in := es,
    lk_out := lk_out (ms_link ?st) @ concat (replicate (Suc n) (ENQ # frame block)),
    lk_room := lk_room (ms_link ?st) - Suc n * (length block + 4)\<rparr>\<rparr>)"
    using Suc.prems by (intro Suc.IH) auto
  ultimately show ?case
    by (subst send_retry.simps) (simp add: algebra_simps)
next
  case 0
  then show ?case using send_secsI_nak [of "ms_link st" es block "se_rbit env"]
    by (subst send_retry.simps) (simp add: naks_def)
qed

text \<open>The line goes silent after a block that is not the last one.\<close>

lemma recv_secsI_T4:
  assumes "lk_in k = Fire 4 # es" "lk_timers k = [4 \<mapsto> Recv_T4]"
  shows "recv_secsI False k = (Inr (Jump Recv_T4), k\<lparr>lk_in := es, lk_timers := Map.empty\<rparr>)"
  using assms by (simp add: recv_secsI_def recv_enq_def my_readc_def read_link_def)

lemma recv_blocks_T4:
  assumes "lk_in k = map Data (ENQ # frame block) @ Fire 4 # es" "lk_timers k = Map.empty"
    "block_ok block" "block ! 4 AND 0x80 = 0" "2 \<le> lk_room k"
  shows "recv_blocks False None (replicate 10 0) [] k =
    (Ret (1, Some (take 10 block), drop 10 block),
     k\<lparr>lk_in := es, lk_out := lk_out k @ [EOT, ACK], lk_room := lk_room k - 2\<rparr>)"
proof -
  let ?k1 = "k\<lparr>lk_in := Fire 4 # es, lk_out := lk_out k @ [EOT, ACK], lk_room := lk_room k - 2\<rparr>"
  have e: "(\<lambda>x. if x = 4 then None else if x = 3 then None else None) = Map.empty" by auto
  have "recv_secsI False k = (Inl block, ?k1)"
    using assms by (intro recv_secsI_ok) (simp_all add: quiet_def)
  moreover have "stop_t34 ?k1 = ?k1" using assms(2) by (simp add: stop_T34 fun_upd_idem)
  moreover have "start_t 4 Recv_T4 ?k1 = ?k1\<lparr>lk_timers := [4 \<mapsto> Recv_T4]\<rparr>"
    using assms(2) by (simp add: start_T4)
  moreover have "recv_blocks False (Some (take 10 block)) (replicate 10 0) (drop 10 block)
      (?k1\<lparr>lk_timers := [4 \<mapsto> Recv_T4]\<rparr>) =
    (Ret (1, Some (take 10 block), drop 10 block),
     k\<lparr>lk_in := es, lk_out := lk_out k @ [EOT, ACK], lk_room := lk_room k - 2\<rparr>)"
    using recv_secsI_T4 [of "?k1\<lparr>lk_timers := [4 \<mapsto> Recv_T4]\<rparr>" es] assms(2)
    by (subst recv_blocks.simps) (simp add: stop_T34 fun_upd_idem)
  ultimately show ?thesis using assms(4)
    by (subst recv_blocks.simps) (simp add: add_block_def Let_def)
qed

subsection \<open>Lemmas: a message of one list of fields\<close>

lemma take_message_record:
  assumes "list_all field_ok fds" "fds \<noteq> []" "length fds < 2 ^ 24"
    "length (enc_item (SList (map field_item fds))) < 2 ^ 32"
    "odd (unat (header ! 3))" "tt_vars (ms_tmp st) = []" "msg_prefix header = prefix"
  shows "\<exists>t. take_message True now header (enc_item (SList (map field_item fds))) sysb st =
      Some ((0, None, True), st\<lparr>ms_tmp := t, ms_secs := secs_set_system_bytes (ms_secs st) sysb\<rparr>) \<and>
    tmp_variable_get (tmp_variable_sort t) ''SXFY'' = Some (0, prefix) \<and>
    tmp_variable_get (tmp_variable_sort t) (prefix @ ''.1'') = Some (0, my_utoa (length fds)) \<and>
    (\<forall>i < length fds. tmp_variable_get (tmp_variable_sort t) (field_name prefix (Suc i)) =
       Some (0, field_text (fds ! i)))"
proof -
  define body where "body = enc_item (SList (map field_item fds))"
  have "tmp_roomy (ms_tmp st) (length fds + 1 + 3)"
    using assms(3,6) by (simp add: tmp_roomy_def tmp_grown_def)
  then obtain t1 where t1: "store_header header (ms_tmp st) = Some t1" "tmp_roomy t1 (length fds + 1)"
    "tt_vars t1 = tt_vars (ms_tmp st) @ map (\<lambda>(k, v). added_var k v) (header_vars header)"
    using store_header_ok by blast
  have "length prefix \<le> 25" using msg_prefix_length [of header] assms(7) by simp
  then have d: "\<exists>log t. secs_decode prefix body (log0, t1) = Some (0, log, t) \<and> tmp_roomy t 0 \<and>
    tt_vars t = tt_vars t1 @ added_var (prefix @ ''.1'') (my_utoa (length fds)) #
      map (\<lambda>i. added_var (field_name prefix (Suc i)) (field_text (fds ! i))) [0..<length fds]" for log0
    using secs_decode_fields [of prefix fds t1 0] t1(2) assms(1-4) by (simp add: body_def)
  obtain log t where t: "secs_decode prefix body (prefix @ '' DEVICE_ID='' @ device_num header @
      '' WAIT_BIT='' @ wait_text header @ NL, t1) = Some (0, log, t)" "tmp_roomy t 0"
    "tt_vars t = tt_vars t1 @ added_var (prefix @ ''.1'') (my_utoa (length fds)) #
      map (\<lambda>i. added_var (field_name prefix (Suc i)) (field_text (fds ! i))) [0..<length fds]"
    using d by blast
  let ?kvs = "header_vars header @ field_vars prefix fds"
  have "added_only t ?kvs"
    using record_vars_ok [OF assms(1,3), of header] t(3) t1(3) assms(6,7)
    by (simp add: added_only_def field_vars_def)
  then have get: "tmp_variable_get (tmp_variable_sort t) k = Some (0, v)" if "(k, v) \<in> set ?kvs" for k v
    using added_only_get that t(2) by (auto simp: tmp_roomy_def)
  have "take_message True now header body sysb st = Some ((0, None, True),
      st\<lparr>ms_tmp := t, ms_secs := secs_set_system_bytes (ms_secs st) sysb\<rparr>)"
    using t(1) t1(1) assms(5,7)
    by (simp add: take_message_def store_message_def route_message_def Let_def odd_iff_mod_2_eq_one)
  then show ?thesis
    using get [of "''SXFY''" prefix] get [of "prefix @ ''.1''" "my_utoa (length fds)"] get assms(7)
    by (auto simp: header_vars_def field_vars_def body_def)
qed


section \<open>Properties\<close>

lemma hd_msg_blocks:
  "take 10 (hd (msg_blocks rbit msg sysb num body)) = block_header rbit msg sysb num (length body \<le> 244)"
  by (subst msg_blocks.simps) simp


definition example_link :: "event list \<Rightarrow> link" where
  "example_link es = \<lparr>lk_in = es, lk_out = [], lk_room = 1000, lk_up = True, lk_timers = Map.empty\<rparr>"

definition example_env :: send_env where
  "example_env = \<lparr>se_rbit = False, se_retry = 3, se_arrays = True, se_now = 0, se_t3 = 45, se_program = 0,
     se_line = [], se_timeout_msg = [], se_resume = (\<lambda>p i s. s)\<rparr>"

definition example_msg :: secs_msg where
  "example_msg = \<lparr>sm_stream = 1, sm_function = 1, sm_device = 0, sm_wait = 0, sm_body = []\<rparr>"

definition example_state :: "event list \<Rightarrow> msg_state" where
  "example_state es = \<lparr>ms_link = example_link es, ms_tmp = tmp_init,
     ms_trans = \<lparr>ts_trans = trans_init, ts_timers = timers_init\<rparr>,
     ms_secs = \<lparr>saved_system_bytes = 0, system_bytes = 0\<rparr>\<rparr>"

lemmas example_defs = example_link_def example_env_def example_msg_def example_state_def

lemma example_blocks:
  "length body \<le> 244 \<Longrightarrow> msg_blocks rbit msg sysb num body = [block_header rbit msg sysb num True @ body]"
  by (subst msg_blocks.simps) simp

lemma example_two_blocks:
  "msg_blocks rbit msg sysb num (replicate 300 7) =
     [block_header rbit msg sysb num False @ replicate 244 7,
      block_header rbit msg sysb (num + 1) True @ replicate 56 7]"
  by (subst msg_blocks.simps) (simp add: example_blocks)




text \<open>C10. A message whose encoding succeeded is sent without its body: \<open>send_secsII\<close> sets
  \<open>msg_size\<close> to 0 before the loop, so one block with nothing but the header goes out, whatever the
  body holds.\<close>

theorem send_secsII_header_only:
  assumes "lk_in (ms_link st) = Data EOT # Data ACK # es" "quiet (ms_link st)"
    "14 \<le> lk_room (ms_link st)" "0 < se_retry env" "sm_wait msg = 0"
  shows "\<exists>st1. send_secsII env sysb (0, msg) st = Some (Done (Ret (0, Some False), st1)) \<and>
    lk_out (ms_link st1) =
      lk_out (ms_link st) @ ENQ # frame (block_header (se_rbit env) msg sysb 1 True)"
proof -
  have "msg_blocks (se_rbit env) msg sysb 1 [] = [block_header (se_rbit env) msg sysb 1 True]"
    by (simp add: example_blocks)
  then obtain st1 where "send_blocks env msg sysb 1 [] st = Some (Ret 0, st1)"
    "lk_out (ms_link st1) =
      lk_out (ms_link st) @ ENQ # frame (block_header (se_rbit env) msg sysb 1 True)"
    using send_blocks_ok [of st env msg sysb 1 "[]" es] assms(1-4) by auto
  then show ?thesis using assms(5) by (simp add: send_secsII_def finish_send_def)
qed

theorem send_secsII_header_only_witness:
  "\<exists>st1. send_secsII example_env 5 (0, example_msg\<lparr>sm_body := [1, 2, 3]\<rparr>)
      (example_state [Data EOT, Data ACK]) = Some (Done (Ret (0, Some False), st1)) \<and>
    length (lk_out (ms_link st1)) = 14"
  using send_secsII_header_only [of "example_state [Data EOT, Data ACK]" "[]" example_env
      "example_msg\<lparr>sm_body := [1, 2, 3]\<rparr>" 5]
  by (auto simp: example_defs quiet_def)



text \<open>When the line is silent for T4 after a block that is not the last one, \<open>recv_secs\<close> returns
  1: no variable is stored, the system bytes and the open transactions are as before.\<close>

theorem recv_secs_T4:
  assumes "lk_in (ms_link st) = map Data (ENQ # frame block) @ Fire 4 # es"
    "lk_timers (ms_link st) = Map.empty" "block_ok block" "block ! 4 AND 0x80 = 0"
    "2 \<le> lk_room (ms_link st)"
  shows "recv_secs arrays now False st = Some (Ret (1, None, None),
    st\<lparr>ms_link := (ms_link st)\<lparr>lk_in := es, lk_out := lk_out (ms_link st) @ [EOT, ACK],
      lk_room := lk_room (ms_link st) - 2\<rparr>\<rparr>)"
  using recv_blocks_T4 [OF assms] by (simp add: recv_secs_def)

theorem recv_secs_T4_witness:
  "\<exists>k. recv_secs True 0 False (example_state (map Data (ENQ # frame (replicate 20 0)) @ [Fire 4])) =
      Some (Ret (1, None, None), example_state [] \<lparr>ms_link := k\<rparr>) \<and> lk_in k = []"
proof -
  let ?e = "map Data (ENQ # frame (replicate 20 0)) @ [Fire 4]"
  have "example_state ?e \<lparr>ms_link := k\<rparr> = example_state [] \<lparr>ms_link := k\<rparr>" for k
    by (simp add: example_state_def)
  then show ?thesis
    using recv_secs_T4 [of "example_state ?e" "replicate 20 0" "[]" True 0]
    by (auto simp: example_defs block_ok_def)
qed

end
