(* ===== verification/Hsms.thy ===== *)
theory Hsms
  imports Secs_Msg
begin

section \<open>SECS messages over TCP (hsms.c, recv_hsms.c, send_hsms.c)\<close>

text \<open>
  An HSMS message is four bytes of length, a header of ten bytes and the body. \<open>send_hsmsI\<close> and
  \<open>recv_hsmsI\<close> are the two sides of the framing; \<open>recv_hsms\<close> dispatches on the type in the
  header, answers the control messages and handles a data message as \<open>recv_secs\<close> does;
  \<open>client_connect\<close> is the select handshake of a client. T8 limits the time between two reads,
  T6 the handshake. The main results are the framing round trip however TCP splits the bytes,
  the message that becomes variables at the other end, the handshake, and what the functions do
  when the other side does not keep to them.
\<close>

subsection \<open>Framing\<close>

definition send_hsmsI :: "byte list \<Rightarrow> byte list \<Rightarrow> link \<Rightarrow> (u32 \<times> link) option" where
  "send_hsmsI header body k = do {
     len \<leftarrow> swap (le_bytes 4 (unat (10 + of_nat (length body) :: u32)));
     Some (case my_write (len @ take 10 header) k of (r, k1) \<Rightarrow>
             if r \<noteq> 0 then (1, k1)
             else (case write_each body k1 of (r2, k2) \<Rightarrow> (if r2 \<noteq> 0 then 1 else 0, k2)))
   }"

text \<open>A T8 timeout has removed the timer already. A failed read of the header does not stop it.\<close>

fun recv_length :: "nat \<Rightarrow> byte list \<Rightarrow> link \<Rightarrow> byte list step" where
  "recv_length 0 acc k = (Inl acc, k)"
| "recv_length (Suc n) acc k =
     (case my_readc (start_t 8 Hsms_T8 k) of
        (Failed, k1) \<Rightarrow> (Inr (Ret 1), stop_t 8 k1)
      | (Jumped j, k1) \<Rightarrow> (if j = Hsms_T8 then (Inr (Ret 1), k1) else (Inr (Jump j), k1))
      | (Got c, k1) \<Rightarrow> recv_length n (acc @ [c]) (stop_t 8 k1))"

fun recv_header :: "nat \<Rightarrow> byte list \<Rightarrow> link \<Rightarrow> byte list step" where
  "recv_header 0 acc k = (Inl acc, k)"
| "recv_header (Suc n) acc k =
     (case my_readc (start_t 8 Hsms_T8 k) of
        (Failed, k1) \<Rightarrow> (Inr (Ret 1), k1)
      | (Jumped j, k1) \<Rightarrow>
          (if j = Hsms_T8 then (Inr (Ret 1), stop_t 8 k1) else (Inr (Jump j), k1))
      | (Got c, k1) \<Rightarrow> recv_header n (acc @ [c]) (stop_t 8 k1))"

definition MAX_READ :: nat where
  "MAX_READ = 2048"

text \<open>\<open>i\<close> is the number of bytes still expected. A read may deliver more than that: the bytes
  are all kept, and \<open>i\<close> wraps around.\<close>

lemma my_readx_Got:
  assumes "my_readx MAX_READ k = (Got bs, k1)"
  shows "length (lk_in k1) < length (lk_in k)"
proof -
  obtain r es tm where w: "wait_in (lk_in k) (lk_timers k) = (r, es, tm)" by (metis prod_cases3)
  then have "r = Got ()" using assms by (auto simp: my_readx_def read_link_def split: rd.splits prod.splits)
  then obtain b es2 where e: "es = Data b # es2" "length es \<le> length (lk_in k)"
    using wait_in_length [OF w] by blast
  obtain ds es3 where d: "take_data 2047 es2 = (ds, es3)" by force
  have "take_data MAX_READ es = (b # ds, es3)"
    using d e(1) by (simp add: MAX_READ_def numeral_eq_Suc)
  moreover have "length es3 < length es" using take_data_length [OF d] e(1) by simp
  ultimately show ?thesis using assms w \<open>r = Got ()\<close> e(2) by (auto simp: my_readx_def read_link_def)
qed

function recv_body :: "u32 \<Rightarrow> byte list \<Rightarrow> link \<Rightarrow> byte list step" where
  "recv_body i body k =
     (if i = 0 then (Inl body, k)
      else case my_readx MAX_READ (start_t 8 Hsms_T8 k) of
        (Failed, k1) \<Rightarrow> (Inr (Ret 1), stop_t 8 k1)
      | (Jumped j, k1) \<Rightarrow>
          (if j = Hsms_T8 then (Inr (Ret 1), stop_t 8 k1) else (Inr (Jump j), k1))
      | (Got buf, k1) \<Rightarrow> recv_body (i - of_nat (length buf)) (body @ buf) (stop_t 8 k1))"
  by pat_completeness auto
termination
  by (relation "measure (\<lambda>(i, body, k). length (lk_in k))") (auto dest: my_readx_Got [OF sym])

declare recv_body.simps [simp del]

definition recv_hsmsI :: "link \<Rightarrow> (byte list \<times> byte list) step option" where
  "recv_hsmsI k =
     (case recv_length 4 [] k of
        (Inr r, k1) \<Rightarrow> Some (Inr r, k1)
      | (Inl len, k1) \<Rightarrow> do {
          l \<leftarrow> swap len;
          Some (case recv_header 10 [] k1 of
                  (Inr r, k2) \<Rightarrow> (Inr r, k2)
                | (Inl header, k2) \<Rightarrow>
                    (case recv_body (of_nat (le_val l) - 10) [] k2 of
                       (Inr r, k3) \<Rightarrow> (Inr r, k3)
                     | (Inl body, k3) \<Rightarrow> (Inl (header, body), k3)))
        })"

subsection \<open>Messages\<close>

definition header_sysb :: "byte list \<Rightarrow> u32 option" where
  "header_sysb header = do { s \<leftarrow> swap (take 4 (drop 6 header)); Some (of_nat (le_val s)) }"

text \<open>The answer to a control request is the request with another type; 2 is returned whether it
  could be sent or not. An unknown type ends the process.\<close>

definition control_reply ::
    "byte \<Rightarrow> byte list \<Rightarrow> msg_state \<Rightarrow> ((u32 \<times> u32 option \<times> bool option) ret \<times> msg_state) option" where
  "control_reply stype header st = do {
     (r, k) \<leftarrow> send_hsmsI (header[5 := stype]) [] (ms_link st);
     Some (Ret (2, None, None), st\<lparr>ms_link := k\<rparr>)
   }"

definition recv_hsms ::
    "bool \<Rightarrow> int \<Rightarrow> msg_state \<Rightarrow> ((u32 \<times> u32 option \<times> bool option) ret \<times> msg_state) run option" where
  "recv_hsms arrays now st =
     (case recv_hsmsI (ms_link st) of
        None \<Rightarrow> None
      | Some (Inr (Jump j), k) \<Rightarrow> Some (Done (Jump j, st\<lparr>ms_link := k\<rparr>))
      | Some (Inr (Ret e), k) \<Rightarrow> Some (Done (Ret (e, None, None), st\<lparr>ms_link := k\<rparr>))
      | Some (Inl (header, body), k) \<Rightarrow>
          let st1 = st\<lparr>ms_link := k\<rparr>; stype = header ! 5
          in if stype = 0 then do {
               sysb \<leftarrow> header_sysb header;
               ((r, idx, primary), st2) \<leftarrow> take_message arrays now header body sysb st1;
               Some (Done (Ret (r, idx, Some primary), st2))
             }
             else if stype = 1 then map_option Done (control_reply 2 header st1)
             else if stype = 5 then map_option Done (control_reply 6 header st1)
             else if stype = 9 then Some (Done (Ret (2, None, None), st1))
             else Some Exit)"

definition hsms_header :: "secs_msg \<Rightarrow> u32 \<Rightarrow> byte list option" where
  "hsms_header msg sysb = do {
     s \<leftarrow> swap (le_bytes 4 (unat sysb));
     Some ([ucast (drop_bit 8 (sm_device msg) AND 255), ucast (sm_device msg AND 255),
            ucast (sm_stream msg) OR (if sm_wait msg \<noteq> 0 then 0x80 else 0),
            ucast (sm_function msg), 0, 0] @ s)
   }"

definition send_hsmsII ::
    "send_env \<Rightarrow> u32 \<Rightarrow> u32 \<times> secs_msg \<Rightarrow> msg_state \<Rightarrow> ((u32 \<times> bool option) \<times> msg_state) run option" where
  "send_hsmsII env sysb enc st =
     (case enc of (e, msg) \<Rightarrow>
        if e \<noteq> 0 then Some (Done ((e, None), st))
        else do {
          header \<leftarrow> hsms_header msg sysb;
          (r, k) \<leftarrow> send_hsmsI header (sm_body msg) (ms_link st);
          finish_send print_d env msg sysb r (st\<lparr>ms_link := k\<rparr>)
        })"

definition send_hsms ::
    "send_env \<Rightarrow> u32 \<times> secs_msg \<Rightarrow> msg_state \<Rightarrow> ((u32 \<times> bool option) \<times> msg_state) run option" where
  "send_hsms env enc st =
     (let (sysb, g) = secs_inc_system_bytes (ms_secs st)
      in send_hsmsII env sysb enc (st\<lparr>ms_secs := g\<rparr>))"

definition send_hsms_reply ::
    "send_env \<Rightarrow> u32 \<times> secs_msg \<Rightarrow> msg_state \<Rightarrow> ((u32 \<times> bool option) \<times> msg_state) run option" where
  "send_hsms_reply env enc st = send_hsmsII env (secs_get_system_bytes (ms_secs st)) enc st"

subsection \<open>The client\<close>

text \<open>Only a failed read is an error: a T6 timeout and an answer of another type leave the return
  code 0 of the request that was sent.\<close>

definition client_connect :: "msg_state \<Rightarrow> (u32 ret \<times> msg_state) option" where
  "client_connect st =
     (let (sysb, g) = secs_inc_system_bytes (ms_secs st); st1 = st\<lparr>ms_secs := g\<rparr>
      in do {
        s \<leftarrow> swap (le_bytes 4 (unat sysb));
        (r, k) \<leftarrow> send_hsmsI ([0xFF, 0xFF, 0, 0, 0, 1] @ s) [] (ms_link st1);
        if r \<noteq> 0 then Some (Ret r, st1\<lparr>ms_link := k\<rparr>)
        else do {
          (x, k1) \<leftarrow> recv_hsmsI (start_t 6 Connect_T6 k);
          Some (case x of
                  Inr (Jump j) \<Rightarrow>
                    if j = Connect_T6 then (Ret 0, st1\<lparr>ms_link := stop_t 6 k1\<rparr>)
                    else (Jump j, st1\<lparr>ms_link := k1\<rparr>)
                | Inr (Ret e) \<Rightarrow> (Ret e, st1\<lparr>ms_link := stop_t 6 k1\<rparr>)
                | Inl _ \<Rightarrow> (Ret 0, st1\<lparr>ms_link := stop_t 6 k1\<rparr>))
        }
      })"

text \<open>The second component is the number of seconds the caller sleeps before it tries again.\<close>

definition hsms_client_connect :: "u32 \<Rightarrow> msg_state \<Rightarrow> ((u32 \<times> u32) ret \<times> msg_state) option" where
  "hsms_client_connect t5 st = do {
     (r, st1) \<leftarrow> client_connect st;
     Some (case r of
             Jump j \<Rightarrow> (Jump j, st1)
           | Ret e \<Rightarrow> (Ret (e, if e \<noteq> 0 then (if t5 = 0 then 10 else t5) else 0), st1))
   }"


subsection \<open>Lemmas: bytes however they arrive\<close>

text \<open>\<open>arrives es\<close> are the bytes the events deliver if nothing but data and pauses happens.\<close>

fun arrives :: "event list \<Rightarrow> byte list option" where
  "arrives [] = Some []"
| "arrives (Data b # es) = map_option (Cons b) (arrives es)"
| "arrives (Gap # es) = arrives es"
| "arrives (Fail # es) = None"
| "arrives (Fire n # es) = None"

lemma arrives_Data [simp]: "arrives (map Data bs) = Some bs"
  by (induction bs) simp_all

lemma wait_in_arrives:
  "arrives es = Some (b # bs) \<Longrightarrow>
   \<exists>es1. wait_in (es @ suf) tm = (Got (), Data b # es1 @ suf, tm) \<and> arrives es1 = Some bs"
  by (induction es rule: arrives.induct) auto

lemma wait_in_pause: "arrives es = Some [] \<Longrightarrow> wait_in (es @ suf) tm = wait_in suf tm"
  by (induction es rule: arrives.induct) auto

lemma take_data_arrives:
  "arrives es = Some bs \<Longrightarrow> take_data n es = (d, r) \<Longrightarrow>
   length d \<le> n \<and> (\<exists>bs1. arrives r = Some bs1 \<and> bs = d @ bs1)"
  by (induction n es arbitrary: d r bs rule: take_data.induct) (auto split: prod.splits)

lemma my_readc_arrives:
  assumes "lk_in k = es @ suf" "arrives es = Some (b # bs)"
  shows "\<exists>es1. my_readc k = (Got b, k\<lparr>lk_in := es1 @ suf\<rparr>) \<and> arrives es1 = Some bs"
  using wait_in_arrives [OF assms(2), of suf "lk_timers k"] assms(1)
  by (auto simp: my_readc_def read_link_def)

lemma my_readx_arrives:
  assumes "arrives (lk_in k) = Some bs" "bs \<noteq> []"
  shows "\<exists>d es bs1. my_readx MAX_READ k = (Got d, k\<lparr>lk_in := es\<rparr>) \<and> arrives es = Some bs1 \<and>
    bs = d @ bs1 \<and> d \<noteq> []"
proof -
  obtain b bs2 where b: "bs = b # bs2" using assms(2) by (cases bs) auto
  then obtain es1 where w: "wait_in (lk_in k) (lk_timers k) = (Got (), Data b # es1, lk_timers k)"
    "arrives es1 = Some bs2"
    using wait_in_arrives [of "lk_in k" b bs2 "[]" "lk_timers k"] assms(1) by auto
  obtain d r where d: "take_data 2047 es1 = (d, r)" by force
  then have "take_data MAX_READ (Data b # es1) = (b # d, r)" by (simp add: MAX_READ_def numeral_eq_Suc)
  then show ?thesis using take_data_arrives [OF w(2) d] w(1) b by (auto simp: my_readx_def read_link_def)
qed

lemma same_in: "lk_in k = es @ suf \<Longrightarrow> arrives es = Some bs \<Longrightarrow>
    \<exists>es. k = k\<lparr>lk_in := es @ suf\<rparr> \<and> arrives es = Some bs"
  by (intro exI [of _ es]) (metis link.surjective link.update_convs(1))

lemma recv_length_arrives:
  assumes "lk_in k = es @ suf" "arrives es = Some (bs @ rest)" "lk_timers k 8 = None"
  shows "\<exists>es1. recv_length (length bs) acc k = (Inl (acc @ bs), k\<lparr>lk_in := es1 @ suf\<rparr>) \<and>
    arrives es1 = Some rest"
  using assms
proof (induction bs arbitrary: acc k es)
  case (Cons b bs)
  obtain es1 where "my_readc (start_t 8 Hsms_T8 k) = (Got b, (start_t 8 Hsms_T8 k)\<lparr>lk_in := es1 @ suf\<rparr>)"
    "arrives es1 = Some (bs @ rest)"
    using my_readc_arrives [of "start_t 8 Hsms_T8 k" es suf b "bs @ rest"] Cons.prems(1,2) by auto
  then show ?case using Cons.IH [of "k\<lparr>lk_in := es1 @ suf\<rparr>" es1 "acc @ [b]"] Cons.prems(3) by simp
qed (auto dest: same_in)

lemma recv_header_arrives:
  assumes "lk_in k = es @ suf" "arrives es = Some (bs @ rest)" "lk_timers k 8 = None"
  shows "\<exists>es1. recv_header (length bs) acc k = (Inl (acc @ bs), k\<lparr>lk_in := es1 @ suf\<rparr>) \<and>
    arrives es1 = Some rest"
  using assms
proof (induction bs arbitrary: acc k es)
  case (Cons b bs)
  obtain es1 where "my_readc (start_t 8 Hsms_T8 k) = (Got b, (start_t 8 Hsms_T8 k)\<lparr>lk_in := es1 @ suf\<rparr>)"
    "arrives es1 = Some (bs @ rest)"
    using my_readc_arrives [of "start_t 8 Hsms_T8 k" es suf b "bs @ rest"] Cons.prems(1,2) by auto
  then show ?case using Cons.IH [of "k\<lparr>lk_in := es1 @ suf\<rparr>" es1 "acc @ [b]"] Cons.prems(3) by simp
qed (auto dest: same_in)

lemma recv_body_arrives:
  assumes "arrives (lk_in k) = Some bs" "lk_timers k 8 = None" "length bs < 2 ^ 32"
  shows "\<exists>es. recv_body (of_nat (length bs)) acc k = (Inl (acc @ bs), k\<lparr>lk_in := es\<rparr>) \<and>
    arrives es = Some []"
  using assms
proof (induction "length bs" arbitrary: bs acc k rule: less_induct)
  case less
  show ?case
  proof (cases "bs = []")
    case True
    then show ?thesis using less.prems same_in [of k "lk_in k" "[]"] by (subst recv_body.simps) auto
  next
    case False
    obtain d es bs1 where d: "my_readx MAX_READ (start_t 8 Hsms_T8 k) = (Got d, (start_t 8 Hsms_T8 k)\<lparr>lk_in := es\<rparr>)"
      "arrives es = Some bs1" "bs = d @ bs1" "d \<noteq> []"
      using my_readx_arrives [of "start_t 8 Hsms_T8 k" bs] less.prems(1) False by auto
    have "(of_nat (length bs) :: u32) \<noteq> 0"
      using of_nat_u32_eq_0_iff [of "length bs"] less.prems(3) False by simp
    moreover have "of_nat (length bs) - of_nat (length d) = (of_nat (length bs1) :: u32)" using d(3) by simp
    moreover have "\<exists>es1. recv_body (of_nat (length bs1)) (acc @ d) (k\<lparr>lk_in := es\<rparr>) =
        (Inl ((acc @ d) @ bs1), k\<lparr>lk_in := es1\<rparr>) \<and> arrives es1 = Some []"
      using less.hyps [of bs1 "k\<lparr>lk_in := es\<rparr>" "acc @ d"] d less.prems by simp
    ultimately show ?thesis using d less.prems(2) by (subst recv_body.simps) auto
  qed
qed

definition hsms_frame :: "byte list \<Rightarrow> byte list \<Rightarrow> byte list" where
  "hsms_frame header body = rev (le_bytes 4 (10 + length body)) @ header @ body"

text \<open>The length and the header, whatever follows.\<close>

lemma recv_front:
  assumes "lk_in k = es @ suf" "arrives es = Some (rev (le_bytes 4 n) @ header @ rest)"
    "lk_timers k 8 = None" "length header = 10" "n < 2 ^ 32"
  shows "\<exists>es1. recv_hsmsI k =
      (case recv_body (of_nat n - 10) [] (k\<lparr>lk_in := es1 @ suf\<rparr>) of
         (Inr r, k3) \<Rightarrow> Some (Inr r, k3)
       | (Inl body, k3) \<Rightarrow> Some (Inl (header, body), k3)) \<and>
    arrives es1 = Some rest"
proof -
  let ?len = "rev (le_bytes 4 n)"
  obtain es1 where l: "recv_length 4 [] k = (Inl ?len, k\<lparr>lk_in := es1 @ suf\<rparr>)"
    "arrives es1 = Some (header @ rest)"
    using recv_length_arrives [of k es suf ?len "header @ rest" "[]"] assms(1-3) by auto
  obtain es2 where h: "recv_header 10 [] (k\<lparr>lk_in := es1 @ suf\<rparr>) = (Inl header, k\<lparr>lk_in := es2 @ suf\<rparr>)"
    "arrives es2 = Some rest"
    using recv_header_arrives [of "k\<lparr>lk_in := es1 @ suf\<rparr>" es1 suf header rest "[]"] l(2) assms(3,4) by auto
  have "le_val (le_bytes 4 n) = n" using assms(5) by (intro le_val_le_bytes) simp
  then have "recv_hsmsI k =
      (case recv_body (of_nat n - 10) [] (k\<lparr>lk_in := es2 @ suf\<rparr>) of
         (Inr r, k3) \<Rightarrow> Some (Inr r, k3)
       | (Inl body, k3) \<Rightarrow> Some (Inl (header, body), k3))"
    using l h by (auto simp: recv_hsmsI_def swap_rev split: prod.splits sum.splits)
  then show ?thesis using h(2) by blast
qed

lemma recv_hsmsI_arrives:
  assumes "arrives (lk_in k) = Some (hsms_frame header body)" "lk_timers k 8 = None"
    "length header = 10" "length body + 10 < 2 ^ 32"
  shows "\<exists>es. recv_hsmsI k = Some (Inl (header, body), k\<lparr>lk_in := es\<rparr>) \<and> arrives es = Some []"
proof -
  obtain es1 where f: "recv_hsmsI k =
      (case recv_body (of_nat (10 + length body) - 10) [] (k\<lparr>lk_in := es1\<rparr>) of
         (Inr r, k3) \<Rightarrow> Some (Inr r, k3)
       | (Inl body, k3) \<Rightarrow> Some (Inl (header, body), k3))" "arrives es1 = Some body"
    using recv_front [of k "lk_in k" "[]" "10 + length body" header body] assms
    by (auto simp: hsms_frame_def)
  obtain es where "recv_body (of_nat (length body)) [] (k\<lparr>lk_in := es1\<rparr>) = (Inl body, k\<lparr>lk_in := es\<rparr>)"
    "arrives es = Some []"
    using recv_body_arrives [of "k\<lparr>lk_in := es1\<rparr>" body "[]"] f(2) assms(2,4) by auto
  then show ?thesis using f(1) by (intro exI [of _ es]) simp
qed

lemma send_hsmsI_ok:
  assumes "14 + length body \<le> lk_room k" "length header = 10" "length body + 10 < 2 ^ 32"
  shows "send_hsmsI header body k = Some (0, k\<lparr>lk_out := lk_out k @ hsms_frame header body,
    lk_room := lk_room k - (14 + length body)\<rparr>)"
proof -
  let ?p = "rev (le_bytes 4 (10 + length body)) @ header"
  have "unat (10 + of_nat (length body) :: u32) = 10 + length body"
    using unat_of_nat_u32 [of "10 + length body"] assms(3) by simp
  then have "swap (le_bytes 4 (unat (10 + of_nat (length body) :: u32))) = Some (rev (le_bytes 4 (10 + length body)))"
    by (simp add: swap_rev)
  moreover have "my_write ?p k = (0, k\<lparr>lk_out := lk_out k @ ?p, lk_room := lk_room k - 14\<rparr>)"
    using assms(1,2) by (simp add: my_write_def)
  ultimately show ?thesis using assms(1,2)
    by (simp add: send_hsmsI_def write_each_ok hsms_frame_def)
qed

text \<open>More bytes than the message has, and then silence.\<close>

lemma take_data_all: "length bs \<le> n \<Longrightarrow> take_data n (map Data bs @ Fire i # es) = (bs, Fire i # es)"
proof (induction bs arbitrary: n)
  case (Cons b bs)
  then show ?case by (cases n) auto
qed simp

lemma recv_hsmsI_too_much:
  assumes "lk_in k = map Data (hsms_frame header body @ extra) @ Fire 8 # es" "lk_timers k 8 = None"
    "length header = 10" "body \<noteq> []" "extra \<noteq> []" "length body + length extra \<le> MAX_READ"
  shows "recv_hsmsI k = Some (Inr (Ret 1), k\<lparr>lk_in := es\<rparr>)"
proof -
  let ?pre = "map Data (rev (le_bytes 4 (10 + length body)) @ header)"
  let ?suf = "map Data (body @ extra) @ Fire 8 # es"
  have "length body \<le> 2048" using assms(6) by (simp add: MAX_READ_def)
  then have n: "10 + length body < 2 ^ 32" by simp
  have k: "lk_in k = ?pre @ ?suf" using assms(1) by (simp add: hsms_frame_def)
  have p: "arrives ?pre = Some (rev (le_bytes 4 (10 + length body)) @ header @ [])"
    using arrives_Data [of "rev (le_bytes 4 (10 + length body)) @ header"] by simp
  obtain es1 where f: "recv_hsmsI k =
      (case recv_body (of_nat (10 + length body) - 10) [] (k\<lparr>lk_in := es1 @ ?suf\<rparr>) of
         (Inr r, k3) \<Rightarrow> Some (Inr r, k3)
       | (Inl body, k3) \<Rightarrow> Some (Inl (header, body), k3))" "arrives es1 = Some []"
    using recv_front [OF k p assms(2,3) n] by blast
  let ?k1 = "k\<lparr>lk_in := es1 @ ?suf\<rparr>" and ?k2 = "k\<lparr>lk_in := Fire 8 # es\<rparr>"
  obtain b bs where b: "body @ extra = b # bs" using assms(4) by (cases body) auto
  have w: "wait_in (es1 @ ?suf) tm = (Got (), ?suf, tm)" for tm
    using wait_in_pause [OF f(2)] b by simp
  have t: "take_data MAX_READ ?suf = (body @ extra, Fire 8 # es)"
    using assms(6) by (intro take_data_all) simp
  have r1: "my_readx MAX_READ (start_t 8 Hsms_T8 ?k1) =
      (Got (body @ extra), (start_t 8 Hsms_T8 k)\<lparr>lk_in := Fire 8 # es\<rparr>)"
    using w t by (simp add: my_readx_def read_link_def start_proto_timer_def del: map_append)
  have r2: "my_readx MAX_READ (start_t 8 Hsms_T8 ?k2) = (Jumped Hsms_T8, k\<lparr>lk_in := es\<rparr>)"
    using assms(2) by (simp add: my_readx_def read_link_def start_proto_timer_def MAX_PROTO_TIMERS_def)
  have s: "length body \<le> 2048" "length extra \<le> 2048" using assms(6) by (simp_all add: MAX_READ_def)
  have z: "(of_nat (length body) :: u32) \<noteq> 0" "(of_nat (length extra) :: u32) \<noteq> 0"
    using of_nat_u32_eq_0_iff [of "length body"] of_nat_u32_eq_0_iff [of "length extra"] s assms(4,5) by simp_all
  have "recv_body (of_nat (length body) - of_nat (length (body @ extra))) (body @ extra) ?k2 = 
      (Inr (Ret 1), k\<lparr>lk_in := es\<rparr>)"
    using r2 z(2) assms(2) by (subst recv_body.simps) simp
  then have "recv_body (of_nat (length body)) [] ?k1 = (Inr (Ret 1), k\<lparr>lk_in := es\<rparr>)"
    using r1 z(1) assms(2) by (subst recv_body.simps) simp
  then show ?thesis using f(1) by simp
qed

lemma hsms_header_ok:
  assumes "unat (sm_stream msg) < 128" "unat (sm_function msg) < 256"
  shows "\<exists>h. hsms_header msg sysb = Some h \<and> length h = 10 \<and> h ! 5 = 0 \<and> header_sysb h = Some sysb \<and>
    unat (h ! 3) = unat (sm_function msg) \<and>
    msg_prefix h = ''S'' @ my_utoa (unat (sm_stream msg)) @ ''F'' @ my_utoa (unat (sm_function msg))"
proof -
  let ?h = "[ucast (drop_bit 8 (sm_device msg) AND 255), ucast (sm_device msg AND 255),
      ucast (sm_stream msg) OR (if sm_wait msg \<noteq> 0 then 0x80 else 0),
      ucast (sm_function msg), 0, 0] @ rev (le_bytes 4 (unat sysb))"
  have h: "hsms_header msg sysb = Some ?h" by (simp add: hsms_header_def swap_rev)
  have "?h ! 2 = block_header False msg 0 0 False ! 2" "?h ! 3 = block_header False msg 0 0 False ! 3"
    by (simp_all add: block_header_def)
  then have f: "?h ! 2 AND 0x7F = ucast (sm_stream msg)" "?h ! 3 = ucast (sm_function msg)"
    using header_fields(1,3) [OF assms, of False 0 0 False] by metis+
  have "msg_prefix ?h = ''S'' @ my_utoa (unat (sm_stream msg)) @ ''F'' @ my_utoa (unat (sm_function msg))"
    using f header_fields(2,4) [OF assms] unfolding msg_prefix_def by metis
  moreover have "unat (?h ! 3) = unat (sm_function msg)" using f(2) header_fields(4) [OF assms] by metis
  moreover have "header_sysb ?h = Some sysb"
    by (simp add: header_sysb_def swap_rev le_val_le_bytes)
  ultimately show ?thesis using h by (intro exI [of _ ?h]) simp
qed

definition select_header :: "u32 \<Rightarrow> byte \<Rightarrow> byte list" where
  "select_header sysb stype = [0xFF, 0xFF, 0, 0, 0, stype] @ rev (le_bytes 4 (unat sysb))"

lemma length_select_header [simp]: "length (select_header sysb stype) = 10"
  by (simp add: select_header_def)

definition client_start :: "msg_state \<Rightarrow> msg_state" where
  "client_start st =
     (let (sysb, g) = secs_inc_system_bytes (ms_secs st); k = ms_link st
      in st\<lparr>ms_secs := g, ms_link := k\<lparr>lk_out := lk_out k @ hsms_frame (select_header sysb 1) [],
           lk_room := lk_room k - 14\<rparr>\<rparr>)"

lemma client_connect_sent:
  assumes "14 \<le> lk_room (ms_link st)" "recv_hsmsI (start_t 6 Connect_T6 (ms_link (client_start st))) = Some (x, k)"
  shows "client_connect st = Some (case x of
      Inr (Jump j) \<Rightarrow> if j = Connect_T6 then (Ret 0, client_start st\<lparr>ms_link := stop_t 6 k\<rparr>)
                    else (Jump j, client_start st\<lparr>ms_link := k\<rparr>)
    | Inr (Ret e) \<Rightarrow> (Ret e, client_start st\<lparr>ms_link := stop_t 6 k\<rparr>)
    | Inl _ \<Rightarrow> (Ret 0, client_start st\<lparr>ms_link := stop_t 6 k\<rparr>))"
proof -
  obtain sysb g where i: "secs_inc_system_bytes (ms_secs st) = (sysb, g)" by force
  have "send_hsmsI (select_header sysb 1) [] (ms_link st) = Some (0, ms_link (client_start st))"
    using send_hsmsI_ok [of "[]" "ms_link st" "select_header sysb 1"] assms(1) i
    by (simp add: client_start_def Let_def)
  then show ?thesis using assms(2) i
    by (simp add: client_connect_def Let_def swap_rev select_header_def client_start_def
        split: sum.splits ret.splits)
qed

section \<open>Properties\<close>

lemma recv_hsms_record:
  assumes "list_all field_ok fds" "fds \<noteq> []" "length fds < 2 ^ 24"
    "body = enc_item (SList (map field_item fds))" "length body + 10 < 2 ^ 32"
    "length h = 10" "h ! 5 = 0" "header_sysb h = Some sysb" "odd (unat (h ! 3))" "msg_prefix h = prefix"
    "tt_vars (ms_tmp rs) = []" "lk_timers (ms_link rs) 8 = None"
    "arrives (lk_in (ms_link rs)) = Some (hsms_frame h body)"
  shows "\<exists>es t. recv_hsms True now rs = Some (Done (Ret (0, None, Some True),
      rs\<lparr>ms_link := (ms_link rs)\<lparr>lk_in := es\<rparr>, ms_tmp := t, ms_secs := secs_set_system_bytes (ms_secs rs) sysb\<rparr>)) \<and>
    tmp_variable_get (tmp_variable_sort t) ''SXFY'' = Some (0, prefix) \<and>
    tmp_variable_get (tmp_variable_sort t) (prefix @ ''.1'') = Some (0, my_utoa (length fds)) \<and>
    (\<forall>i < length fds. tmp_variable_get (tmp_variable_sort t) (field_name prefix (Suc i)) =
       Some (0, field_text (fds ! i)))"
proof -
  obtain es where r: "recv_hsmsI (ms_link rs) = Some (Inl (h, body), (ms_link rs)\<lparr>lk_in := es\<rparr>)"
    using recv_hsmsI_arrives [of "ms_link rs" h body] assms(5,6,12,13) by auto
  let ?rs0 = "rs\<lparr>ms_link := (ms_link rs)\<lparr>lk_in := es\<rparr>\<rparr>"
  have "length (enc_item (SList (map field_item fds))) < 2 ^ 32" "tt_vars (ms_tmp ?rs0) = []"
    using assms(4,5,11) by simp_all
  then obtain t where "take_message True now h body sysb ?rs0 =
      Some ((0, None, True), ?rs0\<lparr>ms_tmp := t, ms_secs := secs_set_system_bytes (ms_secs ?rs0) sysb\<rparr>)"
    "tmp_variable_get (tmp_variable_sort t) ''SXFY'' = Some (0, prefix)"
    "tmp_variable_get (tmp_variable_sort t) (prefix @ ''.1'') = Some (0, my_utoa (length fds))"
    "\<forall>i < length fds. tmp_variable_get (tmp_variable_sort t) (field_name prefix (Suc i)) =
       Some (0, field_text (fds ! i))"
    using take_message_record [OF assms(1-3) _ assms(9) _ assms(10), of ?rs0 now sysb] assms(4) by blast
  then show ?thesis using r assms(7,8) by (auto simp: recv_hsms_def Let_def)
qed

text \<open>C12. A message sent over TCP becomes variables at the other end: \<open>send_hsmsII\<close> returns 0, and
  however the bytes it wrote are split into packets, \<open>recv_hsms\<close> returns 0 and primary, keeps the
  system bytes for the reply, and after sorting the program reads the name of the message, the
  number of fields and each of the fields.\<close>

theorem hsms_message_arrives:
  assumes "sm_body msg = enc_item (SList (map field_item fds))"
    "list_all field_ok fds" "fds \<noteq> []" "length fds < 2 ^ 24" "length (sm_body msg) + 10 < 2 ^ 32"
    "unat (sm_stream msg) < 128" "unat (sm_function msg) < 256" "odd (unat (sm_function msg))"
    "sm_wait msg = 0" "14 + length (sm_body msg) \<le> lk_room (ms_link ss)" "lk_out (ms_link ss) = []"
    "tt_vars (ms_tmp rs) = []" "lk_timers (ms_link rs) 8 = None"
  defines "prefix \<equiv> ''S'' @ my_utoa (unat (sm_stream msg)) @ ''F'' @ my_utoa (unat (sm_function msg))"
  shows "\<exists>ss1. send_hsmsII env sysb (0, msg) ss = Some (Done ((0, Some False), ss1)) \<and>
    (\<forall>es. arrives es = Some (lk_out (ms_link ss1)) \<longrightarrow>
      (\<exists>rs1. recv_hsms True now (rs\<lparr>ms_link := (ms_link rs)\<lparr>lk_in := es\<rparr>\<rparr>) =
          Some (Done (Ret (0, None, Some True), rs1)) \<and>
        secs_get_system_bytes (ms_secs rs1) = sysb \<and>
        tmp_variable_get (tmp_variable_sort (ms_tmp rs1)) ''SXFY'' = Some (0, prefix) \<and>
        tmp_variable_get (tmp_variable_sort (ms_tmp rs1)) (prefix @ ''.1'') = Some (0, my_utoa (length fds)) \<and>
        (\<forall>i < length fds. tmp_variable_get (tmp_variable_sort (ms_tmp rs1)) (field_name prefix (Suc i)) =
           Some (0, field_text (fds ! i)))))"
proof -
  obtain h where h: "hsms_header msg sysb = Some h" "length h = 10" "h ! 5 = 0"
    "header_sysb h = Some sysb" "unat (h ! 3) = unat (sm_function msg)" "msg_prefix h = prefix"
    using hsms_header_ok [OF assms(6,7)] unfolding prefix_def by blast
  let ?ss1 = "ss\<lparr>ms_link := (ms_link ss)\<lparr>lk_out := hsms_frame h (sm_body msg),
    lk_room := lk_room (ms_link ss) - (14 + length (sm_body msg))\<rparr>\<rparr>"
  have s: "send_hsmsII env sysb (0, msg) ss = Some (Done ((0, Some False), ?ss1))"
    using send_hsmsI_ok [OF assms(10) h(2) assms(5)] h(1) assms(9,11)
    by (simp add: send_hsmsII_def finish_send_def)
  have "\<exists>rs1. recv_hsms True now (rs\<lparr>ms_link := (ms_link rs)\<lparr>lk_in := es\<rparr>\<rparr>) =
          Some (Done (Ret (0, None, Some True), rs1)) \<and>
        secs_get_system_bytes (ms_secs rs1) = sysb \<and>
        tmp_variable_get (tmp_variable_sort (ms_tmp rs1)) ''SXFY'' = Some (0, prefix) \<and>
        tmp_variable_get (tmp_variable_sort (ms_tmp rs1)) (prefix @ ''.1'') = Some (0, my_utoa (length fds)) \<and>
        (\<forall>i < length fds. tmp_variable_get (tmp_variable_sort (ms_tmp rs1)) (field_name prefix (Suc i)) =
           Some (0, field_text (fds ! i)))"
    if a: "arrives es = Some (hsms_frame h (sm_body msg))" for es
    using recv_hsms_record [OF assms(2-4) assms(1) assms(5) h(2,3,4) _ h(6), of "rs\<lparr>ms_link := (ms_link rs)\<lparr>lk_in := es\<rparr>\<rparr>" now]
      a assms(8,12,13) h(5) by (auto simp: secs_get_system_bytes_def secs_set_system_bytes_def)
  then show ?thesis using s by (intro exI [of _ ?ss1]) simp
qed

theorem hsms_message_arrives_witness:
  "\<exists>ss1. send_hsmsII example_env 9 (0, example_msg\<lparr>sm_body := enc_item (SList (map field_item [FText ''LOT'']))\<rparr>)
      (example_state []) = Some (Done ((0, Some False), ss1)) \<and>
    (\<exists>rs1. recv_hsms True 0 (example_state (Gap # map Data (lk_out (ms_link ss1)))) =
      Some (Done (Ret (0, None, Some True), rs1)) \<and> secs_get_system_bytes (ms_secs rs1) = 9)"
proof -
  let ?fds = "[FText ''LOT'']"
  let ?msg = "example_msg\<lparr>sm_body := enc_item (SList (map field_item ?fds))\<rparr>"
  have l: "length (enc_item (SList (map field_item ?fds))) \<le> 244"
    by (simp add: item_header_def store_data_def set_size_bytes_def bytes_of_def)
  have e: "(example_state [])\<lparr>ms_link := (ms_link (example_state []))\<lparr>lk_in := es\<rparr>\<rparr> = example_state es" for es
    by (simp add: example_defs)
  obtain ss1 where s: "send_hsmsII example_env 9 (0, ?msg) (example_state []) = Some (Done ((0, Some False), ss1))"
    "\<forall>es. arrives es = Some (lk_out (ms_link ss1)) \<longrightarrow>
      (\<exists>rs1. recv_hsms True 0 (example_state es) = Some (Done (Ret (0, None, Some True), rs1)) \<and>
        secs_get_system_bytes (ms_secs rs1) = 9)"
    using hsms_message_arrives [of ?msg ?fds "example_state []" "example_state []" example_env 9 0] l
    unfolding e by (simp add: example_defs tmp_init_def del: enc_item.simps field_item.simps) blast
  moreover have "arrives (Gap # map Data (lk_out (ms_link ss1))) = Some (lk_out (ms_link ss1))" by simp
  ultimately show ?thesis by blast
qed

text \<open>C16. The select handshake: a server that receives the request of \<open>client_connect\<close> answers it
  with the same header and type 2, and a client that receives this answer returns 0, both with
  no timer left running.\<close>

theorem hsms_select_handshake:
  assumes "sysb = fst (secs_inc_system_bytes (ms_secs sc))" "14 \<le> lk_room (ms_link sc)"
    "14 \<le> lk_room (ms_link ss)" "lk_timers (ms_link sc) = Map.empty" "lk_timers (ms_link ss) = Map.empty"
    "lk_out (ms_link sc) = []" "lk_out (ms_link ss) = []"
    "arrives (lk_in (ms_link ss)) = Some (hsms_frame (select_header sysb 1) [])"
    "arrives (lk_in (ms_link sc)) = Some (hsms_frame (select_header sysb 2) [])"
  shows "\<exists>sc1 ss1. client_connect sc = Some (Ret 0, sc1) \<and>
    recv_hsms arrays now ss = Some (Done (Ret (2, None, None), ss1)) \<and>
    arrives (lk_in (ms_link ss)) = Some (lk_out (ms_link sc1)) \<and>
    arrives (lk_in (ms_link sc)) = Some (lk_out (ms_link ss1)) \<and>
    lk_timers (ms_link sc1) = Map.empty \<and> lk_timers (ms_link ss1) = Map.empty"
proof -
  obtain es where r: "recv_hsmsI (ms_link ss) =
      Some (Inl (select_header sysb 1, []), (ms_link ss)\<lparr>lk_in := es\<rparr>)"
    using recv_hsmsI_arrives [of "ms_link ss" "select_header sysb 1" "[]"] assms(5,8) by auto
  have u: "(select_header sysb 1)[5 := 2] = select_header sysb 2" "select_header sysb 1 ! 5 = 1"
    by (simp_all add: select_header_def)
  let ?k = "(ms_link ss)\<lparr>lk_in := es, lk_out := hsms_frame (select_header sysb 2) [], lk_room := lk_room (ms_link ss) - 14\<rparr>"
  have "send_hsmsI (select_header sysb 2) [] ((ms_link ss)\<lparr>lk_in := es\<rparr>) = Some (0, ?k)"
    using send_hsmsI_ok [of "[]" "(ms_link ss)\<lparr>lk_in := es\<rparr>" "select_header sysb 2"] assms(3,7) by simp
  then have s: "recv_hsms arrays now ss = Some (Done (Ret (2, None, None), ss\<lparr>ms_link := ?k\<rparr>))"
    using r u by (simp add: recv_hsms_def Let_def control_reply_def)
  let ?kc = "start_t 6 Connect_T6 (ms_link (client_start sc))"
  have c: "ms_link (client_start sc) = (ms_link sc)\<lparr>lk_out := hsms_frame (select_header sysb 1) [],
      lk_room := lk_room (ms_link sc) - 14\<rparr>"
    using assms(1,6) by (simp add: client_start_def Let_def split: prod.splits)
  obtain es1 where "recv_hsmsI ?kc = Some (Inl (select_header sysb 2, []), ?kc\<lparr>lk_in := es1\<rparr>)"
    using recv_hsmsI_arrives [of ?kc "select_header sysb 2" "[]"] assms(4,9) c by auto
  then have "client_connect sc = Some (Ret 0, client_start sc\<lparr>ms_link := stop_t 6 (?kc\<lparr>lk_in := es1\<rparr>)\<rparr>)"
    using client_connect_sent [OF assms(2)] by fastforce
  moreover have "stop_t 6 (?kc\<lparr>lk_in := es1\<rparr>) = (ms_link (client_start sc))\<lparr>lk_in := es1\<rparr>"
    using assms(4) c by simp
  ultimately show ?thesis using s c assms(4,5,8,9) by simp
qed

theorem hsms_select_handshake_witness:
  "\<exists>sc1 ss1. client_connect (example_state (map Data (hsms_frame (select_header 1 2) []))) = Some (Ret 0, sc1) \<and>
    recv_hsms True 0 (example_state (Gap # map Data (hsms_frame (select_header 1 1) []))) =
      Some (Done (Ret (2, None, None), ss1))"
  using hsms_select_handshake [of 1 "example_state (map Data (hsms_frame (select_header 1 2) []))"
      "example_state (Gap # map Data (hsms_frame (select_header 1 1) []))" True 0]
  by (auto simp: example_defs secs_inc_system_bytes_def)

text \<open>\<open>client_connect\<close> does not need the answer: when T6 runs out, and when a message of any
  other type comes, it returns 0 as if the server had accepted the connection.\<close>

theorem client_connect_any_answer:
  assumes "14 \<le> lk_room (ms_link st)" "lk_timers (ms_link st) = Map.empty"
    "lk_in (ms_link st) = Fire 6 # es \<or>
     arrives (lk_in (ms_link st)) = Some (hsms_frame header body) \<and> length header = 10 \<and> length body + 10 < 2 ^ 32"
  shows "\<exists>st1. client_connect st = Some (Ret 0, st1)"
proof -
  let ?k = "start_t 6 Connect_T6 (ms_link (client_start st))"
  have c: "lk_in ?k = lk_in (ms_link st)" "lk_timers ?k = [6 \<mapsto> Connect_T6]"
    using assms(2) by (simp_all add: client_start_def Let_def split: prod.splits)
  consider "lk_in ?k = Fire 6 # es" | "arrives (lk_in ?k) = Some (hsms_frame header body)"
    "length header = 10" "length body + 10 < 2 ^ 32"
    using assms(3) c(1) by metis
  then show ?thesis
  proof cases
    case 1
    have "lk_timers (start_t 8 Hsms_T8 ?k) 6 = Some Connect_T6" using c(2) by simp
    then have "\<exists>k1. my_readc (start_t 8 Hsms_T8 ?k) = (Jumped Connect_T6, k1)"
      using 1 by (simp add: my_readc_def read_link_def)
    then obtain k1 where "recv_hsmsI ?k = Some (Inr (Jump Connect_T6), k1)"
      by (auto simp: recv_hsmsI_def numeral_eq_Suc)
    then show ?thesis using client_connect_sent [OF assms(1)] by fastforce
  next
    case 2
    then obtain es1 where "recv_hsmsI ?k = Some (Inl (header, body), ?k\<lparr>lk_in := es1\<rparr>)"
      using recv_hsmsI_arrives [of ?k header body] c(2) by auto
    then show ?thesis using client_connect_sent [OF assms(1)] by fastforce
  qed
qed

theorem client_connect_any_answer_witness:
  "(\<exists>st1. client_connect (example_state [Fire 6]) = Some (Ret 0, st1)) \<and>
    (\<exists>st1. client_connect (example_state (map Data (hsms_frame (replicate 10 9) []))) = Some (Ret 0, st1))"
  using client_connect_any_answer [of "example_state [Fire 6]" "[]"]
    client_connect_any_answer [of "example_state (map Data (hsms_frame (replicate 10 9) []))" "[]" "replicate 10 9" "[]"]
  by (auto simp: example_defs)



end
