(* ===== verification/Handlers.thy ===== *)
theory Handlers
  imports Scan Tokens
begin

section \<open>The table of connections and its options (handler.c, proto.c)\<close>

text \<open>
  A connection that a program has opened is a slot of the table \<open>fd_info\<close>, found by its name: its
  descriptor, the client that sent last, the protocol, the level of logging, the options it was
  opened with and the options of the last \<open>SEND\<close>, which are looked at first. A free slot is
  one with an empty name. The options are kept as the 128 bytes of their arrays, because the
  text of an option is read up to a blank or a closing quote, and not to the end of the
  text. The main results are that a connection that is set is read back, that the names in the
  table stay distinct under every operation, and what value an option has.
\<close>

datatype protos = PROTO_COMMANDS | PROTO_STANDARD | PROTO_XML | PROTO_HSMS | PROTO_SECS
  | PROTO_MBX | PROTO_MBX_VFEI_20 | PROTO_UNKNOWN

definition lookup_proto :: "string \<Rightarrow> protos" where
  "lookup_proto str =
     (if str = ''commands'' then PROTO_COMMANDS
      else if str = ''standard'' then PROTO_STANDARD
      else if str = ''xml'' then PROTO_XML
      else if str = ''hsms'' then PROTO_HSMS
      else if str = ''secs'' then PROTO_SECS
      else if str = ''mbx'' then PROTO_MBX
      else if str = ''mbx_vfei_2.0'' then PROTO_MBX_VFEI_20
      else PROTO_UNKNOWN)"

definition show_proto :: "protos \<Rightarrow> string" where
  "show_proto proto =
     (case proto of PROTO_COMMANDS \<Rightarrow> ''cmd '' | PROTO_STANDARD \<Rightarrow> ''std '' | PROTO_XML \<Rightarrow> ''xml ''
      | PROTO_HSMS \<Rightarrow> ''hsms'' | PROTO_SECS \<Rightarrow> ''secs'' | PROTO_MBX \<Rightarrow> ''mbx ''
      | PROTO_MBX_VFEI_20 \<Rightarrow> ''vfei'' | PROTO_UNKNOWN \<Rightarrow> ''Unknown'')"

text \<open>A \<open>FILE\<close> pointer is a number, \<open>NULL\<close> is \<open>None\<close>.\<close>

record fd_slot =
  fi_name :: string
  fi_fd :: int
  fi_options :: string
  fi_override :: string
  fi_proto :: protos
  fi_client_fd :: int
  fi_logging :: int
  fi_logfile :: "nat option"

definition MAX_FDS :: nat where
  "MAX_FDS = 100"

text \<open>\<open>strcpy\<close> into an array of which the bytes behind the text stay what they are.\<close>

definition str_store :: "string \<Rightarrow> string \<Rightarrow> string option" where
  "str_store arr s = do {
     require (length (cstr s) < length arr);
     Some (cstr s @ NUL # drop (length (cstr s) + 1) arr)
   }"

fun find_slot :: "('a \<Rightarrow> bool) \<Rightarrow> 'a list \<Rightarrow> nat option" where
  "find_slot P [] = None"
| "find_slot P (s # t) = (if P s then Some 0 else map_option Suc (find_slot P t))"

definition name_slot :: "fd_slot list \<Rightarrow> string \<Rightarrow> nat option" where
  "name_slot t name = find_slot (\<lambda>s. fi_name s = cstr name) t"

definition init_handler :: "fd_slot list \<Rightarrow> fd_slot list" where
  "init_handler t = map (\<lambda>s. s\<lparr>fi_name := [], fi_fd := 0, fi_options := (fi_options s)[0 := NUL],
     fi_override := (fi_override s)[0 := NUL], fi_proto := PROTO_UNKNOWN, fi_client_fd := 0,
     fi_logging := 0, fi_logfile := None\<rparr>) t"

subsection \<open>Looking a connection up\<close>

definition get_fd :: "fd_slot list \<Rightarrow> string \<Rightarrow> int" where
  "get_fd t name = (case name_slot t name of None \<Rightarrow> 0 | Some i \<Rightarrow> fi_fd (t ! i))"

definition get_client_fd :: "fd_slot list \<Rightarrow> string \<Rightarrow> int" where
  "get_client_fd t name = (case name_slot t name of None \<Rightarrow> 0 | Some i \<Rightarrow> fi_client_fd (t ! i))"

text \<open>The name of the first slot with the descriptor, as its own or as that of its client.\<close>

definition get_name :: "fd_slot list \<Rightarrow> int \<Rightarrow> string run" where
  "get_name t fd =
     (case find_slot (\<lambda>s. fi_fd s = fd \<or> fi_client_fd s = fd) t of
        None \<Rightarrow> Exit
      | Some i \<Rightarrow> Done (fi_name (t ! i)))"

definition get_logfile_fp :: "fd_slot list \<Rightarrow> string \<Rightarrow> nat option" where
  "get_logfile_fp t name = (case name_slot t name of None \<Rightarrow> None | Some i \<Rightarrow> fi_logfile (t ! i))"

definition get_logging :: "fd_slot list \<Rightarrow> string \<Rightarrow> int" where
  "get_logging t name = (case name_slot t name of None \<Rightarrow> 2 | Some i \<Rightarrow> fi_logging (t ! i))"

definition get_proto :: "fd_slot list \<Rightarrow> string \<Rightarrow> protos run" where
  "get_proto t name = (case name_slot t name of None \<Rightarrow> Exit | Some i \<Rightarrow> Done (fi_proto (t ! i)))"

subsection \<open>Options\<close>

text \<open>\<open>strstr\<close> as it is used here: what follows the first place where the text \<open>w\<close> is.\<close>

fun after_text :: "string \<Rightarrow> string \<Rightarrow> string option" where
  "after_text w [] = (if w = [] then Some [] else None)"
| "after_text w (c # s) = (if starts w (c # s) then Some (drop (length w) (c # s)) else after_text w s)"

text \<open>The loop of \<open>get_opt\<close>: \<open>n\<close> characters are left of the 128 it looks at, the
  flag tells that it is behind an opening quote. Within quotes the loop runs past the end of the text; past the
  array the behaviour is undefined.\<close>

fun opt_loop :: "nat \<Rightarrow> bool \<Rightarrow> string \<Rightarrow> string \<Rightarrow> string run option" where
  "opt_loop 0 flag ptr valu = Some Exit"
| "opt_loop (Suc n) flag [] valu = None"
| "opt_loop (Suc n) True (c # ptr) valu =
     (if c = CHR 0x22 then Some (Done valu) else opt_loop n True ptr (valu @ [c]))"
| "opt_loop (Suc n) False (c # ptr) valu =
     (if c = CHR 0x22 then opt_loop n True ptr valu
      else if c \<noteq> CHR '' '' \<and> c \<noteq> NUL then opt_loop n False ptr (valu @ [c])
      else Some (Done valu))"

text \<open>\<open>options\<close> is the array, the result the text that the static array \<open>value\<close> holds.\<close>

definition get_opt :: "string \<Rightarrow> string \<Rightarrow> string run option" where
  "get_opt options opt =
     (case after_text opt (cstr options) of
        None \<Rightarrow> Some (Done [])
      | Some ptr \<Rightarrow>
          run_bind (opt_loop 128 False (ptr @ drop (length (cstr options)) options) [])
            (\<lambda>valu. Some (Done (cstr valu))))"

definition get_option :: "fd_slot list \<Rightarrow> string \<Rightarrow> string \<Rightarrow> string run option" where
  "get_option t opt name =
     (case name_slot t name of
        None \<Rightarrow> Some (Done [])
      | Some i \<Rightarrow>
          run_bind (get_opt (fi_override (t ! i)) opt) (\<lambda>v.
          if v = [] then get_opt (fi_options (t ! i)) opt else Some (Done v)))"

subsection \<open>Changing the table\<close>

definition set_logging :: "fd_slot list \<Rightarrow> string \<Rightarrow> int \<Rightarrow> fd_slot list run" where
  "set_logging t name valu =
     (case name_slot t name of None \<Rightarrow> Exit | Some i \<Rightarrow> Done (t[i := (t ! i)\<lparr>fi_logging := valu\<rparr>]))"

definition update_fd_info :: "fd_slot list \<Rightarrow> string \<Rightarrow> int \<Rightarrow> fd_slot list" where
  "update_fd_info t name client_fd =
     (case name_slot t name of None \<Rightarrow> t | Some i \<Rightarrow> t[i := (t ! i)\<lparr>fi_client_fd := client_fd\<rparr>])"

text \<open>The slot of the name, or else the first free one.\<close>

definition info_slot :: "fd_slot list \<Rightarrow> string \<Rightarrow> nat option" where
  "info_slot t name =
     (case name_slot t name of Some i \<Rightarrow> Some i | None \<Rightarrow> find_slot (\<lambda>s. fi_name s = []) t)"

definition set_fd_info ::
    "fd_slot list \<Rightarrow> string \<Rightarrow> int \<Rightarrow> string \<Rightarrow> protos \<Rightarrow> int \<Rightarrow> nat option \<Rightarrow> fd_slot list run option" where
  "set_fd_info t name fd options proto logging fp =
     (case info_slot t name of
        None \<Rightarrow> Some Exit
      | Some i \<Rightarrow> do {
          opts \<leftarrow> str_store (fi_options (t ! i)) options;
          require (length (cstr name) < 128);
          Some (Done (t[i := (t ! i)\<lparr>fi_fd := fd, fi_proto := proto, fi_options := opts,
            fi_name := cstr name, fi_logging := logging, fi_logfile := fp\<rparr>]))
        })"

definition override_options :: "fd_slot list \<Rightarrow> string \<Rightarrow> string \<Rightarrow> fd_slot list run option" where
  "override_options t name options =
     (case name_slot t name of
        None \<Rightarrow> Some Exit
      | Some i \<Rightarrow> do {
          opts \<leftarrow> str_store (fi_override (t ! i)) options;
          Some (Done (t[i := (t ! i)\<lparr>fi_override := opts\<rparr>]))
        })"

subsection \<open>Showing the table\<close>

abbreviation newline :: string where
  "newline \<equiv> [CHR 0x0A]"

definition print_int :: "int \<Rightarrow> string" where
  "print_int i = print_d (of_int i)"

definition show_logging :: "fd_slot list \<Rightarrow> string" where
  "show_logging t = ''Current logging is:'' @ newline @ concat (map (\<lambda>s.
     ''  Name <'' @ fi_name s @ ''>, logging <'' @ print_int (fi_logging s) @ ''>'' @ newline)
     (filter (\<lambda>s. fi_fd s \<noteq> 0) t))"

definition dump_slot :: "fd_slot \<Rightarrow> string" where
  "dump_slot s =
     ''  Name <'' @ fi_name s @ ''>, fd <'' @ print_int (fi_fd s) @ ''>, proto <'' @ show_proto (fi_proto s) @
     ''>, client fd <'' @ print_int (fi_client_fd s) @ ''>, logging <'' @ print_int (fi_logging s) @ ''>'' @ newline @
     ''    options <'' @ cstr (fi_options s) @ ''>, override <'' @ cstr (fi_override s) @ ''>'' @ newline"

definition dump_handler :: "fd_slot list \<Rightarrow> string" where
  "dump_handler t = ''Handlers:'' @ newline @ concat (map dump_slot (filter (\<lambda>s. fi_fd s \<noteq> 0) t))"

subsection \<open>Lemmas: the slots of the table\<close>

lemma find_slot_Some:
  "find_slot P t = Some i \<longleftrightarrow> i < length t \<and> P (t ! i) \<and> (\<forall>j < i. \<not> P (t ! j))"
proof (induction t arbitrary: i)
  case (Cons s t)
  show ?case
  proof (cases i)
    case (Suc k)
    then show ?thesis using Cons.IH [of k] by (auto simp: less_Suc_eq_0_disj)
  qed auto
qed simp

lemma find_slot_None: "find_slot P t = None \<longleftrightarrow> (\<forall>s \<in> set t. \<not> P s)"
  by (induction t) auto

text \<open>The invariant: the names in use differ, every array holds a text.\<close>

definition slot_ok :: "fd_slot \<Rightarrow> bool" where
  "slot_ok s \<longleftrightarrow> no_nul (fi_name s) \<and> length (fi_name s) < 128 \<and>
     length (fi_options s) = 128 \<and> NUL \<in> set (fi_options s) \<and>
     length (fi_override s) = 128 \<and> NUL \<in> set (fi_override s)"

definition fds_ok :: "fd_slot list \<Rightarrow> bool" where
  "fds_ok t \<longleftrightarrow> length t = MAX_FDS \<and> list_all slot_ok t \<and>
     (\<forall>i < length t. \<forall>j < length t. i \<noteq> j \<longrightarrow> fi_name (t ! i) \<noteq> [] \<longrightarrow> fi_name (t ! i) \<noteq> fi_name (t ! j))"

lemma fds_slot: "fds_ok t \<Longrightarrow> i < length t \<Longrightarrow> slot_ok (t ! i)"
  by (simp add: fds_ok_def list_all_length)

lemma fds_names:
  "fds_ok t \<Longrightarrow> j < length t \<Longrightarrow> k < length t \<Longrightarrow> j \<noteq> k \<Longrightarrow> fi_name (t ! j) \<noteq> [] \<Longrightarrow>
    fi_name (t ! j) \<noteq> fi_name (t ! k)"
  by (simp add: fds_ok_def)

lemma fds_update:
  assumes "fds_ok t" "i < length t" "slot_ok s"
    and "fi_name s = fi_name (t ! i) \<or> (\<forall>u \<in> set t. fi_name u \<noteq> fi_name s)"
  shows "fds_ok (t[i := s])"
proof -
  have "fi_name (t[i := s] ! j) \<noteq> fi_name (t[i := s] ! k)"
    if "j < length t" "k < length t" "j \<noteq> k" "fi_name (t[i := s] ! j) \<noteq> []" for j k
    using that assms(2,4) fds_names [OF assms(1), of j k] fds_names [OF assms(1), of i k] fds_names [OF assms(1), of j i]
    by (cases "j = i"; cases "k = i") (auto dest: nth_mem)
  then show ?thesis using assms(1-3) by (auto simp: fds_ok_def list_all_length nth_list_update)
qed

lemma str_store_text:
  assumes "str_store arr s = Some r"
  shows "length r = length arr \<and> NUL \<in> set r \<and> cstr r = cstr s"
  using assms cstr_append_NUL [of "cstr s"] by (auto simp: str_store_def)

lemma name_slot_Some:
  "name_slot t name = Some i \<Longrightarrow> i < length t \<and> fi_name (t ! i) = cstr name"
  by (simp add: name_slot_def find_slot_Some)

text \<open>The slot of a name that is in use, wherever a slot is replaced.\<close>

lemma name_slot_unique:
  assumes "fds_ok t" "i < length t" "fi_name (t ! i) = cstr name" "cstr name \<noteq> []"
  shows "name_slot t name = Some i"
  unfolding name_slot_def find_slot_Some using assms unfolding fds_ok_def by (metis order.strict_trans less_irrefl)

text \<open>The table as a map from names to slots.\<close>

definition fds_map :: "fd_slot list \<Rightarrow> string \<Rightarrow> fd_slot option" where
  "fds_map t n = (if cstr n = [] then None else map_option (\<lambda>i. t ! i) (name_slot t n))"

lemma fds_map_update:
  assumes "fds_ok t" "fds_ok (t[i := s])" "i < length t" "fi_name s = cstr n" "cstr n \<noteq> []"
    "fi_name (t ! i) = cstr n \<or> fi_name (t ! i) = []" "no_nul m" "no_nul n"
  shows "fds_map (t[i := s]) m = ((fds_map t)(n \<mapsto> s)) m"
proof (cases "m = n")
  case True
  have "name_slot (t[i := s]) n = Some i" using assms by (intro name_slot_unique) auto
  then show ?thesis using True assms(3,5) by (simp add: fds_map_def)
next
  case False
  then have d: "cstr m \<noteq> cstr n" using assms(7,8) by simp
  show ?thesis
  proof (cases "name_slot t m")
    case None
    then have "cstr m \<noteq> [] \<Longrightarrow> name_slot (t[i := s]) m = None"
      using d assms(4) by (auto simp: name_slot_def find_slot_None dest: subsetD [OF set_update_subset_insert])
    then show ?thesis using None False by (auto simp: fds_map_def)
  next
    case (Some k)
    then have k: "k < length t" "fi_name (t ! k) = cstr m" by (auto dest: name_slot_Some)
    show ?thesis
    proof (cases "cstr m = []")
      case c: False
      then have "k \<noteq> i" using k d assms(6) by auto
      then have "name_slot (t[i := s]) m = Some k" using k assms(2) c by (intro name_slot_unique) auto
      then show ?thesis using Some False \<open>k \<noteq> i\<close> by (simp add: fds_map_def)
    qed (use False in \<open>simp add: fds_map_def\<close>)
  qed
qed

lemma fds_lookup:
  assumes "no_nul n" "n \<noteq> []"
  shows "get_fd t n = (case fds_map t n of None \<Rightarrow> 0 | Some s \<Rightarrow> fi_fd s)"
    "get_client_fd t n = (case fds_map t n of None \<Rightarrow> 0 | Some s \<Rightarrow> fi_client_fd s)"
    "get_logging t n = (case fds_map t n of None \<Rightarrow> 2 | Some s \<Rightarrow> fi_logging s)"
    "get_proto t n = (case fds_map t n of None \<Rightarrow> Exit | Some s \<Rightarrow> Done (fi_proto s))"
    "get_logfile_fp t n = (case fds_map t n of None \<Rightarrow> None | Some s \<Rightarrow> fi_logfile s)"
  using assms
  by (simp_all add: fds_map_def get_fd_def get_client_fd_def get_logging_def get_proto_def
      get_logfile_fp_def split: option.splits)

lemma info_slot_Some:
  assumes "info_slot t name = Some i"
  shows "i < length t \<and> (fi_name (t ! i) = cstr name \<or> fi_name (t ! i) = [] \<and> name_slot t name = None)"
  using assms by (auto simp: info_slot_def find_slot_Some dest: name_slot_Some split: option.splits)

lemma set_fd_info_slot:
  assumes "set_fd_info t name fd options proto lg fp = Some (Done t1)" "fds_ok t" "no_nul name" "name \<noteq> []"
    "no_nul options"
  obtains i s where "i < length t" "t1 = t[i := s]" "fds_ok t1" "fi_name s = name"
    "fi_fd s = fd" "fi_proto s = proto" "cstr (fi_options s) = options" "fi_logging s = lg" "fi_logfile s = fp"
    "fi_override s = fi_override (t ! i)" "fi_client_fd s = fi_client_fd (t ! i)"
    "fi_name (t ! i) = name \<or> fi_name (t ! i) = [] \<and> fds_map t name = None"
proof -
  obtain i opts where i: "info_slot t name = Some i" "str_store (fi_options (t ! i)) options = Some opts"
    and l: "length name < 128"
    and t1: "t1 = t[i := (t ! i)\<lparr>fi_fd := fd, fi_proto := proto, fi_options := opts,
      fi_name := cstr name, fi_logging := lg, fi_logfile := fp\<rparr>]"
    using assms(1,3) by (auto simp: set_fd_info_def split: option.splits)
  let ?s = "(t ! i)\<lparr>fi_fd := fd, fi_proto := proto, fi_options := opts,
      fi_name := cstr name, fi_logging := lg, fi_logfile := fp\<rparr>"
  have n: "i < length t" "fi_name (t ! i) = cstr name \<or> fi_name (t ! i) = [] \<and> name_slot t name = None"
    using info_slot_Some [OF i(1)] by auto
  have o: "length opts = length (fi_options (t ! i)) \<and> NUL \<in> set opts \<and> cstr opts = cstr options"
    using str_store_text [OF i(2)] .
  have "slot_ok ?s" using fds_slot [OF assms(2) n(1)] o l assms(3) by (simp add: slot_ok_def)
  moreover have "fi_name ?s = fi_name (t ! i) \<or> (\<forall>u \<in> set t. fi_name u \<noteq> fi_name ?s)"
    using n(2) by (auto simp: name_slot_def find_slot_None)
  ultimately have "fds_ok t1" using fds_update [OF assms(2) n(1)] t1 by blast
  then show thesis
    using that [of i ?s] n o t1 assms(3,4,5) by (auto simp: fds_map_def)
qed

subsection \<open>Lemmas: the value of an option\<close>

text \<open>The options as they are written: names and values, a value with a blank in quotes.\<close>

definition quoted :: "string \<Rightarrow> string" where
  "quoted v = (if CHR '' '' \<in> set v then CHR 0x22 # v @ [CHR 0x22] else v)"

fun opt_text :: "(string \<times> string) list \<Rightarrow> string" where
  "opt_text [] = []"
| "opt_text ((k, v) # r) = k @ CHR ''='' # quoted v @ CHR '' '' # opt_text r"

definition opt_key :: "string \<Rightarrow> bool" where
  "opt_key k \<longleftrightarrow> k \<noteq> [] \<and> set k \<inter> {CHR ''='', CHR '' '', CHR 0x22, NUL} = {}"

definition opt_val :: "string \<Rightarrow> bool" where
  "opt_val v \<longleftrightarrow> set v \<inter> {CHR ''='', CHR 0x22, NUL} = {} \<and> length v < 126"

definition opts_ok :: "(string \<times> string) list \<Rightarrow> bool" where
  "opts_ok kvs \<longleftrightarrow> (\<forall>(k, v) \<in> set kvs. opt_key k \<and> opt_val v)"

text \<open>The name \<open>k\<close> is not the end of another name: \<open>get_opt\<close> looks for a part of the text.\<close>

definition ends_no_key :: "string \<Rightarrow> (string \<times> string) list \<Rightarrow> bool" where
  "ends_no_key k kvs \<longleftrightarrow> (\<forall>(k', v) \<in> set kvs. k' \<noteq> k \<longrightarrow> (\<forall>u. k' \<noteq> u @ k))"

lemma starts_append: "starts w (w @ s)"
  by (simp add: starts_def)

lemma starts_eq: "starts w s \<longleftrightarrow> (\<exists>r. s = w @ r)"
proof
  assume "starts w s"
  then have "s = w @ drop (length w) s" unfolding starts_def by (metis append_take_drop_id)
  then show "\<exists>r. s = w @ r" ..
qed (auto simp: starts_def)

lemma after_text_here: "w \<noteq> [] \<Longrightarrow> after_text w (w @ s) = Some s"
  using starts_append [of w s] by (cases w) simp_all

lemma after_text_skip:
  assumes "\<And>u. \<exists>x. x \<noteq> [] \<and> p = u @ x \<and> starts w (x @ s) \<Longrightarrow> False" "w \<noteq> []"
  shows "after_text w (p @ s) = after_text w s"
  using assms(1)
proof (induction p)
  case (Cons c p)
  have "\<not> starts w (c # p @ s)" using Cons.prems [of "[]"] by auto
  moreover have "after_text w (p @ s) = after_text w s"
  proof (rule Cons.IH)
    fix u assume "\<exists>x. x \<noteq> [] \<and> p = u @ x \<and> starts w (x @ s)"
    then show False using Cons.prems [of "c # u"] by auto
  qed
  ultimately show ?case by simp
qed simp

lemma split_first:
  "a @ c # x = b @ c # y \<Longrightarrow> c \<notin> set a \<Longrightarrow> c \<notin> set b \<Longrightarrow> a = b \<and> x = y"
proof (induction a arbitrary: b)
  case Nil then show ?case by (cases b) auto
next
  case (Cons d a) then show ?case by (cases b) auto
qed

text \<open>Where the text \<open>k=\<close> cannot be: at a character that \<open>k\<close> does not have, or before one
  that comes earlier than the next equal sign.\<close>

lemma no_start:
  assumes "opt_key k" "starts (k @ [CHR ''='']) (x @ d # s)" "d \<in> {CHR '' '', CHR 0x22}" "CHR ''='' \<notin> set x"
  shows False
proof -
  obtain r where r: "x @ d # s = k @ CHR ''='' # r" using assms(2) by (auto simp: starts_eq)
  then obtain v where "k = x @ v \<and> d # s = v @ CHR ''='' # r \<or> x = k @ v \<and> v @ d # s = CHR ''='' # r"
    unfolding append_eq_append_conv2 by blast
  then show False using assms(1,3,4) by (auto simp: opt_key_def Cons_eq_append_conv append_eq_Cons_conv)
qed

lemma after_text_entry:
  assumes "opt_key k" "opt_key k'" "opt_val v" "\<And>u. k' \<noteq> u @ k"
  shows "after_text (k @ [CHR ''='']) (k' @ CHR ''='' # quoted v @ CHR '' '' # s) =
    after_text (k @ [CHR ''='']) s"
proof -
  let ?w = "k @ [CHR ''='']"
  have "after_text ?w ((k' @ CHR ''='' # quoted v @ [CHR '' '']) @ s) = after_text ?w s"
  proof (rule after_text_skip)
    fix u
    assume "\<exists>x. x \<noteq> [] \<and> k' @ CHR ''='' # quoted v @ [CHR '' ''] = u @ x \<and> starts ?w (x @ s)"
    then obtain x where x: "x \<noteq> []" "k' @ CHR ''='' # quoted v @ [CHR '' ''] = u @ x" "starts ?w (x @ s)"
      by blast
    from x(2) obtain z where "u = k' @ z \<and> CHR ''='' # quoted v @ [CHR '' ''] = z @ x \<or>
        k' = u @ z \<and> x = z @ CHR ''='' # quoted v @ [CHR '' '']"
      unfolding append_eq_append_conv2 by blast
    then consider z where "x = z @ CHR ''='' # quoted v @ [CHR '' '']" "k' = u @ z"
      | z where "CHR ''='' # quoted v @ [CHR '' ''] = z @ x" "z \<noteq> []"
      by (cases "z = []") auto
    then show False
    proof cases
      case 1
      then obtain r where "z @ CHR ''='' # quoted v @ CHR '' '' # s = k @ CHR ''='' # r"
        using x(3) by (auto simp: starts_eq)
      moreover have "CHR ''='' \<notin> set z" "CHR ''='' \<notin> set k" using 1(2) assms(1,2) by (auto simp: opt_key_def)
      ultimately have "z = k" by (blast dest: split_first)
      then show False using 1(2) assms(4) by blast
    next
      case 2
      then obtain y where y: "quoted v @ [CHR '' ''] = y @ x" by (auto simp: Cons_eq_append_conv)
      have e: "CHR ''='' \<notin> set (quoted v @ [CHR '' ''])" using assms(3) by (auto simp: quoted_def opt_val_def)
      obtain x1 where x1: "x = x1 @ [CHR '' '']" using y x(1) by (cases x rule: rev_cases) auto
      have "CHR ''='' \<notin> set x1" using e unfolding y x1 by simp
      moreover have "starts ?w (x1 @ CHR '' '' # s)" using x(3) x1 by simp
      ultimately show False using no_start [OF assms(1)] by blast
    qed
  qed simp
  then show ?thesis by simp
qed

lemma opt_loop_quoted:
  "CHR 0x22 \<notin> set v \<Longrightarrow> length v < n \<Longrightarrow> opt_loop n True (v @ CHR 0x22 # s) acc = Some (Done (acc @ v))"
proof (induction v arbitrary: n acc)
  case Nil then show ?case by (cases n) simp_all
next
  case (Cons c v) then show ?case by (cases n) auto
qed

lemma opt_loop_plain:
  "set v \<inter> {CHR '' '', CHR 0x22, NUL} = {} \<Longrightarrow> length v < n \<Longrightarrow>
    opt_loop n False (v @ CHR '' '' # s) acc = Some (Done (acc @ v))"
proof (induction v arbitrary: n acc)
  case Nil then show ?case by (cases n) simp_all
next
  case (Cons c v) then show ?case by (cases n) auto
qed

lemma opt_loop_value:
  assumes "opt_val v"
  shows "opt_loop 128 False (quoted v @ CHR '' '' # s) [] = Some (Done v)"
proof (cases "CHR '' '' \<in> set v")
  case True
  then have "opt_loop (Suc 127) False (quoted v @ CHR '' '' # s) [] = opt_loop 127 True (v @ CHR 0x22 # CHR '' '' # s) []"
    by (simp only: quoted_def append_Cons append_assoc append_Nil opt_loop.simps if_True simp_thms)
  also have "\<dots> = Some (Done v)" using opt_loop_quoted [of v 127] assms by (simp add: opt_val_def)
  finally show ?thesis by simp
next
  case False
  then show ?thesis using opt_loop_plain [of v 128] assms by (auto simp: quoted_def opt_val_def)
qed

lemma no_nul_set: "no_nul s \<longleftrightarrow> NUL \<notin> set s"
  using nul_iff by (auto simp: no_nul_def list_all_iff)

lemma opt_text_no_nul: "opts_ok kvs \<Longrightarrow> no_nul (opt_text kvs)"
  by (induction kvs rule: opt_text.induct)
    (auto simp: opts_ok_def no_nul_set opt_key_def opt_val_def quoted_def)

lemma get_opt_text:
  assumes "opts_ok kvs" "ends_no_key k kvs" "opt_key k"
  shows "get_opt (opt_text kvs @ NUL # stale) (k @ [CHR ''='']) =
    Some (Done (case map_of kvs k of None \<Rightarrow> [] | Some v \<Rightarrow> v))"
proof -
  let ?w = "k @ [CHR ''='']"
  have a: "(case map_of kvs k of None \<Rightarrow> after_text ?w (opt_text kvs) = None
      | Some v \<Rightarrow> opt_val v \<and> (\<exists>r. after_text ?w (opt_text kvs) = Some (quoted v @ CHR '' '' # r)))"
    using assms(1,2)
  proof (induction kvs rule: opt_text.induct)
    case (2 k' v r)
    have e: "opt_key k'" "opt_val v" "opts_ok r" "ends_no_key k r"
      using 2(2,3) by (auto simp: opts_ok_def ends_no_key_def)
    show ?case
    proof (cases "k' = k")
      case True
      then show ?thesis using after_text_here [of ?w "quoted v @ CHR '' '' # opt_text r"] e(2) by auto
    next
      case False
      then have "after_text ?w (opt_text ((k', v) # r)) = after_text ?w (opt_text r)"
        using after_text_entry [OF assms(3) e(1,2)] 2(3) by (auto simp: ends_no_key_def)
      then show ?thesis using 2(1) [OF e(3,4)] False by (auto split: option.splits)
    qed
  qed simp
  have c: "cstr (opt_text kvs @ NUL # stale) = opt_text kvs"
    using opt_text_no_nul [OF assms(1)] cstr_append_NUL [of "opt_text kvs" stale] by simp
  show ?thesis
  proof (cases "map_of kvs k")
    case None
    then show ?thesis using a c by (simp add: get_opt_def)
  next
    case (Some v)
    then obtain r where "opt_val v" "after_text ?w (opt_text kvs) = Some (quoted v @ CHR '' '' # r)"
      using a by auto
    then show ?thesis
      using Some c opt_loop_value [of v] by (auto simp: get_opt_def no_nul_set opt_val_def)
  qed
qed

lemma cstr_split: "NUL \<in> set a \<Longrightarrow> \<exists>stale. a = cstr a @ NUL # stale"
proof -
  assume "NUL \<in> set a"
  then have "dropWhile (\<lambda>c. of_char c \<noteq> (0 :: nat)) a = NUL # tl (dropWhile (\<lambda>c. of_char c \<noteq> (0 :: nat)) a)"
    by (induction a) (auto simp: nul_iff)
  then show ?thesis unfolding cstr_def by (metis takeWhile_dropWhile_id)
qed

lemma get_opt_array:
  assumes "cstr a = opt_text kvs" "NUL \<in> set a" "opts_ok kvs" "ends_no_key k kvs" "opt_key k"
  shows "get_opt a (k @ [CHR ''='']) = Some (Done (case map_of kvs k of None \<Rightarrow> [] | Some v \<Rightarrow> v))"
  using get_opt_text [OF assms(3-5)] cstr_split [OF assms(2)] assms(1) by auto

text \<open>The operations on the table, in the order a run of the program calls them.\<close>

datatype fd_op = SetFd string int string protos int "nat option" | OverrideFd string string
  | LoggingFd string int | ClientFd string int

definition fd_apply :: "fd_op \<Rightarrow> fd_slot list \<Rightarrow> fd_slot list run option" where
  "fd_apply x t =
     (case x of
        SetFd name fd options proto lg fp \<Rightarrow> set_fd_info t name fd options proto lg fp
      | OverrideFd name options \<Rightarrow> override_options t name options
      | LoggingFd name v \<Rightarrow> Some (set_logging t name v)
      | ClientFd name fd \<Rightarrow> Some (Done (update_fd_info t name fd)))"

inductive fd_reach :: "fd_slot list \<Rightarrow> bool" where
  fd_start: "length mem = MAX_FDS \<Longrightarrow>
    list_all (\<lambda>s. length (fi_options s) = 128 \<and> length (fi_override s) = 128) mem \<Longrightarrow> fd_reach (init_handler mem)"
| fd_step: "fd_reach t \<Longrightarrow> fd_apply x t = Some (Done t1) \<Longrightarrow> fd_reach t1"

lemma fds_ok_init:
  assumes "length mem = MAX_FDS" "list_all (\<lambda>s. length (fi_options s) = 128 \<and> length (fi_override s) = 128) mem"
  shows "fds_ok (init_handler mem)"
proof -
  have n: "NUL \<in> set (x[0 := NUL])" if "length x = 128" for x using that by (cases x) auto
  then show ?thesis using assms by (auto simp: fds_ok_def init_handler_def slot_ok_def list_all_length)
qed

lemma fds_same_name:
  assumes "fds_ok t" "name_slot t name = Some i" "slot_ok s" "fi_name s = fi_name (t ! i)"
  shows "fds_ok (t[i := s])"
  using fds_update [OF assms(1) _ assms(3)] name_slot_Some [OF assms(2)] assms(4) by blast

lemma fds_ok_apply:
  assumes "fds_ok t" "fd_apply x t = Some (Done t1)"
  shows "fds_ok t1"
proof -
  have slot: "slot_ok (t ! i)" if "name_slot t n = Some i" for n i
    using fds_slot [OF assms(1)] name_slot_Some [OF that] by blast
  show ?thesis
  proof (cases x)
    case (SetFd name fd options proto lg fp)
    then obtain i opts where i: "info_slot t name = Some i" "str_store (fi_options (t ! i)) options = Some opts"
        "length (cstr name) < 128"
      and t1: "t1 = t[i := (t ! i)\<lparr>fi_fd := fd, fi_proto := proto, fi_options := opts,
        fi_name := cstr name, fi_logging := lg, fi_logfile := fp\<rparr>]"
      using assms(2) by (auto simp: fd_apply_def set_fd_info_def split: option.splits)
    have n: "i < length t" "fi_name (t ! i) = cstr name \<or> name_slot t name = None"
      using info_slot_Some [OF i(1)] by auto
    then show ?thesis
      unfolding t1 using fds_slot [OF assms(1) n(1)] str_store_text [OF i(2)] i(3)
      by (intro fds_update assms(1)) (auto simp: slot_ok_def name_slot_def find_slot_None)
  next
    case (OverrideFd name options)
    then obtain i opts where i: "name_slot t name = Some i" "str_store (fi_override (t ! i)) options = Some opts"
      and t1: "t1 = t[i := (t ! i)\<lparr>fi_override := opts\<rparr>]"
      using assms(2) by (auto simp: fd_apply_def override_options_def split: option.splits)
    then show ?thesis
      unfolding t1 using slot [OF i(1)] str_store_text [OF i(2)]
      by (intro fds_same_name [OF assms(1) i(1)]) (auto simp: slot_ok_def)
  next
    case (LoggingFd name v)
    then show ?thesis using assms slot
      by (auto simp: fd_apply_def set_logging_def slot_ok_def intro!: fds_same_name split: option.splits)
  next
    case (ClientFd name fd)
    then show ?thesis using assms slot
      by (auto simp: fd_apply_def update_fd_info_def slot_ok_def intro!: fds_same_name split: option.splits)
  qed
qed

text \<open>An example: the table when the process starts, and with one connection opened.\<close>

definition blank_slot :: fd_slot where
  "blank_slot = \<lparr>fi_name = [], fi_fd = 0, fi_options = replicate 128 NUL, fi_override = replicate 128 NUL,
     fi_proto = PROTO_UNKNOWN, fi_client_fd = 0, fi_logging = 0, fi_logfile = None\<rparr>"

definition blank_fds :: "fd_slot list" where
  "blank_fds = blank_slot # replicate 99 blank_slot"

lemma blank_reach: "fd_reach blank_fds"
proof -
  have r: "(replicate 128 NUL)[0 := NUL] = replicate 128 NUL" using list_update_id [of "replicate 128 NUL" 0] by simp
  have "fd_reach (init_handler blank_fds)"
    by (rule fd_start) (simp_all add: blank_fds_def MAX_FDS_def blank_slot_def list_all_iff)
  moreover have "init_handler blank_fds = blank_fds"
    by (simp add: init_handler_def blank_fds_def blank_slot_def r)
  ultimately show ?thesis by simp
qed

lemma blank_ok: "fds_ok blank_fds"
  using fds_ok_init [of blank_fds] blank_reach
  by (simp add: fds_ok_def blank_fds_def blank_slot_def slot_ok_def MAX_FDS_def list_all_iff nth_Cons split: nat.splits)

definition one_slot :: fd_slot where
  "one_slot = blank_slot\<lparr>fi_name := ''eq1'', fi_fd := 5,
     fi_options := ''t1=5 eol=xx '' @ NUL # replicate 115 NUL, fi_proto := PROTO_SECS, fi_logging := 1\<rparr>"

lemma one_set:
  "set_fd_info blank_fds ''eq1'' 5 ''t1=5 eol=xx '' PROTO_SECS 1 None = Some (Done (one_slot # replicate 99 blank_slot))"
  by (simp add: set_fd_info_def info_slot_def name_slot_def blank_fds_def blank_slot_def one_slot_def
      str_store_def cstr_def find_slot_None [THEN iffD2] require_bind_True)


subsection \<open>Properties\<close>

text \<open>C22. The table of connections is a map from names to connections: opening a connection
  puts it under its name, whether the name is in use or not, keeps every other one, and keeps the
  table well formed. The process ends exactly when the name is new and no slot is free.\<close>

theorem set_fd_info_refines_map:
  assumes "fds_ok t" "no_nul name" "name \<noteq> []" "length name < 128" "no_nul options" "length options < 128"
  shows "case set_fd_info t name fd options proto lg fp of
      None \<Rightarrow> False
    | Some Exit \<Rightarrow> fds_map t name = None \<and> (\<forall>s \<in> set t. fi_name s \<noteq> [])
    | Some (Done t1) \<Rightarrow> fds_ok t1 \<and>
        (\<exists>s. (\<forall>m. no_nul m \<longrightarrow> fds_map t1 m = ((fds_map t)(name \<mapsto> s)) m) \<and>
          fi_fd s = fd \<and> fi_proto s = proto \<and> cstr (fi_options s) = options \<and> fi_logging s = lg \<and> fi_logfile s = fp)"
proof (cases "info_slot t name")
  case None
  then show ?thesis using assms(2)
    by (auto simp: set_fd_info_def info_slot_def fds_map_def find_slot_None split: option.splits)
next
  case (Some i)
  then have "slot_ok (t ! i)" using fds_slot [OF assms(1)] info_slot_Some by blast
  then have "set_fd_info t name fd options proto lg fp \<noteq> None \<and> set_fd_info t name fd options proto lg fp \<noteq> Some Exit"
    using Some assms by (simp add: set_fd_info_def str_store_def slot_ok_def require_bind_True)
  then obtain t1 where t1: "set_fd_info t name fd options proto lg fp = Some (Done t1)"
    by (metis run.exhaust option.exhaust)
  obtain j s where s: "j < length t" "t1 = t[j := s]" "fds_ok t1" "fi_name s = name" "fi_fd s = fd"
      "fi_proto s = proto" "cstr (fi_options s) = options" "fi_logging s = lg" "fi_logfile s = fp"
      "fi_name (t ! j) = name \<or> fi_name (t ! j) = [] \<and> fds_map t name = None"
    by (rule set_fd_info_slot [OF t1 assms(1-3,5)])
  have "fds_map t1 m = ((fds_map t)(name \<mapsto> s)) m" if "no_nul m" for m
    unfolding s(2) using s assms that by (intro fds_map_update) auto
  then show ?thesis using t1 s by auto
qed

theorem set_fd_info_refines_map_witness:
  "\<exists>t1 s. set_fd_info blank_fds ''eq1'' 5 ''t1=5 eol=xx '' PROTO_SECS 1 None = Some (Done t1) \<and>
     fds_map t1 ''eq1'' = Some s \<and> fi_fd s = 5 \<and> fi_proto s = PROTO_SECS"
  using set_fd_info_refines_map [OF blank_ok, of "''eq1''" "''t1=5 eol=xx ''" 5 PROTO_SECS 1 None]
  unfolding one_set by auto

text \<open>C23. Whatever sequence of operations has run since \<open>init_handler\<close>, the names in use are
  distinct, so a connection has one slot and every lookup by its name finds that one, and every
  text in the table ends within its array.\<close>

theorem fd_table_invariant:
  assumes "fd_reach t"
  shows "length t = MAX_FDS \<and> (\<forall>s \<in> set t. slot_ok s) \<and>
    (\<forall>i < length t. fi_name (t ! i) \<noteq> [] \<longrightarrow> get_fd t (fi_name (t ! i)) = fi_fd (t ! i) \<and>
       get_client_fd t (fi_name (t ! i)) = fi_client_fd (t ! i) \<and>
       get_proto t (fi_name (t ! i)) = Done (fi_proto (t ! i)) \<and> get_logging t (fi_name (t ! i)) = fi_logging (t ! i))"
proof -
  have ok: "fds_ok t"
    using assms by (induction rule: fd_reach.induct) (blast intro: fds_ok_init fds_ok_apply)+
  have "name_slot t (fi_name (t ! i)) = Some i" if "i < length t" "fi_name (t ! i) \<noteq> []" for i
    using name_slot_unique [OF ok that(1)] that fds_slot [OF ok that(1)] by (simp add: slot_ok_def)
  then show ?thesis
    using ok by (auto simp: fds_ok_def list_all_iff get_fd_def get_client_fd_def get_proto_def get_logging_def)
qed

theorem fd_table_invariant_witness:
  "length (one_slot # replicate 99 blank_slot) = MAX_FDS \<and> get_fd (one_slot # replicate 99 blank_slot) ''eq1'' = 5"
proof -
  have "fd_reach (one_slot # replicate 99 blank_slot)"
    using fd_step [OF blank_reach, of "SetFd ''eq1'' 5 ''t1=5 eol=xx '' PROTO_SECS 1 None"]
    unfolding fd_apply_def fd_op.case one_set by simp
  from fd_table_invariant [OF this]
  have "length (one_slot # replicate 99 blank_slot) = MAX_FDS"
    "get_fd (one_slot # replicate 99 blank_slot) (fi_name one_slot) = fi_fd one_slot"
    by (simp, auto dest: spec [where x = 0] simp: one_slot_def)
  then show ?thesis by (simp add: one_slot_def)
qed

text \<open>C24. The value of an option: of the options of the last \<open>SEND\<close> if it is there and not empty,
  else of those the connection was opened with, else nothing; a value with blanks is in quotes.
  The name must not be the end of another option's name.\<close>

theorem get_option_value:
  assumes "fd_reach t" "no_nul name" "name \<noteq> []"
    and "override_options t name (opt_text ovr) = Some (Done t1)"
    and "fds_map t name = Some s" "cstr (fi_options s) = opt_text opts"
    and "opts_ok opts" "opts_ok ovr" "opt_key k" "ends_no_key k opts" "ends_no_key k ovr"
  shows "get_option t1 (k @ ''='') name = Some (Done (
    case map_of ovr k of
      Some (c # v) \<Rightarrow> c # v
    | _ \<Rightarrow> (case map_of opts k of None \<Rightarrow> [] | Some v \<Rightarrow> v)))"
proof -
  have ok: "fds_ok t"
    using assms(1) by (induction rule: fd_reach.induct) (blast intro: fds_ok_init fds_ok_apply)+
  obtain i a where i: "name_slot t name = Some i" and a: "str_store (fi_override (t ! i)) (opt_text ovr) = Some a"
    and t1: "t1 = t[i := (t ! i)\<lparr>fi_override := a\<rparr>]"
    using assms(4) by (auto simp: override_options_def split: option.splits)
  have l: "i < length t" "fi_name (t ! i) = name" using name_slot_Some [OF i] assms(2) by auto
  have s: "s = t ! i" using assms(2,3,5) i by (simp add: fds_map_def)
  have "fds_ok t1" using fds_ok_apply [OF ok, of "OverrideFd name (opt_text ovr)"] assms(4) by (simp add: fd_apply_def)
  then have "name_slot t1 name = Some i"
    using t1 l assms(2,3) by (intro name_slot_unique) auto
  moreover have "get_opt a (k @ ''='') = Some (Done (case map_of ovr k of None \<Rightarrow> [] | Some v \<Rightarrow> v))"
    using str_store_text [OF a] assms(8,9,11) opt_text_no_nul [OF assms(8)] by (intro get_opt_array) auto
  moreover have "get_opt (fi_options (t ! i)) (k @ ''='') = Some (Done (case map_of opts k of None \<Rightarrow> [] | Some v \<Rightarrow> v))"
    using fds_slot [OF ok l(1)] assms(6,7,9,10) s by (intro get_opt_array) (auto simp: slot_ok_def)
  ultimately show ?thesis using t1 l(1)
    by (auto simp: get_option_def split: option.splits list.splits)
qed

theorem get_option_value_witness:
  "\<exists>t1. override_options (one_slot # replicate 99 blank_slot) ''eq1'' ''t1=7 '' = Some (Done t1) \<and>
     get_option t1 ''t1='' ''eq1'' = Some (Done ''7'') \<and> get_option t1 ''eol='' ''eq1'' = Some (Done ''xx'')"
proof -
  let ?t = "one_slot # replicate 99 blank_slot"
  let ?o = "[(''t1'', ''5''), (''eol'', ''xx'')]" let ?v = "[(''t1'', ''7'')]"
  have r: "fd_reach ?t"
    using fd_step [OF blank_reach, of "SetFd ''eq1'' 5 ''t1=5 eol=xx '' PROTO_SECS 1 None"]
    unfolding fd_apply_def fd_op.case one_set by simp
  obtain t1 where t1: "override_options ?t ''eq1'' (opt_text ?v) = Some (Done t1)"
    by (simp add: override_options_def name_slot_def one_slot_def str_store_def cstr_def quoted_def
        blank_slot_def require_bind_True)
  have m: "fds_map ?t ''eq1'' = Some one_slot" by (simp add: fds_map_def name_slot_def one_slot_def cstr_def)
  have o: "cstr (fi_options one_slot) = opt_text ?o" by (simp add: one_slot_def quoted_def cstr_def)
  have k: "opts_ok ?o" "opts_ok ?v" "opt_key ''t1''" "opt_key ''eol''" "ends_no_key ''t1'' ?o" "ends_no_key ''eol'' ?o"
    "ends_no_key ''t1'' ?v" "ends_no_key ''eol'' ?v"
    by (auto simp: opts_ok_def opt_key_def opt_val_def ends_no_key_def Cons_eq_append_conv)
  note g = get_option_value [OF r _ _ t1 m o k(1,2)]
  have "get_option t1 ''t1='' ''eq1'' = Some (Done ''7'')" using g [of "''t1''"] k by simp
  moreover have "get_option t1 ''eol='' ''eq1'' = Some (Done ''xx'')" using g [of "''eol''"] k by simp
  moreover have "opt_text ?v = ''t1=7 ''" by (simp add: quoted_def)
  ultimately show ?thesis using t1 by auto
qed

text \<open>Without that: the value of \<open>t1\<close> is what the option \<open>rt1\<close> before it has. And a quote that is
  not closed runs on through the array.\<close>

lemma get_opt_part_of_name: "get_opt (''rt1=9 t1=5'' @ replicate 9 NUL) ''t1='' = Some (Done ''9'')"
  by (simp add: get_opt_def starts_def cstr_def numeral_eq_Suc)

lemma get_opt_unclosed:
  "length stale < 120 \<Longrightarrow> CHR 0x22 \<notin> set stale \<Longrightarrow> get_opt (''eol='' @ CHR 0x22 # NUL # stale) ''eol='' = None"
proof -
  have "length s < n \<Longrightarrow> CHR 0x22 \<notin> set s \<Longrightarrow> opt_loop n True s acc = None" for n s acc
  proof (induction s arbitrary: n acc)
    case Nil then show ?case by (cases n) simp_all
  next
    case (Cons c s) then show ?case by (cases n) auto
  qed
  from this [of "NUL # stale" 127 "[]"]
  show "length stale < 120 \<Longrightarrow> CHR 0x22 \<notin> set stale \<Longrightarrow> ?thesis"
    by (simp add: get_opt_def starts_def cstr_def numeral_eq_Suc)
qed

text \<open>Closing a connection does not change the table, and the operating system gives its descriptor
  out again: a connection that is then opened under another name is taken for the closed one.\<close>

theorem reused_descriptor_old_name:
  assumes "fds_ok t" "i < length t" "fi_fd (t ! i) = fd" "\<forall>j < i. fi_fd (t ! j) \<noteq> fd \<and> fi_client_fd (t ! j) \<noteq> fd"
    and "\<forall>j \<le> i. fi_name (t ! j) \<noteq> []"
    and "no_nul name" "name \<noteq> []" "no_nul options" "fds_map t name = None"
    and "set_fd_info t name fd options proto lg fp = Some (Done t1)"
  shows "get_fd t1 name = fd \<and> get_name t1 fd = Done (fi_name (t ! i)) \<and> fi_name (t ! i) \<noteq> name"
proof -
  obtain j s where s: "j < length t" "t1 = t[j := s]" "fds_ok t1" "fi_name s = name" "fi_fd s = fd"
      "fi_name (t ! j) = name \<or> fi_name (t ! j) = [] \<and> fds_map t name = None"
    by (rule set_fd_info_slot [OF assms(10,1,6,7,8)])
  have n: "fi_name (t ! k) \<noteq> name" if "k < length t" for k
    using assms(6,7,9) that by (auto simp: fds_map_def name_slot_def find_slot_None)
  then have "fi_name (t ! j) = []" using s(1,6) by auto
  then have "i < j" using assms(5) by (metis not_le)
  then have "find_slot (\<lambda>s. fi_fd s = fd \<or> fi_client_fd s = fd) t1 = Some i"
    using s(1,2) assms(2-4) by (auto simp: find_slot_Some nth_list_update)
  moreover have "name_slot t1 name = Some j"
    using s(1-4) assms(6,7) by (intro name_slot_unique) auto
  ultimately show ?thesis
    using \<open>i < j\<close> s(1,2,5) n assms(2) by (simp add: get_name_def get_fd_def)
qed

theorem reused_descriptor_old_name_witness:
  "\<exists>t1. set_fd_info (one_slot # replicate 99 blank_slot) ''eq2'' 5 ''t3=9 '' PROTO_HSMS 1 None = Some (Done t1) \<and>
     get_fd t1 ''eq2'' = 5 \<and> get_name t1 5 = Done ''eq1''"
proof -
  let ?t = "one_slot # replicate 99 blank_slot"
  have ok: "fds_ok ?t" using fds_ok_apply [OF blank_ok, of "SetFd ''eq1'' 5 ''t1=5 eol=xx '' PROTO_SECS 1 None"]
    unfolding fd_apply_def fd_op.case one_set by simp
  have m: "fds_map ?t ''eq2'' = None"
    by (simp add: fds_map_def name_slot_def find_slot_None one_slot_def blank_slot_def)
  have "blank_slot \<in> set ?t" "fi_name blank_slot = []" by (simp_all add: blank_slot_def)
  then obtain t1 where "set_fd_info ?t ''eq2'' 5 ''t3=9 '' PROTO_HSMS 1 None = Some (Done t1)"
    using set_fd_info_refines_map [OF ok, of "''eq2''" "''t3=9 ''" 5 PROTO_HSMS 1 None]
    by (auto split: option.splits run.splits)
  then show ?thesis
    using reused_descriptor_old_name [OF ok, of 0 5 "''eq2''" "''t3=9 ''" PROTO_HSMS 1 None t1] m
    by (auto simp: one_slot_def)
qed

end
