(* ===== verification/Text_Msg.thy ===== *)
theory Text_Msg
  imports Hsms Handlers Expression_Value
begin

section \<open>Messages of text (convert_data.c, send_standard.c, send_xml.c)\<close>

text \<open>
  Two protocols send plain text. Bytes that cannot be printed are shown to programs as
  \<open>\n\<close>, \<open>\r\<close> and \<open>\xHH\<close>, and what a program sends is converted back. A standard message ends with a
  text that the option \<open>rcv_eol\<close> of the connection gives, an XML message with the closing tag of
  its first element. The main results are that the two conversions are inverse to each
  other, that a text that is sent with an end is the text that is received, however the bytes
  arrive, and that of an XML message exactly the first element is returned.
\<close>

subsection \<open>Conversions (convert_data.c)\<close>

abbreviation LF :: char where "LF \<equiv> CHR 0x0A"
abbreviation CR :: char where "CR \<equiv> CHR 0x0D"
abbreviation BSL :: char where "BSL \<equiv> CHR 0x5C"

definition data_chr :: "char \<Rightarrow> string" where
  "data_chr c =
     (if isprint c then [c]
      else if c = LF then BSL # ''n''
      else if c = CR then BSL # ''r''
      else BSL # CHR ''x'' # hex_lower c)"

definition data_to_char :: "string \<Rightarrow> string" where
  "data_to_char data = concat (map data_chr data)"

text \<open>\<open>sbuf\<close> is not initialised: of its 16 bytes two are written, and \<open>sscanf\<close> reads on as long as there
  are digits. \<open>stale i\<close> are the other bytes when the escape at the index \<open>i\<close> is read.\<close>

definition escape_value :: "string \<Rightarrow> string \<Rightarrow> char option" where
  "escape_value stale s =
     (let two = take 2 s;
          sbuf = two @ replicate (2 - length two) NUL @ stale
      in do { require (NUL \<in> set sbuf); Some (chr_of (ucast (sscanf_x sbuf 0))) })"

function escape_loop :: "(nat \<Rightarrow> string) \<Rightarrow> nat \<Rightarrow> string \<Rightarrow> string option" where
  "escape_loop stale i s =
     (if s = [] then Some []
      else if take 2 s = BSL # ''n'' then map_option ((#) LF) (escape_loop stale (i + 2) (drop 2 s))
      else if take 2 s = BSL # ''r'' then map_option ((#) CR) (escape_loop stale (i + 2) (drop 2 s))
      else if take 2 s = BSL # ''x'' then do {
        v \<leftarrow> escape_value (stale i) (drop 2 s);
        map_option ((#) v) (escape_loop stale (i + 4) (drop 4 s))
      }
      else map_option ((#) (hd s)) (escape_loop stale (i + 1) (drop 1 s)))"
  by pat_completeness auto
termination by (relation "measure (\<lambda>(_, _, s). length s)") auto

declare escape_loop.simps [simp del]

definition char_to_data :: "(nat \<Rightarrow> string) \<Rightarrow> string \<Rightarrow> string option" where
  "char_to_data stale buf_in = escape_loop stale 0 (cstr buf_in)"

subsection \<open>Standard messages (send_standard.c)\<close>

text \<open>The jump out of a read carries what has been received so far.\<close>

function standard_loop :: "string \<Rightarrow> string \<Rightarrow> link \<Rightarrow> (u32 \<times> string + jmp \<times> string) \<times> link" where
  "standard_loop eol reply k =
     (case my_readc k of
        (Failed, k1) \<Rightarrow> (Inl (1, reply), k1)
      | (Jumped j, k1) \<Rightarrow> (Inr (j, reply), k1)
      | (Got b, k1) \<Rightarrow>
          let r = reply @ data_chr (chr_of b)
          in if eol \<noteq> [] \<and> \<not> strstr r eol then standard_loop eol r k1 else (Inl (0, r), k1))"
  by pat_completeness auto
termination by (relation "measure (\<lambda>(_, _, k). length (lk_in k))") (auto dest: my_readc_Got [OF sym])

declare standard_loop.simps [simp del]

text \<open>The time-out, 60 seconds when there is no option; when it runs out is an event.\<close>

definition timeout_option :: "fd_slot list \<Rightarrow> string \<Rightarrow> u32 run option" where
  "timeout_option t name =
     run_bind (get_option t ''timeout='' name) (\<lambda>v.
       if v = [] then Some (Done 60) else map_option Done (atoi v))"

definition recv_standard :: "fd_slot list \<Rightarrow> string \<Rightarrow> link \<Rightarrow> ((u32 \<times> string) ret \<times> link) run option" where
  "recv_standard t name k =
     run_bind (timeout_option t name) (\<lambda>timeout.
     run_bind (get_option t ''rcv_eol='' name) (\<lambda>eol.
       case standard_loop eol [] (start_t 0 Standard_T0 k) of
         (Inl r, k1) \<Rightarrow> Some (Done (Ret r, stop_t 0 k1))
       | (Inr (j, reply), k1) \<Rightarrow>
           if j = Standard_T0
           then run_bind (get_option t ''timeout_msg='' name) (\<lambda>m. Some (Done (Ret (0, m @ '' '' @ reply), k1)))
           else Some (Done (Jump j, k1))))"

text \<open>\<open>FD_LOG1\<close> looks the protocol up when there is something to log.\<close>

definition fd_log1 :: "fd_slot list \<Rightarrow> string \<Rightarrow> unit run" where
  "fd_log1 t name =
     (if get_logging t name \<ge> 1 then (case get_proto t name of Exit \<Rightarrow> Exit | Done p \<Rightarrow> Done ()) else Done ())"

text \<open>What \<open>SEND\<close> and \<open>SEND_REPLY\<close> share: the expression is sent with the end of the option.\<close>

definition write_standard ::
    "host \<Rightarrow> (nat \<Rightarrow> string) \<Rightarrow> fd_slot list \<Rightarrow> string \<Rightarrow> interp \<Rightarrow> link \<Rightarrow> (u32 \<times> interp \<times> link) run option" where
  "write_standard host stale t name st k =
     run_bind (expression host st) (\<lambda>(iret, token, st1).
       if iret \<noteq> 0 then Some (Done (iret, st1, k))
       else run_bind (get_option t ''xmt_eol='' name) (\<lambda>eol.
         run_bind (Some (fd_log1 t name)) (\<lambda>_. do {
           data \<leftarrow> char_to_data stale (token @ eol);
           let (r, k1) = my_write (bytes_of data) k;
           Some (Done (if r \<noteq> 0 then 1 else 0, st1, k1))
         })))"

definition send_standard_reply ::
    "host \<Rightarrow> (nat \<Rightarrow> string) \<Rightarrow> fd_slot list \<Rightarrow> string \<Rightarrow> interp \<Rightarrow> link \<Rightarrow> (u32 \<times> interp \<times> link) run option" where
  "send_standard_reply host stale t name st k = write_standard host stale t name st k"

definition send_standard ::
    "host \<Rightarrow> (nat \<Rightarrow> string) \<Rightarrow> fd_slot list \<Rightarrow> string \<Rightarrow> interp \<Rightarrow> link \<Rightarrow> ((u32 \<times> interp) ret \<times> link) run option" where
  "send_standard host stale t name st k =
     run_bind (write_standard host stale t name st k) (\<lambda>(iret, st1, k1).
       if iret \<noteq> 0 then Some (Done (Ret (iret, st1), k1))
       else run_bind (get_option t ''wait_for_reply='' name) (\<lambda>v.
         if v = ''no'' then Some (Done (Ret (0, st1), k1))
         else run_bind (recv_standard t name k1) (\<lambda>(x, k2).
           case x of
             Jump j \<Rightarrow> Some (Done (Jump j, k2))
           | Ret (iret, reply) \<Rightarrow>
               run_bind (Some (fd_log1 t name)) (\<lambda>_.
                 if iret \<noteq> 0 then Some (Done (Ret (iret, st1), k2))
                 else run_bind (get_option t ''no_parse='' name) (\<lambda>np.
                   run_bind (make_tmp_variables (st_tmp st1) (cstr reply) np True) (\<lambda>tmp.
                     Some (Done (Ret (0, st1\<lparr>st_tmp := tmp\<rparr>), k2))))))))"

subsection \<open>XML messages (send_xml.c)\<close>

text \<open>The array \<open>tag\<close> has 256 bytes; the closing tag is put together in it. State 0 looks for the
  first tag, state 1 reads its name, state 2 the rest of the element.\<close>

function xml_loop ::
    "nat \<Rightarrow> string \<Rightarrow> string \<Rightarrow> link \<Rightarrow> ((u32 \<times> string + jmp \<times> string) \<times> link) option" where
  "xml_loop state tag reply k =
     (case my_readc k of
        (Failed, k1) \<Rightarrow> Some (Inl (1, reply), k1)
      | (Jumped j, k1) \<Rightarrow> Some (Inr (j, reply), k1)
      | (Got b, k1) \<Rightarrow>
          let c = chr_of b; r = reply @ [c]
          in if state = 0 then
               (if c = CHR ''<'' then xml_loop 1 ''</'' r k1 else xml_loop 0 tag reply k1)
             else if state = 1 then
               (if c = CHR '' '' \<or> c = CHR ''>'' then do {
                  require (length tag + 1 < 256);
                  xml_loop 2 (tag @ ''>'') r k1
                }
                else if c = NUL then xml_loop 1 tag r k1
                else do {
                  require (length tag + 1 < 256);
                  xml_loop 1 (tag @ [c]) r k1
                })
             else if strstr (cstr r) tag then Some (Inl (0, r), k1)
             else xml_loop 2 tag r k1)"
  by pat_completeness auto
termination by (relation "measure (\<lambda>(_, _, _, k). length (lk_in k))") (auto dest: my_readc_Got [OF sym])

declare xml_loop.simps [simp del]

definition recv_xml :: "fd_slot list \<Rightarrow> string \<Rightarrow> link \<Rightarrow> ((u32 \<times> string) ret \<times> link) run option" where
  "recv_xml t name k =
     run_bind (timeout_option t name) (\<lambda>timeout. do {
       (x, k1) \<leftarrow> xml_loop 0 [] [] (start_t 0 Xml_T0 k);
       case x of
         Inl r \<Rightarrow> Some (Done (Ret r, stop_t 0 k1))
       | Inr (j, reply) \<Rightarrow>
           if j = Xml_T0
           then run_bind (get_option t ''timeout_msg='' name) (\<lambda>m. Some (Done (Ret (0, m), k1)))
           else Some (Done (Jump j, k1))
     })"

definition write_xml :: "host \<Rightarrow> interp \<Rightarrow> link \<Rightarrow> unit run \<Rightarrow> (u32 \<times> interp \<times> link) run option" where
  "write_xml host st k named =
     run_bind (expression host st) (\<lambda>(iret, token, st1).
       if iret \<noteq> 0 then Some (Done (iret, st1, k))
       else run_bind (Some named) (\<lambda>_.
         let (r, k1) = my_write (bytes_of token) k
         in Some (Done (if r \<noteq> 0 then 1 else 0, st1, k1))))"

definition send_xml_reply :: "host \<Rightarrow> interp \<Rightarrow> link \<Rightarrow> (u32 \<times> interp \<times> link) run option" where
  "send_xml_reply host st k = write_xml host st k (Done ())"

text \<open>\<open>get_name\<close> is asked for the message in the log; the reply is not given to the program.\<close>

definition send_xml ::
    "host \<Rightarrow> fd_slot list \<Rightarrow> string \<Rightarrow> int \<Rightarrow> interp \<Rightarrow> link \<Rightarrow> ((u32 \<times> interp) ret \<times> link) run option" where
  "send_xml host t name fd st k =
     run_bind (write_xml host st k (case get_name t fd of Exit \<Rightarrow> Exit | Done n \<Rightarrow> Done ())) (\<lambda>(iret, st1, k1).
       if iret \<noteq> 0 then Some (Done (Ret (iret, st1), k1))
       else run_bind (get_option t ''wait_for_reply='' name) (\<lambda>v.
         if v = ''no'' then Some (Done (Ret (0, st1), k1))
         else run_bind (recv_xml t name k1) (\<lambda>(x, k2).
           Some (Done (case x of Jump j \<Rightarrow> Jump j | Ret (iret, reply) \<Rightarrow> Ret (iret, st1), k2)))))"

subsection \<open>Lemmas: the conversions\<close>

text \<open>What lies in \<open>sbuf\<close> behind the two characters ends the number.\<close>

definition stale_ok :: "string \<Rightarrow> bool" where
  "stale_ok s \<longleftrightarrow> NUL \<in> set s \<and> \<not> is_xdigit (hd s)"

definition lower_hex :: "nat \<Rightarrow> char" where
  "lower_hex d = tolower (hex_chr d)"

lemma of_char_lower_hex:
  "d < 16 \<Longrightarrow> (of_char (lower_hex d) :: nat) = (if d < 10 then d + 48 else d + 87)"
  by (auto simp: lower_hex_def tolower_def hex_chr_def)

lemma lower_hex_facts:
  assumes "d < 16"
  shows "is_xdigit (lower_hex d)" "Float_Ops.xdigit_val (lower_hex d) = d" "\<not> isspace (lower_hex d)"
    "lower_hex d \<noteq> CHR ''-''" "lower_hex d \<noteq> CHR ''+''" "tolower (lower_hex d) \<noteq> CHR ''x''" "lower_hex d \<noteq> NUL"
proof -
  have v: "(of_char (lower_hex d) :: nat) = (if d < 10 then d + 48 else d + 87)" using assms by (rule of_char_lower_hex)
  have t: "tolower (lower_hex d) = lower_hex d" using v assms by (auto simp: tolower_def split: if_splits)
  have n: "lower_hex d \<noteq> c" if "(of_char c :: nat) \<notin> {48..57} \<union> {97..102}" for c
    using v assms that by (auto split: if_splits)
  show "is_xdigit (lower_hex d)" "Float_Ops.xdigit_val (lower_hex d) = d"
    using v t assms by (auto simp: is_xdigit_def is_digit_def Float_Ops.xdigit_val_def digit_val_def split: if_splits)
  show "\<not> isspace (lower_hex d)" using v n [of "CHR '' ''"] by (auto simp: isspace_def split: if_splits)
  show "lower_hex d \<noteq> CHR ''-''" "lower_hex d \<noteq> CHR ''+''" "tolower (lower_hex d) \<noteq> CHR ''x''" "lower_hex d \<noteq> NUL"
    unfolding t by (rule n; simp)+
qed

lemma hex_lower_eq:
  "hex_lower c = [lower_hex (of_char c div 16), lower_hex (of_char c mod 16)]"
proof -
  have "of_char c < (256 :: nat)" by simp
  then have "unat (byte_of c) = of_char c" by (simp add: byte_of_def unat_of_nat)
  then show ?thesis by (simp add: hex_lower_def my_btoh_eq lower_hex_def)
qed

lemma not_x_start: "tolower b \<noteq> CHR ''x'' \<Longrightarrow> \<not> starts ''0x'' (map tolower (a # b # r))"
  by (simp add: starts_def)

lemma sscanf_hex_lower:
  assumes "stale_ok stale"
  shows "sscanf_x (hex_lower c @ stale) 0 = of_nat (of_char c)"
proof -
  let ?a = "lower_hex (of_char c div 16)" and ?b = "lower_hex (of_char c mod 16)"
  have d: "of_char c div 16 < (16 :: nat)" "of_char c mod 16 < (16 :: nat)"
    by (auto intro: less_mult_imp_div_less)
  note f = lower_hex_facts [OF d(1)] lower_hex_facts [OF d(2)]
  have c: "cstr (hex_lower c @ stale) = ?a # ?b # cstr stale"
    using f(7,14) by (simp add: hex_lower_eq cstr_def nul_iff)
  have t: "takeWhile is_xdigit (cstr stale) = []"
    using assms by (cases stale) (auto simp: stale_ok_def cstr_def)
  have "takeWhile is_xdigit (?a # ?b # cstr stale) = [?a, ?b]" using f t by simp
  moreover have "base_value 16 [?a, ?b] = of_char c" using f by (simp add: base_value_def)
  moreover have "scan_sign (dropWhile isspace (?a # ?b # cstr stale)) = (False, ?a # ?b # cstr stale)"
    using f by (simp add: scan_sign_def)
  ultimately show ?thesis
    unfolding sscanf_x_def c using not_x_start [OF f(13), of ?a "cstr stale"] by (simp add: Let_def)
qed

lemma escape_hex_lower:
  assumes "stale_ok stale"
  shows "escape_value stale (hex_lower c @ s) = Some c"
proof -
  have t: "take 2 (hex_lower c @ s) = hex_lower c" by (simp add: hex_lower_eq)
  have "of_char c < (2 ^ 32 :: nat)" by (rule less_le_trans [of _ 256]) simp_all
  then have "take_bit 32 (of_char c) = (of_char c :: nat)" by (rule take_bit_nat_eq_self)
  then have "(ucast (of_nat (of_char c) :: u32) :: byte) = byte_of c"
    by (simp add: byte_of_def unsigned_of_nat)
  then show ?thesis
    using assms sscanf_hex_lower [OF assms] t
    by (simp add: escape_value_def Let_def hex_lower_eq stale_ok_def require_bind_True)
qed

text \<open>Data that do not look like an escape themselves.\<close>

fun no_escape :: "string \<Rightarrow> bool" where
  "no_escape [] = True"
| "no_escape (c # s) =
     ((c = BSL \<longrightarrow> s = [] \<or> hd s \<notin> {CHR ''n'', CHR ''r'', CHR ''x''}) \<and> no_escape s)"

lemma data_to_char_simps [simp]:
  "data_to_char [] = []" "data_to_char (c # s) = data_chr c @ data_to_char s"
  "data_to_char (s @ u) = data_to_char s @ data_to_char u"
  by (simp_all add: data_to_char_def)

lemma data_chr_no_nul [simp]: "no_nul (data_chr c)"
proof -
  have "of_char c div 16 < (16 :: nat)" "of_char c mod 16 < (16 :: nat)" by (auto intro: less_mult_imp_div_less)
  then have "no_nul (hex_lower c)" using lower_hex_facts(7) by (simp add: hex_lower_eq nul_iff)
  then show ?thesis by (auto simp: data_chr_def isprint_def nul_iff)
qed

lemma data_to_char_no_nul [simp]: "no_nul (data_to_char s)"
  by (induction s) simp_all

lemma hd_data_chr: "hd (data_chr c @ s) = (if isprint c then c else BSL)"
  by (simp add: data_chr_def)

lemma escape_loop_plain:
  assumes "c = BSL \<longrightarrow> s = [] \<or> hd s \<notin> {CHR ''n'', CHR ''r'', CHR ''x''}"
  shows "escape_loop stale i (c # s) = map_option ((#) c) (escape_loop stale (i + 1) s)"
  using assms by (subst escape_loop.simps) (cases s; auto)

lemma escape_loop_chr:
  assumes "no_escape (c # s)" "\<forall>i. stale_ok (stale i)"
  shows "\<exists>j. escape_loop stale i (data_chr c @ data_to_char s) = map_option ((#) c) (escape_loop stale j (data_to_char s))"
proof (cases "isprint c")
  case True
  have "c = BSL \<longrightarrow> data_to_char s = [] \<or> hd (data_to_char s) \<notin> {CHR ''n'', CHR ''r'', CHR ''x''}"
  proof (cases s)
    case (Cons d r)
    then show ?thesis using assms(1) by (auto simp: hd_data_chr)
  qed simp
  then show ?thesis
    using True escape_loop_plain [of c "data_to_char s" stale i] by (intro exI [of _ "i + 1"]) (simp add: data_chr_def)
next
  case False
  consider "c = LF" | "c = CR" | "c \<noteq> LF" "c \<noteq> CR" by blast
  then show ?thesis
  proof cases
    case 3
    then have "escape_loop stale i (data_chr c @ data_to_char s) = (do {
        v \<leftarrow> escape_value (stale i) (hex_lower c @ data_to_char s);
        map_option ((#) v) (escape_loop stale (i + 4) (data_to_char s)) })"
      using False by (subst escape_loop.simps) (simp add: data_chr_def hex_lower_eq)
    then show ?thesis using escape_hex_lower assms(2) by auto
  qed (use False in \<open>subst escape_loop.simps, auto simp: data_chr_def\<close>)+
qed

lemma escape_loop_data:
  assumes "\<forall>i. stale_ok (stale i)"
  shows "no_escape d \<Longrightarrow> escape_loop stale i (data_to_char d) = Some d"
proof (induction d arbitrary: i)
  case Nil
  then show ?case by (subst escape_loop.simps) simp
next
  case (Cons c d)
  obtain j where "escape_loop stale i (data_chr c @ data_to_char d) = map_option ((#) c) (escape_loop stale j (data_to_char d))"
    using escape_loop_chr [OF Cons.prems assms] by blast
  then show ?case using Cons.IH [of j] Cons.prems by simp
qed

subsection \<open>Lemmas: receiving\<close>

lemma standard_loop_arrives:
  assumes "eol \<noteq> []" "strstr (acc @ data_to_char d) eol"
    and "\<And>p q. d = p @ q \<Longrightarrow> q \<noteq> [] \<Longrightarrow> p \<noteq> [] \<Longrightarrow> \<not> strstr (acc @ data_to_char p) eol"
    and "lk_in k = es @ suf" "arrives es = Some (bytes_of d)" "d \<noteq> []"
  shows "\<exists>es1. standard_loop eol acc k = (Inl (0, acc @ data_to_char d), k\<lparr>lk_in := es1 @ suf\<rparr>) \<and> arrives es1 = Some []"
  using assms(2-6)
proof (induction d arbitrary: acc k es)
  case (Cons c d)
  obtain es1 where m: "my_readc k = (Got (byte_of c), k\<lparr>lk_in := es1 @ suf\<rparr>)" "arrives es1 = Some (bytes_of d)"
    using my_readc_arrives [OF Cons.prems(3), of "byte_of c" "bytes_of d"] Cons.prems(4) by (auto simp: bytes_of_def)
  show ?case
  proof (cases "d = []")
    case True
    then show ?thesis using m Cons.prems(1) by (subst standard_loop.simps) (auto simp: bytes_of_def)
  next
    case False
    then have "\<not> strstr (acc @ data_chr c) eol" using Cons.prems(2) [of "[c]" d] by simp
    then have s: "standard_loop eol acc k = standard_loop eol (acc @ data_chr c) (k\<lparr>lk_in := es1 @ suf\<rparr>)"
      using m(1) assms(1) by (subst standard_loop.simps) simp
    have "\<not> strstr ((acc @ data_chr c) @ data_to_char p) eol" if "d = p @ q" "q \<noteq> []" "p \<noteq> []" for p q
      using Cons.prems(2) [of "c # p" q] that by simp
    then show ?thesis
      using Cons.IH [of "acc @ data_chr c" "k\<lparr>lk_in := es1 @ suf\<rparr>" es1] Cons.prems(1) m(2) False unfolding s by simp
  qed
qed simp

lemma strstr_iff: "strstr s w \<longleftrightarrow> (\<exists>u v. s = u @ w @ v)"
proof (induction s)
  case (Cons c s)
  have "(\<exists>u v. c # s = u @ w @ v) \<longleftrightarrow> (\<exists>v. c # s = w @ v) \<or> (\<exists>u v. s = u @ w @ v)"
    by (metis append_Cons append_Nil list.exhaust list.inject)
  then show ?case using Cons.IH by (simp add: starts_eq)
qed simp

lemma no_earlier_end:
  assumes "BSL \<notin> set a" "e \<noteq> []" "hd e = BSL" "length b < length e"
  shows "\<not> strstr (a @ b) e"
proof
  assume "strstr (a @ b) e"
  then obtain u v where e: "a @ b = u @ e @ v" by (auto simp: strstr_iff)
  have "length u < length (a @ b)" "(a @ b) ! length u = BSL" using assms(2,3) by (auto simp: e nth_append hd_conv_nth)
  then have "length a \<le> length u" using assms(1) by (metis nth_append nth_mem not_le)
  moreover have "length a + length b = length u + length e + length v" using arg_cong [OF e, of length] by simp
  ultimately show False using assms(4) by simp
qed

lemma no_escape_no_backslash: "BSL \<notin> set d \<Longrightarrow> no_escape d"
  by (induction d) auto

lemma data_to_char_print: "list_all isprint m \<Longrightarrow> data_to_char m = m"
  by (induction m) (simp_all add: data_chr_def)

lemma end_text:
  assumes "eb \<noteq> []" "\<forall>c \<in> set eb. \<not> isprint c"
  shows "data_to_char eb \<noteq> []" "hd (data_to_char eb) = BSL" "BSL \<notin> set eb"
  using assms by (cases eb; auto simp: data_chr_def isprint_def)+

lemma data_to_char_shorter: "q \<noteq> [] \<Longrightarrow> length (data_to_char p) < length (data_to_char (p @ q))"
  by (cases q) (simp_all add: data_chr_def)

lemma xml_body_arrives:
  assumes "strstr (acc @ d) tag" "\<And>p q. d = p @ q \<Longrightarrow> q \<noteq> [] \<Longrightarrow> p \<noteq> [] \<Longrightarrow> \<not> strstr (acc @ p) tag"
    and "lk_in k = es @ suf" "arrives es = Some (bytes_of d)" "d \<noteq> []" "no_nul (acc @ d)"
  shows "\<exists>es1. xml_loop 2 tag acc k = Some (Inl (0, acc @ d), k\<lparr>lk_in := es1 @ suf\<rparr>) \<and> arrives es1 = Some []"
  using assms
proof (induction d arbitrary: acc k es)
  case (Cons c d)
  obtain es1 where m: "my_readc k = (Got (byte_of c), k\<lparr>lk_in := es1 @ suf\<rparr>)" "arrives es1 = Some (bytes_of d)"
    using my_readc_arrives [OF Cons.prems(3), of "byte_of c" "bytes_of d"] Cons.prems(4) by (auto simp: bytes_of_def)
  show ?case
  proof (cases "d = []")
    case True
    then show ?thesis using m Cons.prems(1,6) by (subst xml_loop.simps) (auto simp: bytes_of_def Let_def)
  next
    case False
    then have "\<not> strstr (acc @ [c]) tag" using Cons.prems(2) [of "[c]" d] by simp
    then have s: "xml_loop 2 tag acc k = xml_loop 2 tag (acc @ [c]) (k\<lparr>lk_in := es1 @ suf\<rparr>)"
      using m(1) Cons.prems(6) by (subst xml_loop.simps) (simp add: Let_def)
    have "\<not> strstr ((acc @ [c]) @ p) tag" if "d = p @ q" "q \<noteq> []" "p \<noteq> []" for p q
      using Cons.prems(2) [of "c # p" q] that by simp
    then show ?thesis
      using Cons.IH [of "acc @ [c]" "k\<lparr>lk_in := es1 @ suf\<rparr>" es1] Cons.prems(1,6) m(2) False unfolding s by simp
  qed
qed simp

lemma xml_name_arrives:
  assumes "lk_in k = es @ suf" "arrives es = Some (bytes_of (nm @ d # body))"
    and "CHR '' '' \<notin> set nm" "CHR ''>'' \<notin> set nm" "no_nul nm" "d \<in> {CHR '' '', CHR ''>''}" "length tag + length nm < 255"
  shows "\<exists>es1. xml_loop 1 tag acc k = xml_loop 2 (tag @ nm @ ''>'') (acc @ nm @ [d]) (k\<lparr>lk_in := es1 @ suf\<rparr>) \<and>
    arrives es1 = Some (bytes_of body)"
  using assms
proof (induction nm arbitrary: tag acc k es)
  case Nil
  obtain es1 where m: "my_readc k = (Got (byte_of d), k\<lparr>lk_in := es1 @ suf\<rparr>)" "arrives es1 = Some (bytes_of body)"
    using my_readc_arrives [OF Nil(1), of "byte_of d" "bytes_of body"] Nil(2) by (auto simp: bytes_of_def)
  have "xml_loop 1 tag acc k = xml_loop 2 (tag @ ''>'') (acc @ [d]) (k\<lparr>lk_in := es1 @ suf\<rparr>)"
    using m(1) Nil(6,7) by (subst xml_loop.simps) (auto simp: Let_def require_bind_True)
  then show ?case using m(2) by auto
next
  case (Cons c nm)
  obtain es1 where m: "my_readc k = (Got (byte_of c), k\<lparr>lk_in := es1 @ suf\<rparr>)" "arrives es1 = Some (bytes_of (nm @ d # body))"
    using my_readc_arrives [OF Cons.prems(1), of "byte_of c" "bytes_of (nm @ d # body)"] Cons.prems(2) by (auto simp: bytes_of_def)
  have "xml_loop 1 tag acc k = xml_loop 1 (tag @ [c]) (acc @ [c]) (k\<lparr>lk_in := es1 @ suf\<rparr>)"
    using m(1) Cons.prems(3-5,7) by (subst xml_loop.simps) (auto simp: Let_def require_bind_True nul_iff)
  then show ?case
    using Cons.IH [of "k\<lparr>lk_in := es1 @ suf\<rparr>" es1 "tag @ [c]" "acc @ [c]"] m(2) Cons.prems(3-7) by simp
qed

lemma xml_start_arrives:
  assumes "lk_in k = es @ suf" "arrives es = Some (bytes_of (pre @ CHR ''<'' # r))" "CHR ''<'' \<notin> set pre"
  shows "\<exists>es1. xml_loop 0 tag acc k = xml_loop 1 ''</'' (acc @ ''<'') (k\<lparr>lk_in := es1 @ suf\<rparr>) \<and> arrives es1 = Some (bytes_of r)"
  using assms
proof (induction pre arbitrary: k es)
  case Nil
  obtain es1 where m: "my_readc k = (Got (byte_of (CHR ''<'')), k\<lparr>lk_in := es1 @ suf\<rparr>)" "arrives es1 = Some (bytes_of r)"
    using my_readc_arrives [OF Nil(1), of "byte_of (CHR ''<'')" "bytes_of r"] Nil(2) by (auto simp: bytes_of_def)
  have "xml_loop 0 tag acc k = xml_loop 1 ''</'' (acc @ ''<'') (k\<lparr>lk_in := es1 @ suf\<rparr>)"
    using m(1) by (subst xml_loop.simps) (simp add: Let_def)
  then show ?case using m(2) by blast
next
  case (Cons c pre)
  obtain es1 where m: "my_readc k = (Got (byte_of c), k\<lparr>lk_in := es1 @ suf\<rparr>)" "arrives es1 = Some (bytes_of (pre @ CHR ''<'' # r))"
    using my_readc_arrives [OF Cons.prems(1), of "byte_of c" "bytes_of (pre @ CHR ''<'' # r)"] Cons.prems(2) by (auto simp: bytes_of_def)
  have "xml_loop 0 tag acc k = xml_loop 0 tag acc (k\<lparr>lk_in := es1 @ suf\<rparr>)"
    using m(1) Cons.prems(3) by (subst xml_loop.simps) (auto simp: Let_def)
  then show ?case using Cons.IH [of "k\<lparr>lk_in := es1 @ suf\<rparr>" es1] m(2) Cons.prems(3) by simp
qed

subsection \<open>Properties\<close>

text \<open>C19. Data that hold no backslash before \<open>n\<close>, \<open>r\<close> or \<open>x\<close> are the same after they have been shown to a
  program and sent back by it, when the bytes behind the two digits in \<open>sbuf\<close> end the number.\<close>

theorem char_to_data_data_to_char:
  assumes "no_escape d" "\<forall>i. stale_ok (stale i)"
  shows "char_to_data stale (data_to_char d) = Some d"
  using escape_loop_data [OF assms(2,1)] by (simp add: char_to_data_def)

theorem char_to_data_data_to_char_witness:
  "char_to_data (\<lambda>i. ''g'' @ [NUL]) (data_to_char [CHR ''a'', BSL, CHR 0x02, LF, NUL]) = Some [CHR ''a'', BSL, CHR 0x02, LF, NUL]"
  by (rule char_to_data_data_to_char) (auto simp: stale_ok_def is_xdigit_def is_digit_def tolower_def)

text \<open>Without the first condition: a backslash and an \<open>n\<close> become a line feed. Without the second: the
  digits of \<open>\x41\<close> followed by an old digit in \<open>sbuf\<close> are another character.\<close>

lemma escape_not_escaped: "char_to_data stale (data_to_char (BSL # ''n'')) = Some [LF]"
proof -
  have "escape_loop stale i [] = Some []" for i by (subst escape_loop.simps) simp
  then show ?thesis
    by (simp add: char_to_data_def data_chr_def isprint_def cstr_def) (subst escape_loop.simps, simp)
qed

text \<open>An example: a connection whose messages end with a line feed, in both directions.\<close>

definition line_opts :: "(string \<times> string) list" where
  "line_opts = [(''xmt_eol'', BSL # ''n''), (''rcv_eol'', BSL # ''n'')]"

definition line_fds :: "fd_slot list" where
  "line_fds = [blank_slot\<lparr>fi_name := ''host'', fi_fd := 5, fi_options := opt_text line_opts @ NUL # replicate 100 NUL,
     fi_proto := PROTO_STANDARD, fi_logging := 1\<rparr>]"

lemma line_option:
  assumes "opt_key k" "ends_no_key k line_opts"
  shows "get_option line_fds (k @ ''='') ''host'' = Some (Done (case map_of line_opts k of None \<Rightarrow> [] | Some v \<Rightarrow> v))"
proof -
  have l: "opts_ok line_opts" by (simp add: line_opts_def opts_ok_def opt_key_def opt_val_def)
  have "get_opt (replicate 128 NUL) (k @ ''='') = Some (Done [])"
    using get_opt_array [of "replicate 128 NUL" "[]" k] assms(1) by (simp add: opts_ok_def ends_no_key_def cstr_def)
  moreover have "get_opt (opt_text line_opts @ NUL # replicate 100 NUL) (k @ ''='') =
      Some (Done (case map_of line_opts k of None \<Rightarrow> [] | Some v \<Rightarrow> v))"
    using get_opt_text [OF l assms(2,1)] by blast
  ultimately show ?thesis
    by (simp add: get_option_def line_fds_def name_slot_def blank_slot_def cstr_def)
qed

lemma line_options:
  "get_option line_fds ''xmt_eol='' ''host'' = Some (Done (BSL # ''n''))"
  "get_option line_fds ''rcv_eol='' ''host'' = Some (Done (BSL # ''n''))"
  "timeout_option line_fds ''host'' = Some (Done 60)"
  using line_option [of "''xmt_eol''"] line_option [of "''rcv_eol''"] line_option [of "''timeout''"]
  by (auto simp: opt_key_def ends_no_key_def line_opts_def timeout_option_def Cons_eq_append_conv)



text \<open>C18. Of an XML message exactly the first element is returned, from its tag with the attributes to the first
  closing tag of its name, however the bytes arrive; what comes before it is skipped.\<close>

theorem recv_xml_element:
  assumes "timeout_option t name = Some (Done n)" "lk_timers k 0 = None"
    and "arrives (lk_in k) = Some (bytes_of (pre @ CHR ''<'' # nm @ d # body))"
    and "CHR ''<'' \<notin> set pre" "CHR '' '' \<notin> set nm" "CHR ''>'' \<notin> set nm" "no_nul nm" "length nm < 253"
    and "d \<in> {CHR '' '', CHR ''>''}" "no_nul body" "body \<noteq> []"
    and "\<And>p q. body = p @ q \<Longrightarrow> p \<noteq> [] \<Longrightarrow> strstr (CHR ''<'' # nm @ d # p) (''</'' @ nm @ ''>'') \<longleftrightarrow> q = []"
  shows "\<exists>es. recv_xml t name k = Some (Done (Ret (0, CHR ''<'' # nm @ d # body), k\<lparr>lk_in := es\<rparr>)) \<and> arrives es = Some []"
proof -
  let ?k = "start_t 0 Xml_T0 k" and ?tag = "''</'' @ nm @ ''>''"
  obtain es1 where 1: "xml_loop 0 [] [] ?k = xml_loop 1 ''</'' ''<'' (?k\<lparr>lk_in := es1\<rparr>)" "arrives es1 = Some (bytes_of (nm @ d # body))"
    using xml_start_arrives [of ?k "lk_in k" "[]" pre "nm @ d # body" "[]" "[]"] assms(3,4) by auto
  obtain es2 where 2: "xml_loop 1 ''</'' ''<'' (?k\<lparr>lk_in := es1\<rparr>) = xml_loop 2 ?tag (CHR ''<'' # nm @ [d]) (?k\<lparr>lk_in := es2\<rparr>)"
      "arrives es2 = Some (bytes_of body)"
    using xml_name_arrives [of "?k\<lparr>lk_in := es1\<rparr>" es1 "[]" nm d body "''</''" "''<''"] 1(2) assms(5-9) by auto
  have n: "no_nul (CHR ''<'' # nm @ d # body)" using assms(7,9,10) by (auto simp: nul_iff)
  have "\<exists>es. xml_loop 2 ?tag (CHR ''<'' # nm @ [d]) (?k\<lparr>lk_in := es2\<rparr>) =
      Some (Inl (0, (CHR ''<'' # nm @ [d]) @ body), (?k\<lparr>lk_in := es2\<rparr>)\<lparr>lk_in := es @ []\<rparr>) \<and> arrives es = Some []"
    using assms(12) [of body "[]"] assms(12) assms(11) n 2(2) by (intro xml_body_arrives) auto
  then obtain es where 3: "xml_loop 0 [] [] ?k = Some (Inl (0, CHR ''<'' # nm @ d # body), ?k\<lparr>lk_in := es\<rparr>)" "arrives es = Some []"
    using 1(1) 2(1) by auto
  have "stop_t 0 (?k\<lparr>lk_in := es\<rparr>) = k\<lparr>lk_in := es\<rparr>"
    using assms(2) by (auto simp: start_proto_timer_def stop_proto_timer_def MAX_PROTO_TIMERS_def fun_eq_iff)
  then show ?thesis using 3 assms(1) by (auto simp: recv_xml_def)
qed

theorem recv_xml_element_witness:
  "\<exists>k1. recv_xml line_fds ''host'' (example_link (Gap # map Data (bytes_of ''x<a b>y</a>''))) =
     Some (Done (Ret (0, ''<a b>y</a>''), k1))"
proof -
  let ?k = "example_link (Gap # map Data (bytes_of ''x<a b>y</a>''))"
  have "strstr (CHR ''<'' # ''a'' @ CHR '' '' # p) (''</'' @ ''a'' @ ''>'') \<longleftrightarrow> q = []"
    if "''b>y</a>'' = p @ q" "p \<noteq> []" for p q
    using that by (auto simp: Cons_eq_append_conv starts_def)
  then have "\<exists>es. recv_xml line_fds ''host'' ?k =
      Some (Done (Ret (0, CHR ''<'' # ''a'' @ CHR '' '' # ''b>y</a>''), ?k\<lparr>lk_in := es\<rparr>)) \<and> arrives es = Some []"
    by (intro recv_xml_element [OF line_options(3), where pre = "''x''"]) (auto simp: example_defs no_nul_def bytes_of_def)
  then show ?thesis by auto
qed

text \<open>An element that its own tag closes has no closing tag: the receiver waits until the timer runs out and returns
  the text of the option \<open>timeout_msg\<close>.\<close>

lemma xml_self_closing:
  "fst (the (xml_loop 0 [] [] ((example_link (map Data (bytes_of ''<a/>'') @ [Fire 0]))\<lparr>lk_timers := [0 \<mapsto> Xml_T0]\<rparr>))) =
    Inr (Xml_T0, ''<a/>'')"
  by (simp add: example_defs bytes_of_def) (subst xml_loop.simps, simp add: my_readc_def read_link_def Let_def starts_def)+

end
