(* ===== verification/Server.thy ===== *)
theory Server
  imports Handlers
begin

section \<open>Listening sockets and their clients (server.c)\<close>

text \<open>
  The tables of \<open>server()\<close>: the descriptors that it waits for, each with a flag that says whether
  clients may connect to it, the connected clients with the listener each belongs to, the set of
  descriptors given to \<open>select\<close> and the greatest of them. One round of the loop gets the set of
  descriptors that are ready: a client that connects is accepted and the round ends,
  every other ready connection is handed to \<open>handler\<close>. \<open>accept\<close> and the handler are parameters:
  the handler gets and returns the tables, because what it runs may open and close connections. The
  alarms and signals around \<open>select\<close> are in \<open>Timers\<close>.
\<close>

record server =
  sv_fds :: "(int \<times> bool) list"
  sv_clients :: "(int \<times> int) list"
  sv_all :: "int set"
  sv_maxfd :: int
  sv_timeout :: u32

definition MAX_CLIENTS :: nat where
  "MAX_CLIENTS = 100"

text \<open>A descriptor outside of the \<open>fd_set\<close> is undefined behaviour.\<close>

definition fd_range :: "int \<Rightarrow> bool" where
  "fd_range fd \<longleftrightarrow> 0 \<le> fd \<and> fd < 1024"

definition fd_set :: "int \<Rightarrow> int set \<Rightarrow> int set option" where
  "fd_set fd fds = do { require (fd_range fd); Some (insert fd fds) }"

definition fd_clr :: "int \<Rightarrow> int set \<Rightarrow> int set option" where
  "fd_clr fd fds = do { require (fd_range fd); Some (fds - {fd}) }"

definition calc_maxfd :: "server \<Rightarrow> server" where
  "calc_maxfd s = s\<lparr>sv_maxfd :=
     fold (\<lambda>(c, f) m. if c > m then c else m) (sv_clients s)
       (fold (\<lambda>(fd, g) m. if fd > m then fd else m) (sv_fds s) (sv_maxfd s))\<rparr>"

subsection \<open>The tables\<close>

definition init_server :: "server \<Rightarrow> server" where
  "init_server s = s\<lparr>sv_all := {}, sv_timeout := 0, sv_fds := map (\<lambda>_. (- 1, False)) (sv_fds s),
     sv_clients := map (\<lambda>(c, f). (0, f)) (sv_clients s)\<rparr>"

definition set_server :: "int \<Rightarrow> bool \<Rightarrow> server \<Rightarrow> server run option" where
  "set_server fd flag s = do {
     fds \<leftarrow> fd_set fd (sv_all s);
     case find_slot (\<lambda>(f, g). f = - 1) (sv_fds s) of
       None \<Rightarrow> Some Exit
     | Some i \<Rightarrow>
         (if i + 1 = MAX_FDS then Some Exit
          else Some (Done (calc_maxfd (s\<lparr>sv_all := fds, sv_fds := (sv_fds s)[i := (fd, flag)]\<rparr>))))
   }"

definition unset_server :: "int \<Rightarrow> server \<Rightarrow> (u32 \<times> server) option" where
  "unset_server fd s = do {
     fds \<leftarrow> fd_clr fd (sv_all s);
     let (iret, s1) =
       (case find_slot (\<lambda>(f, g). f = fd) (sv_fds s) of
          None \<Rightarrow> (1, s\<lparr>sv_all := fds\<rparr>)
        | Some i \<Rightarrow> (0, s\<lparr>sv_all := fds, sv_fds := (sv_fds s)[i := (- 1, False)]\<rparr>));
     Some (iret, s1\<lparr>sv_maxfd := fold (\<lambda>(fd, g) m. if fd > m then fd else m) (sv_fds s1) 0\<rparr>)
   }"

definition set_server_timeout :: "u32 \<Rightarrow> server \<Rightarrow> server" where
  "set_server_timeout valu s = s\<lparr>sv_timeout := valu\<rparr>"

text \<open>\<open>close_ok\<close> tells whether \<open>close\<close> of a descriptor succeeds; the name of every one is looked up for
  the message.\<close>

fun kill_fds ::
    "fd_slot list \<Rightarrow> (int \<Rightarrow> bool) \<Rightarrow> (int \<times> bool) list \<Rightarrow> int set \<Rightarrow> ((int \<times> bool) list \<times> int set) run option" where
  "kill_fds t close_ok [] fds = Some (Done ([], fds))"
| "kill_fds t close_ok ((fd, g) # r) fds =
     (if fd = - 1
      then run_bind (kill_fds t close_ok r fds) (\<lambda>(r1, fds1). Some (Done ((fd, g) # r1, fds1)))
      else do {
        fds1 \<leftarrow> fd_clr fd fds;
        case get_name t fd of
          Exit \<Rightarrow> Some Exit
        | Done name \<Rightarrow>
            run_bind (kill_fds t close_ok r fds1) (\<lambda>(r1, fds2).
              Some (Done ((if close_ok fd then - 1 else fd, g) # r1, fds2)))
      })"

text \<open>The descriptor of a client is set to 0 before it is taken out of the set, so it is the
  descriptor 0 that is taken out; the set is empty at that time.\<close>

definition kill_server :: "fd_slot list \<Rightarrow> (int \<Rightarrow> bool) \<Rightarrow> server \<Rightarrow> server run option" where
  "kill_server t close_ok s =
     run_bind (kill_fds t close_ok (sv_fds s) {}) (\<lambda>(l, fds).
       Some (Done (s\<lparr>sv_fds := l, sv_clients := map (\<lambda>(c, f). (0, f)) (sv_clients s),
         sv_all := (if \<exists>(c, f) \<in> set (sv_clients s). c \<noteq> 0 then fds - {0} else fds), sv_maxfd := 0\<rparr>)))"

definition client_disconnect :: "int \<Rightarrow> server \<Rightarrow> server option" where
  "client_disconnect fd s =
     (case find_slot (\<lambda>(c, f). c = fd) (sv_clients s) of
        Some i \<Rightarrow> do {
          fds \<leftarrow> fd_clr fd (sv_all s);
          Some (s\<lparr>sv_all := fds, sv_clients := (sv_clients s)[i := (0, snd (sv_clients s ! i))]\<rparr>)
        }
      | None \<Rightarrow>
          (case find_slot (\<lambda>(f, g). f = fd) (sv_fds s) of
             None \<Rightarrow> Some s
           | Some i \<Rightarrow> do {
               fds \<leftarrow> fd_clr fd (sv_all s);
               Some (s\<lparr>sv_all := fds, sv_fds := (sv_fds s)[i := (- 1, snd (sv_fds s ! i))]\<rparr>)
             }))"

definition dump_server :: "server \<Rightarrow> string" where
  "dump_server s =
     ''Servers:'' @ newline @
     concat (map (\<lambda>(fd, g). ''  Fd <'' @ print_int fd @ ''>, flag <'' @ print_int (of_bool g) @ ''>'' @ newline)
       (filter (\<lambda>(fd, g). fd \<noteq> - 1) (sv_fds s))) @
     ''Connected clients:'' @ newline @
     concat (map (\<lambda>(c, f). ''  Client fd <'' @ print_int c @ ''>, connected to <'' @ print_int f @ ''>'' @ newline)
       (filter (\<lambda>(c, f). c \<noteq> 0) (sv_clients s)))"

subsection \<open>A round of the loop\<close>

text \<open>The tables of connections and of descriptors.\<close>

record conns =
  cn_info :: "fd_slot list"
  cn_server :: server

text \<open>A client has connected: every place of the table that is looked at counts as a client in
  \<open>num_clients\<close>, which is never set back.\<close>

definition accept_client :: "int \<Rightarrow> int \<Rightarrow> int \<times> conns \<Rightarrow> (int \<times> conns) run option" where
  "accept_client fd client_fd nc =
     (case nc of (num, cn) \<Rightarrow>
        let s = cn_server cn;
            store = (case find_slot (\<lambda>(c, f). c = 0) (sv_clients s) of
              None \<Rightarrow> Done (num + int MAX_CLIENTS, s)
            | Some j \<Rightarrow>
                (case get_name (cn_info cn) fd of
                   Exit \<Rightarrow> Exit
                 | Done name \<Rightarrow> Done (num + int j + 1, s\<lparr>sv_clients := (sv_clients s)[j := (client_fd, fd)]\<rparr>)))
        in run_bind (Some store) (\<lambda>(num1, s1). do {
             require (num1 < 2 ^ 31);
             if num1 = int MAX_CLIENTS then Some Exit
             else do {
               fds \<leftarrow> fd_set client_fd (sv_all s1);
               Some (Done (num1, cn\<lparr>cn_server := calc_maxfd (s1\<lparr>sv_all := fds\<rparr>)\<rparr>))
             }
           }))"

datatype 'a scan = Scanned 'a | Accepted 'a | Stopped 'a

type_synonym 'w round = "int \<times> conns \<times> 'w"

type_synonym 'w handle = "int \<Rightarrow> int \<Rightarrow> conns \<times> 'w \<Rightarrow> (conns \<times> 'w) run option"

text \<open>What the handler returns is not looked at.\<close>

definition call_handler :: "'w handle \<Rightarrow> int \<Rightarrow> int \<Rightarrow> 'w round \<Rightarrow> 'w round run option" where
  "call_handler handle fd c r =
     (case r of (num, st) \<Rightarrow> run_bind (handle fd c st) (\<lambda>st1. Some (Done (num, st1))))"

text \<open>\<open>k\<close> places of the table of listeners are still to be looked at.\<close>

fun scan_servers ::
    "'w handle \<Rightarrow> (int \<Rightarrow> 'w \<Rightarrow> int \<times> 'w) \<Rightarrow> int set \<Rightarrow> nat \<Rightarrow> 'w round \<Rightarrow> 'w round scan run option" where
  "scan_servers handle accept ready 0 r = Some (Done (Scanned r))"
| "scan_servers handle accept ready (Suc k) (num, cn, w) =
     (let (fd, flag) = sv_fds (cn_server cn) ! (MAX_FDS - Suc k)
      in if fd = - 1 then scan_servers handle accept ready k (num, cn, w)
         else do {
           require (fd_range fd);
           if fd \<notin> ready then scan_servers handle accept ready k (num, cn, w)
           else if flag then
             (let (client_fd, w1) = accept fd w
              in if client_fd < 0 then Some (Done (Stopped (num, cn, w1)))
                 else run_bind (accept_client fd client_fd (num, cn)) (\<lambda>(num1, cn1).
                   Some (Done (Accepted (num1, cn1, w1)))))
           else run_bind (call_handler handle fd fd (num, cn, w)) (scan_servers handle accept ready k)
         })"

fun scan_clients :: "'w handle \<Rightarrow> int set \<Rightarrow> nat \<Rightarrow> 'w round \<Rightarrow> 'w round run option" where
  "scan_clients handle ready 0 r = Some (Done r)"
| "scan_clients handle ready (Suc k) (num, cn, w) =
     (let (c, fd) = sv_clients (cn_server cn) ! (MAX_CLIENTS - Suc k)
      in if c = 0 then scan_clients handle ready k (num, cn, w)
         else do {
           require (fd_range c);
           if c \<notin> ready then scan_clients handle ready k (num, cn, w)
           else run_bind (call_handler handle fd c (num, cn, w)) (scan_clients handle ready k)
         })"

text \<open>The flag tells whether the loop goes on.\<close>

definition server_round ::
    "'w handle \<Rightarrow> (int \<Rightarrow> 'w \<Rightarrow> int \<times> 'w) \<Rightarrow> int set \<Rightarrow> 'w round \<Rightarrow> (bool \<times> 'w round) run option" where
  "server_round handle accept ready r =
     run_bind (scan_servers handle accept ready MAX_FDS r) (\<lambda>x.
       case x of
         Stopped r1 \<Rightarrow> Some (Done (False, r1))
       | Accepted r1 \<Rightarrow> Some (Done (True, r1))
       | Scanned r1 \<Rightarrow> run_bind (scan_clients handle ready MAX_CLIENTS r1) (\<lambda>r2. Some (Done (True, r2))))"

subsection \<open>Lemmas: the descriptors in use\<close>

text \<open>\<open>e\<close> marks a free place; the other entries of a table differ.\<close>

definition apart :: "int \<Rightarrow> int list \<Rightarrow> bool" where
  "apart e xs \<longleftrightarrow> (\<forall>i < length xs. \<forall>j < length xs. i \<noteq> j \<longrightarrow> xs ! i \<noteq> e \<longrightarrow> xs ! i \<noteq> xs ! j)"

lemma apart_put: "apart e xs \<Longrightarrow> x \<notin> set xs \<Longrightarrow> apart e (xs[i := x])"
  by (cases "i < length xs") (auto simp: apart_def nth_list_update list_update_beyond split: if_splits)

lemma apart_clear: "apart e xs \<Longrightarrow> apart e (xs[i := e])"
  by (cases "i < length xs") (auto simp: apart_def nth_list_update list_update_beyond split: if_splits)

lemma list_place: "i < length xs \<Longrightarrow> \<exists>a b. xs = a @ xs ! i # b \<and> length a = i"
  by (rule exI [of _ "take i xs"], rule exI [of _ "drop (Suc i) xs"]) (simp add: id_take_nth_drop [symmetric])

lemma used_put:
  assumes "i < length xs" "xs ! i = e" "x \<noteq> e"
  shows "set (xs[i := x]) - {e} = insert x (set xs - {e})"
proof -
  obtain a b where "xs = a @ e # b" "length a = i" using list_place [OF assms(1)] assms(2) by auto
  then show ?thesis using assms(3) by auto
qed

lemma apart_middle:
  assumes "apart e (a @ y # b)" "y \<noteq> e"
  shows "y \<notin> set a \<union> set b"
proof
  let ?xs = "a @ y # b"
  have d: "?xs ! j \<noteq> y" if "j < length ?xs" "j \<noteq> length a" for j
    using assms(1) [unfolded apart_def, rule_format, of "length a" j] that assms(2) by simp
  assume "y \<in> set a \<union> set b"
  then consider k where "k < length a" "a ! k = y" | k where "k < length b" "b ! k = y"
    by (auto simp: in_set_conv_nth)
  then show False
  proof cases
    case 1 then show False using d [of k] by (simp add: nth_append)
  next
    case 2 then show False using d [of "Suc (length a + k)"] by (simp add: nth_append)
  qed
qed

lemma used_clear:
  assumes "apart e xs" "i < length xs"
  shows "set (xs[i := e]) - {e} = set xs - {e} - {xs ! i}"
proof -
  obtain a y b where x: "xs = a @ y # b" "length a = i" using list_place [OF assms(2)] by blast
  then have "y \<noteq> e \<Longrightarrow> y \<notin> set a \<union> set b" using apart_middle assms(1) by blast
  then show ?thesis using x by auto
qed

definition greater :: "int \<times> 'a \<Rightarrow> int \<Rightarrow> int" where
  "greater x m = (if fst x > m then fst x else m)"

lemma greater_eq: "(\<lambda>(c, f) m. if c > m then c else m) = greater"
  by (auto simp: greater_def fun_eq_iff)

lemma fold_greater: "m \<le> fold greater xs m \<and> (\<forall>x \<in> set xs. fst x \<le> fold greater xs m) \<and>
    (fold greater xs m = m \<or> fold greater xs m \<in> fst ` set xs)"
proof (induction xs arbitrary: m)
  case (Cons x xs)
  let ?m = "greater x m" and ?f = "fold greater xs (greater x m)"
  have g: "m \<le> ?m" "fst x \<le> ?m" "?m = m \<or> ?m = fst x" by (simp_all add: greater_def)
  have f: "?m \<le> ?f" "\<forall>y \<in> set xs. fst y \<le> ?f" "?f = ?m \<or> ?f \<in> fst ` set xs" using Cons.IH by blast+
  have "m \<le> ?f" "fst x \<le> ?f" using g f(1) by linarith+
  moreover have "?f = m \<or> ?f = fst x \<or> ?f \<in> fst ` set xs" using g(3) f(3) by metis
  ultimately show ?case using f(2) by simp
qed simp

definition listeners :: "server \<Rightarrow> int set" where
  "listeners s = set (map fst (sv_fds s)) - {- 1}"

definition clients :: "server \<Rightarrow> int set" where
  "clients s = set (map fst (sv_clients s)) - {0}"

definition sv_ok :: "server \<Rightarrow> bool" where
  "sv_ok s \<longleftrightarrow> length (sv_fds s) = MAX_FDS \<and> length (sv_clients s) = MAX_CLIENTS \<and>
     apart (- 1) (map fst (sv_fds s)) \<and> apart 0 (map fst (sv_clients s)) \<and>
     listeners s \<inter> clients s = {} \<and> sv_all s = listeners s \<union> clients s \<and>
     (\<forall>fd \<in> sv_all s. fd_range fd) \<and> (\<forall>fd \<in> listeners s. fd \<le> sv_maxfd s)"

lemma maxfd_calc:
  "\<forall>fd \<in> listeners s \<union> clients s. fd \<le> sv_maxfd (calc_maxfd s)"
  "listeners (calc_maxfd s) = listeners s" "clients (calc_maxfd s) = clients s"
  "sv_fds (calc_maxfd s) = sv_fds s" "sv_clients (calc_maxfd s) = sv_clients s" "sv_all (calc_maxfd s) = sv_all s"
  using fold_greater [of "sv_maxfd s" "sv_fds s"] fold_greater [of "fold greater (sv_fds s) (sv_maxfd s)" "sv_clients s"]
  by (fastforce simp: calc_maxfd_def greater_eq listeners_def clients_def)+

lemma sv_ok_init:
  assumes "length (sv_fds s) = MAX_FDS" "length (sv_clients s) = MAX_CLIENTS"
  shows "sv_ok (init_server s)"
  using assms
  by (auto simp: sv_ok_def init_server_def listeners_def clients_def apart_def comp_def case_prod_beta)

lemma sv_ok_set:
  assumes "sv_ok s" "fd \<notin> sv_all s" "set_server fd flag s = Some (Done s1)"
  shows "sv_ok s1 \<and> listeners s1 = insert fd (listeners s) \<and> clients s1 = clients s \<and> (\<forall>x \<in> sv_all s1. x \<le> sv_maxfd s1)"
proof -
  obtain i where i: "find_slot (\<lambda>(f, g). f = - 1) (sv_fds s) = Some i" and r: "fd_range fd"
    and s1: "s1 = calc_maxfd (s\<lparr>sv_all := insert fd (sv_all s), sv_fds := (sv_fds s)[i := (fd, flag)]\<rparr>)"
    using assms(3) by (auto simp: set_server_def fd_set_def split: option.splits if_splits)
  let ?s = "s\<lparr>sv_all := insert fd (sv_all s), sv_fds := (sv_fds s)[i := (fd, flag)]\<rparr>"
  have n: "i < length (sv_fds s)" "map fst (sv_fds s) ! i = - 1" "fd \<noteq> - 1"
    using i r by (auto simp: find_slot_Some fd_range_def case_prod_beta)
  then have l: "listeners ?s = insert fd (listeners s)" "clients ?s = clients s"
    using used_put [of i "map fst (sv_fds s)" "- 1" fd] by (auto simp: listeners_def clients_def map_update)
  have "fd \<notin> set (map fst (sv_fds s))" "fd \<notin> clients s" using assms(1,2) n(3) by (auto simp: sv_ok_def listeners_def)
  moreover have "apart (- 1) (map fst (sv_fds ?s))"
    using apart_put assms(1) calculation(1) by (simp add: map_update sv_ok_def)
  ultimately show ?thesis
    using assms(1,2) r l maxfd_calc [of ?s] by (simp add: s1 sv_ok_def)
qed

lemma sv_ok_accept:
  assumes "sv_ok (cn_server cn)" "c \<notin> sv_all (cn_server cn)" "0 < c" "accept_client fd c (num, cn) = Some (Done (num1, cn1))"
    and "\<exists>x \<in> set (sv_clients (cn_server cn)). fst x = 0"
  shows "sv_ok (cn_server cn1) \<and> clients (cn_server cn1) = insert c (clients (cn_server cn)) \<and>
    listeners (cn_server cn1) = listeners (cn_server cn) \<and> (\<forall>x \<in> sv_all (cn_server cn1). x \<le> sv_maxfd (cn_server cn1))"
proof -
  let ?old = "cn_server cn"
  obtain j where j: "find_slot (\<lambda>(c, f). c = 0) (sv_clients ?old) = Some j"
    using assms(5) by (cases "find_slot (\<lambda>(c, f). c = 0) (sv_clients ?old)") (auto simp: find_slot_None)
  let ?s = "?old\<lparr>sv_clients := (sv_clients ?old)[j := (c, fd)], sv_all := insert c (sv_all ?old)\<rparr>"
  have r: "fd_range c" and s1: "cn_server cn1 = calc_maxfd ?s"
    using assms(4) j by (auto simp: accept_client_def fd_set_def Let_def split: run.splits if_splits)
  have n: "j < length (sv_clients ?old)" "map fst (sv_clients ?old) ! j = 0"
    using j unfolding find_slot_Some case_prod_beta by simp_all
  then have l: "clients ?s = insert c (clients ?old)" "listeners ?s = listeners ?old"
    using used_put [of j "map fst (sv_clients ?old)" 0 c] assms(3) by (auto simp: listeners_def clients_def map_update)
  have "c \<notin> set (map fst (sv_clients ?old))" "c \<notin> listeners ?old" using assms(1-3) by (auto simp: sv_ok_def clients_def)
  moreover have "apart 0 (map fst (sv_clients ?s))"
    using apart_put assms(1) calculation(1) by (simp add: map_update sv_ok_def)
  ultimately show ?thesis
    using assms(1,2) r l maxfd_calc [of ?s] unfolding s1 sv_ok_def by (simp add: maxfd_calc)
qed

lemma listeners_clear:
  assumes "sv_ok s" "find_slot (\<lambda>(f, g). f = fd) (sv_fds s) = Some i"
  shows "listeners (s\<lparr>sv_fds := (sv_fds s)[i := (- 1, b)]\<rparr>) = listeners s - {fd}"
    "apart (- 1) (map fst ((sv_fds s)[i := (- 1, b)]))"
  using used_clear [of "- 1" "map fst (sv_fds s)" i] apart_clear [of "- 1" "map fst (sv_fds s)" i] assms
  by (auto simp: listeners_def sv_ok_def map_update find_slot_Some case_prod_beta)

lemma listener_missing: "find_slot (\<lambda>(f, g). f = fd) (sv_fds s) = None \<Longrightarrow> fd \<notin> listeners s"
  by (auto simp: listeners_def find_slot_None case_prod_beta)

lemma sv_ok_unset:
  assumes "sv_ok s" "fd \<notin> clients s" "unset_server fd s = Some (iret, s1)"
  shows "sv_ok s1 \<and> listeners s1 = listeners s - {fd} \<and> clients s1 = clients s"
proof -
  obtain s0 where s0: "s1 = s0\<lparr>sv_maxfd := fold greater (sv_fds s0) 0\<rparr>" "sv_all s0 = sv_all s - {fd}"
    "sv_clients s0 = sv_clients s" "listeners s0 = listeners s - {fd}" "apart (- 1) (map fst (sv_fds s0))"
    "length (sv_fds s0) = length (sv_fds s)"
  proof (cases "find_slot (\<lambda>(f, g). f = fd) (sv_fds s)")
    case None
    then show ?thesis using that [of "s\<lparr>sv_all := sv_all s - {fd}\<rparr>"] assms(1,3) listener_missing [OF None]
      by (auto simp: unset_server_def fd_clr_def greater_eq sv_ok_def listeners_def)
  next
    case (Some i)
    let ?s = "s\<lparr>sv_all := sv_all s - {fd}, sv_fds := (sv_fds s)[i := (- 1, False)]\<rparr>"
    have "listeners ?s = listeners s - {fd}"
      using listeners_clear(1) [OF assms(1) Some, of False] by (simp add: listeners_def)
    then show ?thesis using that [of ?s] Some assms(1,3) listeners_clear(2) [OF assms(1) Some, of False]
      by (auto simp: unset_server_def fd_clr_def greater_eq)
  qed
  have "listeners s1 = listeners s0" "clients s1 = clients s" using s0(1,3) by (simp_all add: listeners_def clients_def)
  moreover have "\<forall>x \<in> listeners s1. x \<le> sv_maxfd s1"
    using fold_greater [of 0 "sv_fds s0"] s0(1) by (fastforce simp: listeners_def)
  ultimately show ?thesis using assms(1,2) s0 by (auto simp: sv_ok_def)
qed

lemma sv_ok_disconnect:
  assumes "sv_ok s" "fd \<noteq> 0" "fd \<noteq> - 1" "client_disconnect fd s = Some s1"
  shows "sv_ok s1 \<and> listeners s1 = listeners s - {fd} \<and> clients s1 = clients s - {fd} \<and> sv_maxfd s1 = sv_maxfd s"
proof (cases "find_slot (\<lambda>(c, f). c = fd) (sv_clients s)")
  case (Some i)
  then have s1: "s1 = s\<lparr>sv_all := sv_all s - {fd}, sv_clients := (sv_clients s)[i := (0, snd (sv_clients s ! i))]\<rparr>"
    using assms(4) by (auto simp: client_disconnect_def fd_clr_def)
  have "clients s1 = clients s - {fd}" "apart 0 (map fst (sv_clients s1))"
    using used_clear [of 0 "map fst (sv_clients s)" i] apart_clear [of 0 "map fst (sv_clients s)" i] assms(1) Some
    by (auto simp: s1 clients_def sv_ok_def map_update find_slot_Some case_prod_beta)
  moreover have "listeners s1 = listeners s" by (simp add: s1 listeners_def)
  moreover have "fd \<in> clients s" using Some assms(2) by (auto simp: clients_def find_slot_Some case_prod_beta)
  ultimately show ?thesis using assms(1) unfolding s1 sv_ok_def by auto
next
  case None
  then have c: "fd \<notin> clients s" by (auto simp: clients_def find_slot_None case_prod_beta)
  show ?thesis
  proof (cases "find_slot (\<lambda>(f, g). f = fd) (sv_fds s)")
    case n: None
    then show ?thesis using None c assms listener_missing [OF n] by (auto simp: client_disconnect_def)
  next
    case (Some i)
    then have s1: "s1 = s\<lparr>sv_all := sv_all s - {fd}, sv_fds := (sv_fds s)[i := (- 1, snd (sv_fds s ! i))]\<rparr>"
      using None assms(4) by (auto simp: client_disconnect_def fd_clr_def)
    have "listeners s1 = listeners s - {fd}" "apart (- 1) (map fst (sv_fds s1))"
      using listeners_clear [OF assms(1) Some, of "snd (sv_fds s ! i)"] by (simp_all add: s1 listeners_def)
    moreover have "clients s1 = clients s" by (simp add: s1 clients_def)
    ultimately show ?thesis using assms(1) c unfolding s1 sv_ok_def by auto
  qed
qed

subsection \<open>Lemmas: one client after the other, and the calls of a round\<close>

text \<open>Clients that connect to \<open>fd\<close> and leave again, one at a time.\<close>

fun sessions :: "int \<Rightarrow> int list \<Rightarrow> int \<times> conns \<Rightarrow> (int \<times> conns) run option" where
  "sessions fd [] nc = Some (Done nc)"
| "sessions fd (c # cs) nc = run_bind (accept_client fd c nc) (\<lambda>(num, cn). do {
     s \<leftarrow> client_disconnect c (cn_server cn);
     sessions fd cs (num, cn\<lparr>cn_server := s\<rparr>)
   })"

definition no_clients :: "server \<Rightarrow> bool" where
  "no_clients s \<longleftrightarrow> length (sv_clients s) = MAX_CLIENTS \<and> (\<forall>x \<in> set (sv_clients s). fst x = 0)"

lemma session:
  assumes "no_clients (cn_server cn)" "get_name (cn_info cn) fd = Done name" "fd_range c" "c \<noteq> 0" "num < 99"
  obtains cn1 s where "accept_client fd c (num, cn) = Some (Done (num + 1, cn1))" "cn_info cn1 = cn_info cn"
    "client_disconnect c (cn_server cn1) = Some s" "no_clients s"
proof -
  let ?s = "cn_server cn"
  obtain f r where r: "sv_clients ?s = (0, f) # r" "\<forall>x \<in> set r. fst x = 0"
    using assms(1) by (cases "sv_clients ?s") (auto simp: no_clients_def MAX_CLIENTS_def)
  let ?s1 = "calc_maxfd (?s\<lparr>sv_clients := (c, fd) # r, sv_all := insert c (sv_all ?s)\<rparr>)"
  have "accept_client fd c (num, cn) = Some (Done (num + 1, cn\<lparr>cn_server := ?s1\<rparr>))"
    using r(1) assms(2,3,5) by (simp add: accept_client_def Let_def fd_set_def MAX_CLIENTS_def require_bind_True)
  moreover have "client_disconnect c ?s1 = Some (?s1\<lparr>sv_all := sv_all ?s1 - {c}, sv_clients := (0, fd) # r\<rparr>)"
    using assms(3) by (simp add: client_disconnect_def fd_clr_def maxfd_calc require_bind_True)
  moreover have "no_clients (?s1\<lparr>sv_all := sv_all ?s1 - {c}, sv_clients := (0, fd) # r\<rparr>)"
    using r assms(1) by (simp add: no_clients_def)
  ultimately show thesis using that by simp
qed

lemma last_session:
  assumes "no_clients (cn_server cn)" "get_name (cn_info cn) fd = Done name"
  shows "accept_client fd c (99, cn) = Some Exit"
proof -
  obtain f r where "sv_clients (cn_server cn) = (0, f) # r"
    using assms(1) by (cases "sv_clients (cn_server cn)") (auto simp: no_clients_def MAX_CLIENTS_def)
  then show ?thesis using assms(2) by (simp add: accept_client_def Let_def MAX_CLIENTS_def require_bind_True)
qed

lemma sessions_count:
  assumes "no_clients (cn_server cn)" "get_name (cn_info cn) fd = Done name" "\<forall>c \<in> set cs. fd_range c \<and> c \<noteq> 0" "num \<le> 99"
  shows "if num + int (length cs) < 100
    then \<exists>cn1. sessions fd cs (num, cn) = Some (Done (num + int (length cs), cn1)) \<and> no_clients (cn_server cn1)
    else sessions fd cs (num, cn) = Some Exit"
  using assms
proof (induction cs arbitrary: num cn)
  case (Cons c cs)
  show ?case
  proof (cases "num = 99")
    case True
    then show ?thesis using last_session [OF Cons.prems(1,2)] by simp
  next
    case False
    then have n: "num < 99" using Cons.prems(4) by simp
    obtain cn1 s where s: "accept_client fd c (num, cn) = Some (Done (num + 1, cn1))" "cn_info cn1 = cn_info cn"
      "client_disconnect c (cn_server cn1) = Some s" "no_clients s"
      using session [OF Cons.prems(1,2) _ _ n, of c] Cons.prems(3) by auto
    have e: "sessions fd (c # cs) (num, cn) = sessions fd cs (num + 1, cn1\<lparr>cn_server := s\<rparr>)"
      using s by simp
    have l: "num + int (length (c # cs)) = num + 1 + int (length cs)" by simp
    show ?thesis
      unfolding e l using Cons.IH [of "cn1\<lparr>cn_server := s\<rparr>" "num + 1"] Cons.prems(2,3) s n by simp
  qed
qed simp

text \<open>Calls of the handler, in order.\<close>

fun calls :: "'w handle \<Rightarrow> (int \<times> int) list \<Rightarrow> conns \<times> 'w \<Rightarrow> (conns \<times> 'w) run option" where
  "calls handle [] st = Some (Done st)"
| "calls handle ((fd, c) # r) st = run_bind (handle fd c st) (calls handle r)"

definition ready_servers :: "int set \<Rightarrow> (int \<times> bool) list \<Rightarrow> (int \<times> int) list" where
  "ready_servers ready l = map (\<lambda>(fd, g). (fd, fd)) (filter (\<lambda>(fd, g). fd \<noteq> - 1 \<and> fd \<in> ready) l)"

definition ready_clients :: "int set \<Rightarrow> (int \<times> int) list \<Rightarrow> (int \<times> int) list" where
  "ready_clients ready l = map (\<lambda>(c, fd). (fd, c)) (filter (\<lambda>(c, fd). c \<noteq> 0 \<and> c \<in> ready) l)"

definition keeps_tables :: "'w handle \<Rightarrow> bool" where
  "keeps_tables handle \<longleftrightarrow> (\<forall>fd c cn w cn1 w1. handle fd c (cn, w) = Some (Done (cn1, w1)) \<longrightarrow>
     sv_fds (cn_server cn1) = sv_fds (cn_server cn) \<and> sv_clients (cn_server cn1) = sv_clients (cn_server cn))"

lemma drop_place: "k < length l \<Longrightarrow> drop (length l - Suc k) l = l ! (length l - Suc k) # drop (length l - k) l"
  by (metis Cons_nth_drop_Suc Suc_diff_Suc diff_Suc_less length_greater_0_conv list.size(3) not_less_zero)

lemma scan_servers_calls:
  assumes "keeps_tables handle" "\<forall>(fd, g) \<in> set l. fd \<noteq> - 1 \<longrightarrow> fd_range fd \<and> (fd \<in> ready \<longrightarrow> \<not> g)" "length l = MAX_FDS"
  shows "k \<le> MAX_FDS \<Longrightarrow> sv_fds (cn_server cn) = l \<Longrightarrow>
    scan_servers handle accept ready k (num, cn, w) =
      run_bind (calls handle (ready_servers ready (drop (MAX_FDS - k) l)) (cn, w)) (\<lambda>st. Some (Done (Scanned (num, st))))"
proof (induction k arbitrary: cn w)
  case 0
  then show ?case using assms(3) by (simp add: ready_servers_def)
next
  case (Suc k)
  obtain fd g where e: "l ! (MAX_FDS - Suc k) = (fd, g)" by fastforce
  have d: "drop (MAX_FDS - Suc k) l = (fd, g) # drop (MAX_FDS - k) l"
    using drop_place [of k l] Suc.prems(1) assms(3) e by simp
  have m: "(fd, g) \<in> set l" using e nth_mem [of "MAX_FDS - Suc k" l] Suc.prems(1) assms(3) by simp
  have k: "k \<le> MAX_FDS" using Suc.prems(1) by simp
  show ?case
  proof (cases "fd \<noteq> - 1 \<and> fd \<in> ready")
    case False
    then show ?thesis using Suc.IH [OF k Suc.prems(2)] Suc.prems(2) e d m assms(2)
      by (auto simp: ready_servers_def require_bind_True)
  next
    case True
    then have g: "fd_range fd" "\<not> g" using m assms(2) by auto
    have "scan_servers handle accept ready (Suc k) (num, cn, w) =
        run_bind (handle fd fd (cn, w)) (\<lambda>st. scan_servers handle accept ready k (num, st))"
      using True g e Suc.prems(2) by (simp add: require_bind_True call_handler_def run_bind_assoc)
    also have "\<dots> = run_bind (handle fd fd (cn, w)) (\<lambda>st.
        run_bind (calls handle (ready_servers ready (drop (MAX_FDS - k) l)) st) (\<lambda>st. Some (Done (Scanned (num, st)))))"
    proof (rule run_bind_cong)
      fix st assume h: "handle fd fd (cn, w) = Some (Done st)"
      obtain cn1 w1 where "st = (cn1, w1)" by (cases st)
      then show "scan_servers handle accept ready k (num, st) =
          run_bind (calls handle (ready_servers ready (drop (MAX_FDS - k) l)) st) (\<lambda>st. Some (Done (Scanned (num, st))))"
        using Suc.IH [OF k, of cn1 w1] h assms(1) Suc.prems(2) unfolding keeps_tables_def by metis
    qed
    finally show ?thesis using True d by (simp add: ready_servers_def run_bind_assoc)
  qed
qed

lemma scan_clients_calls:
  assumes "keeps_tables handle" "\<forall>(c, fd) \<in> set l. c \<noteq> 0 \<longrightarrow> fd_range c" "length l = MAX_CLIENTS"
  shows "k \<le> MAX_CLIENTS \<Longrightarrow> sv_clients (cn_server cn) = l \<Longrightarrow>
    scan_clients handle ready k (num, cn, w) =
      run_bind (calls handle (ready_clients ready (drop (MAX_CLIENTS - k) l)) (cn, w)) (\<lambda>st. Some (Done (num, st)))"
proof (induction k arbitrary: cn w)
  case 0
  then show ?case using assms(3) by (simp add: ready_clients_def)
next
  case (Suc k)
  obtain c fd where e: "l ! (MAX_CLIENTS - Suc k) = (c, fd)" by fastforce
  have d: "drop (MAX_CLIENTS - Suc k) l = (c, fd) # drop (MAX_CLIENTS - k) l"
    using drop_place [of k l] Suc.prems(1) assms(3) e by simp
  have m: "(c, fd) \<in> set l" using e nth_mem [of "MAX_CLIENTS - Suc k" l] Suc.prems(1) assms(3) by simp
  have k: "k \<le> MAX_CLIENTS" using Suc.prems(1) by simp
  show ?case
  proof (cases "c \<noteq> 0 \<and> c \<in> ready")
    case False
    then show ?thesis using Suc.IH [OF k Suc.prems(2)] Suc.prems(2) e d m assms(2)
      by (auto simp: ready_clients_def require_bind_True)
  next
    case True
    then have g: "fd_range c" using m assms(2) by auto
    have "scan_clients handle ready (Suc k) (num, cn, w) =
        run_bind (handle fd c (cn, w)) (\<lambda>st. scan_clients handle ready k (num, st))"
      using True g e Suc.prems(2) by (simp add: require_bind_True call_handler_def run_bind_assoc)
    also have "\<dots> = run_bind (handle fd c (cn, w)) (\<lambda>st.
        run_bind (calls handle (ready_clients ready (drop (MAX_CLIENTS - k) l)) st) (\<lambda>st. Some (Done (num, st))))"
    proof (rule run_bind_cong)
      fix st assume h: "handle fd c (cn, w) = Some (Done st)"
      obtain cn1 w1 where "st = (cn1, w1)" by (cases st)
      then show "scan_clients handle ready k (num, st) =
          run_bind (calls handle (ready_clients ready (drop (MAX_CLIENTS - k) l)) st) (\<lambda>st. Some (Done (num, st)))"
        using Suc.IH [OF k, of cn1 w1] h assms(1) Suc.prems(2) unfolding keeps_tables_def by metis
    qed
    finally show ?thesis using True d by (simp add: ready_clients_def run_bind_assoc)
  qed
qed

lemma calls_append: "calls handle (a @ b) st = run_bind (calls handle a st) (calls handle b)"
proof (induction a arbitrary: st)
  case (Cons x a)
  have "calls handle (a @ b) = (\<lambda>st. run_bind (calls handle a st) (calls handle b))" by (rule ext) (rule Cons.IH)
  then show ?case by (cases x) (simp add: run_bind_assoc)
qed simp

lemma calls_keep:
  assumes "keeps_tables handle"
  shows "calls handle l (cn, w) = Some (Done (cn1, w1)) \<Longrightarrow>
    sv_fds (cn_server cn1) = sv_fds (cn_server cn) \<and> sv_clients (cn_server cn1) = sv_clients (cn_server cn)"
proof (induction l arbitrary: cn w)
  case (Cons x l)
  then show ?case using assms
    by (cases x) (fastforce simp: keeps_tables_def run_bind_def split: option.splits run.splits)
qed simp

subsection \<open>Properties\<close>

text \<open>How the program uses the tables: the operating system gives descriptors that are not in use.\<close>

inductive sv_reach :: "server \<Rightarrow> bool" where
  sv_start: "length (sv_fds s) = MAX_FDS \<Longrightarrow> length (sv_clients s) = MAX_CLIENTS \<Longrightarrow> sv_reach (init_server s)"
| sv_set: "sv_reach s \<Longrightarrow> fd \<notin> sv_all s \<Longrightarrow> set_server fd flag s = Some (Done s1) \<Longrightarrow> sv_reach s1"
| sv_unset: "sv_reach s \<Longrightarrow> fd \<notin> clients s \<Longrightarrow> unset_server fd s = Some (iret, s1) \<Longrightarrow> sv_reach s1"
| sv_accept: "sv_reach (cn_server cn) \<Longrightarrow> c \<notin> sv_all (cn_server cn) \<Longrightarrow> 0 < c \<Longrightarrow>
    \<exists>x \<in> set (sv_clients (cn_server cn)). fst x = 0 \<Longrightarrow>
    accept_client fd c (num, cn) = Some (Done (num1, cn1)) \<Longrightarrow> sv_reach (cn_server cn1)"
| sv_leave: "sv_reach s \<Longrightarrow> fd \<noteq> 0 \<Longrightarrow> fd \<noteq> - 1 \<Longrightarrow> client_disconnect fd s = Some s1 \<Longrightarrow> sv_reach s1"

lemma sv_reach_ok: "sv_reach s \<Longrightarrow> sv_ok s"
proof (induction rule: sv_reach.induct)
  case sv_start then show ?case by (rule sv_ok_init)
next
  case sv_set then show ?case using sv_ok_set by blast
next
  case sv_unset then show ?case using sv_ok_unset by blast
next
  case sv_accept then show ?case using sv_ok_accept by blast
next
  case sv_leave then show ?case using sv_ok_disconnect by blast
qed

text \<open>An example: a server with two listeners, 3 and 4, and a client 5 of the first.\<close>

definition idle_server :: server where
  "idle_server = \<lparr>sv_fds = (- 1, False) # (- 1, False) # replicate 98 (- 1, False),
     sv_clients = (0, 0) # replicate 99 (0, 0), sv_all = {}, sv_maxfd = 0, sv_timeout = 0\<rparr>"

definition two_servers :: server where
  "two_servers = idle_server\<lparr>sv_fds := (3, True) # (4, True) # replicate 98 (- 1, False), sv_all := {3, 4}, sv_maxfd := 4\<rparr>"

definition one_client :: server where
  "one_client = two_servers\<lparr>sv_clients := (5, 3) # replicate 99 (0, 0), sv_all := {3, 4, 5}, sv_maxfd := 5\<rparr>"

definition two_names :: "fd_slot list" where
  "two_names = [blank_slot\<lparr>fi_name := ''a'', fi_fd := 3\<rparr>, blank_slot\<lparr>fi_name := ''b'', fi_fd := 4\<rparr>]"

lemma greater_same: "fst x \<le> m \<Longrightarrow> (greater x ^^ n) m = m"
  by (induction n) (auto simp: greater_def)

lemmas max_simps = calc_maxfd_def greater_eq greater_same greater_def

lemma one_client_reach: "sv_reach one_client" "sv_reach two_servers" "sv_reach idle_server"
proof -
  have "sv_reach (init_server idle_server)" by (rule sv_start) (simp_all add: idle_server_def MAX_FDS_def MAX_CLIENTS_def)
  then show i: "sv_reach idle_server" by (simp add: init_server_def idle_server_def)
  let ?s = "idle_server\<lparr>sv_fds := (3, True) # (- 1, False) # replicate 98 (- 1, False), sv_all := {3}, sv_maxfd := 3\<rparr>"
  have "set_server 3 True idle_server = Some (Done ?s)"
    by (simp add: set_server_def idle_server_def fd_set_def fd_range_def max_simps MAX_FDS_def)
  from sv_set [OF i _ this] have t: "sv_reach ?s" by (simp add: idle_server_def)
  have "set_server 4 True ?s = Some (Done two_servers)"
    by (simp add: set_server_def idle_server_def two_servers_def fd_set_def fd_range_def max_simps MAX_FDS_def insert_commute)
  from sv_set [OF t _ this] show u: "sv_reach two_servers" by (simp add: idle_server_def)
  let ?cn = "\<lparr>cn_info = two_names, cn_server = two_servers\<rparr>"
  have "accept_client 3 5 (0, ?cn) = Some (Done (1, \<lparr>cn_info = two_names, cn_server = one_client\<rparr>))"
    by (simp add: accept_client_def two_servers_def one_client_def idle_server_def Let_def get_name_def two_names_def
        fd_set_def fd_range_def max_simps MAX_CLIENTS_def insert_commute)
  from sv_accept [OF _ _ _ _ this] show "sv_reach one_client"
    using u by (simp add: two_servers_def idle_server_def)
qed



text \<open>Closing a connection takes the greatest descriptor of the listeners alone: a client whose
  descriptor is greater stays in the set but is not seen by \<open>select\<close> any more.\<close>

theorem unset_server_hides_client:
  assumes "sv_reach s" "c \<in> clients s" "fd \<notin> clients s" "\<forall>x \<in> listeners s - {fd}. x < c"
    and "unset_server fd s = Some (iret, s1)"
  shows "c \<in> sv_all s1 \<and> sv_maxfd s1 < c"
proof -
  have ok: "sv_ok s" using assms(1) by (rule sv_reach_ok)
  have u: "sv_ok s1" "listeners s1 = listeners s - {fd}" "clients s1 = clients s"
    using sv_ok_unset [OF ok assms(3,5)] by auto
  have "fd_range c" "c \<noteq> 0" using ok assms(2) by (auto simp: sv_ok_def clients_def)
  then have "0 < c" by (simp add: fd_range_def)
  have m: "sv_maxfd s1 = fold greater (sv_fds s1) 0"
    using assms(5) by (auto simp: unset_server_def greater_eq Let_def split: option.splits)
  moreover have "x < c" if "x \<in> fst ` set (sv_fds s1)" for x
  proof (cases "x = - 1")
    case False
    then have "x \<in> listeners s1" using that by (simp add: listeners_def)
    then show ?thesis using u(2) assms(4) by simp
  qed (use \<open>0 < c\<close> in simp)
  ultimately have "sv_maxfd s1 < c" using fold_greater [of 0 "sv_fds s1"] \<open>0 < c\<close> by metis
  then show ?thesis using u assms(2) by (auto simp: sv_ok_def)
qed

theorem unset_server_hides_client_witness:
  "\<exists>s1. unset_server 4 one_client = Some (0, s1) \<and> 5 \<in> sv_all s1 \<and> sv_maxfd s1 < 5"
proof -
  obtain s1 where s1: "unset_server 4 one_client = Some (0, s1)"
    by (simp add: unset_server_def fd_clr_def fd_range_def one_client_def two_servers_def idle_server_def)
  have "clients one_client = {5}" "listeners one_client = {3, 4}"
    by (auto simp: clients_def listeners_def one_client_def two_servers_def idle_server_def)
  then have "5 \<in> clients one_client" "4 \<notin> clients one_client" "\<forall>x \<in> listeners one_client - {4}. x < 5" by auto
  from unset_server_hides_client [OF one_client_reach(1) this s1] s1 show ?thesis by blast
qed

text \<open>C25. The number of clients is counted up with every connection and never down: when clients
  connect and leave one at a time, the hundredth connection ends the process.\<close>

theorem hundredth_client_ends_process:
  assumes "no_clients (cn_server cn)" "get_name (cn_info cn) fd = Done name" "\<forall>c \<in> set cs. fd_range c \<and> c \<noteq> 0"
  shows "(length cs < 100 \<longrightarrow> (\<exists>cn1. sessions fd cs (0, cn) = Some (Done (int (length cs), cn1)) \<and> no_clients (cn_server cn1))) \<and>
    (100 \<le> length cs \<longrightarrow> sessions fd cs (0, cn) = Some Exit)"
  using sessions_count [OF assms, of 0] by (auto split: if_splits)

theorem hundredth_client_ends_process_witness:
  "sessions 3 (replicate 100 7) (0, \<lparr>cn_info = two_names, cn_server = two_servers\<rparr>) = Some Exit"
proof -
  have "no_clients two_servers" by (simp add: no_clients_def two_servers_def idle_server_def MAX_CLIENTS_def)
  moreover have "get_name two_names 3 = Done ''a''" by (simp add: get_name_def two_names_def)
  ultimately show ?thesis
    using hundredth_client_ends_process [of "\<lparr>cn_info = two_names, cn_server = two_servers\<rparr>" 3 "''a''" "replicate 100 7"]
    by (simp add: fd_range_def)
qed


text \<open>A handler that notes its calls.\<close>

definition noting :: "(int \<times> int) list handle" where
  "noting fd c st = Some (Done (fst st, snd st @ [(fd, c)]))"


end
