(* ===== verification/Secs_Encode.thy ===== *)
theory Secs_Encode
  imports Control Secs_Log
begin

unbundle bit_operations_syntax

section \<open>From the text of a program to a message (secs_encode_sml.c)\<close>

text \<open>
  The text after \<open>SEND\<close> is SML: \<open>S6F11 0 W <L <U4 23> <A 'CJ001'> > .\<close> \<open>secs_encode\<close> reads it
  token by token and appends an item to the message for every \<open>L\<close>, \<open>A\<close>, \<open>BO\<close>, \<open>B\<close>, \<open>U1\<close>, ..., the
  brackets themselves do nothing there. The number of elements of a list is found by reading
  ahead to the closing bracket and going back. Below: the loops over the values of an item, the
  item of every format and the loop over the items. \<open>Sml\<close> proves that a text that stands for a tree of
  items is encoded into that tree.
\<close>

subsection \<open>Reading floats and hexadecimal bytes\<close>

text \<open>The rounding of \<open>Float_Ops\<close> for any width: \<open>k\<close> bits of exponent and \<open>b\<close> bits of fraction.\<close>

definition round_ieee :: "nat \<Rightarrow> nat \<Rightarrow> bool \<Rightarrow> nat \<Rightarrow> nat \<Rightarrow> nat" where
  "round_ieee k b s N D =
     (let sign = (if s then 2 ^ (k + b) else 0); lo = 2 - 2 ^ (k - 1) :: int
      in if N = 0 then sign
         else let e = max (bin_exp N D) lo;
                  m = (if e \<le> int b then round_div (N * 2 ^ nat (int b - e)) D
                       else round_div N (D * 2 ^ nat (e - int b)));
                  v = nat (e - lo) * 2 ^ b + m; inf = (2 ^ k - 1) * 2 ^ b
              in if inf \<le> v then sign + inf else sign + v)"

lemma round_ieee_float: "round_ieee 8 23 = round_float"
  by (intro ext) (simp add: round_ieee_def round_float_def sign_bit_def float_inf_def Let_def)

text \<open>\<open>atof\<close>: unlike \<^verbatim>\<open>%g\<close> it takes as much as is a number; no number is 0.\<close>

definition atof_digits :: "(char \<Rightarrow> bool) \<Rightarrow> nat \<Rightarrow> nat \<Rightarrow> char \<Rightarrow> bool \<Rightarrow> string \<Rightarrow> nat" where
  "atof_digits dig b p ec neg s =
     (let ip = takeWhile dig s; r = dropWhile dig s;
          (fp, r1) = (case r of c # r0 \<Rightarrow> if c = CHR ''.'' then (takeWhile dig r0, dropWhile dig r0) else ([], r)
                              | [] \<Rightarrow> ([], []));
          ex = (case scan_exp ec r1 of None \<Rightarrow> 0 | Some (v, _) \<Rightarrow> v);
          N = base_value b (ip @ fp); D = b ^ length fp
      in if ip = [] \<and> fp = [] then 0
         else if 0 \<le> ex then round_ieee 11 52 neg (N * p ^ nat ex) D
         else round_ieee 11 52 neg N (D * p ^ nat (- ex)))"

definition hex_number :: "string \<Rightarrow> bool" where
  "hex_number l \<longleftrightarrow> starts ''0x'' l \<and>
     (case drop 2 l of
        c # r \<Rightarrow> is_xdigit c \<or> c = CHR ''.'' \<and> r \<noteq> [] \<and> is_xdigit (hd r)
      | [] \<Rightarrow> False)"

definition atof :: "string \<Rightarrow> nat" where
  "atof s =
     (let (neg, r) = scan_sign (dropWhile isspace (cstr s)); l = map tolower r;
          sign = (if neg then 2 ^ 63 else 0)
      in if starts ''inf'' l then sign + 2047 * 2 ^ 52
         else if starts ''nan'' l then 2047 * 2 ^ 52 + 2 ^ 51
         else if hex_number l then atof_digits is_xdigit 16 2 (CHR ''p'') neg (drop 2 r)
         else atof_digits is_digit 10 10 (CHR ''e'') neg r)"

text \<open>\<^verbatim>\<open>sscanf (p, "%2x", &u)\<close> and \<^verbatim>\<open>(uint8_t) u\<close>; \<open>0x\<close> alone is read as 0, as the GNU library
  does.\<close>

definition scan_2x :: "string \<Rightarrow> byte option" where
  "scan_2x p =
     (let q = take 2 (dropWhile isspace p); (neg, r) = scan_sign q; hs = takeWhile is_xdigit r;
          v = of_nat (base_value 16 hs) :: byte
      in if hs = [] then None else Some (if neg then - v else v))"

definition scan_SF :: "string \<Rightarrow> u32 \<Rightarrow> u32 \<Rightarrow> (bool \<times> u32 \<times> u32) option" where
  "scan_SF s stream fn =
     (case cstr s of
        [] \<Rightarrow> Some (False, stream, fn)
      | c # r \<Rightarrow>
          if c \<noteq> CHR ''S'' then Some (False, stream, fn)
          else case scan_num r of
            None \<Rightarrow> Some (False, stream, fn)
          | Some (v, r1) \<Rightarrow> do {
              stream1 \<leftarrow> sscanf_u r stream;
              if r1 = [] \<or> hd r1 \<noteq> CHR ''F'' then Some (False, stream1, fn)
              else do {
                fn1 \<leftarrow> sscanf_u (tl r1) fn;
                Some (scan_num (tl r1) \<noteq> None, stream1, fn1)
              }
            })"

subsection \<open>The values of an item\<close>

text \<open>The code, the length that will be stated in the header and the data buffer.\<close>

record vals =
  va_iret :: u32
  va_num :: u32
  va_data :: "byte list"

definition put_value :: "byte list \<Rightarrow> vals \<Rightarrow> vals" where
  "put_value bs v = v\<lparr>va_num := va_num v + of_nat (length bs), va_data := va_data v @ bs\<rparr>"

text \<open>The loop to the closing bracket, which is put back. \<open>neg\<close>: a minus sign and the token after it
  are one value. \<open>f\<close> is what is done with the text of a token; it can end the loop. There is no
  test for the end of the program.\<close>

definition values_body ::
    "(vals \<Rightarrow> interp \<Rightarrow> (vals \<times> interp) run option) \<Rightarrow> bool \<Rightarrow>
     (string \<Rightarrow> vals \<Rightarrow> (bool \<times> vals) option) \<Rightarrow> vals \<Rightarrow> interp \<Rightarrow> (vals \<times> interp) run option" where
  "values_body rec neg f v st = run_bind (next_token st) (\<lambda>(t, st1).
     if snd t = TT_GREATER_THAN then Some (Done (v, put_program_token st1))
     else run_bind (if neg \<and> snd t = TT_MINUS
                    then run_bind (next_token st1) (\<lambda>(t2, st2). Some (Done (CHR ''-'' # cstr (fst t2), st2)))
                    else Some (Done (fst t, st1)))
       (\<lambda>(s, st2). do {
          (stop, v2) \<leftarrow> f s v;
          if stop then Some (Done (v2, st2)) else rec v2 st2
        }))"

lemma values_body_mono [partial_function_mono]:
  assumes "\<And>v st. mono_option (\<lambda>g. R g v st)"
  shows "mono_option (\<lambda>g. values_body (R g) neg f v st)"
  unfolding values_body_def
  by (intro run_bind_mono prod_mono if_mono bind_mono option.const_mono assms)

partial_function (option) values_loop ::
    "bool \<Rightarrow> (string \<Rightarrow> vals \<Rightarrow> (bool \<times> vals) option) \<Rightarrow> vals \<Rightarrow> interp \<Rightarrow> (vals \<times> interp) run option" where
  "values_loop neg f v st = values_body (\<lambda>v st. values_loop neg f v st) neg f v st"

declare values_loop.simps [code]

text \<open>\<^verbatim>\<open>while (*temp_ptr != '\0')\<close>: \<open>conv\<close> returns the bytes of a number and how many characters it
  took; -1 is an error, and the rest of the text is left.\<close>

partial_function (option) number_loop ::
    "(string \<Rightarrow> (byte list \<times> int) option) \<Rightarrow> string \<Rightarrow> vals \<Rightarrow> vals option" where
  "number_loop conv p v =
     (if p = [] then Some v
      else do {
        (bs, cnt) \<leftarrow> conv p;
        if cnt = -1 then Some (v\<lparr>va_iret := 1\<rparr>)
        else number_loop conv (drop (nat cnt) p) (put_value bs v)
      })"

declare number_loop.simps [code]

definition number_value :: "(string \<Rightarrow> (byte list \<times> int) option) \<Rightarrow> string \<Rightarrow> vals \<Rightarrow> (bool \<times> vals) option" where
  "number_value conv s v = map_option (Pair False) (number_loop conv (cstr s) v)"

type_synonym item_encoder = "byte list \<Rightarrow> interp \<Rightarrow> (u32 \<times> byte list \<times> interp) run option"

text \<open>An item: the values, then \<^verbatim>\<open>STORE_DATA\<close>, whatever the code is.\<close>

definition encode_item ::
    "byte \<Rightarrow> bool \<Rightarrow> (string \<Rightarrow> vals \<Rightarrow> (bool \<times> vals) option) \<Rightarrow> item_encoder" where
  "encode_item ty neg f buffer st =
     run_bind (values_loop neg f \<lparr>va_iret = 0, va_num = 0, va_data = []\<rparr> st) (\<lambda>(v, st1).
     Some (Done (va_iret v, store_data ty (va_num v) (va_data v) buffer, st1)))"

subsection \<open>The formats\<close>

text \<open>\<open>chr_at s i\<close> is \<^verbatim>\<open>bufdata(&token)[i]\<close> with the NUL at the end.\<close>

definition chr_at :: "string \<Rightarrow> nat \<Rightarrow> char" where
  "chr_at s i = (if i < length s then s ! i else NUL)"

definition unsigned_value :: "nat \<Rightarrow> string \<Rightarrow> (byte list \<times> int) option" where
  "unsigned_value w p = (let (u, cnt) = my_atou p in do { bs \<leftarrow> swap (le_bytes w (unat u)); Some (bs, cnt) })"

definition signed_value :: "nat \<Rightarrow> string \<Rightarrow> (byte list \<times> int) option" where
  "signed_value w p = do {
     (i, cnt) \<leftarrow> my_atoi p;
     bs \<leftarrow> swap (le_bytes w (nat (i mod 2 ^ (8 * w))));
     Some (bs, cnt)
   }"

definition encode_ascii :: item_encoder where
  "encode_ascii = encode_item ASCII False (\<lambda>s v. Some (False, put_value (bytes_of s) v))"

text \<open>A text that is no boolean ends the loop; the rest of the item is still to be read.\<close>

definition boolean_value :: "string \<Rightarrow> vals \<Rightarrow> (bool \<times> vals) option" where
  "boolean_value s v =
     (let c = chr_at s 0
      in if c = CHR ''T'' \<or> c = CHR ''1'' then Some (False, put_value [1] v)
         else if c = CHR ''F'' \<or> c = CHR ''0'' then Some (False, put_value [0] v)
         else Some (True, v\<lparr>va_iret := 1\<rparr>))"

definition encode_boolean :: item_encoder where
  "encode_boolean = encode_item BOOLEAN False boolean_value"

definition encode_binary :: item_encoder where
  "encode_binary = encode_item BINARY False (number_value (\<lambda>p. let (b, cnt) = my_atobyte p in Some ([b], cnt)))"

definition encode_u1 :: item_encoder where
  "encode_u1 = encode_item UNSIGNED_1 False (number_value (\<lambda>p. let (u, cnt) = my_atou p in Some ([ucast u], cnt)))"

definition encode_u2 :: item_encoder where
  "encode_u2 = encode_item UNSIGNED_2 False (number_value (unsigned_value 2))"

definition encode_u4 :: item_encoder where
  "encode_u4 = encode_item UNSIGNED_4 False (number_value (unsigned_value 4))"

definition encode_u8 :: item_encoder where
  "encode_u8 = encode_item UNSIGNED_8 False (number_value (unsigned_value 8))"

definition encode_i1 :: item_encoder where
  "encode_i1 = encode_item SIGNED_1 True
     (number_value (\<lambda>p. do { (i, cnt) \<leftarrow> my_atoi p; Some ([of_int i], cnt) }))"

definition encode_i2 :: item_encoder where
  "encode_i2 = encode_item SIGNED_2 True (number_value (signed_value 2))"

definition encode_i4 :: item_encoder where
  "encode_i4 = encode_item SIGNED_4 True (number_value (signed_value 4))"

definition encode_i8 :: item_encoder where
  "encode_i8 = encode_item SIGNED_8 True (number_value (signed_value 8))"

text \<open>Floats as text or as \<^verbatim>\<open>\x3F800000\<close>, which is taken as the bytes of the message. Digits that are
  not hexadecimal append nothing, the length grows by \<open>n\<close> nevertheless.\<close>

definition hex_form :: "string \<Rightarrow> bool" where
  "hex_form p \<longleftrightarrow> chr_at p 0 = CHR 0x5C \<and> chr_at p 1 = CHR ''x''"

definition hex_value :: "nat \<Rightarrow> string \<Rightarrow> vals \<Rightarrow> vals" where
  "hex_value n p v =
     v\<lparr>va_num := va_num v + of_nat n,
       va_data := va_data v @ List.map_filter (\<lambda>i. scan_2x (drop (2 * Suc i) p)) [0..<n]\<rparr>"

text \<open>\<^verbatim>\<open>while (*temp_ptr == ' ') temp_ptr++; temp_ptr = strchr(temp_ptr, ' ');\<close>\<close>

definition next_blank :: "string \<Rightarrow> string option" where
  "next_blank p =
     (let r = dropWhile (\<lambda>c. c \<noteq> CHR '' '') (dropWhile (\<lambda>c. c = CHR '' '') p)
      in if r = [] then None else Some r)"

lemma next_blank_shorter: "next_blank p = Some r \<Longrightarrow> length r < length p"
proof (induction p)
  case (Cons c p)
  have "length (dropWhile (\<lambda>c. c \<noteq> CHR '' '') p) \<le> length p" by (rule length_dropWhile_le)
  then show ?case
    using Cons by (cases "c = CHR '' ''") (auto simp: next_blank_def Let_def split: if_splits)
qed (simp add: next_blank_def)

lemma next_blank_drop: "next_blank (drop k p) = Some r \<Longrightarrow> length r < length p"
  using next_blank_shorter [of "drop k p" r] by simp

function f4_loop :: "string \<Rightarrow> vals \<Rightarrow> vals option" where
  "f4_loop p v =
     (if hex_form p then
        (if length p \<noteq> 10 then Some (v\<lparr>va_iret := 1\<rparr>)
         else case next_blank (drop 8 p) of
                None \<Rightarrow> Some (hex_value 4 p v)
              | Some r \<Rightarrow> f4_loop r (hex_value 4 p v))
      else case scan_g p of
        None \<Rightarrow> Some v
      | Some (x, _) \<Rightarrow>
          (case swap (le_bytes 4 x) of
             None \<Rightarrow> None
           | Some bs \<Rightarrow>
               (case next_blank p of
                  None \<Rightarrow> Some (put_value bs v)
                | Some r \<Rightarrow> f4_loop r (put_value bs v))))"
  by pat_completeness auto
termination
  by (relation "measure (\<lambda>(p, v). length p)") (auto dest: next_blank_shorter next_blank_drop)

declare f4_loop.simps [simp del]

function f8_loop :: "string \<Rightarrow> vals \<Rightarrow> vals option" where
  "f8_loop p v =
     (if hex_form p then
        (if length p \<noteq> 18 then Some (v\<lparr>va_iret := 1\<rparr>)
         else case next_blank (drop 16 p) of
                None \<Rightarrow> Some (hex_value 8 p v)
              | Some r \<Rightarrow> f8_loop r (hex_value 8 p v))
      else case swap (le_bytes 8 (atof p)) of
             None \<Rightarrow> None
           | Some bs \<Rightarrow>
               (case next_blank p of
                  None \<Rightarrow> Some (put_value bs v)
                | Some r \<Rightarrow> f8_loop r (put_value bs v)))"
  by pat_completeness auto
termination
  by (relation "measure (\<lambda>(p, v). length p)") (auto dest: next_blank_shorter next_blank_drop)

declare f8_loop.simps [simp del]

definition encode_f4 :: item_encoder where
  "encode_f4 = encode_item FLOAT_4 True (\<lambda>s v. map_option (Pair False) (f4_loop (cstr s) v))"

definition encode_f8 :: item_encoder where
  "encode_f8 = encode_item FLOAT_8 True (\<lambda>s v. map_option (Pair False) (f8_loop (cstr s) v))"

subsection \<open>Lists\<close>

definition elements_body ::
    "(u32 \<Rightarrow> u32 \<Rightarrow> interp \<Rightarrow> (u32 \<times> interp) run option) \<Rightarrow> world \<Rightarrow> u32 \<Rightarrow> u32 \<Rightarrow> interp \<Rightarrow>
     (u32 \<times> interp) run option" where
  "elements_body rec w nest cnt st = run_bind (next_token st) (\<lambda>(t, st1).
     if snd t = TT_NULL_TOKEN then Some (Done (cnt, st1))
     else if snd t = TT_LESS_THAN then rec (nest + 1) (if nest = 0 then cnt + 1 else cnt) st1
     else if snd t = TT_GREATER_THAN then
       (if nest = 0 then Some (Done (cnt, st1)) else rec (nest - 1) cnt st1)
     else if snd t = TT_FOR then
       run_bind (cmd_for w st1) (\<lambda>(iret, st2).
         if iret \<noteq> 0 then Some (Done (cnt, st2)) else rec nest cnt st2)
     else if snd t = TT_NEXT then
       run_bind (cmd_next st1) (\<lambda>(iret, st2).
         if iret \<noteq> 0 then Some (Done (cnt, st2)) else rec nest cnt st2)
     else rec nest cnt st1)"

lemma elements_body_mono [partial_function_mono]:
  assumes "\<And>nest cnt st. mono_option (\<lambda>f. R f nest cnt st)"
  shows "mono_option (\<lambda>f. elements_body (R f) w nest cnt st)"
  unfolding elements_body_def
  by (intro run_bind_mono prod_mono if_mono bind_mono option.const_mono assms)

partial_function (option) elements_loop :: "world \<Rightarrow> u32 \<Rightarrow> u32 \<Rightarrow> interp \<Rightarrow> (u32 \<times> interp) run option" where
  "elements_loop w nest cnt st = elements_body (\<lambda>nest cnt st. elements_loop w nest cnt st) w nest cnt st"

declare elements_loop.simps [code]

text \<open>The index goes back; the variables of the \<open>FOR\<close>s on the way and their depth do not.\<close>

definition get_num_list_elements :: "world \<Rightarrow> interp \<Rightarrow> (u32 \<times> interp) run option" where
  "get_num_list_elements w st = run_bind (elements_loop w 0 0 st) (\<lambda>(cnt, st1).
     Some (Done (cnt, set_program_token_idx st1 (of_nat (st_idx st)))))"

definition encode_list :: "world \<Rightarrow> item_encoder" where
  "encode_list w buffer st = run_bind (get_num_list_elements w st) (\<lambda>(n, st1).
     Some (Done (0, store_data LIST n [] buffer, st1)))"

subsection \<open>The loop over the items\<close>

text \<open>The first characters of the token decide, whatever its kind is, then the kind.\<close>

definition encode_invalid :: item_encoder where
  "encode_invalid buffer st = Some (Done (1, buffer, st))"

definition encode_unsigned :: "char \<Rightarrow> item_encoder" where
  "encode_unsigned c =
     (if c = CHR ''1'' then encode_u1
      else if c = CHR ''2'' then encode_u2
      else if c = CHR ''4'' then encode_u4
      else if c = CHR ''8'' then encode_u8
      else encode_invalid)"

definition encode_signed :: "char \<Rightarrow> item_encoder" where
  "encode_signed c =
     (if c = CHR ''1'' then encode_i1
      else if c = CHR ''2'' then encode_i2
      else if c = CHR ''4'' then encode_i4
      else if c = CHR ''8'' then encode_i8
      else encode_invalid)"

definition encode_float :: "char \<Rightarrow> item_encoder" where
  "encode_float c =
     (if c = CHR ''4'' then encode_f4
      else if c = CHR ''8'' then encode_f8
      else encode_invalid)"

definition encode_format :: "world \<Rightarrow> string \<Rightarrow> item_encoder option" where
  "encode_format w s =
     (let c = chr_at s 0; d = chr_at s 1
      in if c = CHR ''L'' then Some (encode_list w)
         else if c = CHR ''A'' then Some encode_ascii
         else if c = CHR ''B'' \<and> d = CHR ''O'' then Some encode_boolean
         else if c = CHR ''B'' then Some encode_binary
         else if c = CHR ''U'' then Some (encode_unsigned d)
         else if c = CHR ''I'' then Some (encode_signed d)
         else if c = CHR ''F'' then Some (encode_float d)
         else None)"

definition encode_kind ::
    "(u32 \<Rightarrow> item_encoder) \<Rightarrow> world \<Rightarrow> token_types \<Rightarrow> item_encoder" where
  "encode_kind rec w ty buffer st =
     (if ty = TT_FOR then
        run_bind (cmd_for w st) (\<lambda>(iret, st1). if iret \<noteq> 0 then encode_invalid buffer st1 else rec 0 buffer st1)
      else if ty = TT_NEXT then
        run_bind (cmd_next st) (\<lambda>(iret, st1). if iret \<noteq> 0 then encode_invalid buffer st1 else rec 0 buffer st1)
      else encode_invalid buffer st)"

definition encode_body :: "(u32 \<Rightarrow> item_encoder) \<Rightarrow> world \<Rightarrow> u32 \<Rightarrow> item_encoder" where
  "encode_body rec w iret buffer st =
     (if iret \<noteq> 0 then Some (Done (iret, buffer, st))
      else run_bind (next_token st) (\<lambda>(t, st1).
        if snd t = TT_NULL_TOKEN \<or> snd t = TT_PERIOD then Some (Done (0, buffer, st1))
        else if snd t = TT_LINE_NUMBER then do { st2 \<leftarrow> set_line_number st1 (fst t); rec 0 buffer st2 }
        else if snd t = TT_END_OF_LINE \<or> snd t = TT_GREATER_THAN \<or> snd t = TT_LESS_THAN then rec 0 buffer st1
        else case encode_format w (fst t) of
          None \<Rightarrow> encode_kind rec w (snd t) buffer st1
        | Some enc \<Rightarrow> run_bind (enc buffer st1) (\<lambda>(iret2, buffer2, st2). rec iret2 buffer2 st2)))"

lemma encode_body_mono [partial_function_mono]:
  assumes "\<And>iret buffer st. mono_option (\<lambda>f. R f iret buffer st)"
  shows "mono_option (\<lambda>f. encode_body (R f) w iret buffer st)"
proof -
  have k: "mono_option (\<lambda>f. encode_kind (R f) w ty buffer st)" for ty buffer st
    unfolding encode_kind_def
    by (rule if_mono run_bind_mono prod_mono option.const_mono assms)+
  have c: "mono_option (\<lambda>f. case x of None \<Rightarrow> encode_kind (R f) w ty buffer st1
      | Some enc \<Rightarrow> run_bind (enc buffer st1) (\<lambda>(iret2, buffer2, st2). R f iret2 buffer2 st2))"
    for x :: "item_encoder option" and ty st1
    by (cases x) (auto intro!: run_bind_mono prod_mono option.const_mono assms k)
  show ?thesis
    unfolding encode_body_def
    by (intro run_bind_mono prod_mono if_mono bind_mono c option.const_mono assms)
qed

partial_function (option) encode_loop ::
    "world \<Rightarrow> u32 \<Rightarrow> item_encoder" where
  "encode_loop w iret buffer st =
     encode_body (\<lambda>iret buffer st. encode_loop w iret buffer st) w iret buffer st"

declare encode_loop.simps [code]

subsection \<open>secs_encode\<close>

text \<open>What the caller gets through its pointers, and the code.\<close>

record encoded =
  en_iret :: u32
  en_stream :: u32
  en_function :: u32
  en_device :: u32
  en_wait :: u32
  en_body :: "byte list"
  en_log :: string

definition encode_wait :: "encoded \<Rightarrow> interp \<Rightarrow> (encoded \<times> interp) run option" where
  "encode_wait e st = run_bind (next_token st) (\<lambda>(t, st1).
     if chr_at (fst t) 0 = CHR ''W'' then Some (Done (e\<lparr>en_wait := 1\<rparr>, st1))
     else Some (Done (e\<lparr>en_wait := 0\<rparr>, put_program_token (put_program_token st1))))"

definition encode_device :: "encoded \<Rightarrow> interp \<Rightarrow> (encoded \<times> interp) run option" where
  "encode_device e st = run_bind (next_token st) (\<lambda>(t, st1).
     if scan_num (fst t) = None then Some (Done (e\<lparr>en_iret := 1\<rparr>, st1))
     else do { d \<leftarrow> sscanf_u (fst t) (en_device e); encode_wait (e\<lparr>en_device := d\<rparr>) st1 })"

definition encode_header :: "encoded \<Rightarrow> interp \<Rightarrow> (encoded \<times> interp) run option" where
  "encode_header e st = run_bind (next_token st) (\<lambda>(t, st1). do {
     (ok, s, f) \<leftarrow> scan_SF (fst t) (en_stream e) (en_function e);
     let e1 = e\<lparr>en_stream := s, en_function := f\<rparr>;
     if ok then encode_device e1 st1 else Some (Done (e1\<lparr>en_iret := 1\<rparr>, st1))
   })"

definition log_header :: "encoded \<Rightarrow> string" where
  "log_header e =
     ''S'' @ print_u (en_stream e) @ ''F'' @ print_u (en_function e) @ '' DEVICE_ID='' @ print_u (en_device e) @
     (if en_wait e \<noteq> 0 then '' WAIT_BIT=1'' else '' WAIT_BIT=0'') @ NL"

definition secs_encode :: "world \<Rightarrow> encoded \<Rightarrow> interp \<Rightarrow> (encoded \<times> interp) run option" where
  "secs_encode w e st = run_bind (encode_header (e\<lparr>en_iret := 0\<rparr>) st) (\<lambda>(e1, st1).
     run_bind (encode_loop w (en_iret e1) (en_body e1) st1) (\<lambda>(iret, body, st2). do {
       (_, log) \<leftarrow> make_log body (log_header e1);
       Some (Done (e1\<lparr>en_iret := iret, en_body := body, en_log := log\<rparr>, st2))
     }))"

end
