(* ===== verification/Sml.thy ===== *)
theory Sml
  imports Secs_Encode
begin

section \<open>The values of a message as a program writes them\<close>

text \<open>
  \<open>sml\<close> is the abstract syntax of what stands after \<open>SEND\<close>, \<open>sml_item\<close> the tree of items it means and
  \<open>sml_source\<close> the tokens it is written with. The lemmas show that each value is read back by the
  loop of its format.
\<close>

unbundle bit_operations_syntax

subsection \<open>Lemmas: the values\<close>

text \<open>Tokens that are the text of one value.\<close>

definition value_kind :: "token_types \<Rightarrow> bool" where
  "value_kind ty \<longleftrightarrow> ty \<notin> {TT_GREATER_THAN, TT_LESS_THAN, TT_VARIABLE, TT_MINUS, TT_NULL_TOKEN, TT_FOR, TT_NEXT}"

definition one_value ::
    "bool \<Rightarrow> (string \<Rightarrow> vals \<Rightarrow> (bool \<times> vals) option) \<Rightarrow> token list \<Rightarrow> byte list \<Rightarrow> bool" where
  "one_value neg f ts bs \<longleftrightarrow>
     (\<exists>s ty. ts = [(s, ty)] \<and> value_kind ty \<and> (\<forall>v. f s v = Some (False, put_value bs v))) \<or>
     (\<exists>s ty. neg \<and> ts = [([], TT_MINUS), (s, ty)] \<and> value_kind ty \<and>
        (\<forall>v. f (CHR ''-'' # cstr s) v = Some (False, put_value bs v)))"

lemma put_value_simps [simp]:
  "put_value [] v = v" "put_value bs (put_value as v) = put_value (as @ bs) v"
  by (simp_all add: put_value_def add.assoc)

lemma next_token_plain:
  "reads st (t # ts) \<Longrightarrow> snd t \<noteq> TT_VARIABLE \<Longrightarrow> next_token st = Some (Done (t, advance st t))"
  by (simp add: next_token_def get_plain)

lemma values_step:
  assumes "reads st ((s, ty) # ts)" "value_kind ty" "f s v = Some (False, v1)"
  shows "values_loop neg f v st = values_loop neg f v1 (advance st (s, ty))"
  using assms next_token_plain [OF assms(1)]
  by (subst values_loop.simps) (simp add: values_body_def value_kind_def)

lemma values_minus:
  assumes "reads st (([], TT_MINUS) # (s, ty) # ts)" "value_kind ty" "f (CHR ''-'' # cstr s) v = Some (False, v1)"
  shows "values_loop True f v st = values_loop True f v1 (advance (advance st ([], TT_MINUS)) (s, ty))"
proof -
  have n: "next_token st = Some (Done (([], TT_MINUS), advance st ([], TT_MINUS)))"
    using next_token_plain [OF assms(1)] by simp
  have "next_token (advance st ([], TT_MINUS)) =
      Some (Done ((s, ty), advance (advance st ([], TT_MINUS)) (s, ty)))"
    using next_token_plain [OF reads_Cons(2) [OF assms(1)]] assms(2) by (simp add: value_kind_def)
  then show ?thesis
    using n assms(3) by (subst values_loop.simps) (simp add: values_body_def)
qed

definition GT :: token where
  "GT = ([], TT_GREATER_THAN)"

lemma values_stop:
  assumes "reads st (GT # ts)"
  shows "values_loop neg f v st = Some (Done (v, st\<lparr>st_saved := st_idx st\<rparr>))"
  using next_token_plain [OF assms] reads_put [OF assms]
  by (subst values_loop.simps) (simp add: values_body_def GT_def)

lemma values_loop_values:
  assumes "list_all2 (one_value neg f) tss bss" "reads st (concat tss @ GT # ts)"
  shows "\<exists>k. values_loop neg f v st =
    Some (Done (put_value (concat bss) v, (advances st (concat tss))\<lparr>st_saved := k\<rparr>))"
  using assms
proof (induction tss bss arbitrary: st v rule: list_all2_induct)
  case Nil
  then show ?case using values_stop [of st ts] by auto
next
  case (Cons us tss bs bss)
  have r: "reads (advances st us) (concat tss @ GT # ts)"
    using Cons.prems by (auto intro: reads_append)
  have "values_loop neg f v st = values_loop neg f (put_value bs v) (advances st us)"
    using Cons.hyps(1) Cons.prems values_step values_minus unfolding one_value_def
    by fastforce
  then show ?case using Cons.IH [OF r, of "put_value bs v"] by simp
qed

lemma encode_item_values:
  assumes "list_all2 (one_value neg f) tss bss" "reads st (concat tss @ GT # ts)"
  shows "\<exists>k. encode_item ty neg f buffer st =
    Some (Done (0, buffer @ enc_item (SData ty (concat bss)), (advances st (concat tss))\<lparr>st_saved := k\<rparr>))"
proof -
  obtain k where "values_loop neg f \<lparr>va_iret = 0, va_num = 0, va_data = []\<rparr> st =
      Some (Done (put_value (concat bss) \<lparr>va_iret = 0, va_num = 0, va_data = []\<rparr>,
        (advances st (concat tss))\<lparr>st_saved := k\<rparr>))"
    using values_loop_values [OF assms] by blast
  then show ?thesis
    by (auto simp: encode_item_def put_value_def item_header_def store_data_def split: prod.split)
qed
subsection \<open>A message as a program writes it\<close>

text \<open>A tree of lists and values. Floats are given as the bytes of the message.\<close>

datatype sml =
    SmlL "sml list"
  | SmlA string
  | SmlBO "bool list"
  | SmlB "byte list"
  | SmlU nat "nat list"
  | SmlI nat "int list"
  | SmlF nat "byte list list"

definition be_bytes :: "nat \<Rightarrow> nat \<Rightarrow> byte list" where
  "be_bytes w n = rev (le_bytes w n)"

definition sml_format :: "sml \<Rightarrow> byte" where
  "sml_format m =
     (case m of
        SmlL _ \<Rightarrow> LIST
      | SmlA _ \<Rightarrow> ASCII
      | SmlBO _ \<Rightarrow> BOOLEAN
      | SmlB _ \<Rightarrow> BINARY
      | SmlU w _ \<Rightarrow> if w = 1 then UNSIGNED_1 else if w = 2 then UNSIGNED_2 else if w = 4 then UNSIGNED_4 else UNSIGNED_8
      | SmlI w _ \<Rightarrow> if w = 1 then SIGNED_1 else if w = 2 then SIGNED_2 else if w = 4 then SIGNED_4 else SIGNED_8
      | SmlF w _ \<Rightarrow> if w = 4 then FLOAT_4 else FLOAT_8)"

definition sml_values :: "sml \<Rightarrow> byte list list" where
  "sml_values m =
     (case m of
        SmlL _ \<Rightarrow> []
      | SmlA s \<Rightarrow> [bytes_of s]
      | SmlBO bs \<Rightarrow> map (\<lambda>b. [of_bool b]) bs
      | SmlB bs \<Rightarrow> map (\<lambda>b. [b]) bs
      | SmlU w ns \<Rightarrow> map (be_bytes w) ns
      | SmlI w is \<Rightarrow> map (\<lambda>i. be_bytes w (nat (i mod 2 ^ (8 * w)))) is
      | SmlF w fs \<Rightarrow> fs)"

fun sml_item :: "sml \<Rightarrow> item" where
  "sml_item (SmlL ms) = SList (map sml_item ms)"
| "sml_item m = SData (sml_format m) (concat (sml_values m))"

text \<open>What is in range; \<open>my_atoi\<close> reads numbers of 32 bits, for \<open>I8\<close> too.\<close>

fun sml_ok :: "sml \<Rightarrow> bool" where
  "sml_ok (SmlL ms) = (length ms < 2 ^ 24 \<and> list_all sml_ok ms)"
| "sml_ok (SmlA s) = (length s < 2 ^ 24)"
| "sml_ok (SmlBO bs) = (length bs < 2 ^ 24)"
| "sml_ok (SmlB bs) = (length bs < 2 ^ 24)"
| "sml_ok (SmlU w ns) = (w \<in> {1, 2, 4, 8} \<and> w * length ns < 2 ^ 24 \<and> list_all (\<lambda>n. n < 2 ^ 64) ns)"
| "sml_ok (SmlI w is) = (w \<in> {1, 2, 4, 8} \<and> w * length is < 2 ^ 24 \<and> list_all (\<lambda>i. \<bar>i\<bar> < 2 ^ 31) is)"
| "sml_ok (SmlF w fs) = (w \<in> {4, 8} \<and> w * length fs < 2 ^ 24 \<and> list_all (\<lambda>f. length f = w) fs)"

text \<open>The tokens.\<close>

definition LT :: token where
  "LT = ([], TT_LESS_THAN)"

definition sml_tag :: "sml \<Rightarrow> string" where
  "sml_tag m =
     (case m of
        SmlL _ \<Rightarrow> ''L''
      | SmlA _ \<Rightarrow> ''A''
      | SmlBO _ \<Rightarrow> ''BO''
      | SmlB _ \<Rightarrow> ''B''
      | SmlU w _ \<Rightarrow> ''U'' @ my_utoa w
      | SmlI w _ \<Rightarrow> ''I'' @ my_utoa w
      | SmlF w _ \<Rightarrow> ''F'' @ my_utoa w)"

definition signed_tokens :: "int \<Rightarrow> token list" where
  "signed_tokens i =
     (if i < 0 then [([], TT_MINUS), (my_utoa (nat (- i)), TT_NUMBER)] else [(my_utoa (nat i), TT_NUMBER)])"

definition sml_tokens :: "sml \<Rightarrow> token list list" where
  "sml_tokens m =
     (case m of
        SmlL _ \<Rightarrow> []
      | SmlA s \<Rightarrow> [[(s, TT_STRING)]]
      | SmlBO bs \<Rightarrow> map (\<lambda>b. [(if b then ''TRUE'' else ''FALSE'', TT_IDENTIFIER)]) bs
      | SmlB bs \<Rightarrow> map (\<lambda>b. [(my_btoh b, TT_CONSTANT)]) bs
      | SmlU w ns \<Rightarrow> map (\<lambda>n. [(my_utoa n, TT_NUMBER)]) ns
      | SmlI w is \<Rightarrow> map signed_tokens is
      | SmlF w fs \<Rightarrow> map (\<lambda>f. [([CHR 0x5C, CHR ''x''] @ concat (map my_btoh f), TT_CONSTANT)]) fs)"

text \<open>\<open>sml_source ms ts\<close>: the tokens \<open>ts\<close> are the messages \<open>ms\<close> one after the other, with ends of lines
  between the items. The end of a line is followed by its number, that of a statement is not.\<close>

inductive sml_source :: "sml list \<Rightarrow> token list \<Rightarrow> bool" where
  source_end: "sml_source [] []"
| source_statement: "sml_source ms ts \<Longrightarrow> sml_source ms (([], TT_END_OF_LINE) # ts)"
| source_line: "sml_source ms ts \<Longrightarrow> length (cstr n) < 32 \<Longrightarrow>
    sml_source ms (([], TT_END_OF_LINE) # (n, TT_LINE_NUMBER) # ts)"
| source_data: "sml_source ms ts \<Longrightarrow> \<forall>ls. m \<noteq> SmlL ls \<Longrightarrow>
    sml_source (m # ms) (LT # (sml_tag m, TT_IDENTIFIER) # concat (sml_tokens m) @ GT # ts)"
| source_list: "sml_source ls us \<Longrightarrow> sml_source ms ts \<Longrightarrow>
    sml_source (SmlL ls # ms) (LT # (''L'', TT_IDENTIFIER) # us @ GT # ts)"
subsection \<open>Lemmas: every value is read back\<close>

lemma cstr_my_utoa [simp]: "cstr (my_utoa n) = my_utoa n"
  by simp

lemma my_atou_number: "n < 2 ^ 64 \<Longrightarrow> my_atou (my_utoa n) = (of_nat n, int (length (my_utoa n)))"
  using my_atou_my_utoa [of n 0] by simp

lemma my_utoa_pos [simp]: "my_utoa n \<noteq> []"
  using utoa_loop_hd_digit [of n "[]"] by (simp add: my_utoa_def)

lemma number_loop_one:
  assumes "conv p = Some (bs, int (length p))" "p \<noteq> []"
  shows "number_loop conv p v = Some (put_value bs v)"
proof -
  have "number_loop conv [] (put_value bs v) = Some (put_value bs v)"
    by (subst number_loop.simps) simp
  then show ?thesis using assms by (subst number_loop.simps) simp
qed

lemma number_value_one:
  assumes "conv p = Some (bs, int (length p))" "p \<noteq> []" "cstr s = p"
  shows "number_value conv s v = Some (False, put_value bs v)"
  using number_loop_one [where conv = conv and p = p and bs = bs and v = v] assms by (simp add: number_value_def)

lemma le_bytes_mod: "le_bytes w (n mod 256 ^ w) = le_bytes w n"
proof (induction w arbitrary: n)
  case (Suc w)
  have "n mod (256 * 256 ^ w) div 256 = n div 256 mod 256 ^ w"
    by (simp add: mod_mult2_eq)
  moreover have "n mod (256 * 256 ^ w) mod 256 = n mod 256"
    by (simp add: mod_mult2_eq)
  ultimately show ?case using Suc.IH [of "n div 256"] by simp
qed simp

lemma unat_of_nat_u64: "n < 2 ^ 64 \<Longrightarrow> unat (of_nat n :: u64) = n"
  by (simp add: unat_of_nat take_bit_nat_eq_self)

lemma unsigned_value_number:
  "n < 2 ^ 64 \<Longrightarrow> w \<le> 64 \<Longrightarrow>
   unsigned_value w (my_utoa n) = Some (be_bytes w n, int (length (my_utoa n)))"
  by (simp add: unsigned_value_def my_atou_number swap_rev unat_of_nat_u64 be_bytes_def)

lemma one_byte: "be_bytes 1 n = [of_nat n]"
proof -
  have "(of_nat (n mod 256) :: byte) = of_nat n"
    by (simp add: word_eq_iff_unsigned [where ?'a = nat] unat_of_nat)
  then show ?thesis by (simp add: be_bytes_def)
qed

lemma my_atoi_number:
  assumes "n < 2 ^ 31"
  shows "my_atoi (my_utoa n) = Some (int n, int (length (my_utoa n)))"
    "0 < n \<Longrightarrow> my_atoi (CHR ''-'' # my_utoa n) = Some (- int n, int (length (CHR ''-'' # my_utoa n)))"
proof -
  obtain s where "my_itoa (int n) = Some s" "my_atoi s = Some (int n, int (length s))"
    using my_atoi_my_itoa [of "int n"] assms by auto
  then show "my_atoi (my_utoa n) = Some (int n, int (length (my_utoa n)))" by (simp add: my_itoa_nat)
  obtain s where s: "my_itoa (- int n) = Some s" "my_atoi s = Some (- int n, int (length s))"
    using my_atoi_my_itoa [of "- int n"] assms by auto
  assume "0 < n"
  then have "my_itoa (- int n) = Some (CHR ''-'' # my_utoa n)"
    using assms by (simp add: my_itoa_def my_utoa_def)
  then show "my_atoi (CHR ''-'' # my_utoa n) = Some (- int n, int (length (CHR ''-'' # my_utoa n)))"
    using s by simp
qed

definition signed_text :: "int \<Rightarrow> string" where
  "signed_text i = (if i < 0 then CHR ''-'' # my_utoa (nat (- i)) else my_utoa (nat i))"

lemma my_atoi_signed: "\<bar>i\<bar> < 2 ^ 31 \<Longrightarrow> my_atoi (signed_text i) = Some (i, int (length (signed_text i)))"
  using my_atoi_number [of "nat i"] my_atoi_number [of "nat (- i)"] by (simp add: signed_text_def)

lemma cstr_signed: "signed_text i \<noteq> []" "cstr (signed_text i) = signed_text i"
  by (simp_all add: signed_text_def)

lemma signed_value_number:
  "\<bar>i\<bar> < 2 ^ 31 \<Longrightarrow> w \<le> 64 \<Longrightarrow>
   signed_value w (signed_text i) =
     Some (be_bytes w (nat (i mod 2 ^ (8 * w))), int (length (signed_text i)))"
  by (simp add: signed_value_def my_atoi_signed swap_rev be_bytes_def)

lemma one_value_signed:
  assumes "\<And>v. f (signed_text i) v = Some (False, put_value bs v)"
  shows "one_value True f (signed_tokens i) bs"
  using assms by (auto simp: one_value_def signed_tokens_def signed_text_def value_kind_def)

lemma one_value_single:
  assumes "value_kind ty" "\<And>v. f s v = Some (False, put_value bs v)"
  shows "one_value neg f [(s, ty)] bs"
  using assms by (auto simp: one_value_def)
lemma xdigit_hex:
  assumes "d < 16"
  shows "is_xdigit (hex_chr d)" "xdigit_val (hex_chr d) = d" "\<not> isspace (hex_chr d)"
    "hex_chr d \<noteq> CHR '' ''" "hex_chr d \<noteq> CHR ''-''" "hex_chr d \<noteq> CHR ''+''"
proof -
  have "d = 0 \<or> d = 1 \<or> d = 2 \<or> d = 3 \<or> d = 4 \<or> d = 5 \<or> d = 6 \<or> d = 7 \<or> d = 8 \<or> d = 9 \<or>
      d = 10 \<or> d = 11 \<or> d = 12 \<or> d = 13 \<or> d = 14 \<or> d = 15" using assms by presburger
  then show "is_xdigit (hex_chr d)" "xdigit_val (hex_chr d) = d" "\<not> isspace (hex_chr d)"
    "hex_chr d \<noteq> CHR '' ''" "hex_chr d \<noteq> CHR ''-''" "hex_chr d \<noteq> CHR ''+''"
    by (elim disjE; simp add: hex_chr_def is_xdigit_def xdigit_val_def is_digit_def digit_val_def
      isspace_def tolower_def char_of_def bit_0)+
qed

lemma scan_2x_btoh: "scan_2x (my_btoh b @ r) = Some b"
proof -
  have d: "unat b div 16 < 16" "unat b mod 16 < 16" by (auto intro: less_mult_imp_div_less)
  have "base_value 16 [hex_chr (unat b div 16), hex_chr (unat b mod 16)] = unat b"
    using xdigit_hex [OF d(1)] xdigit_hex [OF d(2)] by (simp add: base_value_def)
  then show ?thesis
    using xdigit_hex [OF d(1)] xdigit_hex [OF d(2)]
    by (simp add: scan_2x_def my_btoh_eq scan_sign_def)
qed

lemma drop_btoh: "drop (2 * i) (concat (map my_btoh f)) = concat (map my_btoh (drop i f))"
proof (induction f arbitrary: i)
  case (Cons b f)
  then show ?case by (cases i) simp_all
qed simp

definition hex_text :: "byte list \<Rightarrow> string" where
  "hex_text f = [CHR 0x5C, CHR ''x''] @ concat (map my_btoh f)"

lemma hex_text_length [simp]: "length (hex_text f) = 2 + 2 * length f"
proof -
  have "length (concat (map my_btoh f)) = 2 * length f" by (induction f) simp_all
  then show ?thesis by (simp add: hex_text_def)
qed

lemma hex_text_drop: "drop (2 * Suc i) (hex_text f) = concat (map my_btoh (drop i f))"
  using drop_btoh [of i f] by (simp add: hex_text_def)

lemma map_filter_Some: "(\<And>x. x \<in> set xs \<Longrightarrow> g x = Some (h x)) \<Longrightarrow> List.map_filter g xs = map h xs"
  by (induction xs) (simp_all add: map_filter_simps)

lemma hex_value_text: "length f = n \<Longrightarrow> hex_value n (hex_text f) v = put_value f v"
proof -
  assume n: "length f = n"
  have "scan_2x (drop (2 * Suc i) (hex_text f)) = Some (f ! i)" if "i < n" for i
  proof -
    have "drop i f = f ! i # drop (Suc i) f" using that n by (simp add: Cons_nth_drop_Suc)
    then show ?thesis by (simp only: hex_text_drop) (simp add: scan_2x_btoh)
  qed
  then have "List.map_filter (\<lambda>i. scan_2x (drop (2 * Suc i) (hex_text f))) [0..<n] = map (\<lambda>i. f ! i) [0..<n]"
    by (intro map_filter_Some) simp
  also have "\<dots> = f" using n map_nth [of f] by simp
  finally show ?thesis using n by (simp add: hex_value_def put_value_def)
qed

lemma hex_text_form: "hex_form (hex_text f)" "cstr (hex_text f) = hex_text f"
proof -
  show "hex_form (hex_text f)" by (simp add: hex_form_def chr_at_def hex_text_def)
  have "no_nul (concat (map my_btoh f))" by (induction f) simp_all
  then show "cstr (hex_text f) = hex_text f" by (simp add: hex_text_def)
qed

lemma hex_text_last: "0 < length f \<Longrightarrow> next_blank (drop (2 * length f) (hex_text f)) = None"
proof -
  assume "0 < length f"
  then obtain k where k: "length f = Suc k" by (cases f) auto
  then have "drop k f = [f ! k]" by (simp add: Cons_nth_drop_Suc [symmetric])
  then have "drop (2 * Suc k) (hex_text f) = my_btoh (f ! k)" by (simp only: hex_text_drop) simp
  moreover have "unat (f ! k) div 16 < 16" "unat (f ! k) mod 16 < 16" by (auto intro: less_mult_imp_div_less)
  ultimately show ?thesis using k xdigit_hex(4) by (simp add: next_blank_def my_btoh_eq)
qed

lemma f4_hex: "length f = 4 \<Longrightarrow> f4_loop (hex_text f) v = Some (put_value f v)"
  using hex_text_last [of f] hex_value_text [of f 4 v] hex_text_form(1) [of f]
  by (subst f4_loop.simps) simp

lemma f8_hex: "length f = 8 \<Longrightarrow> f8_loop (hex_text f) v = Some (put_value f v)"
  using hex_text_last [of f] hex_value_text [of f 8 v] hex_text_form(1) [of f]
  by (subst f8_loop.simps) simp
lemma encode_format_tag:
  "encode_format w (sml_tag (SmlL ms)) = Some (encode_list w)"
  "encode_format w (sml_tag (SmlA s)) = Some encode_ascii"
  "encode_format w (sml_tag (SmlBO bs)) = Some encode_boolean"
  "encode_format w (sml_tag (SmlB ds)) = Some encode_binary"
  "encode_format w (sml_tag (SmlU 1 ns)) = Some encode_u1"
  "encode_format w (sml_tag (SmlU 2 ns)) = Some encode_u2"
  "encode_format w (sml_tag (SmlU 4 ns)) = Some encode_u4"
  "encode_format w (sml_tag (SmlU 8 ns)) = Some encode_u8"
  "encode_format w (sml_tag (SmlI 1 is)) = Some encode_i1"
  "encode_format w (sml_tag (SmlI 2 is)) = Some encode_i2"
  "encode_format w (sml_tag (SmlI 4 is)) = Some encode_i4"
  "encode_format w (sml_tag (SmlI 8 is)) = Some encode_i8"
  "encode_format w (sml_tag (SmlF 4 fs)) = Some encode_f4"
  "encode_format w (sml_tag (SmlF 8 fs)) = Some encode_f8"
  by (simp_all add: sml_tag_def encode_format_def chr_at_def encode_unsigned_def encode_signed_def
      encode_float_def my_utoa_def utoa_loop_unfold digit_chr_def char_of_def bit_0)

lemma list_all2_maps:
  "list_all2 P (map g xs) (map h xs) \<longleftrightarrow> (\<forall>x \<in> set xs. P (g x) (h x))"
  by (induction xs) auto

lemma values_unsigned:
  assumes "list_all (\<lambda>n. n < 2 ^ 64) ns" "\<And>n. n < 2 ^ 64 \<Longrightarrow> conv (my_utoa n) = Some (be_bytes w n, int (length (my_utoa n)))"
  shows "list_all2 (one_value False (number_value conv)) (sml_tokens (SmlU w ns)) (sml_values (SmlU w ns))"
  using assms
  by (auto simp: sml_tokens_def sml_values_def list_all2_maps list_all_iff value_kind_def
      intro!: one_value_single number_value_one)

lemma values_signed:
  assumes "list_all (\<lambda>i. \<bar>i\<bar> < 2 ^ 31) is"
    "\<And>i. \<bar>i\<bar> < 2 ^ 31 \<Longrightarrow> conv (signed_text i) =
      Some (be_bytes w (nat (i mod 2 ^ (8 * w))), int (length (signed_text i)))"
  shows "list_all2 (one_value True (number_value conv)) (sml_tokens (SmlI w is)) (sml_values (SmlI w is))"
  using assms cstr_signed
  by (auto simp: sml_tokens_def sml_values_def list_all2_maps list_all_iff
      intro!: one_value_signed number_value_one)

lemma values_float:
  assumes "list_all (\<lambda>f. length f = w) fs" "\<And>f v. length f = w \<Longrightarrow> g (hex_text f) v = Some (put_value f v)"
  shows "list_all2 (one_value True (\<lambda>s v. map_option (Pair False) (g (cstr s) v)))
    (sml_tokens (SmlF w fs)) (sml_values (SmlF w fs))"
proof -
  have "one_value True (\<lambda>s v. map_option (Pair False) (g (cstr s) v)) [(hex_text f, TT_CONSTANT)] f"
    if "f \<in> set fs" for f
    using assms that hex_text_form(2) [of f]
    by (auto simp: list_all_iff value_kind_def intro!: one_value_single)
  then show ?thesis
    by (simp add: sml_tokens_def sml_values_def hex_text_def list_all2_conv_all_nth)
qed
lemmas number_convs = my_atou_number my_atoi_signed one_byte unsigned_value_number signed_value_number

lemma signed_byte: "[of_int i] = be_bytes 1 (nat (i mod 2 ^ (8 * 1)))"
proof -
  have "(of_nat (nat (i mod 256)) :: byte) = of_int i"
    by (simp add: word_of_int_eq_iff take_bit_eq_mod)
  then show ?thesis unfolding one_byte by simp
qed

lemma ucast_nat: "(ucast (of_nat n :: u64) :: byte) = of_nat n"
  by (simp add: word_eq_iff_unsigned [where ?'a = nat] unsigned_ucast_eq unat_of_nat take_bit_eq_mod mod_mod_cancel)

lemma encode_u1_values:
  "list_all (\<lambda>n. n < 2 ^ 64) ns \<Longrightarrow>
   list_all2 (one_value False (number_value (\<lambda>p. let (u, cnt) = my_atou p in Some ([ucast u], cnt))))
     (sml_tokens (SmlU 1 ns)) (sml_values (SmlU 1 ns))"
  by (rule values_unsigned) (simp_all add: my_atou_number one_byte ucast_nat del: One_nat_def)

lemma encode_i1_values:
  "list_all (\<lambda>i. \<bar>i\<bar> < 2 ^ 31) is \<Longrightarrow>
   list_all2 (one_value True (number_value (\<lambda>p. do { (i, cnt) \<leftarrow> my_atoi p; Some ([of_int i], cnt) })))
     (sml_tokens (SmlI 1 is)) (sml_values (SmlI 1 is))"
  by (rule values_signed) (simp_all only: my_atoi_signed signed_byte, simp)

lemma binary_values:
  "list_all2 (one_value False (number_value (\<lambda>p. let (b, cnt) = my_atobyte p in Some ([b], cnt))))
     (sml_tokens (SmlB ds)) (sml_values (SmlB ds))"
proof -
  let ?conv = "\<lambda>p. let (b, cnt) = my_atobyte p in Some ([b], cnt)"
  have "number_value ?conv (my_btoh d) v = Some (False, put_value [d] v)" for d v
  proof (rule number_value_one)
    show "?conv (my_btoh d) = Some ([d], int (length (my_btoh d)))"
      using my_atobyte_my_btoh [of d "[]"] by simp
    show "my_btoh d \<noteq> []" using my_btoh_length [of d] by (auto simp del: my_btoh_length)
  qed simp
  then show ?thesis
    by (auto simp: sml_tokens_def sml_values_def list_all2_maps value_kind_def intro!: one_value_single)
qed

lemma boolean_values:
  "list_all2 (one_value False boolean_value) (sml_tokens (SmlBO bs)) (sml_values (SmlBO bs))"
  by (auto simp: sml_tokens_def sml_values_def list_all2_maps value_kind_def boolean_value_def chr_at_def
      intro!: one_value_single)

lemma ascii_values:
  "list_all2 (one_value False (\<lambda>s v. Some (False, put_value (bytes_of s) v)))
     (sml_tokens (SmlA s)) (sml_values (SmlA s))"
  by (auto simp: sml_tokens_def sml_values_def value_kind_def intro!: one_value_single)

text \<open>\<open>encodes w m\<close>: the loop that belongs to the format of \<open>m\<close> reads its values. A loop that does
  not stop at a value ends at the closing bracket only.\<close>

definition never_stops :: "(string \<Rightarrow> vals \<Rightarrow> (bool \<times> vals) option) \<Rightarrow> bool" where
  "never_stops f \<longleftrightarrow> (\<forall>s v b v1. f s v = Some (b, v1) \<longrightarrow> \<not> b)"

lemma never_stops [simp]:
  "never_stops (number_value conv)" "never_stops (\<lambda>s v. map_option (Pair False) (g s v))"
  "never_stops (\<lambda>s v. Some (False, h s v))"
  by (auto simp: never_stops_def number_value_def)

definition encodes :: "world \<Rightarrow> sml \<Rightarrow> bool" where
  "encodes w m \<longleftrightarrow> (\<exists>neg f. encode_format w (sml_tag m) = Some (encode_item (sml_format m) neg f) \<and>
     list_all2 (one_value neg f) (sml_tokens m) (sml_values m) \<and>
     ((\<forall>bs. m \<noteq> SmlBO bs) \<longrightarrow> never_stops f))"

lemma encodesI:
  assumes "list_all2 (one_value neg f) (sml_tokens m) (sml_values m)"
    "encode_format w (sml_tag m) = Some (encode_item (sml_format m) neg f)"
    "(\<forall>bs. m \<noteq> SmlBO bs) \<longrightarrow> never_stops f"
  shows "encodes w m"
  unfolding encodes_def using assms by blast

lemma encodes_unsigned:
  assumes "n \<in> {1, 2, 4, 8}" "list_all (\<lambda>n. n < 2 ^ 64) ns"
  shows "encodes w (SmlU n ns)"
proof -
  have v: "list_all2 (one_value False (number_value (unsigned_value n))) (sml_tokens (SmlU n ns)) (sml_values (SmlU n ns))"
    using assms by (intro values_unsigned) (auto simp: unsigned_value_number)
  consider "n = 1" | "n = 2" | "n = 4" | "n = 8" using assms(1) by auto
  then show ?thesis
  proof cases
    case 1
    show ?thesis unfolding 1 using encode_u1_values [OF assms(2)]
      by (rule encodesI) (simp_all add: encode_format_tag encode_u1_def sml_format_def del: One_nat_def)
  qed (use v in \<open>auto intro!: encodesI simp: encode_format_tag encode_u2_def encode_u4_def encode_u8_def sml_format_def\<close>)
qed

lemma encodes_signed:
  assumes "n \<in> {1, 2, 4, 8}" "list_all (\<lambda>i. \<bar>i\<bar> < 2 ^ 31) is"
  shows "encodes w (SmlI n is)"
proof -
  have v: "list_all2 (one_value True (number_value (signed_value n))) (sml_tokens (SmlI n is)) (sml_values (SmlI n is))"
    using assms by (intro values_signed) (auto simp: signed_value_number)
  consider "n = 1" | "n = 2" | "n = 4" | "n = 8" using assms(1) by auto
  then show ?thesis
  proof cases
    case 1
    show ?thesis unfolding 1 using encode_i1_values [OF assms(2)]
      by (rule encodesI) (simp_all add: encode_format_tag encode_i1_def sml_format_def del: One_nat_def)
  qed (use v in \<open>auto intro!: encodesI simp: encode_format_tag encode_i2_def encode_i4_def encode_i8_def sml_format_def\<close>)
qed

lemma encodes_float:
  assumes "n = 4 \<or> n = 8" "list_all (\<lambda>f. length f = n) fs"
  shows "encodes w (SmlF n fs)"
  using assms(1)
proof
  assume n: "n = 4"
  show ?thesis unfolding n using values_float [OF assms(2), of f4_loop] f4_hex n
    by (intro encodesI) (auto simp: encode_format_tag encode_f4_def sml_format_def never_stops_def)
next
  assume n: "n = 8"
  show ?thesis unfolding n using values_float [OF assms(2), of f8_loop] f8_hex n
    by (intro encodesI) (auto simp: encode_format_tag encode_f8_def sml_format_def never_stops_def)
qed

lemma encode_data:
  assumes "sml_ok m" "\<forall>ls. m \<noteq> SmlL ls"
  shows "encodes w m"
proof (cases m)
  case (SmlA s)
  show ?thesis unfolding SmlA
    by (rule encodesI [OF ascii_values]) (simp_all add: encode_format_tag encode_ascii_def sml_format_def)
next
  case (SmlBO bs)
  show ?thesis unfolding SmlBO
    by (rule encodesI [OF boolean_values]) (simp_all add: encode_format_tag encode_boolean_def sml_format_def)
next
  case (SmlB ds)
  show ?thesis unfolding SmlB
    by (rule encodesI [OF binary_values]) (simp_all add: encode_format_tag encode_binary_def sml_format_def)
qed (use assms encodes_unsigned encodes_signed encodes_float in auto)

end
