(* ===== verification/Dispatch.thy ===== *)
theory Dispatch
  imports Text_Msg Server Execute Sml
begin

section \<open>Sending commands and the handler of messages (send.c, handler.c)\<close>

text \<open>
  \<open>SEND\<close> and \<open>SEND_REPLY\<close> read the name of a connection, a client and options from the program and
  call the sender of the protocol; \<open>handler\<close> is called by the server for a connection with input, calls the
  receiver of its protocol and resumes a program: at the label with the name of the
  connection for a primary message, at the index that waits for it for a reply. The senders are a
  parameter of the commands, because each has a state of its own in its theory; the receivers are
  those of \<open>Secs_Msg\<close>, \<open>Hsms\<close> and \<open>Text_Msg\<close>. The main results are that the sender is called with the
  name, the descriptor and the options of the command, and that a message that arrives over TCP
  resumes the program with the fields of the message as variables.
\<close>

subsection \<open>The arguments of SEND (send.c)\<close>

record send_args =
  sa_name :: string
  sa_options :: string
  sa_fd :: int
  sa_client :: int

definition no_args :: send_args where
  "no_args = \<lparr>sa_name = [], sa_options = [], sa_fd = 0, sa_client = 0\<rparr>"

text \<open>\<open>keyword = value\<close>: the value, or \<open>None\<close> under the option when the equals sign is missing.\<close>

definition named_value :: "interp \<Rightarrow> (string option \<times> interp) run option" where
  "named_value st =
     run_bind (Expression.next_token st) (\<lambda>((t, ty), st1).
       if ty = TT_ASSIGN
       then run_bind (Expression.next_token st1) (\<lambda>((v, ty2), st2). Some (Done (Some v, st2)))
       else Some (Done (None, put_program_token st1)))"

text \<open>A name of 128 characters or more is reported with a format that takes its length for the address
  of a text, which is undefined.\<close>

definition send_arg ::
    "fd_slot list \<Rightarrow> string \<Rightarrow> string \<Rightarrow> bool \<Rightarrow> send_args \<Rightarrow> send_args option" where
  "send_arg t key v syntax a =
     (if key = ''client'' then map_option (\<lambda>c. a\<lparr>sa_client := sint c\<rparr>) (atoi v)
      else do {
        require (length (cstr v) < 128);
        Some (if key = ''options'' then a\<lparr>sa_options := cstr v\<rparr>
              else a\<lparr>sa_name := cstr v, sa_fd := (if syntax then sa_fd a else get_fd t v)\<rparr>)
      })"

lemma null_text_next:
  "Expression.next_token st = Some (Done ((t, ty), st1)) \<Longrightarrow> t \<noteq> [] \<Longrightarrow>
    st_idx st < st_idx st1 \<and> st_idx st < length (st_prog st) \<and> st_prog st1 = st_prog st"
  using get_progress [of st t ty st1] null_text [of st t st1] by (auto simp: next_token_def)

lemma next_not_back:
  "Expression.next_token st = Some (Done (t, st1)) \<Longrightarrow> st_idx st \<le> st_idx st1 \<and> st_prog st1 = st_prog st"
  using get_progress [of st "fst t" "snd t" st1] by (auto simp: next_token_def)

lemma named_value_some:
  assumes "named_value st = Some (Done (Some v, st1))"
  shows "st_idx st \<le> st_idx st1 \<and> st_prog st1 = st_prog st"
proof -
  obtain t1 s1 t2 where "Expression.next_token st = Some (Done (t1, s1))" "Expression.next_token s1 = Some (Done (t2, st1))"
    using assms by (fastforce simp: named_value_def run_bind_def split: option.splits run.splits if_splits prod.splits)
  then show ?thesis using next_not_back by (metis order_trans)
qed

function send_args_loop ::
    "fd_slot list \<Rightarrow> string set \<Rightarrow> send_args \<Rightarrow> interp \<Rightarrow> (u32 \<times> send_args \<times> interp) run option" where
  "send_args_loop t keys a st =
     (case Expression.next_token st of
        None \<Rightarrow> None
      | Some Exit \<Rightarrow> Some Exit
      | Some (Done ((key, ty), st1)) \<Rightarrow>
          if key = [] \<or> key \<notin> keys then Some (Done (0, a, put_program_token st1))
          else
            (case named_value st1 of
               None \<Rightarrow> None
             | Some Exit \<Rightarrow> Some Exit
             | Some (Done (None, st2)) \<Rightarrow> Some (Done (1, a, st2))
             | Some (Done (Some v, st2)) \<Rightarrow>
                 (case send_arg t key v (st_syntax st) a of
                    None \<Rightarrow> None
                  | Some a1 \<Rightarrow> send_args_loop t keys a1 st2)))"
  by pat_completeness auto
termination
  by (relation "measure (\<lambda>(_, _, _, st). length (st_prog st) - st_idx st)")
    (auto dest!: null_text_next named_value_some)

declare send_args_loop.simps [simp del]

subsection \<open>The commands\<close>

text \<open>A sender gets the protocol, the name and the descriptor; it works on the table of connections
  (for its options), the interpreter and a state \<open>'s\<close> of its own. The flag says that the program
  waits for the reply.\<close>

type_synonym 's sending = "fd_slot list \<times> interp \<times> 's"

type_synonym 's sender = "protos \<Rightarrow> string \<Rightarrow> int \<Rightarrow> bool \<Rightarrow> 's sending \<Rightarrow> (u32 \<times> bool \<times> 's sending) run option"

type_synonym 's replier = "protos \<Rightarrow> string \<Rightarrow> int \<Rightarrow> 's sending \<Rightarrow> (u32 \<times> 's sending) run option"

text \<open>The code of the arguments is overwritten by that of the sender.\<close>

definition cmd_send :: "'s sender \<Rightarrow> bool \<Rightarrow> 's sending \<Rightarrow> (u32 \<times> bool \<times> 's sending) run option" where
  "cmd_send sender wait s =
     (case s of (t, st, x) \<Rightarrow>
        run_bind (send_args_loop t {''name'', ''client'', ''options''} no_args st) (\<lambda>(iret, a, st1).
          let fd = (if sa_client a \<noteq> 0 then sa_client a else sa_fd a)
          in if st_syntax st1 then Some (Done (iret, wait, t, st1, x))
             else run_bind (Some (get_proto t (sa_name a))) (\<lambda>proto.
               run_bind (override_options t (sa_name a) (sa_options a)) (\<lambda>t1.
                 if proto \<in> {PROTO_COMMANDS, PROTO_UNKNOWN} then Some Exit
                 else sender proto (sa_name a) fd wait (t1, st1, x)))))"

text \<open>In the check of the syntax no protocol is looked up, and the unknown protocol ends the process.\<close>

definition cmd_send_reply :: "'s replier \<Rightarrow> 's sending \<Rightarrow> (u32 \<times> 's sending) run option" where
  "cmd_send_reply replier s =
     (case s of (t, st, x) \<Rightarrow>
        run_bind (send_args_loop t {''name''} no_args st) (\<lambda>(iret, a, st1).
          run_bind (Some (if st_syntax st1 then Done PROTO_UNKNOWN else get_proto t (sa_name a))) (\<lambda>proto.
            if proto \<in> {PROTO_COMMANDS, PROTO_UNKNOWN} then Some Exit
            else replier proto (sa_name a) (get_client_fd t (sa_name a)) (t, st1, x))))"

subsection \<open>The handler of messages (handler.c)\<close>

text \<open>The state of the process around the interpreter: the tables of connections, what happens on
  each descriptor, the open transactions, the system bytes.\<close>

record ctl =
  ct_interp :: interp
  ct_conns :: conns
  ct_link :: "int \<Rightarrow> link"
  ct_trans :: trans_state
  ct_secs :: secs_globals

definition ct_info :: "ctl \<Rightarrow> fd_slot list" where
  "ct_info ct = cn_info (ct_conns ct)"

definition msg_in :: "int \<Rightarrow> ctl \<Rightarrow> msg_state" where
  "msg_in fd ct = \<lparr>ms_link = ct_link ct fd, ms_tmp = tmp_variable_delete_all (st_tmp (ct_interp ct)),
     ms_trans = ct_trans ct, ms_secs = ct_secs ct\<rparr>"

definition msg_out :: "int \<Rightarrow> msg_state \<Rightarrow> ctl \<Rightarrow> ctl" where
  "msg_out fd ms ct = ct\<lparr>ct_link := (ct_link ct)(fd := ms_link ms), ct_interp := (ct_interp ct)\<lparr>st_tmp := ms_tmp ms\<rparr>,
     ct_trans := ms_trans ms, ct_secs := ms_secs ms\<rparr>"

definition link_out :: "int \<Rightarrow> link \<Rightarrow> ctl \<Rightarrow> ctl" where
  "link_out fd k ct = ct\<lparr>ct_link := (ct_link ct)(fd := k)\<rparr>"

type_synonym handled = "(u32 ret \<times> ctl) run option"

definition in_interp :: "(interp \<Rightarrow> command) \<Rightarrow> ctl \<Rightarrow> handled" where
  "in_interp f ct = run_bind (f (ct_interp ct)) (\<lambda>(iret, st). Some (Done (Ret iret, ct\<lparr>ct_interp := st\<rparr>)))"

definition resume_label :: "world \<Rightarrow> int \<Rightarrow> ctl \<Rightarrow> handled" where
  "resume_label w s_fd ct =
     run_bind (Some (get_name (ct_info ct) s_fd)) (\<lambda>name. in_interp (resume_via_program_label w name) ct)"

text \<open>After a SECS or HSMS message: code 2 was the protocol and is no error. The index is
  initialised by a reply only.\<close>

definition after_message :: "world \<Rightarrow> int \<Rightarrow> (u32 \<times> u32 option \<times> bool option) ret \<Rightarrow> ctl \<Rightarrow> handled" where
  "after_message w s_fd x ct =
     (case x of
        Jump j \<Rightarrow> Some (Done (Jump j, ct))
      | Ret (iret, idx, primary) \<Rightarrow>
          if iret \<noteq> 0 then Some (Done (Ret (if iret = 2 then 0 else iret), ct))
          else
            let ct1 = ct\<lparr>ct_interp := (ct_interp ct)\<lparr>st_tmp := tmp_variable_sort (st_tmp (ct_interp ct))\<rparr>\<rparr>
            in if primary = Some True then resume_label w s_fd ct1
               else do { i \<leftarrow> idx; in_interp (resume_via_program_idx w i) ct1 })"

definition arrays_option :: "fd_slot list \<Rightarrow> string \<Rightarrow> bool run option" where
  "arrays_option t name = run_bind (get_option t ''arrays='' name) (\<lambda>v. Some (Done (v \<noteq> ''no'')))"

definition handle_secs :: "world \<Rightarrow> int \<Rightarrow> string \<Rightarrow> int \<Rightarrow> ctl \<Rightarrow> handled" where
  "handle_secs w s_fd name c_fd ct =
     run_bind (arrays_option (ct_info ct) name) (\<lambda>arrays. do {
       (x, ms) \<leftarrow> recv_secs arrays (w_now w (ct_interp ct)) False (msg_in c_fd ct);
       after_message w s_fd x (msg_out c_fd ms ct)
     })"

definition handle_hsms :: "world \<Rightarrow> int \<Rightarrow> string \<Rightarrow> int \<Rightarrow> ctl \<Rightarrow> handled" where
  "handle_hsms w s_fd name c_fd ct =
     run_bind (arrays_option (ct_info ct) name) (\<lambda>arrays.
     run_bind (recv_hsms arrays (w_now w (ct_interp ct)) (msg_in c_fd ct)) (\<lambda>(x, ms).
       after_message w s_fd x (msg_out c_fd ms ct)))"

definition handle_standard :: "world \<Rightarrow> int \<Rightarrow> string \<Rightarrow> int \<Rightarrow> ctl \<Rightarrow> handled" where
  "handle_standard w s_fd name c_fd ct =
     run_bind (recv_standard (ct_info ct) name (ct_link ct c_fd)) (\<lambda>(x, k).
       let ct1 = link_out c_fd k ct
       in case x of
            Jump j \<Rightarrow> Some (Done (Jump j, ct1))
          | Ret (iret, reply) \<Rightarrow>
              run_bind (Some (fd_log1 (ct_info ct) name)) (\<lambda>_.
                if iret \<noteq> 0 then Some (Done (Ret iret, ct1))
                else run_bind (get_option (ct_info ct) ''no_parse='' name) (\<lambda>np.
                  run_bind (make_tmp_variables (st_tmp (ct_interp ct)) (cstr reply) np True) (\<lambda>tmp.
                    resume_label w s_fd (ct1\<lparr>ct_interp := (ct_interp ct)\<lparr>st_tmp := tmp\<rparr>\<rparr>)))))"

text \<open>The text of an XML message is only logged.\<close>

definition handle_xml :: "world \<Rightarrow> int \<Rightarrow> string \<Rightarrow> int \<Rightarrow> ctl \<Rightarrow> handled" where
  "handle_xml w s_fd name c_fd ct =
     run_bind (recv_xml (ct_info ct) name (ct_link ct c_fd)) (\<lambda>(x, k).
       let ct1 = link_out c_fd k ct
       in case x of
            Jump j \<Rightarrow> Some (Done (Jump j, ct1))
          | Ret (iret, reply) \<Rightarrow> if iret \<noteq> 0 then Some (Done (Ret iret, ct1)) else resume_label w s_fd ct1)"

text \<open>\<open>my_read\<close> leaves the client connected when \<open>read\<close> fails, unlike the other reads.\<close>

fun read_fails :: "event list \<Rightarrow> (nat \<Rightarrow> jmp option) \<Rightarrow> bool" where
  "read_fails (Gap # es) tm = read_fails es tm"
| "read_fails (Fail # es) tm = True"
| "read_fails (Fire n # es) tm = (tm n = None \<and> read_fails es tm)"
| "read_fails _ tm = False"

definition my_read :: "nat \<Rightarrow> link \<Rightarrow> byte list rd \<times> link" where
  "my_read n k =
     (case read_link (n - 1) k of
        (Failed, k1) \<Rightarrow> (Failed, if read_fails (lk_in k) (lk_timers k) then k1\<lparr>lk_up := lk_up k\<rparr> else k1)
      | r \<Rightarrow> r)"

lemma my_read_Got:
  assumes "my_read (Suc (Suc n)) k = (Got bs, k1)"
  shows "length (lk_in k1) < length (lk_in k)"
proof -
  obtain x es tm where w: "wait_in (lk_in k) (lk_timers k) = (x, es, tm)" by (metis prod_cases3)
  then have x: "x = Got ()" using assms by (cases x) (auto simp: my_read_def read_link_def split: prod.splits)
  then obtain b es2 where e: "es = Data b # es2" "length es \<le> length (lk_in k)" using wait_in_length [OF w] by auto
  then show ?thesis
    using assms w x take_data_length [of n es2] by (auto simp: my_read_def read_link_def Let_def split: prod.splits)
qed

text \<open>Commands as text: up to 127 bytes a read, until one read has a newline before a NUL. Only the last read is
  kept. \<open>None\<close> in the result stands for a failed read.\<close>

function read_command :: "link \<Rightarrow> (string option + jmp) \<times> link" where
  "read_command k =
     (case my_read 128 k of
        (Failed, k1) \<Rightarrow> (Inl None, k1)
      | (Jumped j, k1) \<Rightarrow> (Inr j, k1)
      | (Got bs, k1) \<Rightarrow>
          if CHR 0x0A \<in> set (cstr (text_of bs)) then (Inl (Some (cstr (text_of bs))), k1)
          else read_command k1)"
  by pat_completeness auto
termination
  by (relation "measure (\<lambda>k. length (lk_in k))") (auto dest!: my_read_Got [of 126, OF sym, simplified])

declare read_command.simps [simp del]

definition SC_PROMPT :: string where
  "SC_PROMPT = ''sc> ''"

text \<open>\<open>commands\<close> is a parameter, from the text of the command to the text of the answer.\<close>

definition handle_commands ::
    "(string \<Rightarrow> interp \<Rightarrow> (string \<times> interp) run option) \<Rightarrow> int \<Rightarrow> ctl \<Rightarrow> handled" where
  "handle_commands commands c_fd ct =
     (case read_command (ct_link ct c_fd) of
        (Inr j, k) \<Rightarrow> Some (Done (Jump j, link_out c_fd k ct))
      | (Inl None, k) \<Rightarrow> Some (Done (Ret 1, link_out c_fd k ct))
      | (Inl (Some reply), k) \<Rightarrow>
          run_bind (commands reply (ct_interp ct)) (\<lambda>(ans, st).
            let p1 = concat (map (mkprint_chr (is_pragma st 1)) ans);
                k1 = snd (my_write (bytes_of p1) k);
                k2 = snd (my_write (bytes_of (SC_PROMPT @ [NUL])) k1)
            in Some (Done (Ret 0, (link_out c_fd k2 ct)\<lparr>ct_interp := st\<rparr>))))"

definition handler ::
    "world \<Rightarrow> (string \<Rightarrow> interp \<Rightarrow> (string \<times> interp) run option) \<Rightarrow> int \<Rightarrow> int \<Rightarrow> ctl \<Rightarrow> handled" where
  "handler w commands s_fd c_fd ct =
     run_bind (Some (get_name (ct_info ct) s_fd)) (\<lambda>name.
     run_bind (Some (get_proto (ct_info ct) name)) (\<lambda>proto.
       let ct1 = ct\<lparr>ct_conns := (ct_conns ct)\<lparr>cn_info := update_fd_info (ct_info ct) name c_fd\<rparr>\<rparr>
       in case proto of
            PROTO_SECS \<Rightarrow> handle_secs w s_fd name c_fd ct1
          | PROTO_HSMS \<Rightarrow> handle_hsms w s_fd name c_fd ct1
          | PROTO_STANDARD \<Rightarrow> handle_standard w s_fd name c_fd ct1
          | PROTO_XML \<Rightarrow> handle_xml w s_fd name c_fd ct1
          | _ \<Rightarrow> handle_commands commands c_fd ct1))"

subsection \<open>Lemmas: the arguments in a program\<close>

type_synonym send_param = "string \<times> token"

definition arg_tokens :: "send_param list \<Rightarrow> token list" where
  "arg_tokens ps = concat (map (\<lambda>(key, v). [(key, TT_IDENTIFIER), ([], TT_ASSIGN), v]) ps)"

fun apply_args :: "fd_slot list \<Rightarrow> bool \<Rightarrow> send_param list \<Rightarrow> send_args \<Rightarrow> send_args option" where
  "apply_args t syntax [] a = Some a"
| "apply_args t syntax ((key, v) # ps) a = (send_arg t key (fst v) syntax a \<bind> apply_args t syntax ps)"

definition params_ok :: "string set \<Rightarrow> send_param list \<Rightarrow> bool" where
  "params_ok keys ps \<longleftrightarrow> (\<forall>(key, v) \<in> set ps. key \<in> keys \<and> snd v \<noteq> TT_VARIABLE)"

text \<open>What follows the arguments: no keyword, and nothing that has to be evaluated.\<close>

definition no_param :: "string set \<Rightarrow> token list \<Rightarrow> bool" where
  "no_param keys rest \<longleftrightarrow> (case rest of [] \<Rightarrow> True | u # us \<Rightarrow> fst u \<notin> keys \<and> snd u \<noteq> TT_VARIABLE)"

lemma advance_syntax [simp]: "st_syntax (advance st u) = st_syntax st" "st_syntax (advances st us) = st_syntax st"
proof -
  show a: "st_syntax (advance st u) = st_syntax st" for st u by (simp add: advance_def)
  show "st_syntax (advances st us) = st_syntax st" by (induction us arbitrary: st) (simp_all add: a)
qed

lemma named_value_reads:
  assumes "reads st (([], TT_ASSIGN) # v # us)" "snd v \<noteq> TT_VARIABLE"
  shows "named_value st = Some (Done (Some (fst v), advances st [([], TT_ASSIGN), v]))"
proof -
  have "reads (advance st ([], TT_ASSIGN)) (v # us)" using assms(1) reads_Cons(2) by blast
  then have "Expression.next_token (advance st ([], TT_ASSIGN)) = Some (Done (v, advance (advance st ([], TT_ASSIGN)) v))"
    using assms(2) by (rule next_token_plain)
  moreover have "Expression.next_token st = Some (Done (([], TT_ASSIGN), advance st ([], TT_ASSIGN)))"
    using assms(1) by (rule next_token_plain) simp
  ultimately show ?thesis by (cases v) (simp add: named_value_def)
qed

lemma send_args_reads:
  assumes "[] \<notin> keys" "params_ok keys ps" "no_param keys rest" "reads st (arg_tokens ps @ rest)"
    "apply_args t (st_syntax st) ps a = Some b"
  shows "\<exists>sv. send_args_loop t keys a st = Some (Done (0, b, (advances st (arg_tokens ps))\<lparr>st_saved := sv\<rparr>))"
  using assms(2-5)
proof (induction ps arbitrary: a st)
  case Nil
  then have r: "reads st rest" "b = a" by (simp_all add: arg_tokens_def)
  show ?case
  proof (cases rest)
    case c: Nil
    then show ?thesis using r next_null [of st] by (subst send_args_loop.simps) (auto simp: arg_tokens_def put_program_token_def)
  next
    case (Cons u us)
    then have "Expression.next_token st = Some (Done (u, advance st u))"
      using r(1) Nil.prems(2) by (intro next_token_plain) (auto simp: no_param_def)
    then show ?thesis using r(2) Cons Nil.prems(2)
      by (subst send_args_loop.simps) (cases u; auto simp: arg_tokens_def put_program_token_def advance_def no_param_def)
  qed
next
  case (Cons p ps)
  obtain key v where p: "p = (key, v)" by (cases p)
  have k: "key \<in> keys" "snd v \<noteq> TT_VARIABLE" "params_ok keys ps" using Cons.prems(1) p by (auto simp: params_ok_def)
  let ?t = "[(key, TT_IDENTIFIER), ([], TT_ASSIGN), v]"
  have e: "arg_tokens (p # ps) = ?t @ arg_tokens ps" by (simp add: arg_tokens_def p)
  obtain a1 where a1: "send_arg t key (fst v) (st_syntax st) a = Some a1" "apply_args t (st_syntax st) ps a1 = Some b"
    using Cons.prems(4) p by auto
  have r: "reads st ((key, TT_IDENTIFIER) # ([], TT_ASSIGN) # v # arg_tokens ps @ rest)" using Cons.prems(3) e by simp
  have n: "Expression.next_token st = Some (Done ((key, TT_IDENTIFIER), advance st (key, TT_IDENTIFIER)))"
    using r by (rule next_token_plain) simp
  have "reads (advance st (key, TT_IDENTIFIER)) (([], TT_ASSIGN) # v # arg_tokens ps @ rest)" using r reads_Cons(2) by blast
  then have "named_value (advance st (key, TT_IDENTIFIER)) = Some (Done (Some (fst v), advances st ?t))"
    using named_value_reads k(2) by simp
  then have s: "send_args_loop t keys a st = send_args_loop t keys a1 (advances st ?t)"
    using n a1(1) k(1) assms(1) by (subst send_args_loop.simps) auto
  have "reads (advances st ?t) (arg_tokens ps @ rest)" using Cons.prems(3) unfolding e by (intro reads_append) simp
  then show ?case
    using Cons.IH [OF k(3) Cons.prems(2), of "advances st ?t" a1] a1(2) unfolding s e by simp
qed

lemma get_name_update:
  assumes "fds_ok t" "get_name t fd = Done name" "name \<noteq> []" "get_fd t name = fd"
  shows "get_name (update_fd_info t name c) fd = Done name"
proof -
  obtain i where i: "find_slot (\<lambda>s. fi_fd s = fd \<or> fi_client_fd s = fd) t = Some i" "fi_name (t ! i) = name"
    using assms(2) by (auto simp: get_name_def split: option.splits)
  then have n: "i < length t" "\<forall>j < i. fi_fd (t ! j) \<noteq> fd \<and> fi_client_fd (t ! j) \<noteq> fd" by (auto simp: find_slot_Some)
  have "no_nul name" using fds_slot [OF assms(1) n(1)] i(2) by (simp add: slot_ok_def)
  then have s: "name_slot t name = Some i" using name_slot_unique [OF assms(1) n(1)] i(2) assms(3) by simp
  then have f: "fi_fd (t ! i) = fd" using assms(4) by (simp add: get_fd_def)
  have "find_slot (\<lambda>s. fi_fd s = fd \<or> fi_client_fd s = fd) (update_fd_info t name c) = Some i"
    unfolding find_slot_Some update_fd_info_def s using n f by (auto simp: nth_list_update)
  then show ?thesis using i(2) n(1) s by (simp add: get_name_def update_fd_info_def)
qed

lemma get_option_update:
  assumes "fds_ok t"
  shows "get_option (update_fd_info t name c) opt n = get_option t opt n"
proof (cases "name_slot t name")
  case None then show ?thesis by (simp add: update_fd_info_def)
next
  case (Some i)
  have e: "find_slot P (t[i := s]) = find_slot P t" if "P s = P (t ! i)" "i < length t" for P s
    using that
  proof (induction t arbitrary: i)
    case (Cons u t) then show ?case by (cases i) auto
  qed simp
  have i: "i < length t" using name_slot_Some [OF Some] by simp
  have "name_slot (t[i := (t ! i)\<lparr>fi_client_fd := c\<rparr>]) n = name_slot t n"
    unfolding name_slot_def by (rule e) (simp_all add: i)
  moreover have "fi_options (t[i := (t ! i)\<lparr>fi_client_fd := c\<rparr>] ! k) = fi_options (t ! k)"
    "fi_override (t[i := (t ! i)\<lparr>fi_client_fd := c\<rparr>] ! k) = fi_override (t ! k)" for k
    using i by (cases "k = i"; simp)+
  ultimately show ?thesis using Some by (simp add: get_option_def update_fd_info_def cong: if_cong split: option.splits)
qed

subsection \<open>Properties\<close>



text \<open>The check of the syntax of a program ends the process at its first \<open>SEND_REPLY\<close>, whatever its
  arguments are: the protocol is not looked up then, and the unknown one is fatal.\<close>

theorem send_reply_ends_syntax_check:
  assumes "reads st (arg_tokens ps @ rest)" "params_ok {''name''} ps" "no_param {''name''} rest" "st_syntax st"
    "\<forall>(key, v) \<in> set ps. length (cstr (fst v)) < 128"
  shows "cmd_send_reply replier (t, st, x) = Some Exit"
proof -
  have "\<exists>a. apply_args t True ps b = Some a" for b
    using assms(2,5)
  proof (induction ps arbitrary: b)
    case (Cons p ps)
    then show ?case by (cases p) (auto simp: send_arg_def params_ok_def require_bind_True)
  qed simp
  then obtain a where "apply_args t True ps no_args = Some a" by blast
  then show ?thesis
    using send_args_reads [OF _ assms(2,3,1), of t no_args a] assms(4) by (auto simp: cmd_send_reply_def)
qed

theorem send_reply_ends_syntax_check_witness:
  "cmd_send_reply (\<lambda>_ _ _ _. None) (line_fds, (fresh_interp (tokens_bytes (arg_tokens [(''name'', ''host'', TT_STRING)] @
     [(''PONG'', TT_STRING)])))\<lparr>st_syntax := True\<rparr>, ()) = Some Exit"
proof -
  let ?ps = "[(''name'', ''host'', TT_STRING)]" and ?rest = "[(''PONG'', TT_STRING)]"
  have ok: "list_all token_ok (arg_tokens ?ps @ ?rest)"
    by (simp add: arg_tokens_def token_ok_def text_kinds_def nul_iff)
  have "reads ((fresh_interp (tokens_bytes (arg_tokens ?ps @ ?rest)))\<lparr>st_syntax := True\<rparr>) (arg_tokens ?ps @ ?rest)"
    using reads_fresh [OF ok] by (simp add: reads_def)
  then show ?thesis
    by (rule send_reply_ends_syntax_check) (simp_all add: params_ok_def no_param_def cstr_def)
qed

text \<open>C13. A primary message of fields that arrives over TCP, however it is split: \<open>handler\<close> stores the client and the
  system bytes for the reply, and resumes the program at the label with the name of the connection, with a table of
  temporary variables from which the program reads the name of the message and each of its fields.\<close>

theorem handler_resumes_program:
  assumes "fds_ok (ct_info ct)" "get_name (ct_info ct) s_fd = Done name" "name \<noteq> []" "get_fd (ct_info ct) name = s_fd"
    and "get_proto (ct_info ct) name = Done PROTO_HSMS" "get_option (ct_info ct) ''arrays='' name = Some (Done [])"
    and "hsms_header msg sysb = Some h" "arrives (lk_in (ct_link ct c_fd)) = Some (hsms_frame h (enc_item (SList (map field_item fds))))"
    and "lk_timers (ct_link ct c_fd) 8 = None"
    and "list_all field_ok fds" "fds \<noteq> []" "length fds < 2 ^ 24" "length (enc_item (SList (map field_item fds))) + 10 < 2 ^ 32"
    and "unat (sm_stream msg) < 128" "unat (sm_function msg) < 256" "odd (unat (sm_function msg))"
  defines "prefix \<equiv> ''S'' @ my_utoa (unat (sm_stream msg)) @ ''F'' @ my_utoa (unat (sm_function msg))"
  shows "\<exists>ct1 tmp. handler w commands s_fd c_fd ct = in_interp (resume_via_program_label w name) ct1 \<and>
    ct_interp ct1 = (ct_interp ct)\<lparr>st_tmp := tmp\<rparr> \<and> secs_get_system_bytes (ct_secs ct1) = sysb \<and>
    ct_info ct1 = update_fd_info (ct_info ct) name c_fd \<and>
    tmp_variable_get tmp ''SXFY'' = Some (0, prefix) \<and>
    tmp_variable_get tmp (prefix @ ''.1'') = Some (0, my_utoa (length fds)) \<and>
    (\<forall>i < length fds. tmp_variable_get tmp (field_name prefix (Suc i)) = Some (0, field_text (fds ! i)))"
proof -
  have h: "length h = 10" "h ! 5 = 0" "header_sysb h = Some sysb" "odd (unat (h ! 3))" "msg_prefix h = prefix"
    using hsms_header_ok [OF assms(14,15), of sysb] assms(7,16) unfolding prefix_def by auto
  let ?info = "update_fd_info (ct_info ct) name c_fd"
  let ?ct = "ct\<lparr>ct_conns := (ct_conns ct)\<lparr>cn_info := ?info\<rparr>\<rparr>"
  have f: "ct_info ?ct = ?info" "ct_link ?ct = ct_link ct" "ct_interp ?ct = ct_interp ct" by (simp_all add: ct_info_def)
  have n: "get_name ?info s_fd = Done name" by (rule get_name_update [OF assms(1-4)])
  have a: "arrays_option ?info name = Some (Done True)"
    using assms(6) get_option_update [OF assms(1)] by (simp add: arrays_option_def)
  have "tt_vars (ms_tmp (msg_in c_fd ?ct)) = []" by (simp add: msg_in_def tmp_variable_delete_all_def)
  moreover have "ms_link (msg_in c_fd ?ct) = ct_link ct c_fd" by (simp add: msg_in_def)
  ultimately obtain es tmp where r: "recv_hsms True (w_now w (ct_interp ct)) (msg_in c_fd ?ct) = Some (Done (Ret (0, None, Some True),
      (msg_in c_fd ?ct)\<lparr>ms_link := (ms_link (msg_in c_fd ?ct))\<lparr>lk_in := es\<rparr>, ms_tmp := tmp,
        ms_secs := secs_set_system_bytes (ms_secs (msg_in c_fd ?ct)) sysb\<rparr>))"
    "tmp_variable_get (tmp_variable_sort tmp) ''SXFY'' = Some (0, prefix)"
    "tmp_variable_get (tmp_variable_sort tmp) (prefix @ ''.1'') = Some (0, my_utoa (length fds))"
    "\<forall>i < length fds. tmp_variable_get (tmp_variable_sort tmp) (field_name prefix (Suc i)) = Some (0, field_text (fds ! i))"
    using recv_hsms_record [OF assms(10-12) refl assms(13) h, of "msg_in c_fd ?ct" "w_now w (ct_interp ct)"] assms(8,9) by auto
  define ct1 where "ct1 = ?ct\<lparr>ct_link := (ct_link ct)(c_fd := (ct_link ct c_fd)\<lparr>lk_in := es\<rparr>),
    ct_secs := secs_set_system_bytes (ct_secs ct) sysb, ct_interp := (ct_interp ct)\<lparr>st_tmp := tmp_variable_sort tmp\<rparr>\<rparr>"
  have "handler w commands s_fd c_fd ct = handle_hsms w s_fd name c_fd ?ct"
    using assms(2,5) by (simp add: handler_def Let_def)
  also have "\<dots> = resume_label w s_fd ct1"
    using a r(1) f by (simp add: handle_hsms_def after_message_def msg_out_def msg_in_def ct1_def Let_def)
  also have "\<dots> = in_interp (resume_via_program_label w name) ct1"
    using n by (simp add: resume_label_def ct1_def ct_info_def)
  finally have e: "handler w commands s_fd c_fd ct = in_interp (resume_via_program_label w name) ct1" .
  have "ct_interp ct1 = (ct_interp ct)\<lparr>st_tmp := tmp_variable_sort tmp\<rparr>" "ct_info ct1 = ?info"
    "secs_get_system_bytes (ct_secs ct1) = sysb"
    by (simp_all add: ct1_def ct_info_def secs_get_system_bytes_def secs_set_system_bytes_def)
  then show ?thesis using e r(2-4) by blast
qed

text \<open>An example: an open HSMS connection with a client, and what the client has sent.\<close>

definition hsms_fds :: "fd_slot list" where
  "hsms_fds = blank_slot\<lparr>fi_name := ''eq'', fi_fd := 5, fi_proto := PROTO_HSMS, fi_logging := 1\<rparr> # replicate 99 blank_slot"

definition example_ctl :: "byte list \<Rightarrow> ctl" where
  "example_ctl bs = \<lparr>ct_interp = fresh_interp [], ct_conns = \<lparr>cn_info = hsms_fds, cn_server = one_client\<rparr>,
     ct_link = (\<lambda>fd. example_link (Gap # map Data bs)), ct_trans = ms_trans (example_state []), ct_secs = ms_secs (example_state [])\<rparr>"

definition idle_world :: world where
  "idle_world = \<lparr>w_host = (\<lambda>_ _ _ _. None), w_device = (\<lambda>_ _. None), w_now = (\<lambda>_. 0), w_enum = 1\<rparr>"

lemma hsms_fds_ok: "fds_ok hsms_fds"
  by (simp add: fds_ok_def hsms_fds_def blank_slot_def slot_ok_def MAX_FDS_def list_all_iff nth_Cons split: nat.splits)

theorem handler_resumes_program_witness:
  "\<exists>h ct1. hsms_header example_msg 9 = Some h \<and>
     handler idle_world (\<lambda>_ _. None) 5 7 (example_ctl (hsms_frame h (enc_item (SList (map field_item [FText ''LOT'']))))) =
       in_interp (resume_via_program_label idle_world ''eq'') ct1 \<and>
     secs_get_system_bytes (ct_secs ct1) = 9 \<and>
     tmp_variable_get (st_tmp (ct_interp ct1)) (field_name (''S'' @ my_utoa 1 @ ''F'' @ my_utoa 1) 1) = Some (0, ''LOT'')"
proof -
  let ?fds = "[FText ''LOT'']"
  obtain h where h: "hsms_header example_msg 9 = Some h"
    using hsms_header_ok [of example_msg 9] by (auto simp: example_msg_def)
  let ?body = "enc_item (SList (map field_item ?fds))"
  let ?ct = "example_ctl (hsms_frame h ?body)"
  have l: "length ?body \<le> 244"
    by (simp add: item_header_def store_data_def set_size_bytes_def bytes_of_def)
  have "get_opt (replicate 128 NUL) ''arrays='' = Some (Done [])"
    using get_opt_array [of "replicate 128 NUL" "[]" "''arrays''"] by (simp add: opts_ok_def ends_no_key_def cstr_def opt_key_def)
  then have i: "ct_info ?ct = hsms_fds" "get_name hsms_fds 5 = Done ''eq''" "get_fd hsms_fds ''eq'' = 5"
      "get_proto hsms_fds ''eq'' = Done PROTO_HSMS" "get_option hsms_fds ''arrays='' ''eq'' = Some (Done [])"
    by (simp_all add: ct_info_def example_ctl_def get_name_def get_fd_def get_proto_def get_option_def hsms_fds_def
        name_slot_def cstr_def blank_slot_def)
  have "arrives (lk_in (ct_link ?ct 7)) = Some (hsms_frame h ?body)" "lk_timers (ct_link ?ct 7) 8 = None"
    by (simp_all add: example_ctl_def example_link_def del: enc_item.simps)
  note r = handler_resumes_program [of ?ct 5 "''eq''" example_msg 9 h 7 ?fds idle_world "\<lambda>_ _. None", unfolded i(1), OF hsms_fds_ok i(2) _ i(3-5) h this]
  have "\<exists>ct1 tmp. handler idle_world (\<lambda>_ _. None) 5 7 ?ct = in_interp (resume_via_program_label idle_world ''eq'') ct1 \<and>
      ct_interp ct1 = (ct_interp ?ct)\<lparr>st_tmp := tmp\<rparr> \<and> secs_get_system_bytes (ct_secs ct1) = 9 \<and>
      tmp_variable_get tmp (field_name (''S'' @ my_utoa 1 @ ''F'' @ my_utoa 1) 1) = Some (0, ''LOT'')"
    using r l by (auto simp: example_msg_def simp del: enc_item.simps field_item.simps)
  then show ?thesis using h by auto
qed

end
