(* ===== verification/Sml_Message.thy ===== *)
theory Sml_Message
  imports Sml
begin

section \<open>The text of a program is encoded into the message it stands for\<close>

text \<open>
  \<open>secs_encode\<close> makes of the tokens of a message the encoding of the tree they stand for: the number
  of elements of a list is the number counted ahead, the loop goes on after each item, and the log
  is written. The last part puts the encoder and the decoder of \<open>Secs_Decode\<close> together, and shows two
  texts the encoder does not handle.
\<close>

unbundle bit_operations_syntax

subsection \<open>Lemmas: lists\<close>

definition quiet_kind :: "token_types \<Rightarrow> bool" where
  "quiet_kind ty \<longleftrightarrow> ty \<notin> {TT_GREATER_THAN, TT_LESS_THAN, TT_VARIABLE, TT_NULL_TOKEN, TT_FOR, TT_NEXT}"

lemma elements_quiet:
  "reads st (ts @ us) \<Longrightarrow> list_all (\<lambda>t. quiet_kind (snd t)) ts \<Longrightarrow>
   elements_loop w nest cnt st = elements_loop w nest cnt (advances st ts)"
proof (induction ts arbitrary: st)
  case (Cons t ts)
  have "elements_loop w nest cnt st = elements_loop w nest cnt (advance st t)"
    using next_token_plain [of st t "ts @ us"] Cons.prems
    by (subst elements_loop.simps) (simp add: elements_body_def quiet_kind_def)
  then show ?case using Cons reads_Cons(2) [of st t "ts @ us"] by simp
qed simp

lemma elements_open:
  "reads st (LT # ts) \<Longrightarrow>
   elements_loop w nest cnt st = elements_loop w (nest + 1) (if nest = 0 then cnt + 1 else cnt) (advance st LT)"
  using next_token_plain [of st LT ts] by (subst elements_loop.simps) (simp add: elements_body_def LT_def)

lemma elements_close:
  "reads st (GT # ts) \<Longrightarrow>
   elements_loop w nest cnt st =
     (if nest = 0 then Some (Done (cnt, advance st GT)) else elements_loop w (nest - 1) cnt (advance st GT))"
  using next_token_plain [of st GT ts] by (subst elements_loop.simps) (simp add: elements_body_def GT_def)

lemma value_tokens_quiet: "list_all (\<lambda>t. quiet_kind (snd t)) (concat (sml_tokens m))"
  by (cases m) (auto simp: sml_tokens_def quiet_kind_def signed_tokens_def list_all_iff)

text \<open>A whole item at the depth \<open>nest\<close> counts once, if the depth is 0.\<close>

lemma elements_item:
  assumes "reads st (LT # (s, TT_IDENTIFIER) # us @ GT # ts)" "unat nest < 2 ^ 32 - 1"
    "\<And>cnt st1. reads st1 (us @ GT # ts) \<Longrightarrow>
       elements_loop w (nest + 1) cnt st1 = elements_loop w (nest + 1) cnt (advances st1 us)"
  shows "elements_loop w nest cnt st =
    elements_loop w nest (if nest = 0 then cnt + 1 else cnt)
      (advances st (LT # (s, TT_IDENTIFIER) # us @ [GT]))"
proof -
  have n: "nest + 1 \<noteq> 0" using assms(2) by (auto simp: unat_eq_zero [symmetric] unat_word_ariths)
  note r1 = reads_Cons(2) [OF assms(1)]
  note r2 = reads_Cons(2) [OF r1]
  note r3 = reads_append [OF r2]
  show ?thesis
    using elements_open [OF assms(1)] elements_quiet [of _ "[(s, TT_IDENTIFIER)]"] r1
      assms(3) [OF r2] elements_close [OF r3] n
    by (simp add: quiet_kind_def)
qed

lemma elements_source:
  "sml_source ms ts \<Longrightarrow> reads st (ts @ us) \<Longrightarrow> \<forall>m \<in> set ms. unat nest + depth (sml_item m) < 2 ^ 32 - 1 \<Longrightarrow>
   elements_loop w nest cnt st =
     elements_loop w nest (if nest = 0 then cnt + of_nat (length ms) else cnt) (advances st ts)"
proof (induction ms ts arbitrary: st us nest cnt rule: sml_source.induct)
  case (source_statement ms ts)
  then show ?case
    using elements_quiet [of st "[([], TT_END_OF_LINE)]"] reads_Cons(2) [of st "([], TT_END_OF_LINE)" "ts @ us"]
    by (simp add: quiet_kind_def)
next
  case (source_line ms ts n)
  let ?l = "[([], TT_END_OF_LINE), (n, TT_LINE_NUMBER)]"
  have "reads (advances st ?l) (ts @ us)" using source_line.prems(1) by (intro reads_append) simp
  then show ?case
    using source_line elements_quiet [of st ?l "ts @ us"] by (simp add: quiet_kind_def)
next
  case (source_data ms ts m)
  let ?t = "LT # (sml_tag m, TT_IDENTIFIER) # concat (sml_tokens m) @ [GT]"
  have "reads st (LT # (sml_tag m, TT_IDENTIFIER) # concat (sml_tokens m) @ GT # ts @ us)"
    using source_data.prems(1) by simp
  then have "elements_loop w nest cnt st =
      elements_loop w nest (if nest = 0 then cnt + 1 else cnt) (advances st ?t)"
    using source_data.prems(2) value_tokens_quiet elements_quiet by (intro elements_item) auto
  moreover have "reads (advances st ?t) (ts @ us)" using source_data.prems(1) by (intro reads_append) simp
  ultimately show ?case using source_data.IH source_data.prems(2) by (simp add: add.assoc)
next
  case (source_list ls ls_ts ms ts)
  let ?t = "LT # (''L'', TT_IDENTIFIER) # ls_ts @ [GT]"
  have d: "\<forall>m \<in> set ls. unat (nest + 1) + depth (sml_item m) < 2 ^ 32 - 1"
    "unat nest < 2 ^ 32 - 1" "nest + 1 \<noteq> 0"
  proof -
    have s: "unat nest + depth (SList (map sml_item ls)) < 2 ^ 32 - 1" using source_list.prems(2) by simp
    then show n: "unat nest < 2 ^ 32 - 1" by simp
    then have u: "unat (nest + 1) = unat nest + 1" by (simp add: unat_word_ariths)
    then show "nest + 1 \<noteq> 0" by (auto simp: unat_eq_zero [symmetric])
    show "\<forall>m \<in> set ls. unat (nest + 1) + depth (sml_item m) < 2 ^ 32 - 1"
    proof
      fix m assume "m \<in> set ls"
      then have "depth (sml_item m) < depth (SList (map sml_item ls))" by (intro depth_mem) simp
      then show "unat (nest + 1) + depth (sml_item m) < 2 ^ 32 - 1" using s u by linarith
    qed
  qed
  have "reads st (LT # (''L'', TT_IDENTIFIER) # ls_ts @ GT # ts @ us)"
    using source_list.prems(1) by simp
  then have "elements_loop w nest cnt st =
      elements_loop w nest (if nest = 0 then cnt + 1 else cnt) (advances st ?t)"
  proof (rule elements_item [OF _ d(2)])
    fix cnt st1 assume "reads st1 (ls_ts @ GT # ts @ us)"
    then show "elements_loop w (nest + 1) cnt st1 = elements_loop w (nest + 1) cnt (advances st1 ls_ts)"
      using source_list.IH(1) [OF _ d(1)] d(3) by simp
  qed
  moreover have "reads (advances st ?t) (ts @ us)" using source_list.prems(1) by (intro reads_append) simp
  ultimately show ?case using source_list.IH(2) source_list.prems(2) by (simp add: add.assoc)
qed simp
subsection \<open>Lemmas: the loop over the items\<close>

text \<open>The index and the line have moved, nothing else.\<close>

definition moved :: "interp \<Rightarrow> interp \<Rightarrow> bool" where
  "moved st st1 \<longleftrightarrow>
     st1\<lparr>st_idx := 0, st_saved := 0, st_line := []\<rparr> = st\<lparr>st_idx := 0, st_saved := 0, st_line := []\<rparr>"

lemma moved_refl: "moved st st"
  by (simp add: moved_def)

lemma moved_trans: "moved st st1 \<Longrightarrow> moved st1 st2 \<Longrightarrow> moved st st2"
  by (simp add: moved_def)

lemma moved_update: "moved st st1 \<Longrightarrow> moved st (st1\<lparr>st_saved := k\<rparr>)" "moved st st1 \<Longrightarrow> moved st (st1\<lparr>st_line := l\<rparr>)"
  by (simp_all add: moved_def)

lemma moved_advance: "moved st st1 \<Longrightarrow> moved st (advance st1 t)"
  by (simp add: moved_def advance_def)

lemma moved_advances: "moved st st1 \<Longrightarrow> moved st (advances st1 ts)"
  by (induction ts arbitrary: st1) (simp_all add: moved_advance)

lemma moved_fields:
  "moved st st1 \<Longrightarrow> st_prog st1 = st_prog st"
  "moved st st1 \<Longrightarrow> st_vars st1 = st_vars st"
  by (auto simp: moved_def dest: arg_cong [where f = st_prog] arg_cong [where f = st_vars])

lemma reads_update [simp]:
  "reads (st\<lparr>st_saved := k\<rparr>) ts = reads st ts" "reads (st\<lparr>st_line := l\<rparr>) ts = reads st ts"
  by (simp_all add: reads_def)

lemma encode_skip:
  assumes "reads st (t # ts)" "snd t \<in> {TT_END_OF_LINE, TT_GREATER_THAN, TT_LESS_THAN}"
  shows "encode_loop w 0 buffer st = encode_loop w 0 buffer (advance st t)"
  using next_token_plain [OF assms(1)] assms(2)
  by (subst encode_loop.simps) (auto simp: encode_body_def)

lemma encode_line:
  assumes "reads st ((n, TT_LINE_NUMBER) # ts)" "length (cstr n) < 32"
  shows "encode_loop w 0 buffer st = encode_loop w 0 buffer ((advance st (n, TT_LINE_NUMBER))\<lparr>st_line := cstr n\<rparr>)"
  using next_token_plain [OF assms(1)] assms(2)
  by (subst encode_loop.simps) (simp add: encode_body_def set_line_number_def)

lemma encode_tag:
  assumes "reads st ((s, TT_IDENTIFIER) # ts)" "encode_format w s = Some enc"
    "enc buffer (advance st (s, TT_IDENTIFIER)) = Some (Done (0, buffer2, st2))"
  shows "encode_loop w 0 buffer st = encode_loop w 0 buffer2 st2"
  using next_token_plain [OF assms(1)] assms(2,3)
  by (subst encode_loop.simps) (simp add: encode_body_def)

text \<open>\<open>encodes_to\<close>: one part of the loop.\<close>

definition encodes_to :: "world \<Rightarrow> byte list \<Rightarrow> interp \<Rightarrow> byte list \<Rightarrow> token list \<Rightarrow> bool" where
  "encodes_to w buffer st bs us \<longleftrightarrow> (\<exists>st1. encode_loop w 0 buffer st = encode_loop w 0 (buffer @ bs) st1 \<and>
     reads st1 us \<and> moved st st1)"

lemma encodes_to_after:
  assumes "encode_loop w 0 buffer st = encode_loop w 0 (buffer @ as) st1" "moved st st1"
    "encodes_to w (buffer @ as) st1 bs us"
  shows "encodes_to w buffer st (as @ bs) us"
  using assms moved_trans unfolding encodes_to_def by fastforce

lemma encode_item_source:
  assumes "encode_format w s = Some (encode_item ty neg f)" "list_all2 (one_value neg f) tss bss"
    "reads st (LT # (s, TT_IDENTIFIER) # concat tss @ GT # ts)"
  shows "encodes_to w buffer st (enc_item (SData ty (concat bss))) ts"
proof -
  note r1 = reads_Cons(2) [OF assms(3)]
  note r2 = reads_Cons(2) [OF r1]
  let ?s2 = "advance (advance st LT) (s, TT_IDENTIFIER)"
  obtain k where k: "encode_item ty neg f buffer ?s2 =
      Some (Done (0, buffer @ enc_item (SData ty (concat bss)), (advances ?s2 (concat tss))\<lparr>st_saved := k\<rparr>))"
    using encode_item_values [OF assms(2) r2] by blast
  let ?s3 = "(advances ?s2 (concat tss))\<lparr>st_saved := k\<rparr>"
  have r3: "reads ?s3 (GT # ts)" using reads_append [OF r2] by simp
  have "encode_loop w 0 buffer st = encode_loop w 0 (buffer @ enc_item (SData ty (concat bss))) (advance ?s3 GT)"
    using encode_skip [OF assms(3)] encode_tag [OF r1 assms(1) k] encode_skip [OF r3]
    by (simp add: LT_def GT_def)
  moreover have "moved st (advance ?s3 GT)"
    by (intro moved_advance moved_update moved_advances moved_refl)
  ultimately show ?thesis using reads_Cons(2) [OF r3] unfolding encodes_to_def by blast
qed

lemma encode_data_source:
  assumes "encodes w m" "\<forall>ls. m \<noteq> SmlL ls"
    "reads st (LT # (sml_tag m, TT_IDENTIFIER) # concat (sml_tokens m) @ GT # ts)"
  shows "encodes_to w buffer st (enc_item (sml_item m)) ts"
proof -
  have "sml_item m = SData (sml_format m) (concat (sml_values m))" using assms(2) by (cases m) auto
  then show ?thesis using assms(1,3) encode_item_source unfolding encodes_def by metis
qed

lemma get_num_list_elements_source:
  assumes "sml_source ms ts" "reads st (ts @ GT # us)" "\<forall>m \<in> set ms. depth (sml_item m) < 2 ^ 32 - 1"
    "length (st_prog st) < 2 ^ 32"
  shows "\<exists>k. get_num_list_elements w st = Some (Done (of_nat (length ms), st\<lparr>st_saved := k\<rparr>))"
proof -
  have i: "unat (of_nat (st_idx st) :: u32) = st_idx st"
    using assms(2,4) by (intro unat_of_nat_u32) (simp add: reads_def)
  have f: "(advances st us)\<lparr>st_saved := k, st_idx := i\<rparr> = st\<lparr>st_saved := k, st_idx := i\<rparr>" for us k i
  proof (induction us arbitrary: k i rule: rev_induct)
    case (snoc t us)
    then show ?case by (simp add: advance_def)
  qed simp
  have "elements_loop w 0 0 st = Some (Done (of_nat (length ms), advance (advances st ts) GT))"
    using elements_source [OF assms(1,2), of 0] assms(3) elements_close [OF reads_append [OF assms(2)]]
    by simp
  then show ?thesis using f [where us = ts and i = "st_idx st"] i
    by (simp add: get_num_list_elements_def set_program_token_idx_def advance_def [of "advances st ts"])
      (rule exI, rule refl)
qed

lemma encode_source:
  "sml_source ms ts \<Longrightarrow> list_all sml_ok ms \<Longrightarrow> \<forall>m \<in> set ms. depth (sml_item m) < 2 ^ 32 - 1 \<Longrightarrow>
   length (st_prog st) < 2 ^ 32 \<Longrightarrow> reads st (ts @ us) \<Longrightarrow>
   encodes_to w buffer st (concat (map (\<lambda>m. enc_item (sml_item m)) ms)) us"
proof (induction ms ts arbitrary: st us buffer rule: sml_source.induct)
  case source_end
  then show ?case using moved_refl by (auto simp: encodes_to_def)
next
  case (source_statement ms ts)
  let ?s = "advance st ([], TT_END_OF_LINE)"
  have r: "reads st (([], TT_END_OF_LINE) # ts @ us)" using source_statement.prems(4) by simp
  have "encodes_to w (buffer @ []) ?s (concat (map (\<lambda>m. enc_item (sml_item m)) ms)) us"
    using source_statement.IH [of ?s us buffer] source_statement.prems reads_Cons(2) [OF r] by simp
  moreover have "encode_loop w 0 buffer st = encode_loop w 0 (buffer @ []) ?s" using encode_skip [OF r] by simp
  ultimately have "encodes_to w buffer st ([] @ concat (map (\<lambda>m. enc_item (sml_item m)) ms)) us"
    using moved_advance [OF moved_refl] by (intro encodes_to_after)
  then show ?case by simp
next
  case (source_line ms ts n)
  let ?s1 = "advance st ([], TT_END_OF_LINE)"
  let ?s = "(advance ?s1 (n, TT_LINE_NUMBER))\<lparr>st_line := cstr n\<rparr>"
  have r: "reads st (([], TT_END_OF_LINE) # (n, TT_LINE_NUMBER) # ts @ us)" using source_line.prems(4) by simp
  note r1 = reads_Cons(2) [OF r]
  have "encodes_to w (buffer @ []) ?s (concat (map (\<lambda>m. enc_item (sml_item m)) ms)) us"
    using source_line.IH [of ?s us buffer] source_line.prems reads_Cons(2) [OF r1] by simp
  moreover have "encode_loop w 0 buffer st = encode_loop w 0 (buffer @ []) ?s"
    using encode_skip [OF r] encode_line [OF r1 source_line.hyps(2)] by simp
  ultimately have "encodes_to w buffer st ([] @ concat (map (\<lambda>m. enc_item (sml_item m)) ms)) us"
    by (rule encodes_to_after [rotated 2]) (simp add: moved_def advance_def)
  then show ?case by simp
next
  case (source_data ms ts m)
  have e: "encodes w m" using source_data.prems(1) source_data.hyps(2) encode_data by simp
  have "reads st (LT # (sml_tag m, TT_IDENTIFIER) # concat (sml_tokens m) @ GT # ts @ us)"
    using source_data.prems(4) by simp
  from encode_data_source [OF e source_data.hyps(2) this, of buffer] obtain st1 where st1:
    "encode_loop w 0 buffer st = encode_loop w 0 (buffer @ enc_item (sml_item m)) st1"
    "reads st1 (ts @ us)" "moved st st1"
    by (auto simp: encodes_to_def)
  have "encodes_to w (buffer @ enc_item (sml_item m)) st1 (concat (map (\<lambda>m. enc_item (sml_item m)) ms)) us"
    using source_data.prems st1(2) moved_fields [OF st1(3)] by (intro source_data.IH) simp_all
  then show ?case using encodes_to_after [OF st1(1,3)] by simp
next
  case (source_list ls ls_ts ms ts)
  let ?s2 = "advance (advance st LT) (''L'', TT_IDENTIFIER)"
  have r: "reads st (LT # (''L'', TT_IDENTIFIER) # ls_ts @ GT # ts @ us)" using source_list.prems(4) by simp
  note r1 = reads_Cons(2) [OF r]
  note r2 = reads_Cons(2) [OF r1]
  have d: "\<forall>m \<in> set ls. depth (sml_item m) < 2 ^ 32 - 1"
  proof
    fix m assume "m \<in> set ls"
    then have "depth (sml_item m) < depth (SList (map sml_item ls))" by (intro depth_mem) simp
    then show "depth (sml_item m) < 2 ^ 32 - 1" using source_list.prems(2) by (simp del: depth.simps)
  qed
  obtain k where k: "get_num_list_elements w ?s2 = Some (Done (of_nat (length ls), ?s2\<lparr>st_saved := k\<rparr>))"
    using get_num_list_elements_source [OF source_list.hyps(1) r2 d] source_list.prems(3) by auto
  let ?h = "item_header LIST (length ls)" and ?s3 = "?s2\<lparr>st_saved := k\<rparr>"
  have "encode_list w buffer ?s2 = Some (Done (0, buffer @ ?h, ?s3))"
    using k by (simp add: encode_list_def item_header_def store_data_def split: prod.split)
  then have o: "encode_loop w 0 buffer st = encode_loop w 0 (buffer @ ?h) ?s3"
    using encode_skip [OF r] encode_tag [OF r1] encode_format_tag(1) [of w ls]
    by (simp add: LT_def sml_tag_def)
  have "encodes_to w (buffer @ ?h) ?s3 (concat (map (\<lambda>m. enc_item (sml_item m)) ls)) (GT # ts @ us)"
    using source_list.prems d r2 by (intro source_list.IH(1)) simp_all
  then obtain st4 where st4: "reads st4 (GT # ts @ us)" "moved ?s3 st4"
    "encode_loop w 0 (buffer @ ?h) ?s3 = encode_loop w 0 (buffer @ enc_item (SList (map sml_item ls))) st4"
    by (auto simp: encodes_to_def comp_def)
  let ?s5 = "advance st4 GT"
  have m: "moved st ?s5"
    using st4(2) by (intro moved_advance moved_trans [OF _ st4(2)] moved_update moved_refl)
  have "encodes_to w (buffer @ enc_item (SList (map sml_item ls))) ?s5 (concat (map (\<lambda>m. enc_item (sml_item m)) ms)) us"
    using source_list.prems reads_Cons(2) [OF st4(1)] moved_fields [OF m] by (intro source_list.IH(2)) simp_all
  then have "encodes_to w buffer st (enc_item (SList (map sml_item ls)) @ concat (map (\<lambda>m. enc_item (sml_item m)) ms)) us"
    using o st4(3) encode_skip [OF st4(1)] m by (intro encodes_to_after [of _ _ _ _ ?s5]) (simp_all add: GT_def)
  then show ?case by simp
qed
subsection \<open>Lemmas: the log\<close>

lemma elem_texts_concat:
  "list_all (\<lambda>b. length b = w \<and> fmt b \<noteq> None) bs \<Longrightarrow>
   \<exists>xs. elem_texts fmt w (length bs) (concat bs) = Some xs"
proof (induction bs)
  case (Cons b bs)
  then obtain x xs where "fmt b = Some x" "elem_texts fmt w (length bs) (concat bs) = Some xs" by auto
  then show ?case using Cons.prems by (simp add: require_def)
qed simp

lemma length_uniform: "list_all (\<lambda>b. length b = w) bs \<Longrightarrow> length (concat bs) = w * length bs"
  by (induction bs) auto

lemma log_elements_some:
  assumes "list_all (\<lambda>b. length b = w \<and> fmt b \<noteq> None) bs" "0 < w"
  shows "\<exists>log1 k. log_elements tag fmt w pad (length (concat bs)) (concat bs) log = Some (log1, k)"
proof -
  have "length (concat bs) div w = length bs"
    using assms length_uniform [of w bs] by (auto simp: list_all_iff)
  then show ?thesis using elem_texts_concat [OF assms(1)] by (auto simp: log_elements_def)
qed

lemma my_itoa_some: "- (2 ^ 63) < v \<Longrightarrow> my_itoa v \<noteq> None"
  using my_itoa_defined [of v] by auto

lemma formats_some:
  "length b \<le> 64 \<Longrightarrow> fmt_unsigned b \<noteq> None" "length b \<le> 64 \<Longrightarrow> fmt_float b \<noteq> None"
  "length b \<le> 64 \<Longrightarrow> fmt_double b \<noteq> None" "fmt_boolean b \<noteq> None" "fmt_binary b \<noteq> None"
  "fmt_u1 b \<noteq> None" "log_i1_fmt b \<noteq> None"
  "length b \<le> 64 \<Longrightarrow> - (2 ^ 63) < signed_of (length b) (le_val (rev b)) \<Longrightarrow> fmt_signed b \<noteq> None"
proof -
  have "my_itoa (int (unat c)) \<noteq> None" for c :: byte
    by (intro my_itoa_some less_le_trans [OF _ of_nat_0_le_iff]) simp
  then show "fmt_binary b \<noteq> None" "log_i1_fmt b \<noteq> None"
    by (auto simp: fmt_binary_def log_i1_fmt_def)
  assume "length b \<le> 64" "- (2 ^ 63) < signed_of (length b) (le_val (rev b))"
  then show "fmt_signed b \<noteq> None"
    using my_itoa_some by (auto simp: fmt_signed_def swap_rev)
qed (auto simp: fmt_unsigned_def fmt_float_def fmt_double_def fmt_boolean_def fmt_u1_def swap_rev Let_def)

definition value_ok :: "byte \<Rightarrow> byte list \<Rightarrow> bool" where
  "value_ok ty b \<longleftrightarrow> length b = width ty \<and> (ty = SIGNED_8 \<longrightarrow> - (2 ^ 63) < signed_of 8 (le_val (rev b)))"

lemma log_format_some:
  assumes "ty \<in> set data_formats" "list_all (value_ok ty) bs"
  shows "\<exists>log1 k. log_format ty pad (length (concat bs)) (concat bs) log = Some (Some (log1, k))"
proof -
  have w: "0 < width ty" "width ty \<le> 64" by (simp_all add: width_def)
  have go: "\<exists>log1 k. log_elements tag fmt (width ty) pad (length (concat bs)) (concat bs) log = Some (log1, k)"
    if "\<And>b. value_ok ty b \<Longrightarrow> fmt b \<noteq> None" for tag fmt
    using assms(2) that w by (intro log_elements_some) (auto simp: list_all_iff value_ok_def)
  have s: "fmt_signed b \<noteq> None" if "value_ok ty b" "ty \<in> {SIGNED_2, SIGNED_4, SIGNED_8}" for b
  proof (rule formats_some(8))
    show "- (2 ^ 63) < signed_of (length b) (le_val (rev b))"
      using that by (auto simp: value_ok_def width_def signed_of_def secs_formats)
  qed (use that w in \<open>auto simp: value_ok_def\<close>)
  have u: "length b \<le> 64" if "value_ok ty b" for b using that w by (simp add: value_ok_def)
  have "ty = ASCII \<or> ty = BINARY \<or> ty = BOOLEAN \<or> ty = UNSIGNED_1 \<or> ty = UNSIGNED_2 \<or> ty = UNSIGNED_4 \<or>
      ty = UNSIGNED_8 \<or> ty = SIGNED_1 \<or> ty = SIGNED_2 \<or> ty = SIGNED_4 \<or> ty = SIGNED_8 \<or> ty = FLOAT_4 \<or> ty = FLOAT_8"
    using assms(1) by (auto simp: data_formats_def)
  then show ?thesis
    using go [OF formats_some(1) [OF u]] go [OF formats_some(2) [OF u]] go [OF formats_some(3) [OF u]]
      go [OF formats_some(4)] go [OF formats_some(5)] go [OF formats_some(6)] go [OF formats_some(7)] go [OF s]
    by (elim disjE) (simp_all add: log_format_def log_formats log_ascii_def width_def secs_formats)
qed
lemma signed_of_small: "\<bar>i\<bar> < 2 ^ 31 \<Longrightarrow> - (2 ^ 63) < signed_of 8 (le_val (rev (be_bytes 8 (nat (i mod 2 ^ (8 * 8))))))"
proof -
  assume i: "\<bar>i\<bar> < 2 ^ 31"
  let ?n = "nat (i mod 2 ^ 64)"
  have "i mod 2 ^ 64 = (i + 2 ^ 64) mod 2 ^ 64" by simp
  moreover have "(i + 2 ^ 64) mod 2 ^ 64 = i + 2 ^ 64" if "i < 0"
    using that i by (intro mod_pos_pos_trivial) simp_all
  ultimately have "int ?n = (if i < 0 then i + 2 ^ 64 else i)" using i by simp
  moreover have "?n < 256 ^ 8" using pos_mod_bound [of "2 ^ 64" i] by simp
  ultimately show ?thesis using i by (auto simp: be_bytes_def le_val_le_bytes signed_of_def)
qed

lemma be_bytes_length [simp]: "length (be_bytes w n) = w"
  by (simp add: be_bytes_def)

text \<open>The data of an item of values.\<close>

lemma sml_data_ok:
  assumes "sml_ok m" "\<forall>ls. m \<noteq> SmlL ls"
  shows "sml_item m = SData (sml_format m) (concat (sml_values m))" "sml_format m \<in> set data_formats"
    "sml_format m = ASCII \<or> list_all (value_ok (sml_format m)) (sml_values m)"
    "length (concat (sml_values m)) < 2 ^ 24"
proof -
  show "sml_item m = SData (sml_format m) (concat (sml_values m))" using assms(2) by (cases m) auto
  show "sml_format m \<in> set data_formats"
    using assms(2) by (cases m) (auto simp: sml_format_def data_formats_def)
  show "sml_format m = ASCII \<or> list_all (value_ok (sml_format m)) (sml_values m)"
    using assms signed_of_small
    by (cases m) (auto simp: sml_format_def sml_values_def value_ok_def width_def secs_formats list_all_iff)
  have "length (concat (map (\<lambda>b. [g b]) bs)) = length bs" for g :: "'z \<Rightarrow> byte" and bs
    by (induction bs) auto
  moreover have "length (concat (map (be_bytes w) ns)) = w * length ns" for w ns by (induction ns) auto
  moreover have "length (concat (map (\<lambda>i. be_bytes w (nat (i mod 2 ^ (8 * w)))) is)) = w * length is" for w "is"
    by (induction "is") auto
  moreover have "length (concat fs) < 2 ^ 24" if "m = SmlF w fs" for w fs
    using length_uniform [of w fs] assms(1) that by simp
  ultimately show "length (concat (sml_values m)) < 2 ^ 24"
    using assms by (cases m) (auto simp: sml_values_def bytes_of_def)
qed

lemma log_ascii_some: "\<exists>log1 k. log_format ASCII pad (length d) d log = Some (Some (log1, k))"
  by (simp add: log_format_def log_ascii_def require_def)

lemma log_data_some:
  assumes "sml_ok m" "\<forall>ls. m \<noteq> SmlL ls"
  shows "\<exists>log1. whole_data log_handlers pad (sml_format m) (concat (sml_values m)) log = Some log1"
proof -
  note d = sml_data_ok [OF assms]
  have "\<exists>log1 k. log_format (sml_format m) pad (length (concat (sml_values m))) (concat (sml_values m)) log =
      Some (Some (log1, k))"
    using d(3) log_ascii_some log_format_some [OF d(2)] by auto
  then show ?thesis
    using d(4) by (auto simp: whole_data_def log_handlers_def unat_of_nat_u32)
qed

lemma values_whole: "list_all (value_ok ty) bs \<Longrightarrow> whole ty (concat bs)"
  using length_uniform [of "width ty" bs] by (auto simp: whole_def value_ok_def list_all_iff)

lemma sml_data_fits:
  assumes "sml_ok m" "\<forall>ls. m \<noteq> SmlL ls"
  shows "item_fits whole (sml_item m)"
proof -
  have "whole ASCII d" for d by (simp add: whole_def width_def secs_formats)
  then show ?thesis using sml_data_ok [OF assms] values_whole by auto
qed

lemma sml_item_fits: "sml_ok m \<Longrightarrow> item_fits whole (sml_item m)"
proof (induction m)
  case (SmlL ms)
  then show ?case by (auto simp: list_all_iff)
qed (use sml_data_fits in blast)+

lemma pad_some: "n \<le> 23 \<Longrightarrow> \<exists>p. blank_pad 100 n = Some p"
  by (simp add: blank_pad_def require_def)

text \<open>The padding of the log is an array of 100 characters: enough for 23 levels.\<close>

lemma log_item_data:
  assumes "sml_ok m" "\<forall>ls. m \<noteq> SmlL ls" "length pre < 23"
  shows "\<exists>log1. tree_item log_handlers (whole_data log_handlers) pre i (sml_item m) log = Some log1"
proof -
  obtain p where "h_item log_handlers (pre @ [i]) = Some p"
    using pad_some [of "length pre + 1"] assms(3) by (auto simp: log_handlers_def)
  then show ?thesis using sml_data_ok(1) [OF assms(1,2)] log_data_some [OF assms(1,2), of p log] by simp
qed

lemma log_item_list:
  assumes "length pre < 23"
    "\<And>log. \<exists>log1. tree_items log_handlers (whole_data log_handlers) (pre @ [i]) 1 its log = Some log1"
  shows "\<exists>log1. tree_item log_handlers (whole_data log_handlers) pre i (SList its) log = Some log1"
proof -
  obtain p where p: "blank_pad 100 (length pre + 1) = Some p"
    using pad_some [of "length pre + 1"] assms(1) by auto
  obtain log1 where "tree_items log_handlers (whole_data log_handlers) (pre @ [i]) 1 its
      (log @ p @ ''<L'' @ (if of_nat (length its) \<noteq> (0 :: u32) then NL else ''>'' @ NL)) = Some log1"
    using assms(2) by blast
  moreover have "h_item log_handlers (pre @ [i]) = Some p" using p by (simp add: log_handlers_def)
  moreover have "h_list log_handlers p (of_nat (length its)) log =
      Some (log @ p @ ''<L'' @ (if of_nat (length its) \<noteq> (0 :: u32) then NL else ''>'' @ NL))"
    by (simp add: log_handlers_def log_list_def)
  moreover have "h_close log_handlers (length pre) log1 = Some (log1 @ p @ ''>'' @ NL)" for log1
    using p by (simp add: log_handlers_def log_close_def)
  ultimately show ?thesis by simp
qed

lemma log_items_some:
  "(\<And>n i log. n \<in> set ns \<Longrightarrow> \<exists>log1. tree_item log_handlers (whole_data log_handlers) pre i (sml_item n) log = Some log1) \<Longrightarrow>
   \<exists>log1. tree_items log_handlers (whole_data log_handlers) pre j (map sml_item ns) log = Some log1"
proof (induction ns arbitrary: j log)
  case (Cons n ns)
  obtain log1 where "tree_item log_handlers (whole_data log_handlers) pre j (sml_item n) log = Some log1"
    using Cons.prems [of n j log] by auto
  then show ?case using Cons.IH [of "j + 1" log1] Cons.prems by simp
qed simp

lemma log_item_some:
  "sml_ok m \<Longrightarrow> length pre + depth (sml_item m) < 23 \<Longrightarrow>
   \<exists>log1. tree_item log_handlers (whole_data log_handlers) pre i (sml_item m) log = Some log1"
proof (induction m arbitrary: pre i log)
  case (SmlL ms)
  have "\<exists>log1. tree_items log_handlers (whole_data log_handlers) (pre @ [i]) 1 (map sml_item ms) log = Some log1" for log
  proof (rule log_items_some)
    fix n j log assume n: "n \<in> set ms"
    then have "depth (sml_item n) < depth (SList (map sml_item ms))" by (intro depth_mem) simp
    then have "length (pre @ [i]) + depth (sml_item n) < 23" using SmlL.prems(2) by simp
    moreover have "sml_ok n" using n SmlL.prems(1) by (simp add: list_all_iff)
    ultimately show "\<exists>log1. tree_item log_handlers (whole_data log_handlers) (pre @ [i]) j (sml_item n) log = Some log1"
      using SmlL.IH [OF n] by blast
  qed
  then show ?case using SmlL.prems(2) log_item_list [of pre i "map sml_item ms" log] by simp
qed (use log_item_data in \<open>(simp del: tree_item.simps sml_item.simps sml_ok.simps)\<close>)+

lemma make_log_some:
  assumes "list_all sml_ok ms" "\<forall>m \<in> set ms. depth (sml_item m) < 23"
    "length (concat (map (\<lambda>m. enc_item (sml_item m)) ms)) < 2 ^ 32"
  shows "\<exists>log1. make_log (concat (map (\<lambda>m. enc_item (sml_item m)) ms)) log = Some (0, log1)"
proof -
  have e: "concat (map (\<lambda>m. enc_item (sml_item m)) ms) = concat (map enc_item (map sml_item ms))"
    by (simp add: comp_def)
  have "make_log (concat (map enc_item (map sml_item ms))) log =
      map_option (Pair 0) (tree_items log_handlers (whole_data log_handlers) [] 1 (map sml_item ms) log)"
    using assms unfolding e by (intro make_log_items) (auto simp: list_all_iff sml_item_fits)
  then show ?thesis
    using log_items_some [of ms "[]" 1 log] log_item_some assms(1,2) unfolding e
    by (force simp: list_all_iff)
qed
subsection \<open>Lemmas: the header\<close>

definition header_tokens :: "nat \<Rightarrow> nat \<Rightarrow> nat \<Rightarrow> bool \<Rightarrow> token list" where
  "header_tokens s f d wt =
     [(''S'' @ my_utoa s @ ''F'' @ my_utoa f, TT_IDENTIFIER), (my_utoa d, TT_NUMBER)] @
     (if wt then [(''W'', TT_IDENTIFIER)] else [])"

lemma scan_my_utoa: "scan_num (my_utoa n @ CHR ''F'' # my_utoa m) = Some (int n, CHR ''F'' # my_utoa m)"
    "scan_num (my_utoa n) = Some (int n, [])"
proof -
  note d = my_utoa_digits [of n]
  have "no_nul (CHR ''F'' # my_utoa m)" by simp
  then show "scan_num (my_utoa n @ CHR ''F'' # my_utoa m) = Some (int n, CHR ''F'' # my_utoa m)"
    using d scan_digits(1) [of "my_utoa n" "CHR ''F'' # my_utoa m"] by (simp add: is_digit_def)
  show "scan_num (my_utoa n) = Some (int n, [])"
    using d scan_digits(1) [of "my_utoa n" "[]"] by simp
qed

lemma sscanf_u_number:
  "scan_num s = Some (int n, r) \<Longrightarrow> n < 2 ^ 32 \<Longrightarrow> sscanf_u s old = Some (of_nat n)"
  by (simp add: sscanf_u_def)

lemma scan_SF_header:
  assumes "s < 2 ^ 32" "f < 2 ^ 32"
  shows "scan_SF (''S'' @ my_utoa s @ ''F'' @ my_utoa f) s0 f0 = Some (True, of_nat s, of_nat f)"
proof -
  have "cstr (''S'' @ my_utoa s @ ''F'' @ my_utoa f) = CHR ''S'' # my_utoa s @ CHR ''F'' # my_utoa f" by simp
  then show ?thesis
    using sscanf_u_number [OF scan_my_utoa(1) assms(1), of f s0] sscanf_u_number [OF scan_my_utoa(2) assms(2), of f0]
    by (simp add: scan_SF_def scan_my_utoa)
qed

definition set_header :: "encoded \<Rightarrow> nat \<Rightarrow> nat \<Rightarrow> nat \<Rightarrow> bool \<Rightarrow> encoded" where
  "set_header e s f d wt = e\<lparr>en_stream := of_nat s, en_function := of_nat f, en_device := of_nat d, en_wait := of_bool wt\<rparr>"

lemma encode_wait_header:
  assumes "reads st ((if wt then [(''W'', TT_IDENTIFIER)] else []) @ t # ts)" "fst t = []" "snd t \<noteq> TT_VARIABLE"
  shows "\<exists>st1. encode_wait e st = Some (Done (e\<lparr>en_wait := of_bool wt\<rparr>, st1)) \<and> reads st1 (t # ts) \<and> moved st st1"
proof (cases wt)
  case True
  then have r: "reads st ((''W'', TT_IDENTIFIER) # t # ts)" using assms(1) by simp
  show ?thesis using True next_token_plain [OF r] reads_Cons(2) [OF r] moved_advance [OF moved_refl]
    by (auto simp: encode_wait_def chr_at_def)
next
  case False
  then have r: "reads st (t # ts)" using assms(1) by simp
  have "put_program_token (put_program_token (advance st t)) = st\<lparr>st_saved := st_idx st\<rparr>"
    using reads_put [OF r] by (simp add: put_program_token_def)
  then show ?thesis using False next_token_plain [OF r assms(3)] assms(2) r moved_update(1) [OF moved_refl]
    by (auto simp: encode_wait_def chr_at_def of_char_def)
qed

lemma encode_header_tokens:
  assumes "reads st (header_tokens s f d wt @ t # ts)" "s < 2 ^ 32" "f < 2 ^ 32" "d < 2 ^ 32"
    "fst t = []" "snd t \<noteq> TT_VARIABLE"
  shows "\<exists>st1. encode_header e st = Some (Done (set_header e s f d wt, st1)) \<and> reads st1 (t # ts) \<and> moved st st1"
proof -
  let ?sf = "(''S'' @ my_utoa s @ ''F'' @ my_utoa f, TT_IDENTIFIER)" and ?d = "(my_utoa d, TT_NUMBER)"
  have r: "reads st (?sf # ?d # (if wt then [(''W'', TT_IDENTIFIER)] else []) @ t # ts)"
    using assms(1) by (simp add: header_tokens_def)
  note r1 = reads_Cons(2) [OF r]
  note r2 = reads_Cons(2) [OF r1]
  let ?e = "e\<lparr>en_stream := of_nat s, en_function := of_nat f, en_device := of_nat d\<rparr>"
  let ?s2 = "advance (advance st ?sf) ?d"
  obtain st1 where st1: "encode_wait ?e ?s2 = Some (Done (?e\<lparr>en_wait := of_bool wt\<rparr>, st1))"
    "reads st1 (t # ts)" "moved ?s2 st1"
    using encode_wait_header [OF r2 assms(5,6), of ?e] by blast
  have "encode_header e st = Some (Done (set_header e s f d wt, st1))"
    using next_token_plain [OF r] next_token_plain [OF r1] scan_SF_header [OF assms(2,3)] scan_my_utoa(2) [of d]
      sscanf_u_number [OF scan_my_utoa(2) assms(4)] st1(1)
    by (simp add: encode_header_def encode_device_def set_header_def)
  moreover have "moved st st1"
    using moved_trans [OF moved_advance [OF moved_advance [OF moved_refl]] st1(3)] .
  ultimately show ?thesis using st1(2) by blast
qed

lemma source_first:
  assumes "sml_source ms ts"
  obtains t us where "ts @ ([], TT_PERIOD) # rest = t # us" "fst t = []" "snd t \<noteq> TT_VARIABLE"
  using assms by (cases rule: sml_source.cases) (auto simp: LT_def)

subsection \<open>Lemmas: the whole message\<close>

lemma secs_encode_from:
  assumes "reads st (header_tokens s f d wt @ ts @ ([], TT_PERIOD) # rest)"
    "ts @ ([], TT_PERIOD) # rest = t # us" "fst t = []" "snd t \<noteq> TT_VARIABLE"
    "s < 2 ^ 32" "f < 2 ^ 32" "d < 2 ^ 32" "en_body e = []"
    "\<And>st1. reads st1 (ts @ ([], TT_PERIOD) # rest) \<Longrightarrow> length (st_prog st1) = length (st_prog st) \<Longrightarrow>
       encodes_to w [] st1 body (([], TT_PERIOD) # rest)"
    "\<And>log. \<exists>log1. make_log body log = Some (0, log1)"
  shows "\<exists>e1 st1. secs_encode w e st = Some (Done (e1, st1)) \<and> en_iret e1 = 0 \<and>
    en_stream e1 = of_nat s \<and> en_function e1 = of_nat f \<and> en_device e1 = of_nat d \<and> en_wait e1 = of_bool wt \<and>
    en_body e1 = body \<and> reads st1 rest \<and> moved st st1"
proof -
  let ?e = "set_header (e\<lparr>en_iret := 0\<rparr>) s f d wt"
  obtain st1 where st1: "encode_header (e\<lparr>en_iret := 0\<rparr>) st = Some (Done (?e, st1))"
    "reads st1 (ts @ ([], TT_PERIOD) # rest)" "moved st st1"
    using encode_header_tokens [of st s f d wt t us] assms(1-7) by auto
  have "encodes_to w [] st1 body (([], TT_PERIOD) # rest)"
    using st1(2) moved_fields [OF st1(3)] by (intro assms(9)) auto
  then obtain st2 where st2: "encode_loop w 0 [] st1 = encode_loop w 0 body st2"
    "reads st2 (([], TT_PERIOD) # rest)" "moved st1 st2"
    by (auto simp: encodes_to_def)
  have l: "encode_loop w 0 body st2 = Some (Done (0, body, advance st2 ([], TT_PERIOD)))"
    using next_token_plain [OF st2(2)] by (subst encode_loop.simps) (simp add: encode_body_def)
  obtain log where "make_log body (log_header ?e) = Some (0, log)"
    using assms(10) by blast
  then have "secs_encode w e st = Some (Done (?e\<lparr>en_iret := 0, en_body := body, en_log := log\<rparr>,
      advance st2 ([], TT_PERIOD)))"
    using st1(1) st2(1) l assms(8) by (simp add: secs_encode_def set_header_def)
  moreover have "moved st (advance st2 ([], TT_PERIOD))"
    using moved_trans [OF st1(3) st2(3)] by (rule moved_advance)
  ultimately show ?thesis using reads_Cons(2) [OF st2(2)] by (auto simp: set_header_def)
qed

lemma secs_encode_tree:
  assumes "sml_source ms ts" "list_all sml_ok ms" "\<forall>m \<in> set ms. depth (sml_item m) < 23"
    "reads st (header_tokens s f d wt @ ts @ ([], TT_PERIOD) # rest)" "length (st_prog st) < 2 ^ 32"
    "s < 2 ^ 32" "f < 2 ^ 32" "d < 2 ^ 32" "en_body e = []"
    "length (concat (map (\<lambda>m. enc_item (sml_item m)) ms)) < 2 ^ 32"
  shows "\<exists>e1 st1. secs_encode w e st = Some (Done (e1, st1)) \<and> en_iret e1 = 0 \<and>
    en_stream e1 = of_nat s \<and> en_function e1 = of_nat f \<and> en_device e1 = of_nat d \<and> en_wait e1 = of_bool wt \<and>
    en_body e1 = concat (map (\<lambda>m. enc_item (sml_item m)) ms) \<and> reads st1 rest \<and> moved st st1"
proof -
  obtain t us where t: "ts @ ([], TT_PERIOD) # rest = t # us" "fst t = []" "snd t \<noteq> TT_VARIABLE"
    using source_first [OF assms(1)] by blast
  show ?thesis
  proof (rule secs_encode_from [OF assms(4) t assms(6-9)])
    show "\<exists>log1. make_log (concat (map (\<lambda>m. enc_item (sml_item m)) ms)) log = Some (0, log1)" for log
      by (rule make_log_some [OF assms(2,3,10)])
    fix st1 assume "reads st1 (ts @ ([], TT_PERIOD) # rest)" "length (st_prog st1) = length (st_prog st)"
    then show "encodes_to w [] st1 (concat (map (\<lambda>m. enc_item (sml_item m)) ms)) (([], TT_PERIOD) # rest)"
      using assms(2,3,5) by (intro encode_source [OF assms(1)]) auto
  qed
qed

text \<open>Without the closing bracket the loop gets the end of the program again and again.\<close>

lemma values_loop_end:
  assumes "never_stops f" "reads st []"
  shows "values_loop neg f v st = None"
proof -
  have "never_stops f1 \<longrightarrow> \<not> reads st1 []" if v: "values_loop neg1 f1 v1 st1 = Some y" for neg1 f1 v1 st1 y
  proof (induction rule: values_loop.raw_induct [OF _ v])
    case (1 loop neg1 f1 v1 st1 y)
    show ?case
    proof (intro impI notI)
      assume f: "never_stops f1" and r: "reads st1 []"
      have n: "next_token st1 = Some (Done (([], TT_NULL_TOKEN), st1\<lparr>st_saved := st_idx st1\<rparr>))"
        using get_null [OF r] by (simp add: next_token_def)
      have "\<exists>v2. loop neg1 f1 v2 (st1\<lparr>st_saved := st_idx st1\<rparr>) = Some y"
      proof (cases "f1 [] v1")
        case None
        then show ?thesis using 1(2) n by (simp add: values_body_def)
      next
        case (Some r)
        then have "\<not> fst r" using f by (cases r) (auto simp: never_stops_def)
        then show ?thesis using 1(2) n Some by (cases r) (auto simp: values_body_def)
      qed
      moreover have "reads (st1\<lparr>st_saved := st_idx st1\<rparr>) []" using r by simp
      ultimately show False using 1(1) f by blast
    qed
  qed
  then show ?thesis using assms by (cases "values_loop neg f v st") auto
qed

lemma values_loop_open:
  assumes "list_all2 (one_value neg f) tss bss" "reads st (concat tss)" "never_stops f"
  shows "values_loop neg f v st = None"
  using assms
proof (induction tss bss arbitrary: st v rule: list_all2_induct)
  case Nil
  then show ?case using values_loop_end by simp
next
  case (Cons us tss bs bss)
  have r: "reads (advances st us) (concat tss)"
    using Cons.prems by (auto intro: reads_append)
  have "values_loop neg f v st = values_loop neg f (put_value bs v) (advances st us)"
    using Cons.hyps(1) Cons.prems values_step values_minus unfolding one_value_def by fastforce
  then show ?case using Cons.IH [OF r Cons.prems(2)] by simp
qed

text \<open>The records of \<open>Secs_Decode\<close>.\<close>

fun field_sml :: "field \<Rightarrow> sml" where
  "field_sml (FText s) = SmlA s"
| "field_sml (FU4 n) = SmlU 4 [n]"
| "field_sml (FI4 i) = SmlI 4 [i]"

lemma field_sml_item: "sml_item (field_sml fd) = field_item fd"
  by (cases fd) (simp_all add: sml_format_def sml_values_def be_bytes_def del: le_bytes.simps)

lemma field_sml_ok: "field_ok fd \<Longrightarrow> fd \<noteq> FI4 (- (2 ^ 31)) \<Longrightarrow> sml_ok (field_sml fd)"
  by (cases fd) auto

lemma depth_fields: "depth (SList (map field_item fds)) = 1"
proof -
  have "foldr (\<lambda>t. max (depth t)) (map field_item fds) 0 = 0" by (induction fds) auto
  then show ?thesis by simp
qed

section \<open>Properties\<close>

text \<open>C2. What a program writes after \<open>SEND\<close> is what is sent: for a text of lists, texts, booleans, bytes,
  numbers and floats nested less than 23 deep, with ends of lines between the items, \<open>secs_encode\<close>
  returns 0, the stream, the function, the device and the wait bit of the text and, as the body, the
  encoding of the tree the text stands for (a number is cut to the width of its item); it stops
  after the period and changes nothing of the interpreter but the place.\<close>

theorem secs_encode_source:
  assumes "sml_source ms ts" "list_all sml_ok ms" "\<forall>m \<in> set ms. depth (sml_item m) < 23"
    "reads st (header_tokens s f d wt @ ts @ ([], TT_PERIOD) # rest)" "length (st_prog st) < 2 ^ 32"
    "s < 2 ^ 32" "f < 2 ^ 32" "d < 2 ^ 32" "en_body e = []"
    "length (concat (map (\<lambda>m. enc_item (sml_item m)) ms)) < 2 ^ 32"
  shows "\<exists>e1 st1. secs_encode w e st = Some (Done (e1, st1)) \<and> en_iret e1 = 0 \<and>
    en_stream e1 = of_nat s \<and> en_function e1 = of_nat f \<and> en_device e1 = of_nat d \<and> en_wait e1 = of_bool wt \<and>
    en_body e1 = concat (map (\<lambda>m. enc_item (sml_item m)) ms) \<and> reads st1 rest \<and> moved st st1"
  using secs_encode_tree [OF assms] .

definition example_station :: world where
  "example_station = \<lparr>w_host = (\<lambda>_ _ _ _. None), w_device = (\<lambda>_ _. None), w_now = (\<lambda>_. 0), w_enum = 1\<rparr>"

definition example_out :: encoded where
  "example_out = \<lparr>en_iret = 0, en_stream = 0, en_function = 0, en_device = 0, en_wait = 0, en_body = [], en_log = []\<rparr>"

lemma example_out_body [simp]: "en_body example_out = []"
  by (simp add: example_out_def)

definition example_sml :: sml where
  "example_sml = SmlL [SmlU 4 [258], SmlL [SmlA ''LOT'', SmlI 2 [-2, 3]]]"

definition example_source :: "token list" where
  "example_source = [LT, (''L'', TT_IDENTIFIER), ([], TT_END_OF_LINE), (''a.sc:2'', TT_LINE_NUMBER),
     LT, (''U4'', TT_IDENTIFIER), (''258'', TT_NUMBER), GT, LT, (''L'', TT_IDENTIFIER),
     LT, (''A'', TT_IDENTIFIER), (''LOT'', TT_STRING), GT,
     LT, (''I2'', TT_IDENTIFIER), ([], TT_MINUS), (''2'', TT_NUMBER), (''3'', TT_NUMBER), GT, GT, GT]"

lemma example_numbers: "my_utoa 6 = ''6''" "my_utoa 11 = ''11''" "my_utoa 0 = ''0''" "my_utoa 258 = ''258''"
    "my_utoa 2 = ''2''" "my_utoa 3 = ''3''" "my_utoa 4 = ''4''" "my_utoa 7 = ''7''"
  by (simp_all add: my_utoa_def utoa_loop_unfold digit_chr_def char_of_def bit_0)

lemma example_sml_source: "sml_source [example_sml] example_source"
proof -
  have i: "sml_source [SmlI 2 [-2, 3]] (LT # (''I2'', TT_IDENTIFIER) #
      concat [[([], TT_MINUS), (''2'', TT_NUMBER)], [(''3'', TT_NUMBER)]] @ GT # [])"
    using source_data [OF source_end, of "SmlI 2 [-2, 3]"]
    by (simp add: sml_tag_def sml_tokens_def signed_tokens_def example_numbers)
  have a: "sml_source [SmlA ''LOT'', SmlI 2 [-2, 3]] (LT # (''A'', TT_IDENTIFIER) # [(''LOT'', TT_STRING)] @ GT #
      LT # (''I2'', TT_IDENTIFIER) # [([], TT_MINUS), (''2'', TT_NUMBER), (''3'', TT_NUMBER)] @ GT # [])"
    using source_data [OF i, of "SmlA ''LOT''"] by (simp add: sml_tag_def sml_tokens_def)
  show ?thesis
    unfolding example_sml_def example_source_def
    using source_list [OF source_line [OF source_data [OF source_list [OF a source_end], of "SmlU 4 [258]"], of "''a.sc:2''"]
      source_end]
    by (simp add: sml_tag_def sml_tokens_def example_numbers of_char_def)
qed

lemma example_source_reads:
  "list_all token_ok ts \<Longrightarrow> reads (fresh_interp (tokens_bytes ts)) ts"
  by (simp add: reads_def fresh_interp_def)

lemma example_header: "header_tokens 6 11 3 True = [(''S6F11'', TT_IDENTIFIER), (''3'', TT_NUMBER), (''W'', TT_IDENTIFIER)]"
  by (simp add: header_tokens_def example_numbers)

theorem secs_encode_source_witness:
  "\<exists>e1 st1. secs_encode example_station example_out
      (fresh_interp (tokens_bytes (header_tokens 6 11 3 True @ example_source @ [([], TT_PERIOD)]))) = Some (Done (e1, st1)) \<and>
    en_function e1 = 11 \<and> en_body e1 = enc_item (sml_item example_sml)"
proof -
  let ?ts = "header_tokens 6 11 3 True @ example_source @ [([], TT_PERIOD)]"
  have r: "reads (fresh_interp (tokens_bytes ?ts)) (header_tokens 6 11 3 True @ example_source @ ([], TT_PERIOD) # [])"
    using example_source_reads [of ?ts]
    by (simp add: example_header example_source_def token_ok_def text_kinds_def LT_def GT_def of_char_def)
  have l: "length (enc_item (sml_item example_sml)) < 100" "length (tokens_bytes ?ts) < 300"
    "sml_ok example_sml" "depth (sml_item example_sml) < 23"
    by (simp_all add: example_sml_def sml_values_def sml_format_def item_header_def store_data_def
        set_size_bytes_def bytes_of_def be_bytes_def example_header example_source_def tokens_bytes_def
        store_token_def text_kinds_def LT_def GT_def)
  have p: "st_prog (fresh_interp p) = p" for p by (simp add: fresh_interp_def)
  show ?thesis
    using secs_encode_source [OF example_sml_source _ _ r, of example_out example_station] l by (auto simp: p)
qed

text \<open>C1. From program to program: a record of texts and numbers that one program writes after \<open>SEND\<close> is,
  when the other station has decoded the body that \<open>secs_encode\<close> made, read there under
  \<open>prefix.1.k\<close> with the texts and numbers that were written.\<close>

theorem secs_encode_decode_record:
  assumes "sml_source [SmlL (map field_sml fds)] ts" "list_all field_ok fds" "FI4 (- (2 ^ 31)) \<notin> set fds"
    "fds \<noteq> []" "length fds < 2 ^ 24"
    "reads st (header_tokens s f d wt @ ts @ ([], TT_PERIOD) # rest)" "length (st_prog st) < 2 ^ 32"
    "s < 2 ^ 32" "f < 2 ^ 32" "d < 2 ^ 32" "en_body e = []"
    "length (enc_item (SList (map field_item fds))) < 2 ^ 32" "length prefix \<le> 25"
  shows "\<exists>e1 st1 log t. secs_encode w e st = Some (Done (e1, st1)) \<and> en_iret e1 = 0 \<and>
    secs_decode prefix (en_body e1) (log0, tmp_init) = Some (0, log, t) \<and>
    tmp_variable_get (tmp_variable_sort t) (prefix @ ''.1'') = Some (0, my_utoa (length fds)) \<and>
    (\<forall>i < length fds. tmp_variable_get (tmp_variable_sort t) (field_name prefix (Suc i)) =
       Some (0, field_text (fds ! i)))"
proof -
  have i: "sml_item (SmlL (map field_sml fds)) = SList (map field_item fds)"
    by (simp add: field_sml_item)
  have c: "concat (map (\<lambda>m. enc_item (sml_item m)) [SmlL (map field_sml fds)]) = enc_item (SList (map field_item fds))"
    by (simp only: i list.map concat.simps append_Nil2)
  have ok: "list_all sml_ok [SmlL (map field_sml fds)]"
    using assms(2,3,5) field_sml_ok by (fastforce simp: list_all_iff)
  have dep: "\<forall>m \<in> set [SmlL (map field_sml fds)]. depth (sml_item m) < 23"
    using depth_fields [of fds] by (simp add: i del: depth.simps sml_item.simps)
  from secs_encode_tree [OF assms(1) ok dep assms(6-11), of w, unfolded c, OF assms(12)]
  obtain e1 st1 where "secs_encode w e st = Some (Done (e1, st1))" "en_iret e1 = 0"
    "en_body e1 = enc_item (SList (map field_item fds))"
    by blast
  then show ?thesis
    using secs_decode_fields_read [OF assms(13,2,4,5,12), of log0] by force
qed

theorem secs_encode_decode_record_witness:
  "\<exists>e1 st1 log t. secs_encode example_station example_out
      (fresh_interp (tokens_bytes (header_tokens 6 11 3 True @
        (LT # (''L'', TT_IDENTIFIER) # [LT, (''I4'', TT_IDENTIFIER), ([], TT_MINUS), (''7'', TT_NUMBER), GT] @ [GT]) @
        [([], TT_PERIOD)]))) = Some (Done (e1, st1)) \<and>
    secs_decode ''S6F11'' (en_body e1) ([], tmp_init) = Some (0, log, t) \<and>
    tmp_variable_get (tmp_variable_sort t) (field_name ''S6F11'' 1) = Some (0, ''-7'')"
proof -
  let ?src = "LT # (''L'', TT_IDENTIFIER) # [LT, (''I4'', TT_IDENTIFIER), ([], TT_MINUS), (''7'', TT_NUMBER), GT] @ [GT]"
  let ?ts = "header_tokens 6 11 3 True @ ?src @ [([], TT_PERIOD)]"
  have s: "sml_source [SmlL (map field_sml [FI4 (- 7)])] ?src"
    using source_list [OF source_data [OF source_end, of "SmlI 4 [-7]"] source_end]
    by (simp add: sml_tag_def sml_tokens_def signed_tokens_def example_numbers)
  have r: "reads (fresh_interp (tokens_bytes ?ts)) (header_tokens 6 11 3 True @ ?src @ ([], TT_PERIOD) # [])"
    using example_source_reads [of ?ts]
    by (simp add: example_header token_ok_def text_kinds_def LT_def GT_def of_char_def)
  have l: "length (enc_item (SList (map field_item [FI4 (- 7)]))) < 2 ^ 32" "length (tokens_bytes ?ts) < 2 ^ 32"
    by (simp_all add: item_header_def store_data_def set_size_bytes_def example_header tokens_bytes_def
        store_token_def text_kinds_def LT_def GT_def bytes_of_def)
  have p: "st_prog (fresh_interp p) = p" for p by (simp add: fresh_interp_def)
  show ?thesis
    using secs_encode_decode_record [OF s _ _ _ _ r, of example_out "''S6F11''" example_station "[]"] l
    by (auto simp: p example_numbers)
qed

text \<open>A text that is closed on a later line takes the name of the file and the number of the line
  with it: the loop over the values of an item does not know the tokens of the lines, which
  the loop over the items skips.\<close>

theorem secs_encode_text_takes_line:
  assumes "reads st (header_tokens s f d wt @ LT # (''A'', TT_IDENTIFIER) # (x, TT_STRING) # ([], TT_END_OF_LINE) #
      (n, TT_LINE_NUMBER) # GT # ([], TT_PERIOD) # rest)"
    "s < 2 ^ 32" "f < 2 ^ 32" "d < 2 ^ 32" "en_body e = []" "length (x @ n) < 2 ^ 24"
  shows "\<exists>e1 st1. secs_encode w e st = Some (Done (e1, st1)) \<and> en_iret e1 = 0 \<and>
    en_body e1 = enc_item (SData ASCII (bytes_of (x @ n)))"
proof -
  let ?f = "\<lambda>s v. Some (False, put_value (bytes_of s) v)"
  let ?tss = "[[(x, TT_STRING)], [([], TT_END_OF_LINE)], [(n, TT_LINE_NUMBER)]]"
  let ?ts = "LT # (''A'', TT_IDENTIFIER) # concat ?tss @ [GT]"
  have v: "list_all2 (one_value False ?f) ?tss [bytes_of x, bytes_of [], bytes_of n]"
    by (simp add: one_value_def value_kind_def)
  have a: "encode_format w ''A'' = Some (encode_item ASCII False ?f)"
    using encode_format_tag(2) [of w x] by (simp add: sml_tag_def encode_ascii_def)
  have m: "\<exists>log1. make_log (enc_item (SData ASCII (bytes_of (x @ n)))) log = Some (0, log1)" for log
  proof -
    have "length (enc_item (SData ASCII (bytes_of (x @ n)))) \<le> 4 + length (x @ n)"
      using length_item_header [OF assms(6), of ASCII] by (simp add: bytes_of_def)
    then show ?thesis
      using make_log_some [of "[SmlA (x @ n)]" log] assms(6) by (simp add: sml_format_def sml_values_def)
  qed
  have "\<exists>e1 st1. secs_encode w e st = Some (Done (e1, st1)) \<and> en_iret e1 = 0 \<and>
    en_stream e1 = of_nat s \<and> en_function e1 = of_nat f \<and> en_device e1 = of_nat d \<and> en_wait e1 = of_bool wt \<and>
    en_body e1 = enc_item (SData ASCII (bytes_of (x @ n))) \<and> reads st1 rest \<and> moved st st1"
  proof (rule secs_encode_from [of st s f d wt ?ts rest LT])
    fix st1 assume "reads st1 (?ts @ ([], TT_PERIOD) # rest)"
    then show "encodes_to w [] st1 (enc_item (SData ASCII (bytes_of (x @ n)))) (([], TT_PERIOD) # rest)"
      using encode_item_source [OF a v, of st1 "([], TT_PERIOD) # rest" "[]"] by (simp add: bytes_of_def)
  qed (use assms m in \<open>simp_all add: LT_def\<close>)
  then show ?thesis by blast
qed

theorem secs_encode_text_takes_line_witness:
  "\<exists>e1 st1. secs_encode example_station example_out
      (fresh_interp (tokens_bytes (header_tokens 6 11 3 True @ [LT, (''A'', TT_IDENTIFIER), (''LOT'', TT_STRING),
         ([], TT_END_OF_LINE), (''a.sc:3'', TT_LINE_NUMBER), GT, ([], TT_PERIOD)]))) = Some (Done (e1, st1)) \<and>
    en_body e1 = enc_item (SData ASCII (bytes_of ''LOTa.sc:3''))"
proof -
  let ?ts = "header_tokens 6 11 3 True @ [LT, (''A'', TT_IDENTIFIER), (''LOT'', TT_STRING),
         ([], TT_END_OF_LINE), (''a.sc:3'', TT_LINE_NUMBER), GT, ([], TT_PERIOD)]"
  have r: "reads (fresh_interp (tokens_bytes ?ts)) ?ts"
    by (rule example_source_reads) (simp add: example_header token_ok_def text_kinds_def LT_def GT_def of_char_def)
  show ?thesis
    using secs_encode_text_takes_line [OF r, of example_out example_station] by auto
qed



end
