(* ===== verification/Spec2Isabelle.thy ===== *)
theory Spec2Isabelle
  imports Buffers Commands Control Control_Flow Dispatch Execute Expression Expression_Value Float_Ops Float_Text Handlers Hsms Link Parse Prelude Program Scan Secs_Decode Secs_Encode Secs_I Secs_Item Secs_Log Secs_Msg Secs_Walk Server Sml Sml_Message Sorted_Table Text_Msg Timers Tmp_Variables Tokens Utility Variables
begin

text \<open>
The station controller \<open>sc\<close> connects semiconductor equipment to a host. It runs programs
  of a small command language; a command opens connections, sends a message and waits for
  the reply, and messages from outside start programs. Messages are SECS-II: a tree of
  lists and typed data, sent either in blocks over a serial line (SECS-I) or in one piece
  over TCP (HSMS). What a message holds becomes variables of the program.

  Which theory models what:

  \<^item> \<open>Prelude\<close>: bytes, characters, C strings, undefined behaviour and the end of the process as
    values.
  \<^item> \<open>Utility\<close>: \<^verbatim>\<open>utility.c\<close> and \<^verbatim>\<open>swap.c\<close>, the conversions between numbers and text and the byte
    order of the wire.
  \<^item> \<open>Buffers\<close>: \<^verbatim>\<open>buffer.c\<close> and \<^verbatim>\<open>binary_buffer.c\<close>, the growing buffers everything else is built
    on. The locale \<open>byte_sink\<close> is what their clients rely on.
  \<^item> \<open>Parse\<close>: \<^verbatim>\<open>parse.c\<close>, the tokeniser of the command language.
  \<^item> \<open>Sorted_Table\<close>: the hash, the comparison, the binary search and the insertion that
    \<^verbatim>\<open>tmp_variables.c\<close> and \<^verbatim>\<open>variables.c\<close> share. The locale \<open>comparator\<close> is what the search needs
    of a comparison.
  \<^item> \<open>Tmp_Variables\<close>: \<^verbatim>\<open>tmp_variables.c\<close>, the variables a message or a call brings with it. The
    locale \<open>arg_store\<close> is what \<open>make_tmp_variables\<close> relies on.
  \<^item> \<open>Variables\<close>: \<^verbatim>\<open>variables.c\<close>, the variables of programs: scopes, references, constants.
  \<^item> \<open>Tokens\<close>: \<^verbatim>\<open>tokens.c\<close>, the kinds of tokens and the evaluation of the variables in a token.
  \<^item> \<open>Scan\<close>, \<open>Float_Ops\<close>: what the C library does for \<^verbatim>\<open>sscanf\<close> and \<^verbatim>\<open>float\<close> arithmetic.
  \<^item> \<open>Program\<close>: \<^verbatim>\<open>program.c\<close> and \<^verbatim>\<open>label.c\<close>, the tokens of a program as bytes and the table of its
    labels; the state of the interpreter.
  \<^item> \<open>Expression\<close>: \<^verbatim>\<open>expression.c\<close>, reading an expression into a queue and working it off.
    \<open>Expression_Value\<close> has the syntax trees and their values.
  \<^item> \<open>Control\<close>, \<open>Commands\<close>, \<open>Execute\<close>: the commands of a program, one file of the source each, and the
    loop \<open>execute\<close> of \<^verbatim>\<open>execute.c\<close>; \<open>Control_Flow\<close> has their properties.
  \<^item> \<open>Secs_Item\<close>: the header of a SECS-II item, written by \<open>STORE_DATA\<close> of \<^verbatim>\<open>secs_encode_sml.c\<close> and
    read by the three readers; the tree of items and its encoding.
  \<^item> \<open>Secs_Walk\<close>: the loop the three readers share, with its arrays \<open>e\<close> and \<open>ie\<close> of counters and a
    current level instead of a recursion. The locale \<open>walker\<close> proves that it computes the
    recursion over the tree.
  \<^item> \<open>Float_Text\<close>, \<open>Secs_Decode\<close>, \<open>Secs_Log\<close>: the readers \<open>secs_decode\<close> (\<^verbatim>\<open>secs_decode_sml.c\<close>),
    \<open>secs_decode_no_arrays\<close> (\<^verbatim>\<open>secs_decode_sml_no_arrays.c\<close>) and \<open>make_log\<close>
    (\<^verbatim>\<open>secs_encode_sml.c\<close>), each an interpretation of \<open>walker\<close>.
  \<^item> \<open>Secs_Encode\<close>: \<open>secs_encode\<close> of \<^verbatim>\<open>secs_encode_sml.c\<close>, the encoder that reads the tokens of a program;
    \<open>Sml\<close> and \<open>Sml_Message\<close>: what such a text means, and that the encoder computes it.
  \<^item> \<open>Timers\<close>: \<^verbatim>\<open>timers.c\<close> and \<^verbatim>\<open>secs.c\<close>, the timers of programs, the primary messages that wait
    for a reply, the checksum of a block.
  \<^item> \<open>Handlers\<close>: \<^verbatim>\<open>handler.c\<close> and \<^verbatim>\<open>proto.c\<close>, the table of connections, their protocols and options; \<open>Server\<close>:
    \<^verbatim>\<open>server.c\<close>, the tables of listeners and clients and a round of the loop over the ready ones.
  \<^item> \<open>Link\<close>: \<^verbatim>\<open>io.c\<close> and \<^verbatim>\<open>proto_timers.c\<close>, a connection as a list of events (bytes, failures,
    timers that run out).
  \<^item> \<open>Secs_I\<close>: the block protocol of \<^verbatim>\<open>recv_secs.c\<close> and \<^verbatim>\<open>send_secs.c\<close>; \<open>Secs_Msg\<close>: their messages of
    many blocks, contention and retries included.
  \<^item> \<open>Hsms\<close>: \<^verbatim>\<open>hsms.c\<close>, \<^verbatim>\<open>recv_hsms.c\<close> and \<^verbatim>\<open>send_hsms.c\<close>, the same messages over TCP, the control
    messages and the select handshake.
  \<^item> \<open>Text_Msg\<close>: \<^verbatim>\<open>convert_data.c\<close>, \<^verbatim>\<open>send_standard.c\<close> and \<^verbatim>\<open>send_xml.c\<close>, messages of plain text and XML.
  \<^item> \<open>Dispatch\<close>: \<^verbatim>\<open>send.c\<close>, the commands that send, and \<open>handler\<close> of \<^verbatim>\<open>handler.c\<close>, which gives a message to its
    receiver and resumes the program: here the connections, the messages and the interpreter meet.

  How to read a definition: a function that can leave the memory it owns, or meet another
  undefined behaviour of C, returns an option, \<open>None\<close> being the undefined case; \<open>Exit\<close> is a call
  of \<open>exit\<close> (also in the macros \<open>FATAL\<close> and \<open>PP_ERROR\<close>); return codes are values. Static tables
  are states that are passed and returned. Memory is a list of initialised or uninitialised
  cells; allocation is a parameter that says which sizes succeed, \<open>plenty\<close> in the
  theorems about what happens when memory suffices. Debugging output is left out.

  What the lemmas show: buffers hold exactly what was appended; number formats are read
  back; tokens are read whole, inside the text and with progress; the variable tables refine
  maps, with the exceptions stated as theorems of their own; item headers are read back; the
  readers of messages are recursions over the tree of items, so a record of fields
  becomes its variables; timers and transactions are found again; a block sent is a block
  received, and a damaged one is refused; a message sent, over either transport, becomes
  the variables of the program at the other end, which is resumed at the label of the connection; tokens of a program are read back, an index
  has the label of its section, an expression gets the value of its syntax tree, and the commands move the index as their blocks say.

  Bounds: nesting below 100 (the size of the arrays of the readers), lengths below \<open>2 ^ 24\<close>
  (three length bytes) and bodies below \<open>2 ^ 32\<close> (the range of the counters). There is no fuel:
  a loop is a function with a termination proof, or, where a program can make it run for ever
  (\<open>evaluate_token\<close>, the two loops of an expression, \<open>IF\<close>, \<open>GOSUB\<close>, \<open>execute\<close>), a function on options whose
  value \<open>None\<close> is also the run that does not end; the theorems about these say what is returned.

  Not modelled: the preprocessor \<open>read_it\<close> that turns the text of a program into tokens, the
  commands that open connections, and the text commands of a client (the parameter \<open>commands\<close> of
  \<open>handler\<close>). The senders are parameters of \<open>cmd_send\<close>, since each works on a state of its own; sockets, serial
  ports and the call of \<open>select\<close> belong to the operating system and come in as events and ready
  descriptors; logging is left out.
\<close>

end
